(* ===== verification/SetaPrelude.thy ===== *)
theory SetaPrelude
  imports Main "HOL-Library.Char_ord" "HOL-Library.List_Lexorder" "HOL-Library.Product_Lexorder"
    "HOL-Library.Multiset"
begin

text \<open>
  What every component shares: Go's byte strings and the functions of the packages strings,
  strconv, cmp and slices the program calls, results as sums, and the facts about them.
  A Go string is a \<^typ>\<open>string\<close>, a list of bytes. The case and space functions act on
  ASCII bytes and leave the bytes from 128 on unchanged, which is what Go does on ASCII text.
\<close>

named_theorems go_simps

subsection \<open>Bytes and characters\<close>

definition byte :: "char \<Rightarrow> nat" where
  "byte c = of_char c"

lemma byte_inj [simp]: "byte c = byte d \<longleftrightarrow> c = d"
  by (simp add: byte_def)

lemma byte_less_iff: "byte c < byte d \<longleftrightarrow> c < d"
  by (simp add: byte_def less_char_def)

definition is_digit :: "char \<Rightarrow> bool" where
  "is_digit c \<longleftrightarrow> 48 \<le> byte c \<and> byte c \<le> 57"

definition is_lower :: "char \<Rightarrow> bool" where
  "is_lower c \<longleftrightarrow> 97 \<le> byte c \<and> byte c \<le> 122"

definition is_upper :: "char \<Rightarrow> bool" where
  "is_upper c \<longleftrightarrow> 65 \<le> byte c \<and> byte c \<le> 90"

definition is_space :: "char \<Rightarrow> bool" where
  "is_space c \<longleftrightarrow> byte c = 32 \<or> (9 \<le> byte c \<and> byte c \<le> 13)"

definition lower_char :: "char \<Rightarrow> char" where
  "lower_char c = (if is_upper c then char_of (byte c + 32) else c)"

definition upper_char :: "char \<Rightarrow> char" where
  "upper_char c = (if is_lower c then char_of (byte c - 32) else c)"

definition to_lower :: "string \<Rightarrow> string" where
  "to_lower s = map lower_char s"

definition to_upper :: "string \<Rightarrow> string" where
  "to_upper s = map upper_char s"

definition equal_fold :: "string \<Rightarrow> string \<Rightarrow> bool" where
  "equal_fold a b \<longleftrightarrow> to_lower a = to_lower b"

lemma byte_char_of [simp]: "n < 256 \<Longrightarrow> byte (char_of n) = n"
  by (simp add: byte_def)

lemma not_upper_lower_char [simp]: "\<not> is_upper (lower_char c)"
  by (auto simp: lower_char_def is_upper_def)

lemma lower_char_idem [simp]: "lower_char (lower_char c) = lower_char c"
  using not_upper_lower_char [of c] by (simp add: lower_char_def [of "lower_char c"])

lemma to_lower_idem [simp]: "to_lower (to_lower s) = to_lower s"
  by (simp add: to_lower_def)

lemma to_lower_append [simp]: "to_lower (s @ t) = to_lower s @ to_lower t"
  by (simp add: to_lower_def)

lemma length_to_lower [simp]: "length (to_lower s) = length s"
  by (simp add: to_lower_def)

lemma to_lower_Nil [simp]: "to_lower [] = []"
  by (simp add: to_lower_def)

lemma to_lower_eq_Nil [simp]: "to_lower s = [] \<longleftrightarrow> s = []"
  by (simp add: to_lower_def)

lemma lower_char_id: "\<not> is_upper c \<Longrightarrow> lower_char c = c"
  by (simp add: lower_char_def)

lemma to_lower_id: "(\<forall>c\<in>set s. \<not> is_upper c) \<Longrightarrow> to_lower s = s"
  by (simp add: to_lower_def lower_char_id map_idI)

subsection \<open>strings\<close>

definition has_prefix :: "string \<Rightarrow> string \<Rightarrow> bool" where
  "has_prefix s p \<longleftrightarrow> take (length p) s = p"

definition has_suffix :: "string \<Rightarrow> string \<Rightarrow> bool" where
  "has_suffix s p \<longleftrightarrow> has_prefix (rev s) (rev p)"

definition trim_prefix :: "string \<Rightarrow> string \<Rightarrow> string" where
  "trim_prefix s p = (if has_prefix s p then drop (length p) s else s)"

definition trim_suffix :: "string \<Rightarrow> string \<Rightarrow> string" where
  "trim_suffix s p = (if has_suffix s p then take (length s - length p) s else s)"

definition cut_prefix :: "string \<Rightarrow> string \<Rightarrow> string option" where
  "cut_prefix s p = (if has_prefix s p then Some (drop (length p) s) else None)"

definition trim_left_by :: "(char \<Rightarrow> bool) \<Rightarrow> string \<Rightarrow> string" where
  "trim_left_by p s = dropWhile p s"

definition trim_right_by :: "(char \<Rightarrow> bool) \<Rightarrow> string \<Rightarrow> string" where
  "trim_right_by p s = rev (dropWhile p (rev s))"

definition trim_space :: "string \<Rightarrow> string" where
  "trim_space s = trim_right_by is_space (trim_left_by is_space s)"

text \<open>\<open>strings.Split\<close> on a one-byte separator; the result is never empty.\<close>

fun split_on :: "char \<Rightarrow> string \<Rightarrow> string list" where
  "split_on sep [] = [[]]"
| "split_on sep (c # cs) =
     (if c = sep then [] # split_on sep cs
      else case split_on sep cs of [] \<Rightarrow> [[c]] | w # ws \<Rightarrow> (c # w) # ws)"

text \<open>\<open>strings.Cut\<close> on a one-byte separator: the text before it, the text after it, found.\<close>

fun cut :: "char \<Rightarrow> string \<Rightarrow> string \<times> string \<times> bool" where
  "cut sep [] = ([], [], False)"
| "cut sep (c # cs) =
     (if c = sep then ([], cs, True)
      else case cut sep cs of (a, b, ok) \<Rightarrow> (c # a, b, ok))"

text \<open>\<open>strings.Fields\<close>: the maximal runs of bytes that are not white space.\<close>

fun fields_acc :: "string \<Rightarrow> string \<Rightarrow> string list" where
  "fields_acc acc [] = (if acc = [] then [] else [rev acc])"
| "fields_acc acc (c # cs) =
     (if is_space c then (if acc = [] then fields_acc [] cs else rev acc # fields_acc [] cs)
      else fields_acc (c # acc) cs)"

definition fields :: "string \<Rightarrow> string list" where
  "fields s = fields_acc [] s"

fun join :: "string \<Rightarrow> string list \<Rightarrow> string" where
  "join sep [] = []"
| "join sep [w] = w"
| "join sep (w # ws) = w @ sep @ join sep ws"

fun index_where :: "(char \<Rightarrow> bool) \<Rightarrow> string \<Rightarrow> nat option" where
  "index_where p [] = None"
| "index_where p (c # cs) = (if p c then Some 0 else map_option Suc (index_where p cs))"

definition index_byte :: "char \<Rightarrow> string \<Rightarrow> nat option" where
  "index_byte c s = index_where (\<lambda>d. d = c) s"

definition last_index_byte :: "char \<Rightarrow> string \<Rightarrow> nat option" where
  "last_index_byte c s = map_option (\<lambda>i. length s - 1 - i) (index_byte c (rev s))"

fun contains_sub :: "string \<Rightarrow> string \<Rightarrow> bool" where
  "contains_sub [] p = (p = [])"
| "contains_sub (c # cs) p = (has_prefix (c # cs) p \<or> contains_sub cs p)"

fun index_sub :: "string \<Rightarrow> string \<Rightarrow> nat option" where
  "index_sub [] p = (if p = [] then Some 0 else None)"
| "index_sub (c # cs) p =
     (if has_prefix (c # cs) p then Some 0 else map_option Suc (index_sub cs p))"

text \<open>\<open>strings.ReplaceAll\<close> for a non-empty old string.\<close>

fun replace_all_acc :: "nat \<Rightarrow> string \<Rightarrow> string \<Rightarrow> string \<Rightarrow> string" where
  "replace_all_acc k [] old new = []"
| "replace_all_acc k (c # cs) old new =
     (if 0 < k then replace_all_acc (k - 1) cs old new
      else if has_prefix (c # cs) old then new @ replace_all_acc (length old - 1) cs old new
      else c # replace_all_acc 0 cs old new)"

definition replace_all :: "string \<Rightarrow> string \<Rightarrow> string \<Rightarrow> string" where
  "replace_all s old new = replace_all_acc 0 s old new"

subsection \<open>strconv\<close>

fun nat_digits :: "nat \<Rightarrow> string" where
  "nat_digits n =
     (if n < 10 then [char_of (48 + n)] else nat_digits (n div 10) @ [char_of (48 + n mod 10)])"

declare nat_digits.simps [simp del]

text \<open>What evaluates characters and decimal text in a closed term.\<close>

lemmas go_eval = nat_digits.simps char_of_def byte_def bit_0

definition itoa :: "int \<Rightarrow> string" where
  "itoa i = (if i < 0 then ''-'' @ nat_digits (nat (- i)) else nat_digits (nat i))"

definition digits_value :: "string \<Rightarrow> nat" where
  "digits_value s = foldl (\<lambda>n c. 10 * n + (byte c - 48)) 0 s"

text \<open>\<open>strconv.ParseUint(s, 10, bits)\<close>.\<close>

definition parse_uint :: "nat \<Rightarrow> string \<Rightarrow> nat option" where
  "parse_uint bits s =
     (if s \<noteq> [] \<and> list_all is_digit s \<and> digits_value s < 2 ^ bits then Some (digits_value s) else None)"

text \<open>\<open>strconv.Atoi\<close> with a 64-bit int: an optional sign, then digits, in range.\<close>

definition atoi :: "string \<Rightarrow> int option" where
  "atoi s =
     (let neg = has_prefix s ''-'';
          d = (if neg \<or> has_prefix s ''+'' then tl s else s);
          n = int (digits_value d);
          v = (if neg then - n else n)
      in if d \<noteq> [] \<and> list_all is_digit d \<and> - (2 ^ 63) \<le> v \<and> v < 2 ^ 63 then Some v else None)"

definition hex_digit :: "nat \<Rightarrow> char" where
  "hex_digit n = (if n < 10 then char_of (48 + n) else char_of (87 + n))"

text \<open>\<open>strconv.Quote\<close>, the verb \<open>%q\<close>, for ASCII text.\<close>

definition quote_char :: "char \<Rightarrow> string" where
  "quote_char c =
     (let b = byte c in
      if b = 34 then [char_of (92::nat), CHR 0x22]
      else if b = 92 then [char_of (92::nat), char_of (92::nat)]
      else if b = 7 then [char_of (92::nat), CHR ''a'']
      else if b = 8 then [char_of (92::nat), CHR ''b'']
      else if b = 9 then [char_of (92::nat), CHR ''t'']
      else if b = 10 then [char_of (92::nat), CHR ''n'']
      else if b = 11 then [char_of (92::nat), CHR ''v'']
      else if b = 12 then [char_of (92::nat), CHR ''f'']
      else if b = 13 then [char_of (92::nat), CHR ''r'']
      else if b < 32 \<or> 127 \<le> b
        then [char_of (92::nat), CHR ''x'', hex_digit (b div 16), hex_digit (b mod 16)]
      else [c])"

definition go_quote :: "string \<Rightarrow> string" where
  "go_quote s = [CHR 0x22] @ concat (map quote_char s) @ [CHR 0x22]"

subsection \<open>Results\<close>

definition is_err :: "'e + 'a \<Rightarrow> bool" where
  "is_err r = (case r of Inl _ \<Rightarrow> True | Inr _ \<Rightarrow> False)"

lemma is_err_simps [simp]: "is_err (Inl e)" "\<not> is_err (Inr x)"
  by (simp_all add: is_err_def)

text \<open>A loop that stops at its first error and otherwise collects the results in order.\<close>

lemma map_sum_Inl_iff: "map_sum id f x = Inl e \<longleftrightarrow> x = Inl e"
  and map_sum_Inr_iff: "map_sum id f x = Inr y \<longleftrightarrow> (\<exists>z. x = Inr z \<and> y = f z)"
  by (cases x; auto)+

fun try_map :: "('a \<Rightarrow> 'e + 'b) \<Rightarrow> 'a list \<Rightarrow> 'e + 'b list" where
  "try_map f [] = Inr []"
| "try_map f (x # xs) =
     (case f x of Inl e \<Rightarrow> Inl e
      | Inr y \<Rightarrow> (case try_map f xs of Inl e \<Rightarrow> Inl e | Inr ys \<Rightarrow> Inr (y # ys)))"

lemma try_map_Inr:
  "try_map f xs = Inr ys \<longleftrightarrow> list_all2 (\<lambda>x y. f x = Inr y) xs ys"
proof (induction xs arbitrary: ys)
  case Nil
  then show ?case by auto
next
  case (Cons x xs)
  then show ?case
    by (cases ys) (auto split: sum.splits simp flip: Cons.IH)
qed

lemma try_map_Inl:
  "try_map f xs = Inl e \<Longrightarrow> \<exists>x\<in>set xs. f x = Inl e"
  by (induction xs) (auto split: sum.splits)

subsection \<open>Facts about the string functions\<close>

lemma has_prefix_append [simp]: "has_prefix (p @ s) p"
  by (simp add: has_prefix_def)

lemma has_prefix_Nil [simp]: "has_prefix s []"
  by (simp add: has_prefix_def)

lemma has_prefix_iff: "has_prefix s p \<longleftrightarrow> (\<exists>t. s = p @ t)"
  unfolding has_prefix_def by (metis append_eq_conv_conj append_take_drop_id)

lemma has_suffix_iff: "has_suffix s p \<longleftrightarrow> (\<exists>t. s = t @ p)"
  unfolding has_suffix_def has_prefix_iff by (metis rev_append rev_rev_ident)

lemma trim_suffix_append [simp]: "trim_suffix (s @ p) p = s"
  by (simp add: trim_suffix_def has_suffix_iff)

lemma trim_suffix_id: "\<not> has_suffix s p \<Longrightarrow> trim_suffix s p = s"
  by (simp add: trim_suffix_def)

lemma cut_prefix_Some: "cut_prefix s p = Some t \<longleftrightarrow> s = p @ t"
  by (auto simp: cut_prefix_def has_prefix_iff)

lemma split_on_not_Nil [simp]: "split_on sep s \<noteq> []"
  by (induction s) (auto split: list.splits)

lemma split_on_no_sep: "w \<in> set (split_on sep s) \<Longrightarrow> sep \<notin> set w"
  by (induction s arbitrary: w) (auto split: list.splits if_splits)

lemma join_Cons: "ws \<noteq> [] \<Longrightarrow> join sep (w # ws) = w @ sep @ join sep ws"
  by (cases ws) auto

lemma join_split_on [simp]: "join [sep] (split_on sep s) = s"
proof (induction s)
  case Nil
  show ?case by simp
next
  case (Cons c s)
  obtain w ws where ws: "split_on sep s = w # ws"
    by (cases "split_on sep s") auto
  show ?case
  proof (cases "c = sep")
    case True
    then show ?thesis using Cons by (simp add: join_Cons)
  next
    case False
    then show ?thesis using Cons ws by (cases ws) auto
  qed
qed

lemma split_on_single: "sep \<notin> set s \<Longrightarrow> split_on sep s = [s]"
  by (induction s) auto

lemma set_split_on: "w \<in> set (split_on sep s) \<Longrightarrow> c \<in> set w \<Longrightarrow> c \<in> set s"
proof (induction s arbitrary: w)
  case (Cons d s)
  obtain v vs where "split_on sep s = v # vs"
    by (cases "split_on sep s") auto
  then show ?case
    using Cons.prems Cons.IH [of v] Cons.IH [of w] by (auto split: if_splits)
qed simp

lemma split_on_append_sep: "sep \<notin> set a \<Longrightarrow> split_on sep (a @ sep # s) = a # split_on sep s"
  by (induction a) auto

lemma split_on_join:
  "ws \<noteq> [] \<Longrightarrow> \<forall>w\<in>set ws. sep \<notin> set w \<Longrightarrow> split_on sep (join [sep] ws) = ws"
proof (induction ws)
  case (Cons w ws)
  then show ?case
    by (cases "ws = []") (auto simp: split_on_single join_Cons split_on_append_sep)
qed simp

lemma cut_append: "sep \<notin> set a \<Longrightarrow> cut sep (a @ sep # b) = (a, b, True)"
  by (induction a) auto

lemma cut_none: "sep \<notin> set s \<Longrightarrow> cut sep s = (s, [], False)"
  by (induction s) auto

lemma cut_True: "cut sep s = (a, b, True) \<Longrightarrow> s = a @ sep # b \<and> sep \<notin> set a"
  by (induction s arbitrary: a) (auto split: if_splits prod.splits)

lemma cut_False: "cut sep s = (a, b, False) \<Longrightarrow> sep \<notin> set s \<and> a = s \<and> b = []"
  by (induction s arbitrary: a) (auto split: if_splits prod.splits)

lemma cut_fst_split_on: "fst (cut sep s) = hd (split_on sep s)"
  by (induction s) (auto split: prod.splits list.splits)

lemma dropWhile_id: "(\<forall>c\<in>set s. \<not> p c) \<Longrightarrow> dropWhile p s = s"
  by (induction s) auto

lemma trim_space_id: "(\<forall>c\<in>set s. \<not> is_space c) \<Longrightarrow> trim_space s = s"
  by (simp add: trim_space_def trim_left_by_def trim_right_by_def dropWhile_id)

lemma set_trim_space: "set (trim_space s) \<subseteq> set s"
  unfolding trim_space_def trim_left_by_def trim_right_by_def
  by (metis dual_order.trans set_dropWhileD set_rev subsetI)

lemma index_where_None: "index_where p s = None \<longleftrightarrow> (\<forall>c\<in>set s. \<not> p c)"
  by (induction s) auto

lemma index_where_Some:
  "index_where p s = Some i \<Longrightarrow> i < length s \<and> p (s ! i) \<and> (\<forall>j<i. \<not> p (s ! j))"
proof (induction s arbitrary: i)
  case (Cons c s)
  then show ?case
    by (auto split: if_splits simp: nth_Cons split: nat.splits)
qed simp

lemma index_where_append:
  "(\<forall>c\<in>set a. \<not> p c) \<Longrightarrow> p d \<Longrightarrow> index_where p (a @ d # b) = Some (length a)"
  by (induction a) auto

lemma index_byte_append: "c \<notin> set a \<Longrightarrow> index_byte c (a @ c # b) = Some (length a)"
  unfolding index_byte_def by (rule index_where_append) auto

lemma index_byte_None: "index_byte c s = None \<longleftrightarrow> c \<notin> set s"
  by (auto simp: index_byte_def index_where_None)

lemma last_index_byte_append: "c \<notin> set b \<Longrightarrow> last_index_byte c (a @ c # b) = Some (length a)"
  using index_byte_append [of c "rev b" "rev a"] by (simp add: last_index_byte_def)

lemma last_index_byte_None: "last_index_byte c s = None \<longleftrightarrow> c \<notin> set s"
  by (simp add: last_index_byte_def index_byte_None)

subsection \<open>Facts about numbers as text\<close>

lemma is_digit_char_of [simp]: "(n::nat) < 10 \<Longrightarrow> is_digit (char_of (48 + n))"
  by (simp add: is_digit_def)

lemma digits_value_snoc: "digits_value (s @ [c]) = 10 * digits_value s + (byte c - 48)"
  by (simp add: digits_value_def)

lemma digits_value_nat_digits [simp]: "digits_value (nat_digits n) = n"
proof (induction n rule: nat_digits.induct)
  case (1 n)
  show ?case
  proof (cases "n < 10")
    case True
    then show ?thesis
      by (simp add: nat_digits.simps [of n] digits_value_def)
  next
    case False
    then show ?thesis
      using 1 by (simp add: nat_digits.simps [of n] digits_value_snoc)
  qed
qed

lemma nat_digits_digits: "c \<in> set (nat_digits n) \<Longrightarrow> is_digit c"
proof (induction n arbitrary: c rule: nat_digits.induct)
  case (1 n)
  then show ?case
    by (cases "n < 10") (auto simp: nat_digits.simps [of n])
qed

lemma nat_digits_not_Nil [simp]: "nat_digits n \<noteq> []"
  by (simp add: nat_digits.simps [of n])

lemma nat_digits_inj [simp]: "nat_digits m = nat_digits n \<longleftrightarrow> m = n"
  by (metis digits_value_nat_digits)

lemma nat_digits_all_digits [simp]: "list_all is_digit (nat_digits n)"
  by (simp add: list_all_iff nat_digits_digits)

lemma atoi_nat_digits: "n < 2 ^ 63 \<Longrightarrow> atoi (nat_digits n) = Some (int n)"
proof -
  assume n: "n < 2 ^ 63"
  obtain c cs where s: "nat_digits n = c # cs"
    by (cases "nat_digits n") auto
  then have "is_digit c"
    using nat_digits_digits [of c n] by simp
  then have "c \<noteq> CHR ''-''" "c \<noteq> CHR ''+''"
    by (auto simp: is_digit_def byte_def)
  then have "\<not> has_prefix (nat_digits n) ''-''" "\<not> has_prefix (nat_digits n) ''+''"
    by (simp_all add: has_prefix_def s)
  moreover have "int n < 2 ^ 63"
    using n by (metis of_nat_less_iff of_nat_numeral of_nat_power)
  ultimately show ?thesis
    by (simp add: atoi_def Let_def)
qed

lemma atoi_itoa: "0 \<le> i \<Longrightarrow> i < 2 ^ 63 \<Longrightarrow> atoi (itoa i) = Some i"
  using atoi_nat_digits [of "nat i"] by (simp add: itoa_def nat_less_iff)

subsection \<open>Substrings\<close>

lemma contains_sub_iff: "contains_sub s p \<longleftrightarrow> (\<exists>a b. s = a @ p @ b)"
proof (induction s)
  case (Cons c s)
  note IH = Cons.IH
  show ?case
  proof
    assume "contains_sub (c # s) p"
    then consider t where "c # s = p @ t" | a b where "s = a @ p @ b"
      using Cons by (auto simp: has_prefix_iff)
    then show "\<exists>a b. c # s = a @ p @ b"
    proof cases
      case 1
      then have "c # s = [] @ p @ t" by simp
      then show ?thesis by blast
    next
      case 2
      then show ?thesis by (intro exI [of _ "c # a"] exI [of _ b]) simp
    qed
  next
    assume "\<exists>a b. c # s = a @ p @ b"
    then obtain a b where "c # s = a @ p @ b" by blast
    then show "contains_sub (c # s) p"
    proof (cases a)
      case Nil
      then have "has_prefix (c # s) p" using \<open>c # s = a @ p @ b\<close> unfolding has_prefix_iff by auto
      then show ?thesis by simp
    next
      case (Cons d a')
      then have "\<exists>a b. s = a @ p @ b" using \<open>c # s = a @ p @ b\<close> by auto
      then show ?thesis using IH by simp
    qed
  qed
qed auto

lemma contains_sub_append: "contains_sub s p \<Longrightarrow> contains_sub (a @ s @ b) p"
  unfolding contains_sub_iff by (metis append.assoc)

lemma contains_sub_sep:
  assumes "d \<notin> set p" "p \<noteq> []" "contains_sub (a @ d # b) p"
  shows "contains_sub a p \<or> contains_sub b p"
proof -
  obtain x y where e: "a @ d # b = x @ p @ y" using assms(3) by (auto simp: contains_sub_iff)
  show ?thesis
  proof (cases "length x + length p \<le> length a")
    case True
    then have "a = x @ p @ take (length a - length x - length p) y"
      using arg_cong [OF e, of "take (length a)"] by (simp add: min_def)
    then show ?thesis unfolding contains_sub_iff by metis
  next
    case False
    show ?thesis
    proof (cases "length a < length x")
      case True
      then have "b = drop (Suc (length a)) x @ p @ y"
        using arg_cong [OF e, of "drop (Suc (length a))"] by simp
      then show ?thesis unfolding contains_sub_iff by metis
    next
      case le: False
      have "(a @ d # b) ! length a = d" by simp
      moreover have "(x @ p @ y) ! length a = p ! (length a - length x)"
      proof -
        have "length a - length x < length p" using le False by linarith
        then show ?thesis using le by (simp add: nth_append)
      qed
      ultimately have "d \<in> set p" using e le False by (metis add_diff_inverse_nat add_less_cancel_left not_less nth_mem)
      then show ?thesis using assms(1) by simp
    qed
  qed
qed

end
