(* ===== verification/SetaOrder.thy ===== *)
theory SetaOrder
  imports SetaPrelude
begin

text \<open>
  Comparison functions in the style of Go's cmp package and \<open>slices.SortFunc\<close>. A comparator
  returns a negative, zero or positive number. \<open>slices.SortFunc\<close> promises a sorted
  permutation and says nothing on the order of equal elements; the locale \<open>sorter\<close> states that
  contract, and what follows for every implementation of it when the comparator separates the
  elements. The model's \<open>sort_func\<close> is one implementation.
\<close>

subsection \<open>Comparators\<close>

fun str_compare :: "string \<Rightarrow> string \<Rightarrow> int" where
  "str_compare [] [] = 0"
| "str_compare [] (d # ds) = -1"
| "str_compare (c # cs) [] = 1"
| "str_compare (c # cs) (d # ds) =
     (if c = d then str_compare cs ds else if byte c < byte d then -1 else 1)"

definition int_compare :: "int \<Rightarrow> int \<Rightarrow> int" where
  "int_compare a b = (if a < b then -1 else if a = b then 0 else 1)"

text \<open>\<open>cmp.Or\<close>: the first number that is not zero, and zero when there is none.\<close>

fun cmp_or :: "int list \<Rightarrow> int" where
  "cmp_or [] = 0"
| "cmp_or (k # ks) = (if k \<noteq> 0 then k else cmp_or ks)"

text \<open>
  A comparator realises a key when it is the comparison of the keys in their linear order:
  negative, zero and positive exactly where the keys are smaller, equal and greater.
\<close>

definition compares_by :: "('a \<Rightarrow> 'a \<Rightarrow> int) \<Rightarrow> ('a \<Rightarrow> 'k::linorder) \<Rightarrow> bool" where
  "compares_by cmp key \<longleftrightarrow>
     (\<forall>a b. (cmp a b < 0 \<longleftrightarrow> key a < key b) \<and> (cmp a b = 0 \<longleftrightarrow> key a = key b))"

lemma compares_byI:
  "(\<And>a b. cmp a b < 0 \<longleftrightarrow> key a < key b) \<Longrightarrow> (\<And>a b. cmp a b = 0 \<longleftrightarrow> key a = key b) \<Longrightarrow>
   compares_by cmp key"
  by (simp add: compares_by_def)

lemma compares_by_less: "compares_by cmp key \<Longrightarrow> cmp a b < 0 \<longleftrightarrow> key a < key b"
  and compares_by_zero: "compares_by cmp key \<Longrightarrow> cmp a b = 0 \<longleftrightarrow> key a = key b"
  by (simp_all add: compares_by_def)

lemma compares_by_le: "compares_by cmp key \<Longrightarrow> cmp a b \<le> 0 \<longleftrightarrow> key a \<le> key b"
  by (auto simp: compares_by_def order_le_less)

lemma compares_by_cong:
  "compares_by cmp key \<Longrightarrow> compares_by (\<lambda>a b. cmp (f a) (f b)) (\<lambda>a. key (f a))"
  by (simp add: compares_by_def)

lemma str_compare_zero [simp]: "str_compare a b = 0 \<longleftrightarrow> a = b"
  by (induction a b rule: str_compare.induct) auto

lemma str_compare_neg: "str_compare a b < 0 \<longleftrightarrow> a < b"
  by (induction a b rule: str_compare.induct) (auto simp: byte_less_iff)

lemma str_compare_by [go_simps]: "compares_by str_compare (\<lambda>s. s)"
  by (rule compares_byI) (simp_all add: str_compare_neg)

lemma int_compare_by [go_simps]: "compares_by int_compare (\<lambda>i. i)"
  by (rule compares_byI) (auto simp: int_compare_def)

text \<open>\<open>cmp.Or\<close> of two comparators is the lexicographic comparison of the pair of keys.\<close>

lemma compares_by_cmp_or2:
  assumes "compares_by c1 k1" and "compares_by c2 k2"
  shows "compares_by (\<lambda>a b. cmp_or [c1 a b, c2 a b]) (\<lambda>a. (k1 a, k2 a))"
  using assms
  by (intro compares_byI) (auto simp: compares_by_def less_prod_def order_less_le)

lemma cmp_or_nest2: "cmp_or [i, cmp_or [j, k]] = cmp_or [i, j, k]"
  and cmp_or_nest3: "cmp_or [i, cmp_or [j, k, l]] = cmp_or [i, j, k, l]"
  by simp_all

lemma compares_by_cmp_or3:
  assumes "compares_by c1 k1" and "compares_by c2 k2" and "compares_by c3 k3"
  shows "compares_by (\<lambda>a b. cmp_or [c1 a b, c2 a b, c3 a b]) (\<lambda>a. (k1 a, k2 a, k3 a))"
  using compares_by_cmp_or2 [OF assms(1) compares_by_cmp_or2 [OF assms(2,3)]]
  by (simp only: cmp_or_nest2)

lemma compares_by_cmp_or4:
  assumes "compares_by c1 k1" and "compares_by c2 k2" and "compares_by c3 k3"
    and "compares_by c4 k4"
  shows "compares_by (\<lambda>a b. cmp_or [c1 a b, c2 a b, c3 a b, c4 a b])
    (\<lambda>a. (k1 a, k2 a, k3 a, k4 a))"
  using compares_by_cmp_or2 [OF assms(1) compares_by_cmp_or3 [OF assms(2-4)]]
  by (simp only: cmp_or_nest3)

subsection \<open>Sorting with a comparator\<close>

fun insert_func :: "('a \<Rightarrow> 'a \<Rightarrow> int) \<Rightarrow> 'a \<Rightarrow> 'a list \<Rightarrow> 'a list" where
  "insert_func cmp x [] = [x]"
| "insert_func cmp x (y # ys) =
     (if cmp x y \<le> 0 then x # y # ys else y # insert_func cmp x ys)"

fun sort_func :: "('a \<Rightarrow> 'a \<Rightarrow> int) \<Rightarrow> 'a list \<Rightarrow> 'a list" where
  "sort_func cmp [] = []"
| "sort_func cmp (x # xs) = insert_func cmp x (sort_func cmp xs)"

definition sorted_func :: "('a \<Rightarrow> 'a \<Rightarrow> int) \<Rightarrow> 'a list \<Rightarrow> bool" where
  "sorted_func cmp xs \<longleftrightarrow> sorted_wrt (\<lambda>a b. cmp a b \<le> 0) xs"

lemma mset_insert_func [simp]: "mset (insert_func cmp x xs) = add_mset x (mset xs)"
  by (induction xs) auto

lemma mset_sort_func [simp]: "mset (sort_func cmp xs) = mset xs"
  by (induction xs) auto

lemma set_sort_func [simp]: "set (sort_func cmp xs) = set xs"
  by (metis mset_sort_func set_mset_mset)

lemma length_sort_func [simp]: "length (sort_func cmp xs) = length xs"
  by (metis mset_sort_func size_mset)

lemma distinct_sort_func [simp]: "distinct (sort_func cmp xs) = distinct xs"
  by (metis mset_sort_func mset_eq_imp_distinct_iff)

lemma insert_func_key:
  "compares_by cmp key \<Longrightarrow> insert_func cmp x ys = insort_key key x ys"
  by (induction ys) (auto simp: compares_by_le)

lemma sort_func_key: "compares_by cmp key \<Longrightarrow> sort_func cmp xs = sort_key key xs"
  by (induction xs) (simp_all add: insert_func_key)

lemma sorted_func_key:
  "compares_by cmp key \<Longrightarrow> sorted_func cmp xs \<longleftrightarrow> sorted (map key xs)"
  by (simp add: sorted_func_def compares_by_le sorted_map)

lemma sorted_func_sort_func: "compares_by cmp key \<Longrightarrow> sorted_func cmp (sort_func cmp xs)"
  by (simp add: sorted_func_key sort_func_key)

text \<open>A sorted list with distinct keys is determined by its elements.\<close>

lemma sorted_func_unique:
  assumes cmp: "compares_by cmp key" and "sorted_func cmp xs" and "sorted_func cmp ys"
    and "mset xs = mset ys" and inj: "inj_on key (set xs)"
  shows "xs = ys"
proof -
  have xs: "sorted (map key xs)" and ys: "sorted (map key ys)"
    using assms(2,3) by (simp_all add: sorted_func_key [OF cmp])
  have m: "mset (map key xs) = mset (map key ys)"
    using assms(4) by simp
  have keys: "map key xs = map key ys"
    using properties_for_sort [OF m xs] properties_for_sort [OF refl ys] by simp
  have "set ys = set xs"
    using assms(4) by (metis set_mset_mset)
  then have "inj_on key (set xs \<union> set ys)"
    using inj by simp
  then show ?thesis by (rule map_inj_on [OF keys])
qed

locale sorter =
  fixes srt :: "('a \<Rightarrow> 'a \<Rightarrow> int) \<Rightarrow> 'a list \<Rightarrow> 'a list"
    and cmp :: "'a \<Rightarrow> 'a \<Rightarrow> int"
    and key :: "'a \<Rightarrow> 'k::linorder"
  assumes by_key: "compares_by cmp key"
    and perm: "mset (srt cmp xs) = mset xs"
    and ordered: "sorted_func cmp (srt cmp xs)"
begin

lemma same_elements:
  assumes "mset xs = mset ys" and "inj_on key (set xs)"
  shows "srt cmp xs = srt cmp ys"
proof (rule sorted_func_unique [OF by_key ordered ordered])
  show "mset (srt cmp xs) = mset (srt cmp ys)"
    using assms(1) by (simp add: perm)
  have "set (srt cmp xs) = set xs"
    using perm by (metis set_mset_mset)
  then show "inj_on key (set (srt cmp xs))"
    using assms(2) by simp
qed

lemma agrees_with_model:
  assumes "inj_on key (set xs)"
  shows "srt cmp xs = sort_func cmp xs"
proof (rule sorted_func_unique [OF by_key ordered sorted_func_sort_func [OF by_key]])
  show "mset (srt cmp xs) = mset (sort_func cmp xs)"
    by (simp add: perm)
  have "set (srt cmp xs) = set xs"
    using perm by (metis set_mset_mset)
  then show "inj_on key (set (srt cmp xs))"
    using assms by simp
qed

end

interpretation str_sort: sorter sort_func str_compare "\<lambda>s. s"
  by unfold_locales (simp_all add: str_compare_by sorted_func_sort_func [OF str_compare_by])

text \<open>\<open>slices.Sorted(maps.Keys(m))\<close>.\<close>

definition sorted_keys :: "(string \<rightharpoonup> 'v) \<Rightarrow> string list" where
  "sorted_keys m = sorted_list_of_set (dom m)"

text \<open>slices.Sort followed by slices.Compact, on strings.\<close>

definition sorted_unique :: "string list \<Rightarrow> string list" where
  "sorted_unique xs = remdups_adj (sort_func str_compare xs)"

lemma set_sorted_unique [simp]: "set (sorted_unique xs) = set xs"
proof -
  have "set (sort_func str_compare xs) = set xs" using mset_sort_func by (metis set_mset_mset)
  then show ?thesis by (simp add: sorted_unique_def)
qed

lemma distinct_sorted_unique: "distinct (sorted_unique xs)"
proof -
  have "sorted (sort_func str_compare xs)"
    using sorted_func_sort_func [OF str_compare_by, of xs]
    by (simp add: sorted_func_def compares_by_le [OF str_compare_by])
  then have "sorted (remdups_adj (sort_func str_compare xs))" by (rule sorted_remdups_adj)
  moreover have "distinct (remdups_adj ys)" if "sorted ys" for ys :: "string list"
    using that by (induction ys rule: remdups_adj.induct) (auto simp: less_le)
  ultimately show ?thesis
    using \<open>sorted (sort_func str_compare xs)\<close> by (simp add: sorted_unique_def)
qed

end
