(* ===== verification/SetaCore.thy ===== *)
theory SetaCore
  imports SetaOrder
begin

text \<open>
  Package internal/core: severities, check metadata, findings and their fingerprints, targets
  and hosts. A Go int that names an enumeration stays an integer, because the code handles
  values outside the enumeration. Errors are values of an error datatype, one constructor per
  message of the source, carrying what the message quotes.
  Parameters: \<open>idna\<close>, the ASCII form golang.org/x/net/idna gives to a name that is not
  ASCII (None when it fails), and \<open>sha\<close>, the SHA-256 digest.
\<close>

subsection \<open>severity.go\<close>

type_synonym severity = int

definition SeverityUnset :: severity where "SeverityUnset = 0"

definition SeverityInfo :: severity where "SeverityInfo = 1"

definition SeverityLow :: severity where "SeverityLow = 2"

definition SeverityMedium :: severity where "SeverityMedium = 3"

definition SeverityHigh :: severity where "SeverityHigh = 4"

definition SeverityCritical :: severity where "SeverityCritical = 5"

lemmas severity_defs [go_simps] = SeverityUnset_def SeverityInfo_def SeverityLow_def
  SeverityMedium_def SeverityHigh_def SeverityCritical_def

definition severityNames :: "string list" where
  "severityNames = [''unset'', ''info'', ''low'', ''medium'', ''high'', ''critical'']"

definition Severities :: "severity list" where
  "Severities = [SeverityInfo, SeverityLow, SeverityMedium, SeverityHigh, SeverityCritical]"

definition severity_String :: "severity \<Rightarrow> string" where
  "severity_String s =
     (if s < 0 \<or> int (length severityNames) \<le> s then ''severity('' @ itoa s @ '')''
      else severityNames ! nat s)"

definition severity_Valid :: "severity \<Rightarrow> bool" where
  "severity_Valid s \<longleftrightarrow> SeverityInfo \<le> s \<and> s \<le> SeverityCritical"

text \<open>The loop of \<open>ParseSeverity\<close> over \<open>Severities\<close>; \<open>Inl\<close> carries the unknown name.\<close>

fun parse_severity_from :: "severity list \<Rightarrow> string \<Rightarrow> string + severity" where
  "parse_severity_from [] name = Inl name"
| "parse_severity_from (s # ss) name =
     (if severityNames ! nat s = name then Inr s else parse_severity_from ss name)"

definition ParseSeverity :: "string \<Rightarrow> string + severity" where
  "ParseSeverity name = parse_severity_from Severities name"

definition severity_MarshalText :: "severity \<Rightarrow> severity + string" where
  "severity_MarshalText s = (if \<not> severity_Valid s then Inl s else Inr (severity_String s))"

text \<open>\<open>UnmarshalText\<close> leaves its receiver as it was when the name is unknown.\<close>

definition severity_UnmarshalText :: "severity \<Rightarrow> string \<Rightarrow> (string option) \<times> severity" where
  "severity_UnmarshalText s b =
     (case ParseSeverity b of Inl e \<Rightarrow> (Some e, s) | Inr v \<Rightarrow> (None, v))"

lemma severity_cases:
  "severity_Valid s \<longleftrightarrow> s \<in> {SeverityInfo, SeverityLow, SeverityMedium, SeverityHigh, SeverityCritical}"
  unfolding severity_Valid_def severity_defs by auto

lemma ParseSeverity_String: "severity_Valid s \<Longrightarrow> ParseSeverity (severity_String s) = Inr s"
  by (auto simp: severity_cases severity_defs severity_String_def ParseSeverity_def
      Severities_def severityNames_def)

lemma ParseSeverity_Inr: "ParseSeverity n = Inr s \<Longrightarrow> severity_Valid s \<and> n = severity_String s"
  by (auto simp: severity_Valid_def severity_defs severity_String_def ParseSeverity_def
      Severities_def severityNames_def split: if_splits)

text \<open>
  A severity's name and its number determine each other: parsing a name succeeds with s
  exactly when s is one of the five valid severities and the name is the one s prints as.
\<close>

lemma ParseSeverity_iff:
  "ParseSeverity n = Inr s \<longleftrightarrow> severity_Valid s \<and> severity_MarshalText s = Inr n"
  using ParseSeverity_Inr [of n s] ParseSeverity_String [of s]
  by (auto simp: severity_MarshalText_def)

subsection \<open>check.go: modes and metadata\<close>

type_synonym mode = int

definition Passive :: mode where "Passive = 0"

definition Active :: mode where "Active = 1"

definition mode_String :: "mode \<Rightarrow> string" where
  "mode_String m =
     (if m = Passive then ''passive'' else if m = Active then ''active''
      else ''mode('' @ itoa m @ '')'')"

record meta =
  m_ID :: string
  m_Aliases :: "string list"
  m_Module :: string
  m_Title :: string
  m_Description :: string
  m_Remediation :: string
  m_Mode :: mode
  m_Severity :: severity
  m_References :: "string list"
  m_Timeout :: int

text \<open>The regular expression \<open>checkIDPattern\<close>: three dot-separated identifiers.\<close>

definition id_part :: "string \<Rightarrow> bool" where
  "id_part s =
     (case s of [] \<Rightarrow> False
      | c # cs \<Rightarrow> is_lower c \<and> list_all (\<lambda>d. is_lower d \<or> is_digit d \<or> d = CHR ''_'') cs)"

definition checkIDPattern :: "string \<Rightarrow> bool" where
  "checkIDPattern s =
     (case split_on CHR ''.'' s of
        [a, b, c] \<Rightarrow> id_part a \<and> id_part b \<and> id_part c
      | _ \<Rightarrow> False)"

datatype meta_error =
    InvalidCheckID string
  | ModuleMismatch string string string
  | BadAlias string meta_error
  | AliasIsOwnID string
  | MissingTitle string
  | InvalidDefaultSeverity string severity
  | InvalidMode string mode

definition ValidateCheckID :: "string \<Rightarrow> meta_error option" where
  "ValidateCheckID s = (if \<not> checkIDPattern s then Some (InvalidCheckID s) else None)"

fun validate_aliases :: "string \<Rightarrow> string list \<Rightarrow> meta_error option" where
  "validate_aliases i [] = None"
| "validate_aliases i (a # as) =
     (case ValidateCheckID a of
        Some e \<Rightarrow> Some (BadAlias i e)
      | None \<Rightarrow> if a = i then Some (AliasIsOwnID i) else validate_aliases i as)"

definition meta_Validate :: "meta \<Rightarrow> meta_error option" where
  "meta_Validate m =
     (case ValidateCheckID (m_ID m) of Some e \<Rightarrow> Some e
      | None \<Rightarrow>
     (case cut CHR ''.'' (m_ID m) of (module, _, _) \<Rightarrow>
      if m_Module m \<noteq> module then Some (ModuleMismatch (m_ID m) (m_Module m) module)
      else
     (case validate_aliases (m_ID m) (m_Aliases m) of Some e \<Rightarrow> Some e
      | None \<Rightarrow>
      if m_Title m = [] then Some (MissingTitle (m_ID m))
      else if \<not> severity_Valid (m_Severity m)
        then Some (InvalidDefaultSeverity (m_ID m) (m_Severity m))
      else if m_Mode m \<noteq> Passive \<and> m_Mode m \<noteq> Active then Some (InvalidMode (m_ID m) (m_Mode m))
      else None)))"

lemma validate_aliases_None:
  "validate_aliases i as = None \<longleftrightarrow> (\<forall>a\<in>set as. checkIDPattern a \<and> a \<noteq> i)"
  by (induction as) (auto simp: ValidateCheckID_def)

lemma meta_Validate_None:
  "meta_Validate m = None \<longleftrightarrow>
     checkIDPattern (m_ID m) \<and> m_Module m = hd (split_on CHR ''.'' (m_ID m)) \<and>
     (\<forall>a\<in>set (m_Aliases m). checkIDPattern a \<and> a \<noteq> m_ID m) \<and> m_Title m \<noteq> [] \<and>
     severity_Valid (m_Severity m) \<and> (m_Mode m = Passive \<or> m_Mode m = Active)"
  unfolding cut_fst_split_on [symmetric] validate_aliases_None [symmetric]
  by (auto simp: meta_Validate_def ValidateCheckID_def
      split: prod.splits option.splits if_splits)

subsection \<open>finding.go\<close>

type_synonym evidence = "string \<rightharpoonup> string"

text \<open>\<open>f_References\<close> is None for Go's nil slice, which takes the check's default.\<close>

record finding =
  f_CheckID :: string
  f_Target :: string
  f_Subject :: string
  f_Severity :: severity
  f_Title :: string
  f_Evidence :: evidence
  f_Remediation :: string
  f_References :: "string list option"

text \<open>The zero value \<open>core.Finding\{\}\<close>, which checks fill in field by field.\<close>

definition finding0 :: finding where
  "finding0 = \<lparr>f_CheckID = [], f_Target = [], f_Subject = [], f_Severity = SeverityUnset,
     f_Title = [], f_Evidence = Map.empty, f_Remediation = [], f_References = None\<rparr>"

definition comma :: "string list \<Rightarrow> string" where "comma = join '', ''"

definition bars :: "string list \<Rightarrow> string" where "bars = join '' | ''"

definition finding_with :: "string \<Rightarrow> string \<Rightarrow> evidence \<Rightarrow> finding" where
  "finding_with subj title e = finding0\<lparr>f_Subject := subj, f_Title := title, f_Evidence := e\<rparr>"

definition fingerprint_input :: "string \<Rightarrow> string \<Rightarrow> string \<Rightarrow> string" where
  "fingerprint_input checkID target subject =
     checkID @ [CHR 0x00] @ target @ [CHR 0x00] @ subject"

definition hex_encode :: "string \<Rightarrow> string" where
  "hex_encode s = concat (map (\<lambda>c. [hex_digit (byte c div 16), hex_digit (byte c mod 16)]) s)"

definition Fingerprint :: "(string \<Rightarrow> string) \<Rightarrow> string \<Rightarrow> string \<Rightarrow> string \<Rightarrow> string" where
  "Fingerprint sha checkID target subject =
     hex_encode (take 16 (sha (fingerprint_input checkID target subject)))"

definition finding_Fingerprint :: "(string \<Rightarrow> string) \<Rightarrow> finding \<Rightarrow> string" where
  "finding_Fingerprint sha f = Fingerprint sha (f_CheckID f) (f_Target f) (f_Subject f)"

lemma hex_digit_inj: "m < 16 \<Longrightarrow> n < 16 \<Longrightarrow> hex_digit m = hex_digit n \<Longrightarrow> m = n"
proof -
  assume *: "m < 16" "n < 16" "hex_digit m = hex_digit n"
  then have "byte (hex_digit m) = byte (hex_digit n)" by simp
  then show "m = n"
    using *(1,2) by (simp add: hex_digit_def split: if_splits)
qed

lemma byte_less_256: "byte c < 256"
  by (simp add: byte_def)

lemma hex_encode_length [simp]: "length (hex_encode s) = 2 * length s"
  by (induction s) (simp_all add: hex_encode_def)

lemma hex_encode_inj [simp]: "hex_encode s = hex_encode t \<longleftrightarrow> s = t"
proof (induction s arbitrary: t)
  case Nil
  then show ?case by (cases t) (simp_all add: hex_encode_def)
next
  case (Cons c s)
  show ?case
  proof (cases t)
    case Nil
    then show ?thesis by (simp add: hex_encode_def)
  next
    case (Cons d u)
    have "c = d" if "hex_digit (byte c div 16) = hex_digit (byte d div 16)"
      and "hex_digit (byte c mod 16) = hex_digit (byte d mod 16)"
    proof -
      have "byte c div 16 = byte d div 16" "byte c mod 16 = byte d mod 16"
        using that byte_less_256 [of c] byte_less_256 [of d] by (auto intro: hex_digit_inj)
      then have "byte c = byte d" by (metis div_mult_mod_eq)
      then show ?thesis by simp
    qed
    then show ?thesis
      using Cons Cons.IH [of u] by (auto simp: hex_encode_def)
  qed
qed

lemma fingerprint_input_inj:
  assumes "CHR 0x00 \<notin> set i" "CHR 0x00 \<notin> set t"
    and "CHR 0x00 \<notin> set i'" "CHR 0x00 \<notin> set t'"
    and "fingerprint_input i t s = fingerprint_input i' t' s'"
  shows "i = i' \<and> t = t' \<and> s = s'"
proof -
  have a: "cut (CHR 0x00) (fingerprint_input i t s) = (i, t @ [CHR 0x00] @ s, True)"
    using assms(1) unfolding fingerprint_input_def by (simp add: cut_append)
  have b: "cut (CHR 0x00) (fingerprint_input i' t' s') = (i', t' @ [CHR 0x00] @ s', True)"
    using assms(3) unfolding fingerprint_input_def by (simp add: cut_append)
  from a b assms(5) have *: "i = i'" "t @ [CHR 0x00] @ s = t' @ [CHR 0x00] @ s'"
    by simp_all
  then have "cut (CHR 0x00) (t @ CHR 0x00 # s) = cut (CHR 0x00) (t' @ CHR 0x00 # s')"
    by simp
  then show ?thesis
    using * assms(2,4) by (simp add: cut_append)
qed

text \<open>
  Fingerprints identify findings: when check ID and target hold no NUL byte (validated check
  IDs and parsed domain names never do), two findings have the same fingerprint input exactly
  when check ID, target and subject agree, so a fingerprint collision is a collision of the
  truncated digest, and the fingerprint itself is 32 hexadecimal characters.
\<close>

lemma Fingerprint_identifies:
  assumes "CHR 0x00 \<notin> set i \<union> set t \<union> set i' \<union> set t'"
    and "\<forall>x. 16 \<le> length (sha x)"
    and "inj_on (\<lambda>x. take 16 (sha x)) {fingerprint_input i t s, fingerprint_input i' t' s'}"
  shows "(Fingerprint sha i t s = Fingerprint sha i' t' s' \<longleftrightarrow> i = i' \<and> t = t' \<and> s = s')
    \<and> length (Fingerprint sha i t s) = 32"
proof -
  have "Fingerprint sha i t s = Fingerprint sha i' t' s' \<longleftrightarrow>
      fingerprint_input i t s = fingerprint_input i' t' s'"
    using inj_on_eq_iff [OF assms(3)] by (simp add: Fingerprint_def)
  moreover have "fingerprint_input i t s = fingerprint_input i' t' s' \<longleftrightarrow> i = i' \<and> t = t' \<and> s = s'"
    using fingerprint_input_inj [of i t i' t' s s'] assms(1) by auto
  ultimately show ?thesis
    using assms(2) by (simp add: Fingerprint_def min_absorb2)
qed

lemma Fingerprint_identifies_witness:
  "Fingerprint (\<lambda>x. replicate 16 (if length x = 5 then CHR ''a'' else CHR ''b'')) ''a'' ''t'' ''s''
   \<noteq> Fingerprint (\<lambda>x. replicate 16 (if length x = 5 then CHR ''a'' else CHR ''b'')) ''a'' ''t'' ''''"
  using Fingerprint_identifies [of "''a''" "''t''" "''a''" "''t''"
      "\<lambda>x. replicate 16 (if length x = 5 then CHR ''a'' else CHR ''b'')" "''s''" "''''"]
  by (simp add: fingerprint_input_def)

subsection \<open>target.go: domain names\<close>

definition is_ascii :: "string \<Rightarrow> bool" where
  "is_ascii s \<longleftrightarrow> list_all (\<lambda>c. byte c < 128) s"

datatype label_error =
    EmptyLabel
  | LabelTooLong string
  | LabelHyphen string
  | LabelCharacter string char

definition label_char :: "char \<Rightarrow> bool" where
  "label_char c \<longleftrightarrow> is_lower c \<or> is_digit c \<or> c = CHR ''-'' \<or> c = CHR ''_''"

definition validLabel :: "string \<Rightarrow> label_error option" where
  "validLabel l =
     (if l = [] then Some EmptyLabel
      else if 63 < length l then Some (LabelTooLong l)
      else if hd l = CHR ''-'' \<or> last l = CHR ''-'' then Some (LabelHyphen l)
      else map_option (LabelCharacter l) (find (\<lambda>c. \<not> label_char c) l))"

datatype domain_error =
    EmptyDomain
  | NotADomain string
  | IdnaFailed string
  | DomainTooLong string
  | NotQualified string
  | BadLabel string label_error

fun first_label_error :: "string list \<Rightarrow> label_error option" where
  "first_label_error [] = None"
| "first_label_error (l # ls) =
     (case validLabel l of Some e \<Rightarrow> Some e | None \<Rightarrow> first_label_error ls)"

text \<open>
  \<open>ParseDomain\<close> returns a target whose other fields are zero; the model returns its name.
\<close>

definition ParseDomain :: "(string \<Rightarrow> string option) \<Rightarrow> string \<Rightarrow> domain_error + string" where
  "ParseDomain idna s =
     (let raw = trim_space s in
      if raw = [] then Inl EmptyDomain
      else if contains_sub raw ''://'' \<or> list_ex (\<lambda>c. c \<in> set ''/:@ '') raw then Inl (NotADomain s)
      else
        let low = to_lower (trim_suffix raw ''.'') in
        case (if is_ascii low then Some low else idna low) of
          None \<Rightarrow> Inl (IdnaFailed s)
        | Some name \<Rightarrow>
          if 253 < length name then Inl (DomainTooLong s)
          else
            let labels = split_on CHR ''.'' name in
            if length labels < 2 then Inl (NotQualified s)
            else case first_label_error labels of
                Some e \<Rightarrow> Inl (BadLabel s e)
              | None \<Rightarrow> Inr name)"

text \<open>The canonical names: what \<open>ParseDomain\<close> returns.\<close>

definition canonical_domain :: "string \<Rightarrow> bool" where
  "canonical_domain n \<longleftrightarrow> length n \<le> 253 \<and> 2 \<le> length (split_on CHR ''.'' n) \<and>
     (\<forall>l\<in>set (split_on CHR ''.'' n). l \<noteq> [] \<and> length l \<le> 63 \<and> hd l \<noteq> CHR ''-'' \<and>
        last l \<noteq> CHR ''-'' \<and> (\<forall>c\<in>set l. label_char c))"

lemma find_None_iff_all: "find p xs = None \<longleftrightarrow> (\<forall>x\<in>set xs. \<not> p x)"
  by (induction xs) auto

lemma validLabel_None:
  "validLabel l = None \<longleftrightarrow> l \<noteq> [] \<and> length l \<le> 63 \<and> hd l \<noteq> CHR ''-'' \<and> last l \<noteq> CHR ''-'' \<and>
     (\<forall>c\<in>set l. label_char c)"
  by (simp add: validLabel_def find_None_iff_all not_less)

lemma first_label_error_None: "first_label_error ls = None \<longleftrightarrow> (\<forall>l\<in>set ls. validLabel l = None)"
  by (induction ls) (auto split: option.splits)

lemma ParseDomain_canonical: "ParseDomain idna s = Inr n \<Longrightarrow> canonical_domain n"
  by (auto simp: ParseDomain_def Let_def canonical_domain_def first_label_error_None validLabel_None
      split: if_splits option.splits)

lemma set_join: "set (join sep ws) \<subseteq> \<Union> (set ` set ws) \<union> set sep"
  by (induction sep ws rule: join.induct) auto

lemma canonical_domain_chars:
  assumes "canonical_domain n" and "c \<in> set n"
  shows "label_char c \<or> c = CHR ''.''"
proof -
  have "c \<in> set (join [CHR ''.''] (split_on CHR ''.'' n))" using assms(2) by simp
  then obtain l where "l \<in> set (split_on CHR ''.'' n) \<and> c \<in> set l \<or> c = CHR ''.''"
    using set_join by fastforce
  then show ?thesis
    using assms(1) by (auto simp: canonical_domain_def)
qed

lemma label_char_props:
  assumes "label_char c \<or> c = CHR ''.''"
  shows "\<not> is_space c" "\<not> is_upper c" "byte c < 128" "c \<notin> set ''/:@ ''" "c \<noteq> CHR 0x00"
    "c \<noteq> CHR ''['' \<and> c \<noteq> CHR '']''"
  using assms
  by (auto simp: label_char_def is_lower_def is_digit_def is_space_def is_upper_def byte_def)

lemma contains_sub_set: "contains_sub s p \<Longrightarrow> set p \<subseteq> set s"
proof (induction s p rule: contains_sub.induct)
  case (2 c cs p)
  have "set p \<subseteq> set (c # cs)" if "has_prefix (c # cs) p"
    using that by (metis has_prefix_iff Un_upper1 set_append)
  then show ?case using 2 by auto
qed simp

lemma split_on_snoc: "split_on sep (s @ [sep]) = split_on sep s @ [[]]"
  by (induction s) (auto split: list.splits)

lemma canonical_domain_no_dot:
  assumes "canonical_domain n"
  shows "\<not> has_suffix n ''.''"
proof
  assume "has_suffix n ''.''"
  then obtain t where "n = t @ [CHR ''.'']" by (auto simp: has_suffix_iff)
  then have "[] \<in> set (split_on CHR ''.'' n)"
    by (simp add: split_on_snoc)
  then show False using assms by (auto simp: canonical_domain_def)
qed

lemma canonical_domain_not_Nil: "canonical_domain n \<Longrightarrow> n \<noteq> []"
  by (auto simp: canonical_domain_def)

lemma ParseDomain_of_canonical:
  assumes "canonical_domain n"
  shows "ParseDomain idna n = Inr n"
proof -
  note chars = canonical_domain_chars [OF assms, THEN label_char_props(1)]
    canonical_domain_chars [OF assms, THEN label_char_props(2)]
    canonical_domain_chars [OF assms, THEN label_char_props(3)]
    canonical_domain_chars [OF assms, THEN label_char_props(4)]
  have "trim_space n = n" using chars(1) by (simp add: trim_space_id)
  moreover have "to_lower n = n" using chars(2) by (simp add: to_lower_id)
  moreover have "is_ascii n" using chars(3) by (simp add: is_ascii_def list_all_iff)
  moreover have "\<not> list_ex (\<lambda>c. c \<in> set ''/:@ '') n"
    using chars(4) unfolding list_ex_iff by blast
  moreover have "\<not> contains_sub n ''://''"
    using contains_sub_set [of n "''://''"] chars(4) [of "CHR '':''"] by auto
  moreover have "first_label_error (split_on CHR ''.'' n) = None"
    using assms by (auto simp: first_label_error_None validLabel_None canonical_domain_def)
  ultimately show ?thesis
    using assms canonical_domain_not_Nil [OF assms] canonical_domain_no_dot [OF assms]
    by (simp add: ParseDomain_def Let_def trim_suffix_id canonical_domain_def)
qed

text \<open>
  Canonical form: ParseDomain accepts a text only with a name in canonical form (at most 253
  bytes, at least two labels of 1 to 63 lowercase letters, digits, hyphens and underscores, none
  starting or ending with a hyphen), and canonical names are its fixed points, so parsing is
  idempotent and a stored name can be parsed again.
\<close>

lemma ParseDomain_idempotent:
  assumes "ParseDomain idna s = Inr n"
  shows "canonical_domain n \<and> ParseDomain idna' n = Inr n"
  using ParseDomain_canonical [OF assms] ParseDomain_of_canonical by simp

lemma ParseDomain_idempotent_witness:
  "canonical_domain ''mx1.example.com'' \<and> ParseDomain (\<lambda>_. None) ''mx1.example.com'' = Inr ''mx1.example.com''"
proof -
  have "ParseDomain (\<lambda>_. None) '' MX1.Example.com. '' = Inr ''mx1.example.com''"
    by code_simp
  then show ?thesis by (rule ParseDomain_idempotent)
qed

subsection \<open>target.go: hosts and targets\<close>

record host =
  h_Name :: string
  h_Port :: int
  h_Explicit :: bool

record email_options =
  e_DKIMSelectors :: "string list"
  e_SelectorsGuessed :: bool
  e_ExpectedMX :: "string list"
  e_DNSBLs :: "string list"
  e_SpamhausDQSKey :: string

text \<open>\<open>t_Hosts\<close> is None for the nil slice, which stands for the default hosts.\<close>

record target =
  t_Name :: string
  t_Email :: email_options
  t_Plugins :: "string \<rightharpoonup> string"
  t_Hosts :: "host list option"
  t_URLs :: "string list"

text \<open>\<open>net.JoinHostPort\<close> and \<open>net.SplitHostPort\<close> of the standard library.\<close>

definition join_host_port :: "string \<Rightarrow> string \<Rightarrow> string" where
  "join_host_port h p =
     (if CHR '':'' \<in> set h then ''['' @ h @ '']:'' @ p else h @ '':'' @ p)"

definition split_host_port :: "string \<Rightarrow> (string \<times> string) option" where
  "split_host_port s =
     (case last_index_byte CHR '':'' s of
        None \<Rightarrow> None
      | Some i \<Rightarrow>
        let port = drop (Suc i) s in
        if s ! 0 = CHR ''['' then
          (case index_byte CHR '']'' s of
             None \<Rightarrow> None
           | Some e \<Rightarrow>
             if e + 1 \<noteq> i then None
             else if CHR ''['' \<in> set (drop 1 s) \<or> CHR '']'' \<in> set (drop (e + 1) s) then None
             else Some (drop 1 (take e s), port))
        else
          let h = take i s in
          if CHR '':'' \<in> set h \<or> CHR ''['' \<in> set s \<or> CHR '']'' \<in> set s then None
          else Some (h, port))"

definition host_String :: "host \<Rightarrow> string" where
  "host_String h =
     (if h_Port h = 443 then h_Name h else join_host_port (h_Name h) (itoa (h_Port h)))"

definition WebHosts :: "target \<Rightarrow> host list" where
  "WebHosts t =
     (case t_Hosts t of
        Some hs \<Rightarrow> hs
      | None \<Rightarrow> [\<lparr>h_Name = t_Name t, h_Port = 443, h_Explicit = False\<rparr>,
                 \<lparr>h_Name = ''www.'' @ t_Name t, h_Port = 443, h_Explicit = False\<rparr>])"

datatype host_error = InvalidPort string | HostName domain_error

definition ParseHost :: "(string \<Rightarrow> string option) \<Rightarrow> string \<Rightarrow> host_error + host" where
  "ParseHost idna s =
     (case (case split_host_port s of
              None \<Rightarrow> Inr (s, 443)
            | Some (h, p) \<Rightarrow>
                (case atoi p of
                   None \<Rightarrow> Inl (InvalidPort s)
                 | Some n \<Rightarrow> if n < 1 \<or> 65535 < n then Inl (InvalidPort s) else Inr (h, n))) of
        Inl e \<Rightarrow> Inl e
      | Inr (name, port) \<Rightarrow>
          (case ParseDomain idna name of
             Inl e \<Rightarrow> Inl (HostName e)
           | Inr d \<Rightarrow> Inr \<lparr>h_Name = d, h_Port = port, h_Explicit = True\<rparr>))"

lemma split_host_port_no_colon: "CHR '':'' \<notin> set s \<Longrightarrow> split_host_port s = None"
  by (simp add: split_host_port_def last_index_byte_None [THEN iffD2])

lemma split_host_port_join:
  assumes "CHR '':'' \<notin> set h \<union> set p" "CHR ''['' \<notin> set h \<union> set p" "CHR '']'' \<notin> set h \<union> set p"
  shows "split_host_port (h @ CHR '':'' # p) = Some (h, p)"
proof -
  have "(h @ CHR '':'' # p) ! 0 \<noteq> CHR ''[''"
    using assms(2) by (cases h) auto
  then show ?thesis
    using assms last_index_byte_append [of "CHR '':''" p h]
    by (simp add: split_host_port_def Let_def)
qed

lemma itoa_chars: "0 \<le> n \<Longrightarrow> c \<in> set (itoa n) \<Longrightarrow> is_digit c"
  by (auto simp: itoa_def dest: nat_digits_digits)

lemma ParseHost_Inr:
  assumes "ParseHost idna s = Inr h"
  shows "canonical_domain (h_Name h)" "1 \<le> h_Port h" "h_Port h \<le> 65535" "h_Explicit h"
  using assms
  by (auto simp: ParseHost_def not_less split: option.splits sum.splits if_splits prod.splits
      dest: ParseDomain_canonical)

lemma canonical_domain_no_brackets:
  assumes "canonical_domain n"
  shows "CHR '':'' \<notin> set n" "CHR ''['' \<notin> set n" "CHR '']'' \<notin> set n" "CHR 0x00 \<notin> set n"
proof -
  have c: "c \<in> set n \<Longrightarrow> label_char c \<or> c = CHR ''.''" for c
    using canonical_domain_chars [OF assms] by simp
  show "CHR '':'' \<notin> set n"
    using c [THEN label_char_props(4), of "CHR '':''"] by auto
  show "CHR ''['' \<notin> set n" "CHR '']'' \<notin> set n"
    using c [THEN label_char_props(6), of "CHR ''[''"] c [THEN label_char_props(6), of "CHR '']''"]
    by auto
  show "CHR 0x00 \<notin> set n"
    using c [THEN label_char_props(5), of "CHR 0x00"] by auto
qed

text \<open>
  Host specifications: what ParseHost returns has a canonical name and a port between 1 and
  65535, and printing it with Host.String and parsing the text again gives the same host, so the
  loader may store hosts as text and the runner may parse them again without checking the error.
\<close>

lemma ParseHost_String_roundtrip:
  assumes "ParseHost idna s = Inr h"
  shows "canonical_domain (h_Name h) \<and> 1 \<le> h_Port h \<and> h_Port h \<le> 65535 \<and>
    ParseHost idna' (host_String h) = Inr h"
proof -
  note h = ParseHost_Inr [OF assms]
  note no = canonical_domain_no_brackets [OF h(1)]
  have h_eq: "h = \<lparr>h_Name = h_Name h, h_Port = h_Port h, h_Explicit = True\<rparr>"
    using h(4) by simp
  have "ParseHost idna' (host_String h) = Inr h"
  proof (cases "h_Port h = 443")
    case True
    then show ?thesis
      using no h_eq ParseDomain_of_canonical [OF h(1)]
      by (simp add: host_String_def ParseHost_def split_host_port_no_colon)
  next
    case False
    have "\<forall>c\<in>set (itoa (h_Port h)). is_digit c"
      using itoa_chars [of "h_Port h"] h(2) by simp
    then have "CHR '':'' \<notin> set (itoa (h_Port h))" "CHR ''['' \<notin> set (itoa (h_Port h))"
      "CHR '']'' \<notin> set (itoa (h_Port h))"
      by (auto simp: is_digit_def byte_def)
    then have "split_host_port (host_String h) = Some (h_Name h, itoa (h_Port h))"
      using False no by (simp add: host_String_def join_host_port_def split_host_port_join)
    moreover have "atoi (itoa (h_Port h)) = Some (h_Port h)"
      using h(2,3) by (simp add: atoi_itoa)
    ultimately show ?thesis
      using h_eq h(2,3) ParseDomain_of_canonical [OF h(1)] by (simp add: ParseHost_def)
  qed
  then show ?thesis using h by simp
qed

lemma ParseHost_String_roundtrip_witness:
  "ParseHost (\<lambda>_. None) ''api.example.com:8443'' =
     Inr \<lparr>h_Name = ''api.example.com'', h_Port = 8443, h_Explicit = True\<rparr>"
proof -
  have "ParseHost (\<lambda>_. None) ''API.example.com:8443'' =
      Inr \<lparr>h_Name = ''api.example.com'', h_Port = 8443, h_Explicit = True\<rparr>"
    by code_simp
  from ParseHost_String_roundtrip [OF this, of "\<lambda>_. None"]
  have "ParseHost (\<lambda>_. None) (host_String \<lparr>h_Name = ''api.example.com'', h_Port = 8443, h_Explicit = True\<rparr>) =
      Inr \<lparr>h_Name = ''api.example.com'', h_Port = 8443, h_Explicit = True\<rparr>"
    by simp
  moreover have "host_String \<lparr>h_Name = ''api.example.com'', h_Port = 8443, h_Explicit = True\<rparr> =
      ''api.example.com:8443''"
    by (simp add: host_String_def join_host_port_def itoa_def go_eval)
  ultimately show ?thesis by simp
qed

end
