(* ===== verification/SetaGlob.thy ===== *)
theory SetaGlob
  imports SetaCore
begin

text \<open>
  The pattern matcher \<open>registry.Match\<close>: the loop of the source over two indices with one
  remembered star, and the reference semantics of globs it is proved equal to. The loop is a
  \<open>partial_function\<close>, so that it returns at all is part of what is proved.
\<close>

subsection \<open>Reference semantics\<close>

fun glob :: "string \<Rightarrow> string \<Rightarrow> bool" where
  "glob [] s = (s = [])"
| "glob (q # ps) [] = (q = CHR ''*'' \<and> glob ps [])"
| "glob (q # ps) (c # cs) =
     (if q = CHR ''*'' then glob ps (c # cs) \<or> glob (q # ps) cs
      else (q = CHR ''?'' \<or> q = c) \<and> glob ps cs)"

lemma glob_star: "glob (CHR ''*'' # ps) s \<longleftrightarrow> (\<exists>m\<le>length s. glob ps (drop m s))"
proof (induction s)
  case Nil
  then show ?case by simp
next
  case (Cons c cs)
  have "(\<exists>m\<le>length (c # cs). glob ps (drop m (c # cs))) \<longleftrightarrow>
      glob ps (c # cs) \<or> (\<exists>m\<le>length cs. glob ps (drop m cs))"
    by (metis (no_types, lifting) Suc_le_mono drop0 drop_Suc_Cons le0 length_Cons not0_implies_Suc)
  then show ?case using Cons.IH by simp
qed

lemma glob_Nil: "glob ps [] \<longleftrightarrow> list_all (\<lambda>q. q = CHR ''*'') ps"
  by (induction ps) auto

subsection \<open>The loop\<close>

partial_function (option) match_loop ::
  "string \<Rightarrow> string \<Rightarrow> nat \<Rightarrow> nat \<Rightarrow> nat option \<Rightarrow> nat \<Rightarrow> bool option" where
  "match_loop pattern i p s star mark =
     (if s < length i then
        (if p < length pattern \<and> (pattern ! p = CHR ''?'' \<or> pattern ! p = i ! s)
           then match_loop pattern i (p + 1) (s + 1) star mark
         else if p < length pattern \<and> pattern ! p = CHR ''*''
           then match_loop pattern i (p + 1) s (Some p) s
         else (case star of
             Some st \<Rightarrow> match_loop pattern i (st + 1) (mark + 1) star (mark + 1)
           | None \<Rightarrow> Some False))
      else Some (list_all (\<lambda>q. q = CHR ''*'') (drop p pattern)))"

definition Match :: "string \<Rightarrow> string \<Rightarrow> bool" where
  "Match pattern i = (match_loop pattern i 0 0 None 0 = Some True)"

subsection \<open>The loop computes the reference semantics\<close>

text \<open>\<open>seg P I a b n\<close>: n pattern bytes from a, none a star, match the n bytes of I from b.\<close>

definition seg :: "string \<Rightarrow> string \<Rightarrow> nat \<Rightarrow> nat \<Rightarrow> nat \<Rightarrow> bool" where
  "seg P I a b n \<longleftrightarrow> a + n \<le> length P \<and> b + n \<le> length I \<and>
     (\<forall>j<n. P ! (a + j) \<noteq> CHR ''*'' \<and> (P ! (a + j) = CHR ''?'' \<or> P ! (a + j) = I ! (b + j)))"

lemma seg_0 [simp]: "a \<le> length P \<Longrightarrow> b \<le> length I \<Longrightarrow> seg P I a b 0"
  by (simp add: seg_def)

lemma seg_Suc:
  "seg P I a b (Suc n) \<longleftrightarrow> seg P I a b n \<and> a + n < length P \<and> b + n < length I \<and>
     P ! (a + n) \<noteq> CHR ''*'' \<and> (P ! (a + n) = CHR ''?'' \<or> P ! (a + n) = I ! (b + n))"
  by (auto simp: seg_def less_Suc_eq)

lemma glob_drop_literal:
  assumes "a < length P" "P ! a \<noteq> CHR ''*''"
  shows "glob (drop a P) (drop b I) \<longleftrightarrow> b < length I \<and> (P ! a = CHR ''?'' \<or> P ! a = I ! b) \<and>
    glob (drop (Suc a) P) (drop (Suc b) I)"
  using assms by (cases "b < length I") (auto simp: Cons_nth_drop_Suc [symmetric])

lemma seg_glob: "seg P I a b n \<Longrightarrow> glob (drop a P) (drop b I) = glob (drop (a + n) P) (drop (b + n) I)"
proof (induction n)
  case (Suc n)
  then have "glob (drop a P) (drop b I) = glob (drop (a + n) P) (drop (b + n) I)"
    by (simp add: seg_Suc)
  also have "\<dots> = glob (drop (a + Suc n) P) (drop (b + Suc n) I)"
    using Suc.prems glob_drop_literal [of "a + n" P "b + n" I] by (simp add: seg_Suc)
  finally show ?case .
qed simp

lemma literal_glob:
  assumes "seg P I a b n" and "glob (drop a P) (drop m I)" and "m \<le> length I"
  shows "m + n \<le> length I \<and> glob (drop (a + n) P) (drop (m + n) I)"
  using assms(1)
proof (induction n)
  case 0
  then show ?case using assms by simp
next
  case (Suc n)
  then have "m + n \<le> length I \<and> glob (drop (a + n) P) (drop (m + n) I)"
    by (simp add: seg_Suc)
  then show ?case
    using Suc.prems glob_drop_literal [of "a + n" P "m + n" I] by (simp add: seg_Suc)
qed

text \<open>
  What the loop keeps: the bytes since the last star (or since the start) match, and the star
  it remembers is a star of the pattern.
\<close>

definition loop_inv :: "string \<Rightarrow> string \<Rightarrow> nat \<Rightarrow> nat \<Rightarrow> nat option \<Rightarrow> nat \<Rightarrow> bool" where
  "loop_inv P I p s star mark \<longleftrightarrow>
     (case star of
        None \<Rightarrow> mark = 0 \<and> p = s \<and> seg P I 0 0 s
      | Some st \<Rightarrow> st < length P \<and> P ! st = CHR ''*'' \<and> mark \<le> s \<and>
          p = st + 1 + (s - mark) \<and> seg P I (st + 1) mark (s - mark))"

definition loop_result :: "string \<Rightarrow> string \<Rightarrow> nat option \<Rightarrow> nat \<Rightarrow> bool" where
  "loop_result P I star mark =
     (case star of None \<Rightarrow> glob P I | Some st \<Rightarrow> glob (drop st P) (drop mark I))"

lemma glob_drop_star:
  assumes "st < length P" "P ! st = CHR ''*''" "b \<le> length I"
  shows "glob (drop st P) (drop b I) \<longleftrightarrow> (\<exists>m. b \<le> m \<and> m \<le> length I \<and> glob (drop (st + 1) P) (drop m I))"
proof -
  have "glob (drop st P) (drop b I) \<longleftrightarrow>
      (\<exists>m\<le>length I - b. glob (drop (st + 1) P) (drop (m + b) I))"
    using assms by (simp add: Cons_nth_drop_Suc [symmetric] glob_star)
  also have "\<dots> \<longleftrightarrow> (\<exists>m. b \<le> m \<and> m \<le> length I \<and> glob (drop (st + 1) P) (drop m I))"
    (is "?l \<longleftrightarrow> ?r")
  proof
    assume ?l
    then obtain m where "m \<le> length I - b" "glob (drop (st + 1) P) (drop (m + b) I)" by blast
    then show ?r using assms(3) by (intro exI [of _ "m + b"]) auto
  next
    assume ?r
    then obtain m where "b \<le> m" "m \<le> length I" "glob (drop (st + 1) P) (drop m I)" by blast
    then show ?l by (intro exI [of _ "m - b"]) auto
  qed
  finally show ?thesis .
qed

text \<open>A new star: what came before it stays matched where it first matched.\<close>

lemma loop_new_star:
  assumes inv: "loop_inv P I p s star mark" and p: "p < length P" "P ! p = CHR ''*''"
    and s: "s \<le> length I"
  shows "loop_result P I star mark = glob (drop p P) (drop s I)"
proof (cases star)
  case None
  then show ?thesis
    using inv seg_glob [of P I 0 0 s] by (simp add: loop_inv_def loop_result_def)
next
  case (Some st)
  then have st: "st < length P" "P ! st = CHR ''*''" "mark \<le> s" "p = st + 1 + (s - mark)"
    and sg: "seg P I (st + 1) mark (s - mark)"
    using inv by (simp_all add: loop_inv_def)
  have seg_eq: "glob (drop (st + 1) P) (drop mark I) = glob (drop p P) (drop s I)"
    using seg_glob [OF sg] st by simp
  show ?thesis
  proof
    assume "loop_result P I star mark"
    then have "glob (drop st P) (drop mark I)" using Some by (simp add: loop_result_def)
    then obtain m where m: "mark \<le> m" "m \<le> length I" "glob (drop (st + 1) P) (drop m I)"
      using glob_drop_star [OF st(1,2), of mark I] st(3) s by auto
    from literal_glob [OF sg m(3,2)]
    have l: "m + (s - mark) \<le> length I" "glob (drop p P) (drop (m + (s - mark)) I)"
      using st(4) by simp_all
    then obtain m' where "m + (s - mark) \<le> m'" "m' \<le> length I" "glob (drop (p + 1) P) (drop m' I)"
      using glob_drop_star [OF p, of "m + (s - mark)" I] by auto
    then show "glob (drop p P) (drop s I)"
      using glob_drop_star [OF p s] m(1) st(3) by auto
  next
    assume "glob (drop p P) (drop s I)"
    then have "glob (drop (st + 1) P) (drop mark I)" by (simp only: seg_eq)
    then show "loop_result P I star mark"
      using Some glob_drop_star [OF st(1,2), of mark I] st(3) s by (auto simp: loop_result_def)
  qed
qed

text \<open>A mismatch: the remembered star must take one more byte.\<close>

lemma loop_mismatch:
  assumes inv: "loop_inv P I p s star mark" and s: "s < length I"
    and mis: "\<not> (p < length P \<and> (P ! p = CHR ''?'' \<or> P ! p = I ! s))"
      "\<not> (p < length P \<and> P ! p = CHR ''*'')"
  shows "loop_result P I star mark =
    (case star of None \<Rightarrow> False | Some st \<Rightarrow> glob (drop st P) (drop (mark + 1) I))"
proof -
  have no: "\<not> glob (drop p P) (drop s I)"
  proof (cases "p < length P")
    case True
    then show ?thesis using mis glob_drop_literal [of p P s I] by auto
  next
    case False
    then show ?thesis using s by simp
  qed
  show ?thesis
  proof (cases star)
    case None
    then show ?thesis
      using inv no seg_glob [of P I 0 0 s] by (simp add: loop_inv_def loop_result_def)
  next
    case (Some st)
    then have st: "st < length P" "P ! st = CHR ''*''" "mark \<le> s" "p = st + 1 + (s - mark)"
      and sg: "seg P I (st + 1) mark (s - mark)"
      using inv by (simp_all add: loop_inv_def)
    have "\<not> glob (drop (st + 1) P) (drop mark I)"
      using no seg_glob [OF sg] st by simp
    then show ?thesis
      using Some s st glob_drop_star [OF st(1,2), of mark I] glob_drop_star [OF st(1,2), of "mark + 1" I]
      by (auto simp: loop_result_def) (metis Suc_leI le_neq_implies_less)
  qed
qed

text \<open>The end of the text: only stars may be left.\<close>

lemma loop_end:
  assumes inv: "loop_inv P I p s star mark" and s: "\<not> s < length I"
  shows "loop_result P I star mark = list_all (\<lambda>q. q = CHR ''*'') (drop p P)"
proof (cases star)
  case None
  then have "glob P I = glob (drop p P) []"
    using inv s seg_glob [of P I 0 0 s] by (simp add: loop_inv_def)
  then show ?thesis using None by (simp add: loop_result_def glob_Nil)
next
  case (Some st)
  then have st: "st < length P" "P ! st = CHR ''*''" "mark \<le> s" "p = st + 1 + (s - mark)"
    and sg: "seg P I (st + 1) mark (s - mark)"
    using inv by (simp_all add: loop_inv_def)
  have sI: "s = length I" using sg s st(3) by (simp add: seg_def)
  have seg_eq: "glob (drop (st + 1) P) (drop mark I) = glob (drop p P) []"
    using seg_glob [OF sg] st sI by simp
  have only: "m = mark" if "mark \<le> m" "m \<le> length I" "glob (drop (st + 1) P) (drop m I)" for m
    using literal_glob [OF sg that(3,2), THEN conjunct1] that(1) sI st(3) by linarith
  have "loop_result P I star mark = glob (drop (st + 1) P) (drop mark I)"
    using Some glob_drop_star [OF st(1,2), of mark I] st(3) sI only
    by (auto simp: loop_result_def)
  also have "\<dots> = list_all (\<lambda>q. q = CHR ''*'') (drop p P)"
    by (simp only: seg_eq glob_Nil)
  finally show ?thesis .
qed

lemma match_loop_correct:
  assumes "CHR ''*'' \<notin> set I" and "loop_inv P I p s star mark"
  shows "match_loop P I p s star mark = Some (loop_result P I star mark)"
  using assms(2)
proof (induction "(length P - (case star of None \<Rightarrow> 0 | Some st \<Rightarrow> st + 1), length I - mark, length I - s)"
    arbitrary: p s star mark rule: wf_induct_rule [OF wf_lex_prod [OF wf_less_than wf_lex_prod [OF wf_less_than wf_less_than]]])
  case (1 s star mark p)
  note inv = "1.prems"
  show ?case
  proof (cases "s < length I")
    case False
    then show ?thesis using loop_end [OF inv] by (simp add: match_loop.simps [of P I p s])
  next
    case s: True
    show ?thesis
    proof (cases "p < length P \<and> (P ! p = CHR ''?'' \<or> P ! p = I ! s)")
      case True
      moreover have "I ! s \<noteq> CHR ''*''" using assms(1) s by (metis nth_mem)
      ultimately have "P ! p \<noteq> CHR ''*''" by auto
      then have "loop_inv P I (p + 1) (s + 1) star mark"
        using inv True s by (auto simp: loop_inv_def seg_Suc Suc_diff_le split: option.splits)
      then have "match_loop P I (p + 1) (s + 1) star mark = Some (loop_result P I star mark)"
        using "1.hyps" s by simp
      then show ?thesis using s True by (simp add: match_loop.simps [of P I p s])
    next
      case lit: False
      show ?thesis
      proof (cases "p < length P \<and> P ! p = CHR ''*''")
        case True
        then have "loop_inv P I (p + 1) s (Some p) s"
          using s by (simp add: loop_inv_def)
        moreover have "(case star of None \<Rightarrow> 0 | Some st \<Rightarrow> st + 1) \<le> p"
          using inv by (auto simp: loop_inv_def split: option.splits)
        then have "length P - Suc p < length P - (case star of None \<Rightarrow> 0 | Some st \<Rightarrow> st + 1)"
          using True by linarith
        ultimately have "match_loop P I (p + 1) s (Some p) s = Some (loop_result P I (Some p) s)"
          using "1.hyps" [of "Some p" s s "p + 1"] by simp
        moreover have "loop_result P I (Some p) s = loop_result P I star mark"
          using loop_new_star [OF inv] True s by (simp add: loop_result_def)
        ultimately show ?thesis using s lit True by (simp add: match_loop.simps [of P I p s])
      next
        case False
        note mis = loop_mismatch [OF inv s lit False]
        show ?thesis
        proof (cases star)
          case None
          then show ?thesis using s lit False mis by (auto simp: match_loop.simps [of P I p s])
        next
          case (Some st)
          then have "loop_inv P I (st + 1) (mark + 1) star (mark + 1)" "mark < length I"
            using inv s by (auto simp: loop_inv_def)
          then have "match_loop P I (st + 1) (mark + 1) star (mark + 1) =
              Some (loop_result P I star (mark + 1))"
            using "1.hyps" [of star "mark + 1" "mark + 1" "st + 1"] Some diff_less_mono2 [of mark "mark + 1" "length I"]
            by simp
          then show ?thesis
            using s lit False mis Some by (auto simp: match_loop.simps [of P I p s] loop_result_def)
        qed
      qed
    qed
  qed
qed

lemma Match_glob: "CHR ''*'' \<notin> set i \<Longrightarrow> Match pattern i = glob pattern i"
  using match_loop_correct [of i pattern 0 0 None 0]
  by (simp add: Match_def loop_inv_def loop_result_def)

text \<open>
  C1 The matcher returns on every pattern and every ID without a star (check IDs never contain
  one), and answers exactly what the reference glob semantics says: a star stands for any run of
  bytes, a question mark for one.
\<close>

theorem Match_is_glob:
  assumes "CHR ''*'' \<notin> set i"
  shows "match_loop pattern i 0 0 None 0 \<noteq> None \<and> Match pattern i = glob pattern i"
  using match_loop_correct [OF assms, of pattern 0 0 None 0]
  by (simp add: Match_def loop_inv_def loop_result_def)

theorem Match_is_glob_witness:
  "Match ''email.*.m?ssing'' ''email.spf.missing'' \<and> \<not> Match ''*.spf'' ''email.spf.missing''"
  using Match_is_glob [of "''email.spf.missing''" "''email.*.m?ssing''"]
    Match_is_glob [of "''email.spf.missing''" "''*.spf''"]
  by simp

text \<open>
  Outside check IDs the matcher departs from its comment ("*" matches any sequence of
  characters): where the text itself has a star at the place of a pattern's star, the loop takes
  the star of the pattern as a literal byte and never as a wildcard.
\<close>

lemma Match_star_in_text: "\<not> Match ''*'' ''*a'' \<and> glob ''*'' ''*a''"
  by (simp add: Match_def match_loop.simps)

end
