(* ===== verification/SetaRegistry.thy ===== *)
theory SetaRegistry
  imports SetaGlob "HOL-Library.AList"
begin

text \<open>
  Package internal/registry. The two Go maps of a registry are association lists with distinct
  keys; their order stands for Go's iteration order, which the results must not depend on.
  A check is its metadata and its Run function, whose type is a parameter.
\<close>

record 'r check =
  c_Meta :: meta
  c_Run :: 'r

record 'r registry =
  r_checks :: "(string \<times> 'r check) list"
  r_aliases :: "(string \<times> string) list"

datatype reg_error =
    BadMeta meta_error
  | IDTaken string
  | AliasTaken string string
  | EmptyPattern
  | PatternCharacter string char
  | MatchesNothing string

definition registry_New :: "'r registry" where
  "registry_New = \<lparr>r_checks = [], r_aliases = []\<rparr>"

abbreviation check_ID :: "'r check \<Rightarrow> string" where
  "check_ID c \<equiv> m_ID (c_Meta c)"

definition taken :: "'r registry \<Rightarrow> string \<Rightarrow> bool" where
  "taken r i \<longleftrightarrow> map_of (r_checks r) i \<noteq> None \<or> map_of (r_aliases r) i \<noteq> None"

fun first_taken :: "'r registry \<Rightarrow> string list \<Rightarrow> string option" where
  "first_taken r [] = None"
| "first_taken r (a # as) = (if taken r a then Some a else first_taken r as)"

definition Register :: "'r registry \<Rightarrow> 'r check \<Rightarrow> reg_error + 'r registry" where
  "Register r c =
     (let m = c_Meta c in
      case meta_Validate m of
        Some e \<Rightarrow> Inl (BadMeta e)
      | None \<Rightarrow>
        if taken r (m_ID m) then Inl (IDTaken (m_ID m))
        else case first_taken r (m_Aliases m) of
            Some a \<Rightarrow> Inl (AliasTaken (m_ID m) a)
          | None \<Rightarrow>
              Inr (r\<lparr>r_checks := AList.update (m_ID m) c (r_checks r),
                     r_aliases := foldl (\<lambda>al a. AList.update a (m_ID m) al) (r_aliases r) (m_Aliases m)\<rparr>))"

text \<open>\<open>init()\<close> registers the built-in checks one by one and panics on the first error.\<close>

fun register_all :: "'r registry \<Rightarrow> 'r check list \<Rightarrow> reg_error + 'r registry" where
  "register_all r [] = Inr r"
| "register_all r (c # cs) = (case Register r c of Inl e \<Rightarrow> Inl e | Inr r' \<Rightarrow> register_all r' cs)"

definition registry_Lookup :: "'r registry \<Rightarrow> string \<Rightarrow> 'r check option" where
  "registry_Lookup r i =
     (let i' = (case map_of (r_aliases r) i of Some canonical \<Rightarrow> canonical | None \<Rightarrow> i)
      in map_of (r_checks r) i')"

definition compare_ID :: "'r check \<Rightarrow> 'r check \<Rightarrow> int" where
  "compare_ID a b = str_compare (check_ID a) (check_ID b)"

definition sortByID :: "'r check list \<Rightarrow> 'r check list" where
  "sortByID cs = sort_func compare_ID cs"

definition registry_All :: "'r registry \<Rightarrow> 'r check list" where
  "registry_All r = sortByID (map snd (r_checks r))"

definition pattern_char :: "char \<Rightarrow> bool" where
  "pattern_char c \<longleftrightarrow> is_lower c \<or> is_digit c \<or> c \<in> set ''_.*?''"

definition validatePattern :: "string \<Rightarrow> reg_error option" where
  "validatePattern p =
     (if p = [] then Some EmptyPattern
      else map_option (PatternCharacter p) (find (\<lambda>c. \<not> pattern_char c) p))"

definition registry_matches :: "'r registry \<Rightarrow> string \<Rightarrow> string \<Rightarrow> bool" where
  "registry_matches r pattern i =
     (if \<not> list_ex (\<lambda>c. c \<in> set ''*?'') pattern then
        (case map_of (r_aliases r) pattern of
           Some canonical \<Rightarrow> canonical = i
         | None \<Rightarrow> pattern = i)
      else Match pattern i)"

text \<open>The first loop of \<open>Select\<close>: \<open>Inr (include, exclude)\<close>.\<close>

fun split_patterns :: "string list \<Rightarrow> reg_error + string list \<times> string list" where
  "split_patterns [] = Inr ([], [])"
| "split_patterns (p # ps) =
     (let neg = has_prefix p ''!''; q = trim_prefix p ''!'' in
      case validatePattern q of
        Some e \<Rightarrow> Inl e
      | None \<Rightarrow>
        (case split_patterns ps of
           Inl e \<Rightarrow> Inl e
         | Inr (inc, exc) \<Rightarrow> Inr (if neg then (inc, q # exc) else (q # inc, exc))))"

text \<open>The second loop: every inclusion adds the checks it matches and must match at least one.\<close>

fun add_included ::
  "'r registry \<Rightarrow> (string \<times> 'r check) list \<Rightarrow> string list \<Rightarrow> reg_error + (string \<times> 'r check) list" where
  "add_included r selected [] = Inr selected"
| "add_included r selected (p # ps) =
     (let hits = filter (\<lambda>(i, c). registry_matches r p i) (r_checks r) in
      if hits = [] then Inl (MatchesNothing p)
      else add_included r (foldl (\<lambda>sel (i, c). AList.update i c sel) selected hits) ps)"

fun drop_excluded ::
  "'r registry \<Rightarrow> (string \<times> 'r check) list \<Rightarrow> string list \<Rightarrow> (string \<times> 'r check) list" where
  "drop_excluded r selected [] = selected"
| "drop_excluded r selected (p # ps) =
     drop_excluded r (filter (\<lambda>(i, c). \<not> registry_matches r p i) selected) ps"

definition Select :: "'r registry \<Rightarrow> string list \<Rightarrow> reg_error + 'r check list" where
  "Select r patterns =
     (case split_patterns patterns of
        Inl e \<Rightarrow> Inl e
      | Inr (inc, exc) \<Rightarrow>
        (case (if inc = [] then Inr (r_checks r) else add_included r [] inc) of
           Inl e \<Rightarrow> Inl e
         | Inr selected \<Rightarrow> Inr (sortByID (map snd (drop_excluded r selected exc)))))"

subsection \<open>The invariant of a registry\<close>

text \<open>The invariant of the two maps, seen as maps.\<close>

definition maps_ok :: "(string \<rightharpoonup> 'r check) \<Rightarrow> (string \<rightharpoonup> string) \<Rightarrow> bool" where
  "maps_ok C A \<longleftrightarrow>
     (\<forall>i c. C i = Some c \<longrightarrow> check_ID c = i \<and> meta_Validate (c_Meta c) = None) \<and>
     (\<forall>a i. A a = Some i \<longrightarrow> C i \<noteq> None \<and> C a = None)"

definition registry_ok :: "'r registry \<Rightarrow> bool" where
  "registry_ok r \<longleftrightarrow> distinct (map fst (r_checks r)) \<and> distinct (map fst (r_aliases r)) \<and>
     maps_ok (map_of (r_checks r)) (map_of (r_aliases r))"

lemma maps_ok_update:
  assumes "maps_ok C A" "meta_Validate (c_Meta c) = None" "C (check_ID c) = None" "A (check_ID c) = None"
    and "\<forall>a\<in>S. C a = None \<and> A a = None \<and> a \<noteq> check_ID c"
  shows "maps_ok (C(check_ID c \<mapsto> c)) (\<lambda>x. if x \<in> S then Some (check_ID c) else A x)"
  using assms unfolding maps_ok_def by auto

lemma maps_ok_lookup_update:
  assumes "maps_ok C A" "C (check_ID c) = None" "A (check_ID c) = None"
  shows "(C(check_ID c \<mapsto> c))
      (case (if i \<in> S then Some (check_ID c) else A i) of Some j \<Rightarrow> j | None \<Rightarrow> i) =
    (if i = check_ID c \<or> i \<in> S then Some c else C (case A i of Some j \<Rightarrow> j | None \<Rightarrow> i))"
proof -
  have "A i \<noteq> Some (check_ID c)"
    using assms(1,2) unfolding maps_ok_def by (metis option.distinct(1))
  then show ?thesis
    using assms unfolding maps_ok_def by (auto split: option.splits)
qed

lemma registry_ok_New: "registry_ok registry_New"
  by (simp add: registry_ok_def registry_New_def maps_ok_def)

lemma map_of_aliases:
  "map_of (foldl (\<lambda>al a. AList.update a i al) al as) =
    (\<lambda>x. if x \<in> set as then Some i else map_of al x)"
  by (induction as arbitrary: al) (auto simp: AList.update_conv' fun_eq_iff)

lemma distinct_aliases:
  "distinct (map fst al) \<Longrightarrow> distinct (map fst (foldl (\<lambda>al a. AList.update a i al) al as))"
  by (induction as arbitrary: al) (simp_all add: AList.distinct_update)

lemma first_taken_None: "first_taken r as = None \<longleftrightarrow> (\<forall>a\<in>set as. \<not> taken r a)"
  by (induction as) auto

lemma taken_iff: "taken r i \<longleftrightarrow> i \<in> fst ` set (r_checks r) \<or> i \<in> fst ` set (r_aliases r)"
  by (auto simp: taken_def map_of_eq_None_iff)

lemma Register_Inr:
  assumes "Register r c = Inr r'"
  shows "meta_Validate (c_Meta c) = None" "\<not> taken r (check_ID c)"
    "\<forall>a\<in>set (m_Aliases (c_Meta c)). \<not> taken r a"
    "map_of (r_checks r') = (map_of (r_checks r))(check_ID c \<mapsto> c)"
    "map_of (r_aliases r') =
       (\<lambda>x. if x \<in> set (m_Aliases (c_Meta c)) then Some (check_ID c) else map_of (r_aliases r) x)"
    "r_checks r' = AList.update (check_ID c) c (r_checks r)"
    "distinct (map fst (r_aliases r)) \<Longrightarrow> distinct (map fst (r_aliases r'))"
  using assms
  by (auto simp: Register_def Let_def first_taken_None AList.update_conv' map_of_aliases
      distinct_aliases split: option.splits if_splits)

lemma Register_ok:
  assumes "registry_ok r" and "Register r c = Inr r'"
  shows "registry_ok r'"
proof -
  note R = Register_Inr [OF assms(2)]
  have none: "map_of (r_checks r) (check_ID c) = None" "map_of (r_aliases r) (check_ID c) = None"
    using R(2) by (simp_all add: taken_def)
  have "\<forall>a\<in>set (m_Aliases (c_Meta c)). map_of (r_checks r) a = None \<and>
      map_of (r_aliases r) a = None \<and> a \<noteq> check_ID c"
    using R(1,3) by (simp add: taken_def meta_Validate_None)
  then have "maps_ok (map_of (r_checks r')) (map_of (r_aliases r'))"
    unfolding R(4,5) using assms(1) R(1) none
    by (intro maps_ok_update) (simp_all add: registry_ok_def)
  then show ?thesis
    using assms(1) R(6,7) by (simp add: registry_ok_def AList.distinct_update)
qed

lemma Register_finds:
  assumes "registry_ok r" and "Register r c = Inr r'"
  shows "registry_Lookup r' i =
    (if i = check_ID c \<or> i \<in> set (m_Aliases (c_Meta c)) then Some c else registry_Lookup r i)"
proof -
  note R = Register_Inr [OF assms(2)]
  have none: "map_of (r_checks r) (check_ID c) = None" "map_of (r_aliases r) (check_ID c) = None"
    using R(2) by (simp_all add: taken_def)
  have "maps_ok (map_of (r_checks r)) (map_of (r_aliases r))"
    using assms(1) by (simp add: registry_ok_def)
  from maps_ok_lookup_update [OF this none] show ?thesis by (simp add: registry_Lookup_def R(4,5))
qed

text \<open>
  C2 Register keeps the registry well formed: IDs are unique and are the checks' own, every check
  has valid metadata, every alias leads to a registered check and is no check's ID. A successful
  registration makes the check reachable under its ID and every former ID, and changes what no
  other name finds.
\<close>

theorem Register_Lookup:
  assumes "registry_ok r" and "Register r c = Inr r'"
  shows "registry_ok r' \<and>
    (\<forall>i. registry_Lookup r' i =
      (if i = check_ID c \<or> i \<in> set (m_Aliases (c_Meta c)) then Some c else registry_Lookup r i))"
  using Register_ok [OF assms] Register_finds [OF assms] by blast

subsection \<open>What Select selects\<close>

definition included :: "string list \<Rightarrow> string set" where
  "included ps = {p \<in> set ps. \<not> has_prefix p ''!''}"

definition excluded :: "string list \<Rightarrow> string set" where
  "excluded ps = {q. ''!'' @ q \<in> set ps}"

lemma split_patterns_Inr:
  "split_patterns ps = Inr (inc, exc) \<Longrightarrow>
    set inc = included ps \<and> set exc = excluded ps \<and> (\<forall>p\<in>set inc \<union> set exc. validatePattern p = None)"
proof (induction ps arbitrary: inc exc)
  case Nil
  then show ?case by (auto simp: included_def excluded_def)
next
  case (Cons p ps)
  then obtain inc' exc' where rec: "split_patterns ps = Inr (inc', exc')"
    by (auto simp: Let_def split: option.splits sum.splits)
  note IH = Cons.IH [OF rec]
  show ?case
  proof (cases "has_prefix p ''!''")
    case True
    then obtain q where p: "p = ''!'' @ q" by (auto simp: has_prefix_iff)
    then show ?thesis
      using Cons.prems rec IH by (auto simp: Let_def trim_prefix_def included_def excluded_def has_prefix_iff
          split: option.splits)
  next
    case False
    then show ?thesis
      using Cons.prems rec IH by (auto simp: Let_def trim_prefix_def included_def excluded_def has_prefix_iff
          split: option.splits)
  qed
qed

lemma set_update_known:
  assumes "distinct (map fst cs)" "(i, c) \<in> set cs" "set sel \<subseteq> set cs"
  shows "set (AList.update i c sel) = insert (i, c) (set sel)"
  using assms(3)
proof (induction sel)
  case (Cons x sel)
  have "x = (i, c)" if "fst x = i"
    using that Cons.prems assms(1,2) eq_key_imp_eq_value [of cs i c "snd x"] by (cases x) auto
  then show ?case using Cons by (cases x) auto
qed simp

lemma foldl_update_known:
  assumes "distinct (map fst cs)" "set hits \<subseteq> set cs" "set sel \<subseteq> set cs" "distinct (map fst sel)"
  defines "out \<equiv> foldl (\<lambda>sel (i, c). AList.update i c sel) sel hits"
  shows "set out = set sel \<union> set hits" "distinct (map fst out)"
proof -
  have "set (foldl (\<lambda>sel (i, c). AList.update i c sel) sel hits) = set sel \<union> set hits \<and>
      distinct (map fst (foldl (\<lambda>sel (i, c). AList.update i c sel) sel hits))"
    using assms(2-4)
  proof (induction hits arbitrary: sel)
    case (Cons x hits)
    obtain i c where x: "x = (i, c)" by (cases x)
    have "set (AList.update i c sel) = insert (i, c) (set sel)"
      using set_update_known [OF assms(1)] Cons.prems x by simp
    then show ?case
      using Cons.IH [of "AList.update i c sel"] Cons.prems x
      by (simp add: AList.distinct_update)
  qed simp
  then show "set out = set sel \<union> set hits" "distinct (map fst out)"
    unfolding out_def by simp_all
qed

lemma add_included_Inr:
  assumes "distinct (map fst (r_checks r))" "set sel \<subseteq> set (r_checks r)" "distinct (map fst sel)"
    and "add_included r sel ps = Inr out"
  shows "distinct (map fst out) \<and>
    set out = set sel \<union> {(i, c) \<in> set (r_checks r). \<exists>p\<in>set ps. registry_matches r p i} \<and>
    (\<forall>p\<in>set ps. \<exists>(i, c)\<in>set (r_checks r). registry_matches r p i)"
  using assms(2-4)
proof (induction ps arbitrary: sel)
  case (Cons p ps)
  define hits where "hits = filter (\<lambda>(i, c). registry_matches r p i) (r_checks r)"
  have hits: "hits \<noteq> []" "set hits \<subseteq> set (r_checks r)"
    and rec: "add_included r (foldl (\<lambda>sel (i, c). AList.update i c sel) sel hits) ps = Inr out"
    using Cons.prems(3) by (auto simp: hits_def Let_def split: if_splits)
  note F = foldl_update_known [OF assms(1) hits(2) Cons.prems(1,2)]
  have "set (foldl (\<lambda>sel (i, c). AList.update i c sel) sel hits) \<subseteq> set (r_checks r)"
    using F(1) hits(2) Cons.prems(1) by blast
  note IH = Cons.IH [OF this F(2) rec]
  have "\<exists>(i, c)\<in>set (r_checks r). registry_matches r p i"
    using hits(1) by (auto simp: hits_def filter_empty_conv)
  then show ?case
    using IH F(1) by (auto simp: hits_def)
qed simp

lemma add_included_Inl:
  "add_included r sel ps = Inl e \<Longrightarrow>
    \<exists>p\<in>set ps. e = MatchesNothing p \<and> (\<forall>(i, c)\<in>set (r_checks r). \<not> registry_matches r p i)"
  by (induction ps arbitrary: sel) (fastforce simp: Let_def filter_empty_conv split: if_splits)+

lemma drop_excluded_set:
  "set (drop_excluded r sel ps) = {(i, c) \<in> set sel. \<forall>p\<in>set ps. \<not> registry_matches r p i}"
  by (induction ps arbitrary: sel) auto

lemma drop_excluded_distinct:
  "distinct (map fst sel) \<Longrightarrow> distinct (map fst (drop_excluded r sel ps))"
  by (induction ps arbitrary: sel) (auto simp: distinct_map_filter)

lemma compare_ID_by: "compares_by compare_ID check_ID"
  using compares_by_cong [OF str_compare_by, of check_ID] by (simp add: compare_ID_def fun_eq_iff compares_by_def)

interpretation id_sort: sorter sort_func compare_ID check_ID
  by unfold_locales (simp_all add: compare_ID_by sorted_func_sort_func [OF compare_ID_by])

definition registered :: "'r registry \<Rightarrow> 'r check set" where
  "registered r = ran (map_of (r_checks r))"

lemma registered_iff:
  "registry_ok r \<Longrightarrow> c \<in> registered r \<longleftrightarrow> (check_ID c, c) \<in> set (r_checks r)"
  by (auto simp: registered_def ran_def registry_ok_def maps_ok_def)

text \<open>A list of (ID, check) pairs of the registry, sorted: IDs strictly ascending.\<close>

lemma sorted_pairs:
  assumes "registry_ok r" "set sel \<subseteq> set (r_checks r)" "distinct (map fst sel)"
  shows "sorted_wrt (\<lambda>a b. check_ID a < check_ID b) (sortByID (map snd sel))"
    "set (sortByID (map snd sel)) = {c \<in> registered r. (check_ID c, c) \<in> set sel}"
proof -
  have ids: "check_ID c = i" if "(i, c) \<in> set sel" for i c
  proof -
    have "map_of (r_checks r) i = Some c"
      using that assms(1,2) by (auto simp: registry_ok_def)
    then show ?thesis using assms(1) unfolding registry_ok_def maps_ok_def by blast
  qed
  have "map check_ID (map snd sel) = map fst sel"
    unfolding map_map
  proof (rule map_cong [OF refl])
    fix x assume "x \<in> set sel"
    then show "(check_ID \<circ> snd) x = fst x"
      using ids [of "fst x" "snd x"] by simp
  qed
  then have "distinct (map check_ID (map snd sel))"
    using assms(3) by (simp only:)
  then have "distinct (map check_ID (sortByID (map snd sel)))"
    unfolding sortByID_def by (metis mset_map mset_sort_func mset_eq_imp_distinct_iff)
  moreover have "sorted (map check_ID (sortByID (map snd sel)))"
    using id_sort.ordered by (simp add: sortByID_def sorted_func_key [OF compare_ID_by, symmetric])
  ultimately have "sorted_wrt (<) (map check_ID (sortByID (map snd sel)))"
    by (intro strict_sorted_iff [THEN iffD2] conjI)
  then show "sorted_wrt (\<lambda>a b. check_ID a < check_ID b) (sortByID (map snd sel))"
    by (simp only: sorted_wrt_map)
  show "set (sortByID (map snd sel)) = {c \<in> registered r. (check_ID c, c) \<in> set sel}"
  proof (rule set_eqI)
    fix c
    have 1: "c \<in> snd ` set sel \<longleftrightarrow> (check_ID c, c) \<in> set sel"
    proof
      assume "c \<in> snd ` set sel"
      then obtain i where i: "(i, c) \<in> set sel" by fastforce
      show "(check_ID c, c) \<in> set sel" unfolding ids [OF i] by (rule i)
    qed (rule image_eqI [of _ _ "(check_ID c, c)"], simp)
    have "set (sortByID (map snd sel)) = snd ` set sel"
      unfolding sortByID_def by simp
    then show "c \<in> set (sortByID (map snd sel)) \<longleftrightarrow> c \<in> {c \<in> registered r. (check_ID c, c) \<in> set sel}"
      using 1 assms(2) registered_iff [OF assms(1), of c] by blast
  qed
qed

lemma Select_result:
  assumes "registry_ok r"
  shows "case Select r ps of
      Inr cs \<Rightarrow> sorted_wrt (\<lambda>a b. check_ID a < check_ID b) cs \<and>
        set cs = {c \<in> registered r.
          (included ps = {} \<or> (\<exists>p\<in>included ps. registry_matches r p (check_ID c))) \<and>
          \<not> (\<exists>q\<in>excluded ps. registry_matches r q (check_ID c))}
    | Inl e \<Rightarrow> split_patterns ps = Inl e \<or>
        (\<exists>p\<in>included ps. e = MatchesNothing p \<and>
          (\<forall>c\<in>registered r. \<not> registry_matches r p (check_ID c)))"
proof (cases "split_patterns ps")
  case (Inl e)
  then show ?thesis by (simp add: Select_def)
next
  case (Inr ie)
  obtain inc exc where ie: "split_patterns ps = Inr (inc, exc)" using Inr by (cases ie) auto
  note sp = split_patterns_Inr [OF ie]
  have keys: "distinct (map fst (r_checks r))" using assms by (simp add: registry_ok_def)
  show ?thesis
  proof (cases "if inc = [] then Inr (r_checks r) else add_included r [] inc")
    case (Inl e)
    then have "add_included r [] inc = Inl e" by (simp split: if_splits)
    from add_included_Inl [OF this] show ?thesis
      using ie Inl sp registered_iff [OF assms] by (fastforce simp: Select_def)
  next
    case (Inr sel)
    have sel: "distinct (map fst sel)" "set sel = {(i, c) \<in> set (r_checks r).
        inc = [] \<or> (\<exists>p\<in>set inc. registry_matches r p i)}"
      using Inr keys add_included_Inr [OF keys, of "[]" inc sel] by (auto split: if_splits)
    define out where "out = drop_excluded r sel exc"
    have out: "set out \<subseteq> set (r_checks r)" "distinct (map fst out)"
      using sel by (auto simp: out_def drop_excluded_set intro!: drop_excluded_distinct)
    have "Select r ps = Inr (sortByID (map snd out))"
      using ie Inr by (simp add: Select_def out_def)
    then show ?thesis
      using sorted_pairs [OF assms out] sel(2) sp registered_iff [OF assms]
      by (auto simp: out_def drop_excluded_set)
  qed
qed

text \<open>
  C3 Select returns, in strictly ascending order of ID, exactly the registered checks that some
  inclusion matches (all of them when there is no inclusion) and that no exclusion matches,
  wherever the patterns stand in the list. It fails only for an ill-formed pattern or for an
  inclusion that matches no registered check.
\<close>

theorem Select_spec:
  assumes "registry_ok r"
  shows "case Select r ps of
      Inr cs \<Rightarrow> sorted_wrt (\<lambda>a b. check_ID a < check_ID b) cs \<and>
        set cs = {c \<in> registered r.
          (included ps = {} \<or> (\<exists>p\<in>included ps. registry_matches r p (check_ID c))) \<and>
          \<not> (\<exists>q\<in>excluded ps. registry_matches r q (check_ID c))}
    | Inl e \<Rightarrow> split_patterns ps = Inl e \<or>
        (\<exists>p\<in>included ps. e = MatchesNothing p \<and>
          (\<forall>c\<in>registered r. \<not> registry_matches r p (check_ID c)))"
  using Select_result [OF assms] .

definition demo_meta :: "string \<Rightarrow> string list \<Rightarrow> meta" where
  "demo_meta i as = \<lparr>m_ID = i, m_Aliases = as, m_Module = hd (split_on CHR ''.'' i),
     m_Title = ''t'', m_Description = [], m_Remediation = [], m_Mode = Passive,
     m_Severity = SeverityLow, m_References = [], m_Timeout = 0\<rparr>"

definition demo_check :: "string \<Rightarrow> string list \<Rightarrow> unit check" where
  "demo_check i as = \<lparr>c_Meta = demo_meta i as, c_Run = ()\<rparr>"

definition demo_registry :: "unit registry" where
  "demo_registry = \<lparr>r_checks = [(''a.b.c'', demo_check ''a.b.c'' [''a.b.old'']), (''a.d.e'', demo_check ''a.d.e'' [])],
     r_aliases = [(''a.b.old'', ''a.b.c'')]\<rparr>"

lemma registry_ok_register_all:
  "registry_ok r \<Longrightarrow> register_all r cs = Inr r' \<Longrightarrow> registry_ok r'"
  by (induction cs arbitrary: r) (auto split: sum.splits dest: Register_ok)

lemma demo_meta_valid:
  "meta_Validate (demo_meta ''a.b.c'' [''a.b.old'']) = None"
  "meta_Validate (demo_meta ''a.d.e'' []) = None"
  by code_simp+

lemma demo_registry_ok: "registry_ok demo_registry"
  using demo_meta_valid
  by (auto simp: registry_ok_def maps_ok_def demo_registry_def demo_check_def demo_meta_def)

theorem Register_Lookup_witness:
  "registry_Lookup demo_registry ''a.b.old'' = Some (demo_check ''a.b.c'' [''a.b.old''])"
proof -
  define r0 where
    "r0 = \<lparr>r_checks = [(''a.d.e'', demo_check ''a.d.e'' [])], r_aliases = []\<rparr>"
  have ok: "registry_ok r0"
    using demo_meta_valid(2) by (auto simp: r0_def registry_ok_def maps_ok_def demo_check_def demo_meta_def)
  obtain r1 where r1: "Register r0 (demo_check ''a.b.c'' [''a.b.old'']) = Inr r1"
    using demo_meta_valid(1)
    by (simp add: r0_def Register_def Let_def demo_check_def demo_meta_def taken_def)
  then have "r1 = \<lparr>r_checks = [(''a.d.e'', demo_check ''a.d.e'' []), (''a.b.c'', demo_check ''a.b.c'' [''a.b.old''])],
      r_aliases = [(''a.b.old'', ''a.b.c'')]\<rparr>"
    using demo_meta_valid(1)
    by (simp add: r0_def Register_def Let_def demo_check_def demo_meta_def taken_def)
  moreover have "registry_Lookup r1 ''a.b.old'' = Some (demo_check ''a.b.c'' [''a.b.old''])"
    using Register_Lookup [OF ok r1] by (simp add: demo_check_def demo_meta_def)
  ultimately show ?thesis
    by (simp add: registry_Lookup_def demo_registry_def)
qed

lemma demo_matches:
  "split_patterns [''!a.d.*''] = Inr ([], [''a.d.*''])"
  by code_simp

theorem Select_spec_witness:
  "\<exists>cs. Select demo_registry [''!a.d.*''] = Inr cs \<and> demo_check ''a.b.c'' [''a.b.old''] \<in> set cs"
proof -
  have "Select demo_registry [''!a.d.*''] \<noteq> Inl e" for e
    unfolding Select_def demo_matches by simp
  then obtain cs where cs: "Select demo_registry [''!a.d.*''] = Inr cs"
    by (metis sum.exhaust)
  have exc: "excluded [''!a.d.*''] = {''a.d.*''}" "included [''!a.d.*''] = {}"
    by (auto simp: excluded_def included_def has_prefix_def)
  have "demo_check ''a.b.c'' [''a.b.old''] \<in> registered demo_registry"
    unfolding registered_iff [OF demo_registry_ok]
    by (simp add: demo_registry_def demo_check_def demo_meta_def)
  moreover have "\<not> registry_matches demo_registry ''a.d.*'' ''a.b.c''"
    using Match_glob [of "''a.b.c''" "''a.d.*''"] by (simp add: registry_matches_def)
  ultimately show ?thesis
    using Select_spec [OF demo_registry_ok, of "[''!a.d.*'']"] cs exc
    by (simp add: demo_check_def demo_meta_def)
qed

subsection \<open>The iteration order of the maps does not matter\<close>

lemma registry_matches_cong:
  "map_of (r_aliases r) = map_of (r_aliases r') \<Longrightarrow> registry_matches r = registry_matches r'"
  by (simp add: registry_matches_def fun_eq_iff)

lemma pairs_of_map:
  "distinct (map fst xs) \<Longrightarrow> distinct (map fst ys) \<Longrightarrow> map_of xs = map_of ys \<Longrightarrow> set xs = set ys"
  by (metis map_of_eq_Some_iff subrelI subset_antisym)

lemma add_included_fails:
  "(case add_included r sel ps of Inl e \<Rightarrow> Some e | Inr _ \<Rightarrow> None) =
   map_option MatchesNothing
     (find (\<lambda>p. \<forall>(i, c)\<in>set (r_checks r). \<not> registry_matches r p i) ps)"
proof (induction ps arbitrary: sel)
  case (Cons p ps)
  then show ?case
    by (cases "\<forall>x\<in>set (r_checks r). \<not> registry_matches r p (fst x)")
      (auto simp add: Let_def filter_empty_conv case_prod_unfold)
qed simp

lemma strictly_sorted_unique:
  assumes "sorted_wrt (\<lambda>a b. check_ID a < check_ID b) xs"
    and "sorted_wrt (\<lambda>a b. check_ID a < check_ID b) ys" and "set xs = set ys"
  shows "xs = ys"
proof -
  have s: "sorted_wrt (<) (map check_ID xs)" "sorted_wrt (<) (map check_ID ys)"
    using assms(1,2) by (simp_all only: sorted_wrt_map)
  note xs = conjunct1 [OF s(1) [unfolded strict_sorted_iff]] conjunct2 [OF s(1) [unfolded strict_sorted_iff]]
    and ys = conjunct1 [OF s(2) [unfolded strict_sorted_iff]] conjunct2 [OF s(2) [unfolded strict_sorted_iff]]
  have eq: "map check_ID xs = map check_ID ys"
    by (rule sorted_distinct_set_unique [OF xs ys]) (simp only: set_map assms(3))
  have "inj_on check_ID (set xs \<union> set ys)"
    using xs(2) unfolding distinct_map assms(3) Un_absorb by blast
  from inj_on_map_eq_map [OF this] eq show ?thesis by blast
qed

text \<open>
  Two registries with the same checks and aliases select the same list, or fail with the same
  error, whatever order Go iterates over their maps in.
\<close>

lemma Select_order_independent:
  assumes ok: "registry_ok r" "registry_ok r'"
    and C: "map_of (r_checks r) = map_of (r_checks r')" and A: "map_of (r_aliases r) = map_of (r_aliases r')"
  shows "Select r ps = Select r' ps"
proof (cases "split_patterns ps")
  case (Inl e)
  then show ?thesis by (simp add: Select_def)
next
  case (Inr ie)
  obtain inc exc where ie: "split_patterns ps = Inr (inc, exc)" using Inr by (cases ie) auto
  have M: "registry_matches r = registry_matches r'" by (rule registry_matches_cong [OF A])
  have S: "set (r_checks r) = set (r_checks r')"
    using ok pairs_of_map [OF _ _ C] by (simp add: registry_ok_def)
  have R: "registered r = registered r'" by (simp add: registered_def C)
  have same: "(case add_included r [] inc of Inl e \<Rightarrow> Some e | Inr _ \<Rightarrow> None) =
      (case add_included r' [] inc of Inl e \<Rightarrow> Some e | Inr _ \<Rightarrow> None)"
    unfolding add_included_fails M S ..
  show ?thesis
  proof (cases "Select r ps")
    case (Inl e)
    then show ?thesis using ie same by (auto simp: Select_def split: sum.splits if_splits)
  next
    case (Inr cs)
    then obtain cs' where cs': "Select r' ps = Inr cs'"
      using ie same by (auto simp: Select_def split: sum.splits if_splits)
    have "cs = cs'"
      using Select_result [OF ok(1), of ps] Select_result [OF ok(2), of ps] Inr cs'
      by (intro strictly_sorted_unique) (simp_all add: M R)
    then show ?thesis using Inr cs' by simp
  qed
qed

lemma Select_order_independent_witness:
  "Select demo_registry [''a.*''] = Select (demo_registry\<lparr>r_checks := rev (r_checks demo_registry)\<rparr>) [''a.*'']"
proof (rule Select_order_independent [OF demo_registry_ok])
  show "registry_ok (demo_registry\<lparr>r_checks := rev (r_checks demo_registry)\<rparr>)"
    using demo_meta_valid
    by (auto simp: registry_ok_def maps_ok_def demo_registry_def demo_check_def demo_meta_def)
qed (auto simp: demo_registry_def fun_eq_iff)

end
