(* ===== verification/SetaEngine.thy ===== *)
theory SetaEngine
  imports SetaRegistry
begin

text \<open>
  Package internal/engine. \<open>normalize\<close> and \<open>runOne\<close> are functions; how the timers and the
  check's goroutine raced is an argument of \<open>runOne\<close>. The worker pool of \<open>Run\<close> is a step
  relation on the stage of every execution: its semaphores bound what runs at once, and the
  result does not depend on the order in which checks finish.
  Durations are nanoseconds. The error values of checks are a parameter.
\<close>

subsection \<open>Comparing findings\<close>

definition CompareFindings :: "finding \<Rightarrow> finding \<Rightarrow> int" where
  "CompareFindings a b =
     cmp_or [str_compare (f_Target a) (f_Target b),
             int_compare (f_Severity b) (f_Severity a),
             str_compare (f_CheckID a) (f_CheckID b),
             str_compare (f_Subject a) (f_Subject b)]"

definition finding_key :: "finding \<Rightarrow> string \<times> int \<times> string \<times> string" where
  "finding_key f = (f_Target f, - f_Severity f, f_CheckID f, f_Subject f)"

lemma CompareFindings_by: "compares_by CompareFindings finding_key"
proof -
  have sev: "compares_by (\<lambda>a b. int_compare (f_Severity b) (f_Severity a)) (\<lambda>f. - f_Severity f)"
    by (auto simp: compares_by_def int_compare_def)
  show ?thesis
    unfolding CompareFindings_def [abs_def] finding_key_def [abs_def]
    by (intro compares_by_cmp_or4 sev compares_by_cong [OF str_compare_by])
qed

interpretation finding_sort: sorter sort_func CompareFindings finding_key
  by unfold_locales (simp_all add: CompareFindings_by sorted_func_sort_func [OF CompareFindings_by])

subsection \<open>normalize\<close>

datatype norm_error =
    DuplicateSubject string
  | ForeignCheckID string
  | ForeignTarget string
  | InvalidSeverity severity

definition fill_finding :: "meta \<Rightarrow> target \<Rightarrow> finding \<Rightarrow> norm_error + finding" where
  "fill_finding m t f =
     (if f_CheckID f \<noteq> [] \<and> f_CheckID f \<noteq> m_ID m then Inl (ForeignCheckID (f_CheckID f))
      else if f_Target f \<noteq> [] \<and> f_Target f \<noteq> t_Name t then Inl (ForeignTarget (f_Target f))
      else if f_Severity f \<noteq> SeverityUnset \<and> \<not> severity_Valid (f_Severity f)
        then Inl (InvalidSeverity (f_Severity f))
      else Inr (f\<lparr>f_CheckID := m_ID m, f_Target := t_Name t,
        f_Severity := (if f_Severity f = SeverityUnset then m_Severity m else f_Severity f),
        f_Title := (if f_Title f = [] then m_Title m else f_Title f),
        f_Remediation := (if f_Remediation f = [] then m_Remediation m else f_Remediation f),
        f_References := (if f_References f = None then Some (m_References m) else f_References f)\<rparr>))"

fun normalize_from :: "meta \<Rightarrow> target \<Rightarrow> string list \<Rightarrow> finding list \<Rightarrow> norm_error + finding list" where
  "normalize_from m t seen [] = Inr []"
| "normalize_from m t seen (f # fs) =
     (if f_Subject f \<in> set seen then Inl (DuplicateSubject (f_Subject f))
      else case fill_finding m t f of
          Inl e \<Rightarrow> Inl e
        | Inr g \<Rightarrow>
          (case normalize_from m t (f_Subject f # seen) fs of
             Inl e \<Rightarrow> Inl e
           | Inr gs \<Rightarrow> Inr (g # gs)))"

definition normalize :: "meta \<Rightarrow> target \<Rightarrow> finding list \<Rightarrow> norm_error + finding list" where
  "normalize m t fs = normalize_from m t [] fs"

text \<open>A finding as the engine accepts it from the check \<open>m\<close> on the target \<open>t\<close>.\<close>

definition acceptable :: "meta \<Rightarrow> target \<Rightarrow> finding \<Rightarrow> bool" where
  "acceptable m t f \<longleftrightarrow> f_CheckID f \<in> {[], m_ID m} \<and> f_Target f \<in> {[], t_Name t} \<and>
     (f_Severity f = SeverityUnset \<or> severity_Valid (f_Severity f))"

lemma fill_finding_Inl: "fill_finding m t f = Inl e \<Longrightarrow> \<not> acceptable m t f"
  by (auto simp: fill_finding_def acceptable_def split: if_splits)

lemma fill_finding_Inr:
  assumes "fill_finding m t f = Inr g"
  shows "acceptable m t f" "f_CheckID g = m_ID m" "f_Target g = t_Name t"
    "f_Subject g = f_Subject f" "f_Evidence g = f_Evidence f"
    "severity_Valid (m_Severity m) \<Longrightarrow> severity_Valid (f_Severity g)"
    "m_Title m \<noteq> [] \<Longrightarrow> f_Title g \<noteq> []" "f_References g \<noteq> None"
  using assms by (auto simp: fill_finding_def acceptable_def split: if_splits)

lemma normalize_from_cases:
  "case normalize_from m t seen fs of
     Inl e \<Rightarrow> \<not> (list_all (acceptable m t) fs \<and> distinct (map f_Subject fs) \<and>
                 set seen \<inter> f_Subject ` set fs = {})
   | Inr gs \<Rightarrow> list_all (acceptable m t) fs \<and> distinct (map f_Subject fs) \<and>
       set seen \<inter> f_Subject ` set fs = {} \<and> map f_Subject gs = map f_Subject fs \<and>
       list_all2 (\<lambda>f g. fill_finding m t f = Inr g) fs gs"
proof (induction fs arbitrary: seen)
  case (Cons f fs)
  show ?case
  proof (cases "f_Subject f \<in> set seen")
    case False
    show ?thesis
    proof (cases "fill_finding m t f")
      case (Inl e)
      then show ?thesis using False fill_finding_Inl [OF Inl] by simp
    next
      case (Inr g)
      note g = fill_finding_Inr [OF Inr]
      show ?thesis
        using Cons.IH [of "f_Subject f # seen"] False Inr g
        by (cases "normalize_from m t (f_Subject f # seen) fs") auto
    qed
  qed simp
qed simp

lemma normalize_Inr:
  assumes "normalize m t fs = Inr gs" and "g \<in> set gs"
  shows "f_CheckID g = m_ID m" "f_Target g = t_Name t"
    "severity_Valid (m_Severity m) \<Longrightarrow> severity_Valid (f_Severity g)"
proof -
  have "list_all2 (\<lambda>f g. fill_finding m t f = Inr g) fs gs"
    using normalize_from_cases [of m t fs "[]"] assms(1) by (simp add: normalize_def)
  then obtain f where "fill_finding m t f = Inr g"
    using assms(2) by (auto simp: list_all2_conv_all_nth in_set_conv_nth)
  from fill_finding_Inr [OF this]
  show "f_CheckID g = m_ID m" "f_Target g = t_Name t"
    "severity_Valid (m_Severity m) \<Longrightarrow> severity_Valid (f_Severity g)" by blast+
qed

lemma normalize_subjects:
  "normalize m t fs = Inr gs \<Longrightarrow> distinct (map f_Subject gs)"
  using normalize_from_cases [of m t fs "[]"] by (simp add: normalize_def)

lemma normalize_accepts:
  assumes "list_all (acceptable m t) fs" "distinct (map f_Subject fs)"
  shows "\<exists>gs. normalize m t fs = Inr gs"
  using normalize_from_cases [of m t fs "[]"] assms by (cases "normalize_from m t [] fs") (auto simp: normalize_def)

lemma normalize_rejects:
  assumes "\<not> distinct (map f_Subject fs)"
  shows "\<exists>e. normalize m t fs = Inl e"
  using normalize_from_cases [of m t fs "[]"] assms by (cases "normalize_from m t [] fs") (auto simp: normalize_def)

text \<open>
  C4 normalize accepts the findings of a check exactly when every one belongs to this check and
  this target (or leaves the field blank), has a valid severity or none, and no two share a
  subject. Then it returns them one for one, in order, each with the check's ID, the target's
  name, a valid severity, a title and references, the subjects and evidence untouched.
\<close>

theorem normalize_spec:
  assumes "meta_Validate m = None"
  shows "case normalize m t fs of
      Inl e \<Rightarrow> \<not> (list_all (acceptable m t) fs \<and> distinct (map f_Subject fs))
    | Inr gs \<Rightarrow> list_all (acceptable m t) fs \<and> distinct (map f_Subject gs) \<and>
        list_all2 (\<lambda>f g. f_Subject g = f_Subject f \<and> f_Evidence g = f_Evidence f \<and>
          f_CheckID g = m_ID m \<and> f_Target g = t_Name t \<and> severity_Valid (f_Severity g) \<and>
          f_Title g \<noteq> [] \<and> f_References g \<noteq> None) fs gs"
proof (cases "normalize m t fs")
  case (Inl e)
  then show ?thesis
    using normalize_from_cases [of m t fs "[]"] by (simp add: normalize_def)
next
  case (Inr gs)
  have m: "severity_Valid (m_Severity m)" "m_Title m \<noteq> []"
    using assms by (simp_all add: meta_Validate_None)
  have *: "list_all2 (\<lambda>f g. fill_finding m t f = Inr g) fs gs" "list_all (acceptable m t) fs"
    using normalize_from_cases [of m t fs "[]"] Inr by (simp_all add: normalize_def)
  have "list_all2 (\<lambda>f g. f_Subject g = f_Subject f \<and> f_Evidence g = f_Evidence f \<and>
          f_CheckID g = m_ID m \<and> f_Target g = t_Name t \<and> severity_Valid (f_Severity g) \<and>
          f_Title g \<noteq> [] \<and> f_References g \<noteq> None) fs gs"
  proof (rule list_all2_mono [OF *(1)])
    fix f g assume g: "fill_finding m t f = Inr g"
    from fill_finding_Inr [OF g] m
    show "f_Subject g = f_Subject f \<and> f_Evidence g = f_Evidence f \<and>
          f_CheckID g = m_ID m \<and> f_Target g = t_Name t \<and> severity_Valid (f_Severity g) \<and>
          f_Title g \<noteq> [] \<and> f_References g \<noteq> None"
      by blast
  qed
  then show ?thesis
    using Inr * normalize_subjects [OF Inr] by simp
qed

definition target_named :: "string \<Rightarrow> target" where
  "target_named d = \<lparr>t_Name = d,
     t_Email = \<lparr>e_DKIMSelectors = [], e_SelectorsGuessed = False, e_ExpectedMX = [], e_DNSBLs = [],
       e_SpamhausDQSKey = []\<rparr>,
     t_Plugins = Map.empty, t_Hosts = None, t_URLs = []\<rparr>"

theorem normalize_spec_witness:
  "\<exists>gs. normalize (demo_meta ''a.d.e'' []) (target_named ''x.example'') [finding0\<lparr>f_Subject := ''s''\<rparr>] = Inr gs \<and>
    distinct (map f_Subject gs)"
  using normalize_spec [OF demo_meta_valid(2), of "target_named ''x.example''" "[finding0\<lparr>f_Subject := ''s''\<rparr>]"]
  by (auto simp: acceptable_def finding0_def split: sum.splits)

subsection \<open>runOne\<close>

definition or_default :: "int \<Rightarrow> int \<Rightarrow> int" where
  "or_default v d = (if v \<le> 0 then d else v)"

definition DefaultWorkers :: int where "DefaultWorkers = 16"

definition DefaultPerTarget :: int where "DefaultPerTarget = 4"

definition DefaultCheckTimeout :: int where "DefaultCheckTimeout = 15 * 1000000000"

record engine =
  en_Workers :: int
  en_PerTarget :: int
  en_CheckTimeout :: int

datatype ('f, 'e) outcome = Returned 'f "'e option" | Paniced string

text \<open>
  What the runtime decided while the check ran: whether the run was already cancelled, the
  outcome the select statement received (None: the deadline or the cancellation came first and
  no result raced with it), and the states of the two contexts afterwards.
\<close>

record 'e race =
  rc_cancelled_before :: "'e option"
  rc_outcome :: "(finding list, 'e) outcome option"
  rc_deadline :: bool
  rc_ctx_err :: "'e option"

datatype 'e run_error =
    CancelledBefore 'e
  | Cancelled 'e
  | TimedOut int
  | TimedOutWith int "'e run_error"
  | CheckPanicked string
  | CheckErr 'e
  | Rejected norm_error

definition check_timeout :: "engine \<Rightarrow> meta \<Rightarrow> int" where
  "check_timeout e m = or_default (m_Timeout m) (or_default (en_CheckTimeout e) DefaultCheckTimeout)"

text \<open>\<open>is_timeout\<close> is \<open>errors.Is(err, ErrTimeout)\<close> on the error of a check.\<close>

fun wraps_timeout :: "('e \<Rightarrow> bool) \<Rightarrow> 'e run_error \<Rightarrow> bool" where
  "wraps_timeout is_timeout (CancelledBefore e) = is_timeout e"
| "wraps_timeout is_timeout (Cancelled e) = is_timeout e"
| "wraps_timeout is_timeout (TimedOut _) = True"
| "wraps_timeout is_timeout (TimedOutWith _ _) = True"
| "wraps_timeout is_timeout (CheckPanicked _) = False"
| "wraps_timeout is_timeout (CheckErr e) = is_timeout e"
| "wraps_timeout is_timeout (Rejected _) = False"

definition raced_outcome :: "int \<Rightarrow> 'e race \<Rightarrow> finding list \<times> 'e run_error option" where
  "raced_outcome timeout rc =
     (case rc_outcome rc of
        Some (Returned fs err) \<Rightarrow> (fs, map_option CheckErr err)
      | Some (Paniced p) \<Rightarrow> ([], Some (CheckPanicked p))
      | None \<Rightarrow>
        (case rc_ctx_err rc of
           Some e \<Rightarrow> ([], Some (Cancelled e))
         | None \<Rightarrow> ([], Some (TimedOut timeout))))"

definition runOne ::
  "('e \<Rightarrow> bool) \<Rightarrow> engine \<Rightarrow> meta \<Rightarrow> target \<Rightarrow> 'e race \<Rightarrow> 'e run_error + finding list" where
  "runOne is_timeout e m t rc =
     (case rc_cancelled_before rc of
        Some c \<Rightarrow> Inl (CancelledBefore c)
      | None \<Rightarrow>
        let timeout = check_timeout e m in
        (case raced_outcome timeout rc of
           (fs, Some err) \<Rightarrow>
             Inl (if rc_deadline rc \<and> rc_ctx_err rc = None \<and> \<not> wraps_timeout is_timeout err
                  then TimedOutWith timeout err else err)
         | (fs, None) \<Rightarrow>
             (case normalize m t fs of Inl ne \<Rightarrow> Inl (Rejected ne) | Inr gs \<Rightarrow> Inr gs)))"

text \<open>
  C5 What becomes of a check. It contributes findings exactly when the run was not cancelled before it started,
  a result of the check was received (one that raced with the deadline counts, late as it is), it carries no
  error, and normalize accepts its findings; findings normalize rejects are its error, which says nothing of the
  deadline. Without a result the error is the run's cancellation, or else the timeout with the check's own limit,
  the engine's or 15 seconds. A panic or an error of the check is an error; it carries the timeout exactly when the
  deadline had passed and the run was not cancelled, or when the check's own error is a timeout.
\<close>

theorem runOne_spec:
  "(\<forall>gs. runOne is_timeout e m t rc = Inr gs \<longleftrightarrow>
      rc_cancelled_before rc = None \<and>
      (\<exists>fs. rc_outcome rc = Some (Returned fs None) \<and> normalize m t fs = Inr gs)) \<and>
   (\<forall>ne. runOne is_timeout e m t rc = Inl (Rejected ne) \<longleftrightarrow>
      rc_cancelled_before rc = None \<and>
      (\<exists>fs. rc_outcome rc = Some (Returned fs None) \<and> normalize m t fs = Inl ne)) \<and>
   (rc_cancelled_before rc = None \<and> rc_outcome rc = None \<longrightarrow>
      runOne is_timeout e m t rc = Inl (case rc_ctx_err rc of
         Some c \<Rightarrow> Cancelled c
       | None \<Rightarrow> TimedOut (if 0 < m_Timeout m then m_Timeout m
                         else if 0 < en_CheckTimeout e then en_CheckTimeout e else 15000000000))) \<and>
   (\<forall>p. rc_cancelled_before rc = None \<and> rc_outcome rc = Some (Paniced p) \<longrightarrow>
      (\<exists>err. runOne is_timeout e m t rc = Inl err \<and>
         (wraps_timeout is_timeout err \<longleftrightarrow> rc_deadline rc \<and> rc_ctx_err rc = None))) \<and>
   (\<forall>fs x. rc_cancelled_before rc = None \<and> rc_outcome rc = Some (Returned fs (Some x)) \<longrightarrow>
      (\<exists>err. runOne is_timeout e m t rc = Inl err \<and>
         (wraps_timeout is_timeout err \<longleftrightarrow> rc_deadline rc \<and> rc_ctx_err rc = None \<or> is_timeout x)))"
  unfolding runOne_def raced_outcome_def check_timeout_def or_default_def DefaultCheckTimeout_def
  by (auto simp: Let_def split: option.splits sum.splits outcome.splits if_splits)

definition demo_race :: "unit race" where
  "demo_race = \<lparr>rc_cancelled_before = None, rc_outcome = None, rc_deadline = True, rc_ctx_err = None\<rparr>"

theorem runOne_spec_witness:
  "runOne (\<lambda>_. False) \<lparr>en_Workers = 0, en_PerTarget = 0, en_CheckTimeout = 0\<rparr>
     (demo_meta ''a.d.e'' []) (target_named ''x.example'') demo_race = Inl (TimedOut 15000000000) \<and>
   wraps_timeout (\<lambda>_. False) (TimedOut 15000000000 :: unit run_error)"
  using runOne_spec [of "\<lambda>_. False" "\<lparr>en_Workers = 0, en_PerTarget = 0, en_CheckTimeout = 0\<rparr>"
      "demo_meta ''a.d.e'' []" "target_named ''x.example''" demo_race]
  by (simp add: runOne_def demo_race_def raced_outcome_def check_timeout_def or_default_def
      DefaultCheckTimeout_def demo_meta_def Let_def)

subsection \<open>The worker pool of Run\<close>

text \<open>
  An execution waits for its target's slot, then for a global slot, runs its check, records the
  outcome under the mutex, and gives the slots back in the opposite order (deferred calls).
\<close>

datatype stage = Waiting | Slotted | Running | Recorded | Released | Finished

definition holds_target :: "stage \<Rightarrow> bool" where
  "holds_target s \<longleftrightarrow> s \<in> {Slotted, Running, Recorded, Released}"

definition holds_global :: "stage \<Rightarrow> bool" where
  "holds_global s \<longleftrightarrow> s \<in> {Running, Recorded}"

definition has_recorded :: "stage \<Rightarrow> bool" where
  "has_recorded s \<longleftrightarrow> s \<in> {Recorded, Released, Finished}"

text \<open>An execution: the index of its job, its target and its check's metadata.\<close>

record execution =
  x_job :: nat
  x_target :: target
  x_meta :: meta

record 'e check_error =
  ce_CheckID :: string
  ce_Target :: string
  ce_Err :: 'e

record 'e pool =
  p_stages :: "stage list"
  p_findings :: "finding list"
  p_errors :: "'e check_error list"

definition target_load :: "execution list \<Rightarrow> nat \<Rightarrow> stage list \<Rightarrow> nat" where
  "target_load xs j ss = length (filter (\<lambda>(x, s). x_job x = j \<and> holds_target s) (zip xs ss))"

definition global_load :: "stage list \<Rightarrow> nat" where
  "global_load ss = length (filter holds_global ss)"

definition record_outcome ::
  "execution \<Rightarrow> 'e + finding list \<Rightarrow> 'e pool \<Rightarrow> 'e pool" where
  "record_outcome x r p =
     (case r of
        Inl e \<Rightarrow> p\<lparr>p_errors := p_errors p @
          [\<lparr>ce_CheckID = m_ID (x_meta x), ce_Target = t_Name (x_target x), ce_Err = e\<rparr>]\<rparr>
      | Inr fs \<Rightarrow> p\<lparr>p_findings := p_findings p @ fs\<rparr>)"

definition set_stage :: "nat \<Rightarrow> stage \<Rightarrow> 'e pool \<Rightarrow> 'e pool" where
  "set_stage i s p = p\<lparr>p_stages := (p_stages p)[i := s]\<rparr>"

inductive pool_step ::
  "nat \<Rightarrow> nat \<Rightarrow> execution list \<Rightarrow> (nat \<Rightarrow> 'e + finding list) \<Rightarrow> 'e pool \<Rightarrow> 'e pool \<Rightarrow> bool"
  for workers perTarget xs results
where
  take_target: "i < length (p_stages p) \<Longrightarrow> p_stages p ! i = Waiting \<Longrightarrow>
     target_load xs (x_job (xs ! i)) (p_stages p) < perTarget \<Longrightarrow>
     pool_step workers perTarget xs results p (set_stage i Slotted p)"
| take_global: "i < length (p_stages p) \<Longrightarrow> p_stages p ! i = Slotted \<Longrightarrow>
     global_load (p_stages p) < workers \<Longrightarrow>
     pool_step workers perTarget xs results p (set_stage i Running p)"
| record_result: "i < length (p_stages p) \<Longrightarrow> p_stages p ! i = Running \<Longrightarrow>
     pool_step workers perTarget xs results p
       (set_stage i Recorded (record_outcome (xs ! i) (results i) p))"
| give_global: "i < length (p_stages p) \<Longrightarrow> p_stages p ! i = Recorded \<Longrightarrow>
     pool_step workers perTarget xs results p (set_stage i Released p)"
| give_target: "i < length (p_stages p) \<Longrightarrow> p_stages p ! i = Released \<Longrightarrow>
     pool_step workers perTarget xs results p (set_stage i Finished p)"

definition pool_start :: "execution list \<Rightarrow> 'e pool" where
  "pool_start xs = \<lparr>p_stages = replicate (length xs) Waiting, p_findings = [], p_errors = []\<rparr>"

abbreviation pool_reach ::
  "nat \<Rightarrow> nat \<Rightarrow> execution list \<Rightarrow> (nat \<Rightarrow> 'e + finding list) \<Rightarrow> 'e pool \<Rightarrow> bool" where
  "pool_reach workers perTarget xs results p \<equiv>
     (pool_step workers perTarget xs results)\<^sup>*\<^sup>* (pool_start xs) p"

lemma stages_record_outcome [simp]: "p_stages (record_outcome x r p) = p_stages p"
  by (simp add: record_outcome_def split: sum.splits)

lemma pool_set_stage [simp]:
  "p_stages (set_stage i s p) = (p_stages p)[i := s]"
  "p_findings (set_stage i s p) = p_findings p"
  "p_errors (set_stage i s p) = p_errors p"
  by (simp_all add: set_stage_def)

lemma length_filter_update:
  "i < length xs \<Longrightarrow> length (filter P (xs[i := y])) + (if P (xs ! i) then 1 else 0) =
     length (filter P xs) + (if P y then 1 else 0)"
proof (induction xs arbitrary: i)
  case (Cons x xs)
  then show ?case by (cases i) auto
qed simp

lemma global_load_update:
  assumes "i < length ss"
  shows "global_load (ss[i := s]) + (if holds_global (ss ! i) then 1 else 0) =
    global_load ss + (if holds_global s then 1 else 0)"
  unfolding global_load_def by (rule length_filter_update [OF assms])

lemma target_load_update:
  assumes "i < length ss" "length xs = length ss"
  shows "target_load xs j (ss[i := s]) + (if x_job (xs ! i) = j \<and> holds_target (ss ! i) then 1 else 0) =
    target_load xs j ss + (if x_job (xs ! i) = j \<and> holds_target s then 1 else 0)"
proof -
  have z: "zip xs (ss[i := s]) = (zip xs ss)[i := (xs ! i, s)]"
    using update_zip [of xs ss i "(xs ! i, s)"] by simp
  show ?thesis
    using length_filter_update [of i "zip xs ss" "\<lambda>(x, s). x_job x = j \<and> holds_target s" "(xs ! i, s)"] assms
    by (simp add: target_load_def z)
qed

lemma global_load_same:
  "i < length ss \<Longrightarrow> holds_global s = holds_global (ss ! i) \<Longrightarrow> global_load (ss[i := s]) = global_load ss"
  using global_load_update [of i ss s] by (simp split: if_splits)

lemma target_load_same:
  "i < length ss \<Longrightarrow> length xs = length ss \<Longrightarrow> holds_target s = holds_target (ss ! i) \<Longrightarrow>
    target_load xs j (ss[i := s]) = target_load xs j ss"
  using target_load_update [of i ss xs j s] by (simp split: if_splits)

definition pool_bounded :: "nat \<Rightarrow> nat \<Rightarrow> execution list \<Rightarrow> 'e pool \<Rightarrow> bool" where
  "pool_bounded workers perTarget xs p \<longleftrightarrow>
     length (p_stages p) = length xs \<and> global_load (p_stages p) \<le> workers \<and>
     (\<forall>j. target_load xs j (p_stages p) \<le> perTarget)"

lemma pool_bounded_start: "pool_bounded workers perTarget xs (pool_start xs)"
proof -
  have "filter (\<lambda>(x, s). x_job x = j \<and> holds_target s) (zip xs (replicate (length xs) Waiting)) = []" for j
    by (simp add: filter_empty_conv zip_replicate2 holds_target_def)
  then show ?thesis
    by (simp add: pool_bounded_def pool_start_def global_load_def target_load_def holds_global_def)
qed

lemma pool_bounded_step:
  assumes "pool_step workers perTarget xs results p q" and "pool_bounded workers perTarget xs p"
  shows "pool_bounded workers perTarget xs q"
  using assms
proof (induction rule: pool_step.induct)
  case (take_target i p)
  have len: "length xs = length (p_stages p)" and le: "target_load xs j (p_stages p) \<le> perTarget" for j
    using take_target(4) by (simp_all add: pool_bounded_def)
  have "target_load xs j ((p_stages p)[i := Slotted]) \<le> perTarget" for j
    using target_load_update [OF take_target(1) len, of j Slotted] take_target(2,3) le [of j]
    by (cases "x_job (xs ! i) = j") (simp_all add: holds_target_def)
  moreover have "global_load ((p_stages p)[i := Slotted]) = global_load (p_stages p)"
    using take_target(1,2) by (simp add: global_load_same holds_global_def)
  ultimately show ?case using len take_target(4) by (simp add: pool_bounded_def)
next
  case (take_global i p)
  have len: "length xs = length (p_stages p)" using take_global(4) by (simp add: pool_bounded_def)
  have "global_load ((p_stages p)[i := Running]) = Suc (global_load (p_stages p))"
    using global_load_update [OF take_global(1), of Running] take_global(2) by (simp add: holds_global_def)
  moreover have "target_load xs j ((p_stages p)[i := Running]) = target_load xs j (p_stages p)" for j
    using take_global(1,2) len by (simp add: target_load_same holds_target_def)
  ultimately show ?case using take_global(3,4) by (simp add: pool_bounded_def)
next
  case (record_result i p)
  then show ?case
    by (simp add: pool_bounded_def global_load_same target_load_same holds_global_def holds_target_def)
next
  case (give_global i p)
  have len: "length xs = length (p_stages p)" using give_global(3) by (simp add: pool_bounded_def)
  have "global_load ((p_stages p)[i := Released]) \<le> global_load (p_stages p)"
    using global_load_update [OF give_global(1), of Released] give_global(2) by (simp add: holds_global_def)
  moreover have "target_load xs j ((p_stages p)[i := Released]) = target_load xs j (p_stages p)" for j
    using give_global(1,2) len by (simp add: target_load_same holds_target_def)
  ultimately show ?case using give_global(3) by (simp add: pool_bounded_def)
next
  case (give_target i p)
  have len: "length xs = length (p_stages p)" and le: "target_load xs j (p_stages p) \<le> perTarget" for j
    using give_target(3) by (simp_all add: pool_bounded_def)
  have "target_load xs j ((p_stages p)[i := Finished]) \<le> perTarget" for j
    using target_load_update [OF give_target(1) len, of j Finished] give_target(2) le [of j]
    by (cases "x_job (xs ! i) = j") (simp_all add: holds_target_def)
  moreover have "global_load ((p_stages p)[i := Finished]) = global_load (p_stages p)"
    using give_target(1,2) by (simp add: global_load_same holds_global_def)
  ultimately show ?case using give_target(3) by (simp add: pool_bounded_def)
qed

lemma pool_bounded_reach:
  "pool_reach workers perTarget xs results p \<Longrightarrow> pool_bounded workers perTarget xs p"
  by (induction rule: rtranclp_induct) (simp_all add: pool_bounded_start pool_bounded_step)

subsection \<open>The pool never deadlocks and always ends\<close>

definition stage_rank :: "stage \<Rightarrow> nat" where
  "stage_rank s = (case s of Waiting \<Rightarrow> 5 | Slotted \<Rightarrow> 4 | Running \<Rightarrow> 3 | Recorded \<Rightarrow> 2 | Released \<Rightarrow> 1 | Finished \<Rightarrow> 0)"

definition pool_work :: "'e pool \<Rightarrow> nat" where
  "pool_work p = sum_list (map stage_rank (p_stages p))"

lemma sum_list_update_less:
  fixes xs :: "nat list"
  assumes "i < length xs" "y < xs ! i"
  shows "sum_list (xs[i := y]) < sum_list xs"
  using assms elem_le_sum_list [of i xs] by (simp add: sum_list_update)

lemma pool_work_step: "pool_step workers perTarget xs results p q \<Longrightarrow> pool_work q < pool_work p"
  by (induction rule: pool_step.induct)
    (auto simp: pool_work_def map_update stage_rank_def intro!: sum_list_update_less)

definition all_finished :: "'e pool \<Rightarrow> bool" where
  "all_finished p \<longleftrightarrow> (\<forall>s\<in>set (p_stages p). s = Finished)"

lemma no_load:
  "(\<And>s. s \<in> set ss \<Longrightarrow> \<not> holds_global s) \<Longrightarrow> global_load ss = 0"
  "(\<And>s. s \<in> set ss \<Longrightarrow> \<not> holds_target s) \<Longrightarrow> target_load xs j ss = 0"
  by (auto simp: global_load_def target_load_def filter_empty_conv dest: set_zip_rightD)

lemma pool_progress:
  assumes "0 < workers" "0 < perTarget" "\<not> all_finished p"
  shows "\<exists>q. pool_step workers perTarget xs results p q"
proof (cases "\<exists>i < length (p_stages p). p_stages p ! i \<in> {Running, Recorded, Released}")
  case True
  then show ?thesis
    by (auto intro: pool_step.record_result pool_step.give_global pool_step.give_target)
next
  case quiet: False
  show ?thesis
  proof (cases "\<exists>i < length (p_stages p). p_stages p ! i = Slotted")
    case True
    then obtain i where i: "i < length (p_stages p)" "p_stages p ! i = Slotted" by blast
    have "global_load (p_stages p) = 0"
      using quiet by (intro no_load) (auto simp: holds_global_def in_set_conv_nth)
    then have "pool_step workers perTarget xs results p (set_stage i Running p)"
      using assms(1) by (intro pool_step.take_global i) simp
    then show ?thesis by blast
  next
    case False
    obtain i where i: "i < length (p_stages p)" "p_stages p ! i \<noteq> Finished"
      using assms(3) by (auto simp: all_finished_def in_set_conv_nth)
    then have w: "p_stages p ! i = Waiting"
      using quiet False by (cases "p_stages p ! i") auto
    have "target_load xs (x_job (xs ! i)) (p_stages p) = 0"
      using quiet False by (intro no_load) (auto simp: holds_target_def in_set_conv_nth)
    then have "pool_step workers perTarget xs results p (set_stage i Slotted p)"
      using assms(2) by (intro pool_step.take_target i(1) w) simp
    then show ?thesis by blast
  qed
qed

lemma pool_bounded_from:
  "(pool_step workers perTarget xs results)\<^sup>*\<^sup>* p q \<Longrightarrow> length (p_stages q) = length (p_stages p)"
  by (induction rule: rtranclp_induct) (auto elim!: pool_step.cases)

lemma pool_finishes:
  assumes "0 < workers" "0 < perTarget"
  shows "\<exists>q. (pool_step workers perTarget xs results)\<^sup>*\<^sup>* p q \<and> all_finished q"
proof (induction "pool_work p" arbitrary: p rule: less_induct)
  case less
  show ?case
  proof (cases "all_finished p")
    case False
    then obtain q where q: "pool_step workers perTarget xs results p q"
      using pool_progress [OF assms] by blast
    then obtain r where "(pool_step workers perTarget xs results)\<^sup>*\<^sup>* q r \<and> all_finished r"
      using less pool_work_step [OF q] by blast
    then show ?thesis using q by (meson converse_rtranclp_into_rtranclp)
  qed blast
qed

text \<open>
  C6 The worker pool respects both limits in every reachable state, and it never deadlocks:
  while an execution is unfinished some step is possible, every step is progress of a bounded
  quantity, and so Run's final wait returns with every execution finished.
\<close>

theorem pool_safe_and_live:
  assumes "0 < workers" and "0 < perTarget" and "pool_reach workers perTarget xs results p"
  shows "global_load (p_stages p) \<le> workers \<and> (\<forall>j. target_load xs j (p_stages p) \<le> perTarget) \<and>
    (\<not> all_finished p \<longrightarrow> (\<exists>q. pool_step workers perTarget xs results p q)) \<and>
    (\<forall>q. pool_step workers perTarget xs results p q \<longrightarrow> pool_work q < pool_work p) \<and>
    (\<exists>q. (pool_step workers perTarget xs results)\<^sup>*\<^sup>* p q \<and> all_finished q)"
  using pool_bounded_reach [OF assms(3)] pool_progress [OF assms(1,2)] pool_work_step
    pool_finishes [OF assms(1,2)]
  by (auto simp: pool_bounded_def)

subsection \<open>The result of a run\<close>

record job =
  j_Target :: target
  j_Checks :: "meta list"

record 'e result =
  r_Started :: int
  r_Duration :: int
  r_Targets :: "target list"
  r_Executions :: int
  r_Ran :: "(string \<times> string) list"
  r_Findings :: "finding list"
  r_Errors :: "'e check_error list"
  r_Checks :: "meta list"
  r_Suppressed :: "(finding \<times> string \<times> int option) list"
  r_Baselined :: "finding list"

fun executions_from :: "nat \<Rightarrow> job list \<Rightarrow> execution list" where
  "executions_from n [] = []"
| "executions_from n (j # js) =
     map (\<lambda>m. \<lparr>x_job = n, x_target = j_Target j, x_meta = m\<rparr>) (j_Checks j) @ executions_from (Suc n) js"

definition executions :: "job list \<Rightarrow> execution list" where
  "executions js = executions_from 0 js"

definition ran_pair :: "execution \<Rightarrow> string \<times> string" where
  "ran_pair x = (t_Name (x_target x), m_ID (x_meta x))"

definition compare_errors :: "'e check_error \<Rightarrow> 'e check_error \<Rightarrow> int" where
  "compare_errors a b =
     cmp_or [str_compare (ce_Target a) (ce_Target b), str_compare (ce_CheckID a) (ce_CheckID b)]"

definition run_metas :: "execution list \<Rightarrow> (string \<times> meta) list" where
  "run_metas xs = foldl (\<lambda>ms x. AList.update (m_ID (x_meta x)) (x_meta x) ms) [] xs"

definition finish_run :: "int \<Rightarrow> int \<Rightarrow> job list \<Rightarrow> 'e pool \<Rightarrow> 'e result" where
  "finish_run started ended js p =
     (let xs = executions js; metas = run_metas xs in
      \<lparr>r_Started = started, r_Duration = ended - started, r_Targets = map j_Target js,
       r_Executions = int (length xs), r_Ran = map ran_pair xs,
       r_Findings = sort_func CompareFindings (p_findings p),
       r_Errors = sort_func compare_errors (p_errors p),
       r_Checks = map (\<lambda>i. the (map_of metas i)) (sort_func str_compare (map fst metas)),
       r_Suppressed = [], r_Baselined = []\<rparr>)"

text \<open>Run: the pool is driven to the end by some schedule; \<open>p\<close> is a final state.\<close>

definition Run ::
  "engine \<Rightarrow> (nat \<Rightarrow> 'e + finding list) \<Rightarrow> int \<Rightarrow> int \<Rightarrow> job list \<Rightarrow> 'e result \<Rightarrow> bool" where
  "Run e results started ended js res \<longleftrightarrow>
     (\<exists>p. pool_reach (nat (or_default (en_Workers e) DefaultWorkers))
            (nat (or_default (en_PerTarget e) DefaultPerTarget)) (executions js) results p \<and>
          all_finished p \<and> res = finish_run started ended js p)"

definition error_key :: "'e check_error \<Rightarrow> string \<times> string" where
  "error_key e = (ce_Target e, ce_CheckID e)"

lemma compare_errors_by: "compares_by compare_errors error_key"
  unfolding compare_errors_def [abs_def] error_key_def [abs_def]
  by (intro compares_by_cmp_or2 compares_by_cong [OF str_compare_by])

interpretation error_sort: sorter sort_func "compare_errors :: 'e check_error \<Rightarrow> _" error_key
  by unfold_locales (simp_all add: compare_errors_by sorted_func_sort_func [OF compare_errors_by])

definition findings_of :: "'e + finding list \<Rightarrow> finding list" where
  "findings_of r = (case r of Inl _ \<Rightarrow> [] | Inr fs \<Rightarrow> fs)"

definition errors_of :: "execution \<Rightarrow> 'e + finding list \<Rightarrow> 'e check_error list" where
  "errors_of x r =
     (case r of
        Inl e \<Rightarrow> [\<lparr>ce_CheckID = m_ID (x_meta x), ce_Target = t_Name (x_target x), ce_Err = e\<rparr>]
      | Inr _ \<Rightarrow> [])"

text \<open>What the executions that have recorded their outcome contributed, as multisets.\<close>

definition recorded_sum :: "(nat \<Rightarrow> 'a multiset) \<Rightarrow> stage list \<Rightarrow> 'a multiset" where
  "recorded_sum f ss = (\<Sum>i<length ss. if has_recorded (ss ! i) then f i else {#})"

lemma recorded_sum_update:
  assumes "i < length ss"
  shows "recorded_sum f (ss[i := s]) + (if has_recorded (ss ! i) then f i else {#}) =
    recorded_sum f ss + (if has_recorded s then f i else {#})"
proof -
  have fin: "finite {..<length ss}" "i \<in> {..<length ss}" using assms by auto
  have rest: "(\<Sum>k\<in>{..<length ss} - {i}. if has_recorded (ss[i := s] ! k) then f k else {#}) =
      (\<Sum>k\<in>{..<length ss} - {i}. if has_recorded (ss ! k) then f k else {#})"
    by (rule sum.cong) auto
  show ?thesis
    unfolding recorded_sum_def length_list_update sum.remove [OF fin] rest
    using assms by (simp add: ac_simps)
qed

lemma recorded_sum_same:
  "i < length ss \<Longrightarrow> has_recorded s = has_recorded (ss ! i) \<Longrightarrow>
    recorded_sum f (ss[i := s]) = recorded_sum f ss"
  using recorded_sum_update [of i ss f s] by (simp split: if_splits)

lemma recorded_sum_new:
  "i < length ss \<Longrightarrow> \<not> has_recorded (ss ! i) \<Longrightarrow> has_recorded s \<Longrightarrow>
    recorded_sum f (ss[i := s]) = recorded_sum f ss + f i"
  using recorded_sum_update [of i ss f s] by simp

definition pool_results :: "execution list \<Rightarrow> (nat \<Rightarrow> 'e + finding list) \<Rightarrow> 'e pool \<Rightarrow> bool" where
  "pool_results xs results p \<longleftrightarrow>
     mset (p_findings p) = recorded_sum (\<lambda>i. mset (findings_of (results i))) (p_stages p) \<and>
     mset (p_errors p) = recorded_sum (\<lambda>i. mset (errors_of (xs ! i) (results i))) (p_stages p)"

lemma record_outcome_sets:
  "mset (p_findings (record_outcome x r p)) = mset (p_findings p) + mset (findings_of r)"
  "mset (p_errors (record_outcome x r p)) = mset (p_errors p) + mset (errors_of x r)"
  by (simp_all add: record_outcome_def findings_of_def errors_of_def split: sum.splits)

lemma pool_results_step:
  "pool_step workers perTarget xs results p q \<Longrightarrow> pool_results xs results p \<Longrightarrow> pool_results xs results q"
proof (induction rule: pool_step.induct)
  case (record_result i p)
  then show ?case
    by (simp add: pool_results_def record_outcome_sets recorded_sum_new has_recorded_def)
qed (simp_all add: pool_results_def recorded_sum_same has_recorded_def)

lemma pool_results_reach:
  "pool_reach workers perTarget xs results p \<Longrightarrow> pool_results xs results p"
proof (induction rule: rtranclp_induct)
  case base
  show ?case
    by (simp add: pool_results_def pool_start_def recorded_sum_def has_recorded_def)
qed (rule pool_results_step)

lemma recorded_sum_finished:
  "\<forall>s\<in>set ss. s = Finished \<Longrightarrow> recorded_sum f ss = (\<Sum>i<length ss. f i)"
  by (auto simp: recorded_sum_def has_recorded_def intro: sum.cong)

lemma in_recorded_total:
  assumes "g \<in># (\<Sum>i<(n :: nat). mset (f i))"
  shows "\<exists>i<n. g \<in> set (f i)"
  using assms by (induction n) (auto simp: less_Suc_eq)

text \<open>
  What the engine gives its checks: the outcome of execution \<open>i\<close> is runOne's, so its findings
  have passed normalize.
\<close>

definition results_normal :: "execution list \<Rightarrow> (nat \<Rightarrow> 'e + finding list) \<Rightarrow> bool" where
  "results_normal xs results \<longleftrightarrow>
     (\<forall>i < length xs. \<forall>gs. results i = Inr gs \<longrightarrow>
       (\<exists>fs. normalize (x_meta (xs ! i)) (x_target (xs ! i)) fs = Inr gs))"

lemma runOne_normal:
  "results_normal xs (\<lambda>i. runOne is_timeout e (x_meta (xs ! i)) (x_target (xs ! i)) (rc i))"
  unfolding results_normal_def runOne_def
  by (auto simp: Let_def split: option.splits sum.splits prod.splits)

lemma same_pair_same_index:
  "distinct (map ran_pair xs) \<Longrightarrow> i < length xs \<Longrightarrow> j < length xs \<Longrightarrow>
    ran_pair (xs ! i) = ran_pair (xs ! j) \<Longrightarrow> i = j"
  by (simp add: distinct_conv_nth) (metis nth_map)

lemma findings_keys_inj:
  assumes ok: "results_normal xs results" and d: "distinct (map ran_pair xs)"
    and F: "\<And>g. g \<in> S \<Longrightarrow> \<exists>i<length xs. g \<in> set (findings_of (results i))"
  shows "inj_on finding_key S"
proof (rule inj_onI)
  have origin: "\<exists>i gs fs. i < length xs \<and> results i = Inr gs \<and> g \<in> set gs \<and>
      normalize (x_meta (xs ! i)) (x_target (xs ! i)) fs = Inr gs" if "g \<in> S" for g
  proof -
    from F [OF that] obtain i where i: "i < length xs" "g \<in> set (findings_of (results i))" by blast
    then obtain gs where "results i = Inr gs" "g \<in> set gs"
      by (cases "results i") (simp_all add: findings_of_def)
    then show ?thesis using ok i(1) unfolding results_normal_def by blast
  qed
  fix g h assume "g \<in> S" "h \<in> S" and key: "finding_key g = finding_key h"
  from origin [OF \<open>g \<in> S\<close>] obtain i gs fs where g: "i < length xs" "results i = Inr gs" "g \<in> set gs"
    "normalize (x_meta (xs ! i)) (x_target (xs ! i)) fs = Inr gs" by blast
  from origin [OF \<open>h \<in> S\<close>] obtain j hs fs' where h: "j < length xs" "results j = Inr hs" "h \<in> set hs"
    "normalize (x_meta (xs ! j)) (x_target (xs ! j)) fs' = Inr hs" by blast
  have "ran_pair (xs ! i) = ran_pair (xs ! j)"
    using key normalize_Inr(1,2) [OF g(4,3)] normalize_Inr(1,2) [OF h(4,3)]
    by (simp add: ran_pair_def finding_key_def)
  then have "i = j" by (rule same_pair_same_index [OF d g(1) h(1)])
  then have "h \<in> set gs" using g(2) h(2,3) by simp
  moreover have "f_Subject g = f_Subject h" using key by (simp add: finding_key_def)
  ultimately show "g = h"
    using normalize_subjects [OF g(4)] g(3) by (simp add: distinct_map inj_on_def)
qed

lemma errors_keys_inj:
  assumes d: "distinct (map ran_pair xs)"
    and F: "\<And>e. e \<in> S \<Longrightarrow> \<exists>i<length xs. e \<in> set (errors_of (xs ! i) (results i))"
  shows "inj_on error_key S"
proof (rule inj_onI)
  fix a b assume "a \<in> S" "b \<in> S" and key: "error_key a = error_key b"
  then obtain i j where i: "i < length xs" "a \<in> set (errors_of (xs ! i) (results i))"
    and j: "j < length xs" "b \<in> set (errors_of (xs ! j) (results j))" using F by meson
  have "ran_pair (xs ! i) = ran_pair (xs ! j)"
    using i(2) j(2) key by (auto simp: errors_of_def ran_pair_def error_key_def split: sum.splits)
  then have "i = j" by (rule same_pair_same_index [OF d i(1) j(1)])
  then show "a = b" using i(2) j(2) by (cases "results j") (simp_all add: errors_of_def)
qed

lemma pool_final:
  assumes "pool_reach workers perTarget xs results p" "all_finished p"
  shows "mset (p_findings p) = (\<Sum>i<length xs. mset (findings_of (results i)))"
    "mset (p_errors p) = (\<Sum>i<length xs. mset (errors_of (xs ! i) (results i)))"
proof -
  have "length (p_stages p) = length xs"
    using pool_bounded_reach [OF assms(1)] by (simp add: pool_bounded_def)
  then show "mset (p_findings p) = (\<Sum>i<length xs. mset (findings_of (results i)))"
    "mset (p_errors p) = (\<Sum>i<length xs. mset (errors_of (xs ! i) (results i)))"
    using pool_results_reach [OF assms(1)] assms(2)
    by (simp_all add: pool_results_def recorded_sum_finished all_finished_def)
qed

text \<open>
  C7 The result of Run does not depend on how the checks were scheduled: when no (target, check)
  pair is listed twice, any two complete runs in which each check came to the same outcome give
  the same result, and its findings are exactly those of the executions that succeeded, its
  errors one for each that failed.
\<close>

theorem Run_deterministic:
  assumes distinct: "distinct (map ran_pair (executions js))"
    and normal: "results_normal (executions js) results"
    and run: "Run e results started ended js res" "Run e' results started ended js res'"
  shows "res = res' \<and>
    mset (r_Findings res) = (\<Sum>i<length (executions js). mset (findings_of (results i))) \<and>
    mset (r_Errors res) = (\<Sum>i<length (executions js). mset (errors_of (executions js ! i) (results i)))"
proof -
  obtain w t p where p: "pool_reach w t (executions js) results p" "all_finished p"
    "res = finish_run started ended js p" using run(1) unfolding Run_def by blast
  obtain w' t' q where q: "pool_reach w' t' (executions js) results q" "all_finished q"
    "res' = finish_run started ended js q" using run(2) unfolding Run_def by blast
  note P = pool_final [OF p(1,2)] and Q = pool_final [OF q(1,2)]
  have inF: "\<exists>i<length (executions js). g \<in> set (findings_of (results i))" if "g \<in> set (p_findings p)" for g
    using that in_recorded_total [of g "\<lambda>i. findings_of (results i)"]
    unfolding set_mset_mset [symmetric, of "p_findings p"] P(1) by blast
  have inE: "\<exists>i<length (executions js). g \<in> set (errors_of (executions js ! i) (results i))"
    if "g \<in> set (p_errors p)" for g
    using that in_recorded_total [of g "\<lambda>i. errors_of (executions js ! i) (results i)"]
    unfolding set_mset_mset [symmetric, of "p_errors p"] P(2) by blast
  have "sort_func CompareFindings (p_findings p) = sort_func CompareFindings (p_findings q)"
    by (rule finding_sort.same_elements) (simp add: P Q, rule findings_keys_inj [OF normal distinct inF])
  moreover have "sort_func compare_errors (p_errors p) = sort_func compare_errors (p_errors q)"
    by (rule error_sort.same_elements) (simp add: P Q, rule errors_keys_inj [OF distinct inE])
  ultimately show ?thesis
    using p(3) q(3) P Q by (simp add: finish_run_def Let_def)
qed

definition demo_jobs :: "job list" where
  "demo_jobs = [\<lparr>j_Target = target_named ''x.example'', j_Checks = [demo_meta ''a.d.e'' []]\<rparr>]"

theorem Run_deterministic_witness:
  "\<exists>res. Run \<lparr>en_Workers = 0, en_PerTarget = 0, en_CheckTimeout = 0\<rparr> (\<lambda>_. Inl ()) 0 1 demo_jobs res \<and>
    size (r_Errors res) = 1 \<and> r_Findings res = []"
proof -
  define e where "e = \<lparr>en_Workers = 0, en_PerTarget = 0, en_CheckTimeout = 0\<rparr>"
  have xs: "length (executions demo_jobs) = 1" "distinct (map ran_pair (executions demo_jobs))"
    by (simp_all add: executions_def demo_jobs_def)
  obtain q where q: "pool_reach 16 4 (executions demo_jobs) (\<lambda>_. Inl ()) q" "all_finished q"
    using pool_finishes [of 16 4 "executions demo_jobs" "\<lambda>_. Inl ()" "pool_start (executions demo_jobs)"] by auto
  have run: "Run e (\<lambda>_. Inl ()) 0 1 demo_jobs (finish_run 0 1 demo_jobs q)"
    unfolding Run_def using q by (auto simp: e_def or_default_def DefaultWorkers_def DefaultPerTarget_def)
  have nrm: "results_normal (executions demo_jobs) (\<lambda>_. Inl ())" by (simp add: results_normal_def)
  note D = Run_deterministic [OF xs(2) nrm run run]
  have "mset (r_Findings (finish_run 0 1 demo_jobs q)) = {#}"
    "size (mset (r_Errors (finish_run 0 1 demo_jobs q))) = 1"
    using D xs(1) by (simp_all add: findings_of_def errors_of_def)
  then show ?thesis using run unfolding e_def by auto
qed

theorem pool_safe_and_live_witness:
  "\<exists>q. (pool_step 1 1 (executions demo_jobs) (\<lambda>_. Inl ()))\<^sup>*\<^sup>* (pool_start (executions demo_jobs)) q \<and> all_finished q"
  using pool_safe_and_live [of 1 1 "executions demo_jobs" "\<lambda>_. Inl ()" "pool_start (executions demo_jobs)"] by simp

end
