(* ===== verification/SetaState.thy ===== *)
theory SetaState
  imports SetaEngine
begin

text \<open>
  Package internal/state. The SQLite tables are association lists from their primary key to the
  row, the key-value table a map. Record is the fold the code performs: one pass over the findings of the
  run, one over the known rows (in the map's iteration order), then the writes. The model of a
  failed SQL statement is that the transaction rolls back, which leaves the tables as they were.
  The evidence column holds the evidence map (JSON encoding is not modelled); severities are
  stored by name. Times are milliseconds since the epoch, except the run's start and duration,
  which are nanoseconds.
\<close>

subsection \<open>Kinds and changes\<close>

datatype kind = New | Persisting | Resolved | Regressed

definition kind_String :: "kind \<Rightarrow> string" where
  "kind_String k = (case k of New \<Rightarrow> ''new'' | Persisting \<Rightarrow> ''persisting''
     | Resolved \<Rightarrow> ''resolved'' | Regressed \<Rightarrow> ''regressed'')"

definition ParseKind :: "string \<Rightarrow> kind option" where
  "ParseKind s =
     (if s = ''new'' then Some New else if s = ''persisting'' then Some Persisting
      else if s = ''resolved'' then Some Resolved else if s = ''regressed'' then Some Regressed
      else None)"

definition kindOrder :: "kind \<Rightarrow> int" where
  "kindOrder k = (case k of New \<Rightarrow> 0 | Regressed \<Rightarrow> 1 | Resolved \<Rightarrow> 2 | Persisting \<Rightarrow> 3)"

lemma kindOrder_inj [simp]: "kindOrder a = kindOrder b \<longleftrightarrow> a = b"
  by (cases a; cases b) (simp_all add: kindOrder_def)

instantiation kind :: linorder
begin

definition less_eq_kind :: "kind \<Rightarrow> kind \<Rightarrow> bool" where
  "less_eq_kind a b \<longleftrightarrow> kindOrder a \<le> kindOrder b"

definition less_kind :: "kind \<Rightarrow> kind \<Rightarrow> bool" where
  "less_kind a b \<longleftrightarrow> kindOrder a < kindOrder b"

instance
  by standard (auto simp: less_eq_kind_def less_kind_def order.antisym)

end

record change =
  c_Kind :: kind
  c_Finding :: finding
  c_Suppressed :: bool
  c_FirstSeen :: int

record 'e diff =
  d_RunID :: int
  d_Started :: int
  d_Duration :: int
  d_Targets :: "string list"
  d_Changes :: "change list"
  d_Errors :: "'e check_error list"
  d_Open :: int

definition CompareChanges :: "change \<Rightarrow> change \<Rightarrow> int" where
  "CompareChanges a b =
     cmp_or [str_compare (f_Target (c_Finding a)) (f_Target (c_Finding b)),
             int_compare (kindOrder (c_Kind a)) (kindOrder (c_Kind b)),
             CompareFindings (c_Finding a) (c_Finding b)]"

definition change_key :: "change \<Rightarrow> string \<times> kind \<times> (string \<times> int \<times> string \<times> string)" where
  "change_key c = (f_Target (c_Finding c), c_Kind c, finding_key (c_Finding c))"

lemma CompareChanges_by: "compares_by CompareChanges change_key"
proof -
  have kind: "compares_by (\<lambda>a b. int_compare (kindOrder (c_Kind a)) (kindOrder (c_Kind b))) c_Kind"
    by (auto simp: compares_by_def int_compare_def less_kind_def)
  show ?thesis
    unfolding CompareChanges_def [abs_def] change_key_def [abs_def]
    by (intro compares_by_cmp_or3 kind compares_by_cong [OF str_compare_by]
        compares_by_cong [OF CompareFindings_by])
qed

interpretation change_sort: sorter sort_func CompareChanges change_key
  by unfold_locales (simp_all add: CompareChanges_by sorted_func_sort_func [OF CompareChanges_by])

subsection \<open>Rows and tables\<close>

record row =
  rw_fp :: string
  rw_f :: finding
  rw_open :: bool
  rw_suppressed :: bool
  rw_missing :: int
  rw_firstSeen :: int
  rw_lastSeen :: int
  rw_resolvedAt :: "int option"
  rw_dirty :: bool
  rw_gone :: bool
  rw_oldFP :: string

text \<open>A row of the findings table, the fingerprint being the key of the table.\<close>

record db_row =
  db_check_id :: string
  db_target :: string
  db_subject :: string
  db_severity :: string
  db_title :: string
  db_evidence :: evidence
  db_remediation :: string
  db_open :: bool
  db_suppressed :: bool
  db_missing :: int
  db_first_seen :: int
  db_last_seen :: int
  db_resolved_at :: "int option"

record db_run =
  run_id :: int
  run_started_at :: int
  run_duration_ms :: int
  run_checks_run :: int
  run_findings :: int
  run_check_errors :: int

record db_event =
  ev_run_id :: int
  ev_fingerprint :: string
  ev_kind :: string
  ev_severity :: string

record store =
  s_user_version :: nat
  s_runs :: "db_run list"
  s_findings :: "(string \<times> db_row) list"
  s_events :: "db_event list"
  s_kv :: "string \<rightharpoonup> string"
  s_next_id :: int

definition new_row :: "string \<Rightarrow> finding \<Rightarrow> int \<Rightarrow> row" where
  "new_row fp f now = \<lparr>rw_fp = fp, rw_f = f, rw_open = False, rw_suppressed = False, rw_missing = 0,
     rw_firstSeen = now, rw_lastSeen = 0, rw_resolvedAt = None, rw_dirty = False, rw_gone = False, rw_oldFP = []\<rparr>"

definition row_of_db :: "string \<Rightarrow> db_row \<Rightarrow> row" where
  "row_of_db fp r =
     \<lparr>rw_fp = fp,
      rw_f = \<lparr>f_CheckID = db_check_id r, f_Target = db_target r, f_Subject = db_subject r,
        f_Severity = (case ParseSeverity (db_severity r) of Inl _ \<Rightarrow> SeverityUnset | Inr s \<Rightarrow> s),
        f_Title = db_title r, f_Evidence = db_evidence r, f_Remediation = db_remediation r,
        f_References = None\<rparr>,
      rw_open = db_open r, rw_suppressed = db_suppressed r, rw_missing = db_missing r,
      rw_firstSeen = db_first_seen r, rw_lastSeen = db_last_seen r, rw_resolvedAt = db_resolved_at r,
      rw_dirty = False, rw_gone = False, rw_oldFP = []\<rparr>"

definition db_of_row :: "row \<Rightarrow> db_row" where
  "db_of_row rw =
     \<lparr>db_check_id = f_CheckID (rw_f rw), db_target = f_Target (rw_f rw), db_subject = f_Subject (rw_f rw),
      db_severity = severity_String (f_Severity (rw_f rw)), db_title = f_Title (rw_f rw),
      db_evidence = f_Evidence (rw_f rw), db_remediation = f_Remediation (rw_f rw),
      db_open = rw_open rw, db_suppressed = rw_suppressed rw, db_missing = rw_missing rw,
      db_first_seen = rw_firstSeen rw, db_last_seen = rw_lastSeen rw, db_resolved_at = rw_resolvedAt rw\<rparr>"

text \<open>loadRows: a row recorded under a former check ID moves to the fingerprint of the new ID.\<close>

definition rename_row :: "(string \<Rightarrow> string) \<Rightarrow> (string \<Rightarrow> string) \<Rightarrow> row \<Rightarrow> row" where
  "rename_row sha canonical rw =
     (let i = canonical (f_CheckID (rw_f rw)); f = (rw_f rw)\<lparr>f_CheckID := i\<rparr> in
      if i = f_CheckID (rw_f rw) then rw
      else rw\<lparr>rw_f := f, rw_oldFP := rw_fp rw, rw_dirty := True, rw_fp := finding_Fingerprint sha f\<rparr>)"

definition loadRows ::
  "(string \<Rightarrow> string) \<Rightarrow> (string \<Rightarrow> string) \<Rightarrow> (string \<times> db_row) list \<Rightarrow> (string \<times> row) list" where
  "loadRows sha canonical table =
     foldl (\<lambda>rows (fp, r). let rw = rename_row sha canonical (row_of_db fp r)
                            in AList.update (rw_fp rw) rw rows) [] table"

text \<open>The upsert of saveRows leaves target, subject and first_seen of an existing row alone.\<close>

definition upsert :: "string \<Rightarrow> db_row \<Rightarrow> (string \<times> db_row) list \<Rightarrow> (string \<times> db_row) list" where
  "upsert fp r table =
     (case map_of table fp of
        None \<Rightarrow> AList.update fp r table
      | Some old \<Rightarrow> AList.update fp
          (r\<lparr>db_target := db_target old, db_subject := db_subject old, db_first_seen := db_first_seen old\<rparr>) table)"

definition save_row :: "row \<Rightarrow> (string \<times> db_row) list \<Rightarrow> (string \<times> db_row) list" where
  "save_row rw table =
     (let t1 = (if rw_oldFP rw \<noteq> [] then AList.delete (rw_oldFP rw) table else table) in
      if rw_gone rw then AList.delete (rw_fp rw) t1
      else if \<not> rw_dirty rw then t1
      else upsert (rw_fp rw) (db_of_row rw) t1)"

definition saveRows :: "(string \<times> row) list \<Rightarrow> (string \<times> db_row) list \<Rightarrow> (string \<times> db_row) list" where
  "saveRows rows table = foldl (\<lambda>t (fp, rw). save_row rw t) table rows"

subsection \<open>Record\<close>

record options =
  o_ResolveAfter :: int
  o_Canonical :: "(string \<Rightarrow> string) option"

definition unix_milli :: "int \<Rightarrow> int" where "unix_milli ns = ns div 1000000"

text \<open>Duration.Milliseconds truncates towards zero.\<close>

definition milliseconds :: "int \<Rightarrow> int" where
  "milliseconds d = (if d < 0 then - ((- d) div 1000000) else d div 1000000)"

definition executions_ok :: "'e result \<Rightarrow> string \<Rightarrow> string \<Rightarrow> bool" where
  "executions_ok res tgt cid \<longleftrightarrow> (tgt, cid) \<in> set (r_Ran res) \<and>
     (\<forall>e\<in>set (r_Errors res). (ce_Target e, ce_CheckID e) \<noteq> (tgt, cid))"

definition current_findings :: "'e result \<Rightarrow> (finding \<times> bool) list" where
  "current_findings res =
     map (\<lambda>f. (f, False)) (r_Findings res) @ map (\<lambda>(f, _, _). (f, True)) (r_Suppressed res)"

text \<open>The first loop: a finding of this run meets its row.\<close>

definition see_row :: "string \<Rightarrow> int \<Rightarrow> finding \<Rightarrow> bool \<Rightarrow> row option \<Rightarrow> kind \<times> row" where
  "see_row fp now f hid known =
     (let (k, rw) = (case known of
          None \<Rightarrow> (New, new_row fp f now)
        | Some rw \<Rightarrow>
            (if \<not> rw_open rw then Regressed
             else if rw_suppressed rw \<and> \<not> hid then New else Persisting, rw))
      in (k, rw\<lparr>rw_f := f, rw_open := True, rw_suppressed := hid, rw_missing := 0,
                rw_lastSeen := now, rw_resolvedAt := None, rw_dirty := True\<rparr>))"

definition see_finding ::
  "(string \<Rightarrow> string) \<Rightarrow> int \<Rightarrow> finding \<times> bool \<Rightarrow> (string \<times> row) list \<times> change list \<Rightarrow>
   (string \<times> row) list \<times> change list" where
  "see_finding sha now p st =
     (case p of (f, hid) \<Rightarrow> case st of (rows, changes) \<Rightarrow>
      let fp = finding_Fingerprint sha f;
          (k, rw) = see_row fp now f hid (map_of rows fp)
      in (AList.update fp rw rows,
          changes @ [\<lparr>c_Kind = k, c_Finding = f, c_Suppressed = hid, c_FirstSeen = rw_firstSeen rw\<rparr>]))"

text \<open>The second loop: a row that no finding met.\<close>

definition miss_row ::
  "int \<Rightarrow> int \<Rightarrow> 'e result \<Rightarrow> string set \<Rightarrow> string \<times> row \<Rightarrow> (string \<times> row) \<times> change list" where
  "miss_row now resolveAfter res seen p =
     (case p of (fp, rw) \<Rightarrow>
      if fp \<in> seen then ((fp, rw), [])
      else if f_Target (rw_f rw) \<notin> t_Name ` set (r_Targets res) then ((fp, rw\<lparr>rw_gone := True\<rparr>), [])
      else if rw_open rw \<and> executions_ok res (f_Target (rw_f rw)) (f_CheckID (rw_f rw)) then
        let m = rw_missing rw + 1 in
        if resolveAfter \<le> m then
          ((fp, rw\<lparr>rw_open := False, rw_missing := 0, rw_resolvedAt := Some now, rw_dirty := True\<rparr>),
           [\<lparr>c_Kind = Resolved, c_Finding = rw_f rw, c_Suppressed = rw_suppressed rw,
             c_FirstSeen = rw_firstSeen rw\<rparr>])
        else ((fp, rw\<lparr>rw_missing := m, rw_dirty := True\<rparr>), [])
      else ((fp, rw), []))"

definition counts_open :: "row \<Rightarrow> bool" where
  "counts_open rw \<longleftrightarrow> rw_open rw \<and> \<not> rw_suppressed rw \<and> \<not> rw_gone rw"

text \<open>The rows and the changes of a run, before they are stored.\<close>

definition observe ::
  "(string \<Rightarrow> string) \<Rightarrow> int \<Rightarrow> int \<Rightarrow> 'e result \<Rightarrow> (string \<times> row) list \<Rightarrow>
   (string \<times> row) list \<times> change list" where
  "observe sha now resolveAfter res rows0 =
     (let current = current_findings res;
          (rows1, changes1) = fold (see_finding sha now) current (rows0, []);
          seen = (\<lambda>p. finding_Fingerprint sha (fst p)) ` set current;
          missed = map (miss_row now resolveAfter res seen) rows1
      in (map fst missed, changes1 @ concat (map snd missed)))"

definition Record ::
  "(string \<Rightarrow> string) \<Rightarrow> options \<Rightarrow> 'e result \<Rightarrow> store \<Rightarrow> 'e diff \<times> store" where
  "Record sha opts res s =
     (let resolveAfter = max (o_ResolveAfter opts) 1;
          canonical = (case o_Canonical opts of None \<Rightarrow> (\<lambda>i. i) | Some c \<Rightarrow> c);
          now = unix_milli (r_Started res + r_Duration res);
          run = \<lparr>run_id = s_next_id s, run_started_at = unix_milli (r_Started res),
                 run_duration_ms = milliseconds (r_Duration res), run_checks_run = r_Executions res,
                 run_findings = int (length (r_Findings res)), run_check_errors = int (length (r_Errors res))\<rparr>;
          (rows, changes) = observe sha now resolveAfter res (loadRows sha canonical (s_findings s));
          events = map (\<lambda>c. \<lparr>ev_run_id = s_next_id s, ev_fingerprint = finding_Fingerprint sha (c_Finding c),
                       ev_kind = kind_String (c_Kind c), ev_severity = severity_String (f_Severity (c_Finding c))\<rparr>)
                     (filter (\<lambda>c. c_Kind c \<noteq> Persisting) changes)
      in (\<lparr>d_RunID = s_next_id s, d_Started = r_Started res, d_Duration = r_Duration res,
           d_Targets = map t_Name (r_Targets res), d_Changes = sort_func CompareChanges changes,
           d_Errors = r_Errors res, d_Open = int (length (filter (counts_open \<circ> snd) rows))\<rparr>,
          s\<lparr>s_runs := s_runs s @ [run], s_findings := saveRows rows (s_findings s),
            s_events := s_events s @ events, s_next_id := s_next_id s + 1\<rparr>))"

subsection \<open>The other operations of the store\<close>

definition latest_version :: nat where "latest_version = 1"

text \<open>\<open>apply v\<close> runs migration \<open>v\<close>; None when its statements fail, which is rolled back.\<close>

fun migrate :: "nat \<Rightarrow> (nat \<Rightarrow> store \<Rightarrow> store option) \<Rightarrow> store \<Rightarrow> (string + nat) option \<times> store" where
  "migrate 0 apply s = (None, s)"
| "migrate (Suc fuel) apply s =
     (if s_user_version s < latest_version then
        case apply (s_user_version s) s of
          None \<Rightarrow> (Some (Inr (s_user_version s + 1)), s)
        | Some s' \<Rightarrow> migrate fuel apply (s'\<lparr>s_user_version := s_user_version s + 1\<rparr>)
      else (None, s))"

definition open_store ::
  "string \<Rightarrow> (nat \<Rightarrow> store \<Rightarrow> store option) \<Rightarrow> store \<Rightarrow> (string + nat) option \<times> store" where
  "open_store path apply s =
     (if list_ex (\<lambda>c. c \<in> set ''?#'') path then (Some (Inl path), s)
      else if latest_version < s_user_version s then (Some (Inr (s_user_version s)), s)
      else migrate (latest_version - s_user_version s) apply s)"

definition store_Get :: "string \<Rightarrow> store \<Rightarrow> string option" where
  "store_Get k s = s_kv s k"

definition store_Set :: "string \<Rightarrow> string \<Rightarrow> store \<Rightarrow> store" where
  "store_Set k v s = s\<lparr>s_kv := (s_kv s)(k \<mapsto> v)\<rparr>"

definition store_Delete :: "string \<Rightarrow> store \<Rightarrow> store" where
  "store_Delete k s = s\<lparr>s_kv := (s_kv s)(k := None)\<rparr>"

definition Prune :: "int \<Rightarrow> store \<Rightarrow> int \<times> store" where
  "Prune cutoff s =
     (let ms = unix_milli cutoff;
          gone = filter (\<lambda>r. run_started_at r < ms \<and> (\<exists>q\<in>set (s_runs s). run_id r < run_id q)) (s_runs s);
          gone_ids = run_id ` set gone
      in (int (length gone),
          s\<lparr>s_runs := filter (\<lambda>r. run_id r \<notin> gone_ids) (s_runs s),
            s_events := filter (\<lambda>e. ev_run_id e \<notin> gone_ids) (s_events s),
            s_findings := filter (\<lambda>(fp, r). \<not> (\<not> db_open r \<and>
               (case db_resolved_at r of None \<Rightarrow> False | Some t \<Rightarrow> t < ms))) (s_findings s)\<rparr>))"

subsection \<open>What a run means for one fingerprint\<close>

text \<open>
  The abstract specification of Record, for one fingerprint: what the run observed of it, and how
  its history moves; it uses no definition of the code. \<open>Missed\<close> is an absence from a run in which the check reached a verdict;
  \<open>NoVerdict\<close> an absence that says nothing; \<open>Forgotten\<close> that the target is no longer scanned.
\<close>

datatype obs = Seen finding bool | Missed | NoVerdict | Forgotten

datatype status = Unknown | Closed | Opened bool

definition status :: "row option \<Rightarrow> status" where
  "status known =
     (case known of None \<Rightarrow> Unknown | Some rw \<Rightarrow> if rw_open rw then Opened (rw_suppressed rw) else Closed)"

text \<open>How a finding that is seen appears to its reader; the second argument says whether it is suppressed now.\<close>

fun kind_of_seen :: "status \<Rightarrow> bool \<Rightarrow> kind" where
  "kind_of_seen Unknown hid = New"
| "kind_of_seen Closed hid = Regressed"
| "kind_of_seen (Opened True) False = New"
| "kind_of_seen (Opened was_hidden) hid = Persisting"

definition track :: "int \<Rightarrow> string \<Rightarrow> int \<Rightarrow> row option \<Rightarrow> obs \<Rightarrow> row option \<times> change list" where
  "track resolveAfter fp now known ob =
     (case ob of
        Seen f hid \<Rightarrow>
          let first = (case known of None \<Rightarrow> now | Some rw \<Rightarrow> rw_firstSeen rw) in
          (Some \<lparr>rw_fp = fp, rw_f = f, rw_open = True, rw_suppressed = hid, rw_missing = 0, rw_firstSeen = first,
             rw_lastSeen = now, rw_resolvedAt = None, rw_dirty = False, rw_gone = False, rw_oldFP = []\<rparr>,
           [\<lparr>c_Kind = kind_of_seen (status known) hid, c_Finding = f, c_Suppressed = hid, c_FirstSeen = first\<rparr>])
      | NoVerdict \<Rightarrow> (known, [])
      | Forgotten \<Rightarrow> (None, [])
      | Missed \<Rightarrow>
          (case known of
             None \<Rightarrow> (None, [])
           | Some rw \<Rightarrow>
               if \<not> rw_open rw then (Some rw, [])
               else if resolveAfter \<le> rw_missing rw + 1 then
                 (Some (rw\<lparr>rw_open := False, rw_missing := 0, rw_resolvedAt := Some now\<rparr>),
                  [\<lparr>c_Kind = Resolved, c_Finding = rw_f rw, c_Suppressed = rw_suppressed rw, c_FirstSeen = rw_firstSeen rw\<rparr>])
               else (Some (rw\<lparr>rw_missing := rw_missing rw + 1\<rparr>), [])))"

definition observation ::
  "(string \<Rightarrow> string) \<Rightarrow> 'e result \<Rightarrow> row option \<Rightarrow> string \<Rightarrow> obs" where
  "observation sha res known fp =
     (case find (\<lambda>p. finding_Fingerprint sha (fst p) = fp) (current_findings res) of
        Some (f, hid) \<Rightarrow> Seen f hid
      | None \<Rightarrow>
        (case known of
           None \<Rightarrow> NoVerdict
         | Some rw \<Rightarrow>
             if f_Target (rw_f rw) \<notin> t_Name ` set (r_Targets res) then Forgotten
             else if executions_ok res (f_Target (rw_f rw)) (f_CheckID (rw_f rw)) then Missed
             else NoVerdict))"

text \<open>A row as the next run will load it.\<close>

definition clean :: "row \<Rightarrow> row" where
  "clean rw = rw\<lparr>rw_dirty := False, rw_oldFP := [], rw_f := (rw_f rw)\<lparr>f_References := None\<rparr>\<rparr>"

subsection \<open>The first loop\<close>

abbreviation finding_of :: "(string \<Rightarrow> string) \<Rightarrow> (finding \<times> bool) list \<Rightarrow> string \<Rightarrow> (finding \<times> bool) option" where
  "finding_of sha cur fp \<equiv> find (\<lambda>p. finding_Fingerprint sha (fst p) = fp) cur"

definition seen_change :: "(string \<Rightarrow> string) \<Rightarrow> int \<Rightarrow> (string \<Rightarrow> row option) \<Rightarrow> finding \<times> bool \<Rightarrow> change" where
  "seen_change sha now known p =
     (case p of (f, hid) \<Rightarrow>
      case see_row (finding_Fingerprint sha f) now f hid (known (finding_Fingerprint sha f)) of (k, rw) \<Rightarrow>
        \<lparr>c_Kind = k, c_Finding = f, c_Suppressed = hid, c_FirstSeen = rw_firstSeen rw\<rparr>)"

lemma see_finding_simp:
  "see_finding sha now (f, hid) (rows, ch) =
    (AList.update (finding_Fingerprint sha f)
       (snd (see_row (finding_Fingerprint sha f) now f hid (map_of rows (finding_Fingerprint sha f)))) rows,
     ch @ [seen_change sha now (map_of rows) (f, hid)])"
  by (simp add: see_finding_def seen_change_def Let_def split: prod.split)

lemma finding_of_None:
  "finding_of sha cur fp = None \<longleftrightarrow> (\<forall>p\<in>set cur. finding_Fingerprint sha (fst p) \<noteq> fp)"
  by (auto simp: find_None_iff)

lemma distinct_map_fresh: "distinct (map g (p # ps)) \<Longrightarrow> \<forall>q\<in>set ps. g q \<noteq> g p"
  by (auto simp: image_iff)

lemma seen_change_cong:
  "known (finding_Fingerprint sha (fst p)) = known' (finding_Fingerprint sha (fst p)) \<Longrightarrow>
    seen_change sha now known p = seen_change sha now known' p"
  by (cases p) (simp add: seen_change_def)

lemma fold_see:
  assumes "distinct (map (\<lambda>p. finding_Fingerprint sha (fst p)) cur)"
  shows "map_of (fst (fold (see_finding sha now) cur (rows, ch))) fp =
      (case finding_of sha cur fp of
        None \<Rightarrow> map_of rows fp
      | Some p \<Rightarrow> Some (snd (see_row fp now (fst p) (snd p) (map_of rows fp)))) \<and>
    snd (fold (see_finding sha now) cur (rows, ch)) = ch @ map (seen_change sha now (map_of rows)) cur \<and>
    (distinct (map fst rows) \<longrightarrow> distinct (map fst (fst (fold (see_finding sha now) cur (rows, ch)))))"
  using assms
proof (induction cur arbitrary: rows ch)
  case (Cons p cur)
  obtain f hid where p: "p = (f, hid)" by (cases p)
  define fp0 where "fp0 = finding_Fingerprint sha f"
  define rows1 where
    "rows1 = AList.update fp0 (snd (see_row fp0 now f hid (map_of rows fp0))) rows"
  define ch1 where "ch1 = ch @ [seen_change sha now (map_of rows) p]"
  have new: "\<forall>q\<in>set cur. finding_Fingerprint sha (fst q) \<noteq> fp0"
    and d: "distinct (map (\<lambda>p. finding_Fingerprint sha (fst p)) cur)"
    using Cons.prems distinct_map_fresh [OF Cons.prems] by (simp_all add: p fp0_def)
  have step: "fold (see_finding sha now) (p # cur) (rows, ch) = fold (see_finding sha now) cur (rows1, ch1)"
    by (simp add: p see_finding_simp rows1_def ch1_def fp0_def)
  have m: "map_of rows1 fp = (if fp = fp0 then Some (snd (see_row fp0 now f hid (map_of rows fp0))) else map_of rows fp)" for fp
    by (simp add: rows1_def AList.update_conv')
  have same: "map (seen_change sha now (map_of rows1)) cur = map (seen_change sha now (map_of rows)) cur"
    using new by (intro map_cong [OF refl] seen_change_cong) (simp add: m)
  have none: "finding_of sha cur fp0 = None"
    unfolding finding_of_None by (rule new)
  have find: "finding_of sha (p # cur) fp = (if fp0 = fp then Some p else finding_of sha cur fp)"
    by (simp add: p fp0_def)
  have keys: "distinct (map fst rows) \<Longrightarrow> distinct (map fst rows1)"
    by (simp add: rows1_def AList.distinct_update)
  note IH = Cons.IH [OF d, of rows1 ch1]
  have 1: "map_of (fst (fold (see_finding sha now) cur (rows1, ch1))) fp =
      (case finding_of sha (p # cur) fp of
        None \<Rightarrow> map_of rows fp
      | Some p \<Rightarrow> Some (snd (see_row fp now (fst p) (snd p) (map_of rows fp))))"
    using conjunct1 [OF IH] none unfolding find m by (cases "fp = fp0") (auto simp: p)
  have 2: "snd (fold (see_finding sha now) cur (rows1, ch1)) =
      ch @ map (seen_change sha now (map_of rows)) (p # cur)"
    using IH unfolding same by (simp add: ch1_def)
  show ?case
    unfolding step using 1 2 keys conjunct2 [OF IH] by simp
qed simp

subsection \<open>The second loop\<close>

definition missed_change :: "int \<Rightarrow> int \<Rightarrow> 'e result \<Rightarrow> string set \<Rightarrow> string \<Rightarrow> row \<Rightarrow> row" where
  "missed_change now ra res seen fp rw = snd (fst (miss_row now ra res seen (fp, rw)))"

lemma miss_row_key [simp]: "fst (fst (miss_row now ra res seen p)) = fst p"
  by (cases p) (simp add: miss_row_def Let_def)

lemma map_of_missed:
  "map_of (map fst (map (miss_row now ra res seen) rows)) fp =
    map_option (missed_change now ra res seen fp) (map_of rows fp)"
proof (induction rows)
  case (Cons p rows)
  have "fst (miss_row now ra res seen p) = (fst p, missed_change now ra res seen (fst p) (snd p))"
    by (rule prod_eqI) (simp_all add: missed_change_def)
  then show ?case using Cons by simp
qed simp

text \<open>The changes of one fingerprint.\<close>

definition changes_of :: "(string \<Rightarrow> string) \<Rightarrow> string \<Rightarrow> change list \<Rightarrow> change list" where
  "changes_of sha fp ch = filter (\<lambda>c. finding_Fingerprint sha (c_Finding c) = fp) ch"

lemma changes_of_append [simp]: "changes_of sha fp (a @ b) = changes_of sha fp a @ changes_of sha fp b"
  by (simp add: changes_of_def)

lemma changes_of_seen:
  assumes "distinct (map (\<lambda>p. finding_Fingerprint sha (fst p)) cur)"
  shows "changes_of sha fp (map (seen_change sha now known) cur) =
    (case finding_of sha cur fp of None \<Rightarrow> [] | Some p \<Rightarrow> [seen_change sha now known p])"
  using assms
proof (induction cur)
  case (Cons p cur)
  have c: "c_Finding (seen_change sha now known p) = fst p"
    by (simp add: seen_change_def split: prod.split)
  show ?case
  proof (cases "finding_Fingerprint sha (fst p) = fp")
    case True
    then have "finding_of sha cur fp = None"
      using distinct_map_fresh [OF Cons.prems] unfolding finding_of_None by simp
    then show ?thesis
      using Cons True c by (simp add: changes_of_def)
  next
    case False
    then show ?thesis using Cons c by (simp add: changes_of_def)
  qed
qed (simp add: changes_of_def)

lemma changes_of_missed:
  assumes "distinct (map fst rows)" and "\<forall>(k, rw)\<in>set rows. k \<notin> seen \<longrightarrow> finding_Fingerprint sha (rw_f rw) = k"
  shows "changes_of sha fp (concat (map snd (map (miss_row now ra res seen) rows))) =
    (case map_of rows fp of None \<Rightarrow> [] | Some rw \<Rightarrow> snd (miss_row now ra res seen (fp, rw)))"
  using assms
proof (induction rows)
  case (Cons p rows)
  obtain k rw where p: "p = (k, rw)" by (cases p)
  have one: "changes_of sha fp (snd (miss_row now ra res seen p)) =
      (if k = fp then snd (miss_row now ra res seen (fp, rw)) else [])"
    using Cons.prems(2) by (auto simp: p changes_of_def miss_row_def Let_def)
  show ?case
  proof (cases "k = fp")
    case True
    then have "map_of rows fp = None"
      using Cons.prems(1) by (auto simp: p map_of_eq_None_iff)
    then show ?thesis
      using Cons one True by (simp add: p)
  next
    case False
    then show ?thesis using Cons one by (simp add: p)
  qed
qed (simp add: changes_of_def)

subsection \<open>Observing a run\<close>

definition rows_ok :: "(string \<Rightarrow> string) \<Rightarrow> (string \<times> row) list \<Rightarrow> bool" where
  "rows_ok sha rows \<longleftrightarrow> distinct (map fst rows) \<and>
     (\<forall>fp rw. map_of rows fp = Some rw \<longrightarrow> rw_fp rw = fp \<and> finding_Fingerprint sha (rw_f rw) = fp \<and>
        \<not> rw_gone rw \<and> \<not> rw_dirty rw \<and> rw_oldFP rw = [])"

definition visible :: "row option \<Rightarrow> row option" where
  "visible r = (case r of None \<Rightarrow> None | Some rw \<Rightarrow> if rw_gone rw then None else Some (clean rw))"

lemma see_row_props:
  "rw_f (snd (see_row fp now f hid known)) = f" "rw_open (snd (see_row fp now f hid known))"
  "rw_dirty (snd (see_row fp now f hid known))"
  "(\<And>rw. known = Some rw \<Longrightarrow> rw_fp rw = fp \<and> \<not> rw_gone rw \<and> rw_oldFP rw = []) \<Longrightarrow>
     rw_fp (snd (see_row fp now f hid known)) = fp \<and> \<not> rw_gone (snd (see_row fp now f hid known)) \<and>
     rw_oldFP (snd (see_row fp now f hid known)) = []"
  "known = Some rw \<Longrightarrow> rw_firstSeen (snd (see_row fp now f hid known)) = rw_firstSeen rw"
  by (auto simp: see_row_def new_row_def split: option.splits)

definition seen_fps :: "(string \<Rightarrow> string) \<Rightarrow> 'e result \<Rightarrow> string set" where
  "seen_fps sha res = (\<lambda>p. finding_Fingerprint sha (fst p)) ` set (current_findings res)"

lemma in_seen_fps: "fp \<in> seen_fps sha res \<longleftrightarrow> finding_of sha (current_findings res) fp \<noteq> None"
  by (force simp: seen_fps_def find_None_iff)

text \<open>The row Record leaves under a fingerprint, from the row it found there.\<close>

definition row_after ::
  "(string \<Rightarrow> string) \<Rightarrow> int \<Rightarrow> int \<Rightarrow> 'e result \<Rightarrow> string \<Rightarrow> row option \<Rightarrow> row option" where
  "row_after sha now ra res fp known =
     (case finding_of sha (current_findings res) fp of
        Some p \<Rightarrow> Some (snd (see_row fp now (fst p) (snd p) known))
      | None \<Rightarrow> map_option (missed_change now ra res {} fp) known)"

lemma missed_change_seen: "fp \<in> seen \<Longrightarrow> missed_change now ra res seen fp rw = rw"
  by (simp add: missed_change_def miss_row_def)

lemma missed_change_unseen:
  "fp \<notin> seen \<Longrightarrow> miss_row now ra res seen (fp, rw) = miss_row now ra res {} (fp, rw)"
  by (simp add: miss_row_def)

lemma observe_rows:
  assumes ok: "rows_ok sha rows0"
    and d: "distinct (map (\<lambda>p. finding_Fingerprint sha (fst p)) (current_findings res))"
  shows "map_of (fst (observe sha now ra res rows0)) fp = row_after sha now ra res fp (map_of rows0 fp)"
    "distinct (map fst (fst (observe sha now ra res rows0)))"
    "changes_of sha fp (snd (observe sha now ra res rows0)) =
      (case finding_of sha (current_findings res) fp of
         Some p \<Rightarrow> [seen_change sha now (map_of rows0) p]
       | None \<Rightarrow> (case map_of rows0 fp of None \<Rightarrow> []
           | Some rw \<Rightarrow> snd (miss_row now ra res {} (fp, rw))))"
proof -
  define cur where "cur = current_findings res"
  define rows1 where "rows1 = fst (fold (see_finding sha now) cur (rows0, []))"
  define seen where "seen = seen_fps sha res"
  have obs: "observe sha now ra res rows0 =
      (map fst (map (miss_row now ra res seen) rows1),
       map (seen_change sha now (map_of rows0)) cur @ concat (map snd (map (miss_row now ra res seen) rows1)))"
  proof -
    have ch: "snd (fold (see_finding sha now) cur (rows0, [])) = map (seen_change sha now (map_of rows0)) cur"
      using fold_see [OF d [folded cur_def], of now rows0 "[]" fp] by simp
    show ?thesis
      by (simp add: observe_def Let_def cur_def [symmetric] rows1_def seen_def seen_fps_def
          case_prod_unfold ch [symmetric])
  qed
  have m: "map_of rows1 fp = (case finding_of sha cur fp of None \<Rightarrow> map_of rows0 fp
      | Some p \<Rightarrow> Some (snd (see_row fp now (fst p) (snd p) (map_of rows0 fp))))" for fp
    unfolding rows1_def using conjunct1 [OF fold_see [OF d [folded cur_def]]] .
  have d1: "distinct (map fst rows1)"
    using fold_see [OF d [folded cur_def], of now rows0 "[]"] ok by (simp add: rows1_def rows_ok_def)
  have seen: "k \<in> seen \<longleftrightarrow> finding_of sha cur k \<noteq> None" for k
    unfolding seen_def cur_def by (rule in_seen_fps)
  have unseen: "\<forall>(k, rw)\<in>set rows1. k \<notin> seen \<longrightarrow> finding_Fingerprint sha (rw_f rw) = k"
  proof (intro ballI, clarify)
    fix k rw assume "(k, rw) \<in> set rows1" "k \<notin> seen"
    then have "map_of rows1 k = Some rw" and "finding_of sha cur k = None"
      using d1 seen [of k] by (simp, blast)
    then have "map_of rows0 k = Some rw" using m [of k] by simp
    then show "finding_Fingerprint sha (rw_f rw) = k" using ok by (simp add: rows_ok_def)
  qed
  show "map_of (fst (observe sha now ra res rows0)) fp = row_after sha now ra res fp (map_of rows0 fp)"
  proof (cases "finding_of sha cur fp")
    case None
    then have "fp \<notin> seen" using seen by simp
    then have "missed_change now ra res seen fp = missed_change now ra res {} fp"
      by (simp add: fun_eq_iff missed_change_def missed_change_unseen [of fp seen])
    then show ?thesis
      unfolding obs fst_conv map_of_missed m row_after_def cur_def [symmetric] None option.case by simp
  next
    case (Some p)
    then show ?thesis
      unfolding obs fst_conv map_of_missed m row_after_def cur_def [symmetric]
      using seen [of fp] by (simp add: missed_change_seen)
  qed
  have keys: "map fst (map fst (map (miss_row now ra res seen) rows1)) = map fst rows1"
    by simp
  show "distinct (map fst (fst (observe sha now ra res rows0)))"
    unfolding obs fst_conv keys by (rule d1)
  have "changes_of sha fp (snd (observe sha now ra res rows0)) =
      (case finding_of sha cur fp of None \<Rightarrow> []
       | Some p \<Rightarrow> [seen_change sha now (map_of rows0) p]) @
      (case map_of rows1 fp of None \<Rightarrow> [] | Some rw \<Rightarrow> snd (miss_row now ra res seen (fp, rw)))"
    unfolding obs snd_conv changes_of_append changes_of_missed [OF d1 unseen]
      changes_of_seen [OF d [folded cur_def]] ..
  also have "\<dots> = (case finding_of sha cur fp of
         Some p \<Rightarrow> [seen_change sha now (map_of rows0) p]
       | None \<Rightarrow> (case map_of rows0 fp of None \<Rightarrow> []
           | Some rw \<Rightarrow> snd (miss_row now ra res {} (fp, rw))))"
  proof (cases "finding_of sha cur fp")
    case None
    then have "fp \<notin> seen" using seen by simp
    then show ?thesis
      using None by (simp add: m missed_change_unseen [of fp seen] split: option.split)
  next
    case (Some p)
    then have "fp \<in> seen" using seen by simp
    then show ?thesis using Some by (simp add: m miss_row_def)
  qed
  finally show "changes_of sha fp (snd (observe sha now ra res rows0)) =
      (case finding_of sha (current_findings res) fp of
         Some p \<Rightarrow> [seen_change sha now (map_of rows0) p]
       | None \<Rightarrow> (case map_of rows0 fp of None \<Rightarrow> []
           | Some rw \<Rightarrow> snd (miss_row now ra res {} (fp, rw))))"
    unfolding cur_def .
qed

text \<open>The loops agree with the abstract specification.\<close>

lemma see_row_clean:
  assumes "\<And>rw. known = Some rw \<Longrightarrow> rw_fp rw = fp \<and> \<not> rw_gone rw \<and> rw_oldFP rw = []"
  shows "map_option clean (fst (track ra fp now known (Seen f hid))) = Some (clean (snd (see_row fp now f hid known)))"
  using assms by (cases known) (auto simp: track_def Let_def see_row_def new_row_def clean_def)

lemma row_after_track:
  assumes "\<And>rw. known = Some rw \<Longrightarrow> rw_fp rw = fp \<and> \<not> rw_gone rw \<and> rw_oldFP rw = []"
  shows "visible (row_after sha now ra res fp known) =
      map_option clean (fst (track ra fp now known (observation sha res known fp)))"
proof (cases "finding_of sha (current_findings res) fp")
  case None
  then show ?thesis
    using assms by (cases known)
      (auto simp: row_after_def track_def observation_def visible_def missed_change_def miss_row_def clean_def Let_def)
next
  case (Some p)
  then show ?thesis
    using see_row_props(4) [of known fp now "fst p" "snd p"] assms see_row_clean [of known fp ra now "fst p" "snd p"]
    by (cases p) (auto simp: row_after_def observation_def visible_def)
qed

lemma finding_of_Some:
  "finding_of sha cur fp = Some p \<Longrightarrow> p \<in> set cur \<and> finding_Fingerprint sha (fst p) = fp"
  by (auto simp: find_Some_iff)

lemma see_row_spec:
  "fst (see_row fp now f hid known) = kind_of_seen (status known) hid"
  "rw_firstSeen (snd (see_row fp now f hid known)) = (case known of None \<Rightarrow> now | Some rw \<Rightarrow> rw_firstSeen rw)"
  by (cases hid; auto simp: see_row_def new_row_def status_def split: option.splits)+

lemma seen_change_track:
  "finding_Fingerprint sha (fst p) = fp \<Longrightarrow>
    [seen_change sha now known p] = snd (track ra fp now (known fp) (Seen (fst p) (snd p)))"
  by (cases p) (simp add: seen_change_def track_def Let_def see_row_spec case_prod_unfold)

lemma changes_track:
  "(case finding_of sha (current_findings res) fp of
      Some p \<Rightarrow> [seen_change sha now h p]
    | None \<Rightarrow> (case h fp of None \<Rightarrow> []
        | Some rw \<Rightarrow> snd (miss_row now ra res {} (fp, rw)))) =
   snd (track ra fp now (h fp) (observation sha res (h fp) fp))"
proof (cases "finding_of sha (current_findings res) fp")
  case None
  then show ?thesis by (auto simp: track_def observation_def miss_row_def Let_def split: option.splits)
next
  case (Some p)
  then show ?thesis
    using seen_change_track [OF conjunct2 [OF finding_of_Some [OF Some]], of now h ra]
    by (simp add: observation_def split: prod.splits)
qed

subsection \<open>Loading and saving\<close>

definition stored_ok :: "(string \<Rightarrow> string) \<Rightarrow> (string \<times> db_row) list \<Rightarrow> bool" where
  "stored_ok sha table \<longleftrightarrow> distinct (map fst table) \<and>
     (\<forall>fp r. map_of table fp = Some r \<longrightarrow>
        Fingerprint sha (db_check_id r) (db_target r) (db_subject r) = fp \<and>
        (\<exists>v. severity_Valid v \<and> db_severity r = severity_String v))"

lemma map_load_keys: "map fst (map (\<lambda>(fp, r). (fp, row_of_db fp r)) table) = map fst table"
  by (induction table) auto

lemma map_of_load: "map_of (map (\<lambda>(fp, r). (fp, row_of_db fp r)) table) fp = map_option (row_of_db fp) (map_of table fp)"
  by (induction table) auto

lemma update_fresh: "k \<notin> fst ` set al \<Longrightarrow> AList.update k v al = al @ [(k, v)]"
  by (induction al) auto

lemma loadRows_current:
  assumes "distinct (map fst table)" "\<forall>(fp, r)\<in>set table. canonical (db_check_id r) = db_check_id r"
  shows "loadRows sha canonical table = map (\<lambda>(fp, r). (fp, row_of_db fp r)) table"
proof -
  have "foldl (\<lambda>rows (fp, r). let rw = rename_row sha canonical (row_of_db fp r)
                            in AList.update (rw_fp rw) rw rows) acc table =
      acc @ map (\<lambda>(fp, r). (fp, row_of_db fp r)) table"
    if "fst ` set acc \<inter> fst ` set table = {}" for acc
    using assms that
  proof (induction table arbitrary: acc)
    case (Cons p table)
    obtain fp r where p: "p = (fp, r)" by (cases p)
    have "rename_row sha canonical (row_of_db fp r) = row_of_db fp r"
      using Cons.prems(2) by (simp add: p rename_row_def row_of_db_def)
    moreover have "AList.update fp (row_of_db fp r) acc = acc @ [(fp, row_of_db fp r)]"
      using Cons.prems(3) by (intro update_fresh) (auto simp: p)
    moreover have "rw_fp (row_of_db fp r) = fp" by (simp add: row_of_db_def)
    ultimately show ?case
      using Cons.IH [of "acc @ [(fp, row_of_db fp r)]"] Cons.prems by (auto simp: p Let_def)
  qed simp
  then show ?thesis by (simp add: loadRows_def)
qed

text \<open>What saveRows writes under a fingerprint that had the stored row \<open>old\<close>.\<close>

definition saved :: "row \<Rightarrow> db_row option \<Rightarrow> db_row option" where
  "saved rw old =
     (if rw_gone rw then None
      else if \<not> rw_dirty rw then old
      else Some (case old of
          None \<Rightarrow> db_of_row rw
        | Some r \<Rightarrow> (db_of_row rw)\<lparr>db_target := db_target r, db_subject := db_subject r,
                       db_first_seen := db_first_seen r\<rparr>))"

lemma save_row_plain:
  assumes "rw_oldFP rw = []"
  shows "map_of (save_row rw table) = (map_of table)(rw_fp rw := saved rw (map_of table (rw_fp rw)))"
    and "distinct (map fst table) \<Longrightarrow> distinct (map fst (save_row rw table))"
  using assms
  by (auto simp: save_row_def Let_def saved_def upsert_def AList.delete_conv' AList.update_conv'
      AList.distinct_update AList.distinct_delete fun_upd_idem_iff split: option.splits)

lemma saveRows_plain:
  assumes "distinct (map fst rows)" "\<forall>(k, rw)\<in>set rows. rw_fp rw = k \<and> rw_oldFP rw = []"
  shows "map_of (saveRows rows table) fp =
      (case map_of rows fp of None \<Rightarrow> map_of table fp | Some rw \<Rightarrow> saved rw (map_of table fp)) \<and>
    (distinct (map fst table) \<longrightarrow> distinct (map fst (saveRows rows table)))"
  using assms
proof (induction rows arbitrary: table)
  case (Cons p rows)
  obtain k rw where p: "p = (k, rw)" by (cases p)
  have rw: "rw_fp rw = k" "rw_oldFP rw = []" using Cons.prems(2) by (simp_all add: p)
  have none: "map_of rows k = None" using Cons.prems(1) by (auto simp: p map_of_eq_None_iff)
  have "saveRows (p # rows) table = saveRows rows (save_row rw table)"
    by (simp add: saveRows_def p)
  then show ?case
    using Cons.IH [of "save_row rw table"] Cons.prems none
      save_row_plain(1) [OF rw(2), of table] save_row_plain(2) [OF rw(2), of table]
    by (cases "fp = k"; cases "map_of rows fp") (simp_all add: p rw)
qed (simp add: saveRows_def)

subsection \<open>Record refines the specification\<close>

text \<open>The history of a fingerprint as the store holds it.\<close>

definition history :: "store \<Rightarrow> string \<Rightarrow> row option" where
  "history s fp = map_option (row_of_db fp) (map_of (s_findings s) fp)"

definition triples :: "(string \<times> db_row) list \<Rightarrow> 'e result \<Rightarrow> (string \<times> string \<times> string) set" where
  "triples table res =
     (\<lambda>(fp, r). (db_check_id r, db_target r, db_subject r)) ` set table \<union>
     (\<lambda>(f, hid). (f_CheckID f, f_Target f, f_Subject f)) ` set (current_findings res)"

text \<open>
  A result as the engine and the suppressions leave it, for a store whose check IDs are current:
  one finding per fingerprint, valid severities, no two recorded triples with the same digest.
\<close>

definition recordable ::
  "(string \<Rightarrow> string) \<Rightarrow> options \<Rightarrow> 'e result \<Rightarrow> store \<Rightarrow> bool" where
  "recordable sha opts res s \<longleftrightarrow>
     stored_ok sha (s_findings s) \<and>
     (\<forall>c. o_Canonical opts = Some c \<longrightarrow> (\<forall>(fp, r)\<in>set (s_findings s). c (db_check_id r) = db_check_id r)) \<and>
     distinct (map (\<lambda>p. finding_Fingerprint sha (fst p)) (current_findings res)) \<and>
     (\<forall>(f, hid)\<in>set (current_findings res). severity_Valid (f_Severity f)) \<and>
     inj_on (\<lambda>(i, t, u). Fingerprint sha i t u) (triples (s_findings s) res)"

lemma rows_ok_loaded:
  assumes "stored_ok sha table"
  shows "rows_ok sha (map (\<lambda>(fp, r). (fp, row_of_db fp r)) table)"
  using assms unfolding rows_ok_def stored_ok_def map_load_keys map_of_load
  by (auto simp: row_of_db_def finding_Fingerprint_def)

lemma row_of_db_of_row:
  assumes "severity_Valid (f_Severity (rw_f rw))" "rw_fp rw = fp" "\<not> rw_gone rw"
  shows "row_of_db fp (db_of_row rw) = clean rw"
  using assms by (simp add: row_of_db_def db_of_row_def clean_def ParseSeverity_String)

lemma clean_row_of_db [simp]: "clean (row_of_db fp r) = row_of_db fp r"
  by (simp add: clean_def row_of_db_def)

lemma saved_history:
  assumes sev: "severity_Valid (f_Severity (rw_f rw))" and fp: "rw_fp rw = fp"
    and clean_rw: "\<not> rw_dirty rw \<Longrightarrow> \<not> rw_gone rw \<Longrightarrow> \<exists>r. old = Some r \<and> rw = row_of_db fp r"
    and same: "\<And>r. old = Some r \<Longrightarrow> db_target r = f_Target (rw_f rw) \<and> db_subject r = f_Subject (rw_f rw) \<and>
      db_first_seen r = rw_firstSeen rw"
  shows "map_option (row_of_db fp) (saved rw old) = visible (Some rw)"
proof -
  have "db_of_row rw\<lparr>db_target := db_target r, db_subject := db_subject r, db_first_seen := db_first_seen r\<rparr> = db_of_row rw"
    if "old = Some r" for r
    using same [OF that] by (simp add: db_of_row_def)
  then show ?thesis
    using row_of_db_of_row [OF sev fp] clean_rw by (auto simp: saved_def visible_def split: option.splits)
qed

lemma row_after_saved:
  assumes rec: "recordable sha opts res s" and after: "row_after sha now ra res fp (history s fp) = Some rw"
  shows "map_option (row_of_db fp) (saved rw (map_of (s_findings s) fp)) = visible (Some rw)"
    and "rw_fp rw = fp" "rw_oldFP rw = []" "severity_Valid (f_Severity (rw_f rw))"
proof -
  have st: "stored_ok sha (s_findings s)" using rec by (simp add: recordable_def)
  have hist: "rw_fp h = fp \<and> \<not> rw_gone h \<and> rw_oldFP h = [] \<and> \<not> rw_dirty h" if "history s fp = Some h" for h
    using that by (auto simp: history_def row_of_db_def)
  have all: "map_option (row_of_db fp) (saved rw (map_of (s_findings s) fp)) = visible (Some rw) \<and>
    rw_fp rw = fp \<and> rw_oldFP rw = [] \<and> severity_Valid (f_Severity (rw_f rw))"
  proof (cases "finding_of sha (current_findings res) fp")
    case None
    then obtain h where h: "history s fp = Some h" "rw = missed_change now ra res {} fp h"
      using after by (auto simp: row_after_def)
    then obtain r where r: "map_of (s_findings s) fp = Some r" "h = row_of_db fp r"
      by (auto simp: history_def)
    have rw: "rw_f rw = rw_f h" "rw_fp rw = fp" "rw_oldFP rw = []" "rw_firstSeen rw = rw_firstSeen h"
      "\<not> rw_dirty rw \<Longrightarrow> \<not> rw_gone rw \<Longrightarrow> rw = h"
      using hist [OF h(1)] by (auto simp: h(2) missed_change_def miss_row_def Let_def)
    obtain v where v: "severity_Valid v" "db_severity r = severity_String v"
      using st r(1) unfolding stored_ok_def by blast
    then have sev: "severity_Valid (f_Severity (rw_f rw))"
      by (simp add: rw(1) r(2) row_of_db_def ParseSeverity_String)
    have "map_option (row_of_db fp) (saved rw (map_of (s_findings s) fp)) = visible (Some rw)"
    proof (rule saved_history [OF sev rw(2)])
      fix r' assume "map_of (s_findings s) fp = Some r'"
      then show "db_target r' = f_Target (rw_f rw) \<and> db_subject r' = f_Subject (rw_f rw) \<and>
          db_first_seen r' = rw_firstSeen rw"
        using r rw(1,4) by (simp add: row_of_db_def)
    qed (use r rw(5) in blast)
    then show ?thesis using rw sev by simp
  next
    case (Some p)
    note fp = finding_of_Some [OF Some]
    have rw: "rw = snd (see_row fp now (fst p) (snd p) (history s fp))"
      using after Some by (simp add: row_after_def)
    have props: "rw_f rw = fst p" "rw_dirty rw" "rw_fp rw = fp" "rw_oldFP rw = []"
      unfolding rw using see_row_props(4) [of "history s fp" fp now "fst p" "snd p"] hist
      by (auto simp: see_row_props(1,3))
    have sev: "severity_Valid (f_Severity (rw_f rw))"
      using rec fp props(1) unfolding recordable_def by (cases p) auto
    have same: "db_target r = f_Target (rw_f rw) \<and> db_subject r = f_Subject (rw_f rw) \<and>
      db_first_seen r = rw_firstSeen rw" if r: "map_of (s_findings s) fp = Some r" for r
    proof -
      have "(db_check_id r, db_target r, db_subject r) \<in> triples (s_findings s) res"
        using map_of_SomeD [OF r] unfolding triples_def by force
      moreover have "(f_CheckID (fst p), f_Target (fst p), f_Subject (fst p)) \<in> triples (s_findings s) res"
        using fp unfolding triples_def by (cases p) force
      moreover have "Fingerprint sha (db_check_id r) (db_target r) (db_subject r) =
          Fingerprint sha (f_CheckID (fst p)) (f_Target (fst p)) (f_Subject (fst p))"
        using st r fp unfolding stored_ok_def finding_Fingerprint_def by simp
      moreover have "inj_on (\<lambda>(i, t, u). Fingerprint sha i t u) (triples (s_findings s) res)"
        using rec by (simp add: recordable_def)
      ultimately have "db_target r = f_Target (fst p) \<and> db_subject r = f_Subject (fst p)"
        unfolding inj_on_def by force
      moreover have "rw_firstSeen rw = db_first_seen r"
        unfolding rw using r by (subst see_row_props(5)) (auto simp: history_def row_of_db_def)
      ultimately show ?thesis using props(1) by simp
    qed
    have "map_option (row_of_db fp) (saved rw (map_of (s_findings s) fp)) = visible (Some rw)"
      by (rule saved_history) (use sev props same in auto)
    then show ?thesis using props sev by simp
  qed
  then show "map_option (row_of_db fp) (saved rw (map_of (s_findings s) fp)) = visible (Some rw)"
    and "rw_fp rw = fp" "rw_oldFP rw = []" "severity_Valid (f_Severity (rw_f rw))" by blast+
qed

lemma rows_after_record:
  assumes rec: "recordable sha opts res s"
  defines "now \<equiv> unix_milli (r_Started res + r_Duration res)"
    and "ra \<equiv> max (o_ResolveAfter opts) 1"
    and "canonical \<equiv> (case o_Canonical opts of None \<Rightarrow> (\<lambda>i. i) | Some c \<Rightarrow> c)"
  defines "out \<equiv> observe sha now ra res (loadRows sha canonical (s_findings s))"
  shows "map_of (fst out) fp = row_after sha now ra res fp (history s fp)"
    and "distinct (map fst (fst out))"
    and "changes_of sha fp (snd out) = snd (track ra fp now (history s fp) (observation sha res (history s fp) fp))"
proof -
  have st: "stored_ok sha (s_findings s)"
    and d: "distinct (map (\<lambda>p. finding_Fingerprint sha (fst p)) (current_findings res))"
    using rec by (simp_all add: recordable_def)
  have "\<forall>(fp, r)\<in>set (s_findings s). canonical (db_check_id r) = db_check_id r"
    using rec by (simp add: recordable_def canonical_def split: option.splits)
  then have load: "loadRows sha canonical (s_findings s) = map (\<lambda>(fp, r). (fp, row_of_db fp r)) (s_findings s)"
    using st by (intro loadRows_current) (simp_all add: stored_ok_def)
  note O = observe_rows [OF rows_ok_loaded [OF st] d, where now = now and ra = ra]
  have h: "map_of (map (\<lambda>(fp, r). (fp, row_of_db fp r)) (s_findings s)) = history s"
    by (simp add: fun_eq_iff map_of_load history_def)
  show "map_of (fst out) fp = row_after sha now ra res fp (history s fp)" "distinct (map fst (fst out))"
    unfolding out_def load using O(1) [where fp = fp] O(2) by (simp_all only: h)
  show "changes_of sha fp (snd out) = snd (track ra fp now (history s fp) (observation sha res (history s fp) fp))"
    unfolding out_def load O(3) h by (rule changes_track)
qed

lemma history_tracks:
  assumes "history s fp = Some rw"
  shows "rw_fp rw = fp \<and> \<not> rw_gone rw \<and> rw_oldFP rw = []"
  using assms by (auto simp: history_def row_of_db_def)

lemma mset_changes_sort: "mset (changes_of sha fp (sort_func CompareChanges ch)) = mset (changes_of sha fp ch)"
  by (simp add: changes_of_def)

lemma Record_stored:
  assumes "recordable sha opts res s"
  defines "now \<equiv> unix_milli (r_Started res + r_Duration res)" and "ra \<equiv> max (o_ResolveAfter opts) 1"
  shows "map_of (s_findings (snd (Record sha opts res s))) fp =
      (case row_after sha now ra res fp (history s fp) of None \<Rightarrow> None
       | Some rw \<Rightarrow> saved rw (map_of (s_findings s) fp))"
    and "distinct (map fst (s_findings (snd (Record sha opts res s))))"
proof -
  define canonical where "canonical = (case o_Canonical opts of None \<Rightarrow> (\<lambda>i. i) | Some c \<Rightarrow> c)"
  define out where "out = observe sha now ra res (loadRows sha canonical (s_findings s))"
  note R = rows_after_record [OF assms(1), folded now_def ra_def canonical_def, folded out_def]
  note S = row_after_saved [OF assms(1), of now ra]
  have rows: "\<forall>(k, rw)\<in>set (fst out). rw_fp rw = k \<and> rw_oldFP rw = []"
  proof (intro ballI, clarify)
    fix k rw assume "(k, rw) \<in> set (fst out)"
    then have "row_after sha now ra res k (history s k) = Some rw"
      using R(1) [of k] R(2) by simp
    then show "rw_fp rw = k \<and> rw_oldFP rw = []" using S(2,3) by blast
  qed
  have rec: "s_findings (snd (Record sha opts res s)) = saveRows (fst out) (s_findings s)"
    by (simp add: Record_def Let_def now_def ra_def canonical_def out_def case_prod_unfold)
  have none: "map_of (s_findings s) fp = None" if "row_after sha now ra res fp (history s fp) = None"
    using that by (auto simp: row_after_def history_def split: option.splits)
  show "map_of (s_findings (snd (Record sha opts res s))) fp =
      (case row_after sha now ra res fp (history s fp) of None \<Rightarrow> None
       | Some rw \<Rightarrow> saved rw (map_of (s_findings s) fp))"
    using conjunct1 [OF saveRows_plain [OF R(2) rows]] none R(1) [of fp] by (simp add: rec split: option.split)
  show "distinct (map fst (s_findings (snd (Record sha opts res s))))"
    using conjunct2 [OF saveRows_plain [OF R(2) rows]] assms(1) by (simp add: rec recordable_def stored_ok_def)
qed

lemma Record_tracks:
  assumes "recordable sha opts res s"
  shows "let (d, s') = Record sha opts res s;
      now = unix_milli (r_Started res + r_Duration res);
      (known, changes) = track (max (o_ResolveAfter opts) 1) fp now (history s fp)
                         (observation sha res (history s fp) fp)
    in history s' fp = map_option clean known \<and> mset (changes_of sha fp (d_Changes d)) = mset changes \<and>
       distinct (map fst (s_findings s'))"
proof -
  define now where "now = unix_milli (r_Started res + r_Duration res)"
  define ra where "ra = max (o_ResolveAfter opts) 1"
  define canonical where "canonical = (case o_Canonical opts of None \<Rightarrow> (\<lambda>i. i) | Some c \<Rightarrow> c)"
  define out where "out = observe sha now ra res (loadRows sha canonical (s_findings s))"
  note R = rows_after_record(3) [OF assms, folded now_def ra_def canonical_def, folded out_def]
  note stored = Record_stored [OF assms, folded now_def ra_def]
  have "history (snd (Record sha opts res s)) fp = visible (row_after sha now ra res fp (history s fp))"
    unfolding history_def [of "snd (Record sha opts res s)"] stored(1)
    using row_after_saved(1) [OF assms, of now ra fp] by (simp add: visible_def split: option.split)
  also have "\<dots> = map_option clean (fst (track ra fp now (history s fp) (observation sha res (history s fp) fp)))"
    by (rule row_after_track) (rule history_tracks)
  finally have 1: "history (snd (Record sha opts res s)) fp =
    map_option clean (fst (track ra fp now (history s fp) (observation sha res (history s fp) fp)))" .
  have "d_Changes (fst (Record sha opts res s)) = sort_func CompareChanges (snd out)"
    by (simp add: Record_def Let_def now_def ra_def canonical_def out_def case_prod_unfold)
  then have 2: "mset (changes_of sha fp (d_Changes (fst (Record sha opts res s)))) =
      mset (snd (track ra fp now (history s fp) (observation sha res (history s fp) fp)))"
    by (simp add: mset_changes_sort R)
  show ?thesis
    using 1 2 stored(2) by (simp add: Let_def case_prod_unfold now_def ra_def)
qed


subsection \<open>Histories over many runs\<close>

lemma kind_of_seen_not_resolved [simp]: "kind_of_seen st hid \<noteq> Resolved" "Resolved \<noteq> kind_of_seen st hid"
  by (cases "(st, hid)" rule: kind_of_seen.cases; simp)+

text \<open>The history of one fingerprint after the observations of successive runs.\<close>

fun after_runs :: "int \<Rightarrow> string \<Rightarrow> (int \<times> obs) list \<Rightarrow> row option" where
  "after_runs ra fp [] = None"
| "after_runs ra fp ((now, ob) # older) =
     map_option clean (fst (track ra fp now (after_runs ra fp older) ob))"

definition silent :: "(int \<times> obs) list \<Rightarrow> bool" where
  "silent os \<longleftrightarrow> (\<forall>(now, ob)\<in>set os. ob = Missed \<or> ob = NoVerdict)"

definition misses :: "(int \<times> obs) list \<Rightarrow> int" where
  "misses os = int (length (filter (\<lambda>(now, ob). ob = Missed) os))"

lemma clean_simps [simp]:
  "rw_open (clean rw) = rw_open rw" "rw_missing (clean rw) = rw_missing rw"
  by (simp_all add: clean_def)

lemma misses_simps [simp]:
  "misses [] = 0" "misses ((now, ob) # os) = misses os + (if ob = Missed then 1 else 0)" "0 \<le> misses os"
  by (simp_all add: misses_def)

lemma silent_simps [simp]:
  "silent []" "silent ((now, ob) # os) \<longleftrightarrow> (ob = Missed \<or> ob = NoVerdict) \<and> silent os"
  by (simp_all add: silent_def)

lemma after_seen:
  assumes "silent mid" "1 \<le> ra"
  shows "\<exists>rw. after_runs ra fp (mid @ (now, Seen f hid) # older) = Some rw \<and>
    (if misses mid < ra then rw_open rw \<and> rw_missing rw = misses mid else \<not> rw_open rw)"
  using assms
proof (induction mid)
  case Nil
  then show ?case
    by (auto simp: track_def Let_def)
next
  case (Cons o' mid)
  obtain n ob where o': "o' = (n, ob)" by (cases o')
  obtain rw where rw: "after_runs ra fp (mid @ (now, Seen f hid) # older) = Some rw"
    "if misses mid < ra then rw_open rw \<and> rw_missing rw = misses mid else \<not> rw_open rw"
    using Cons by (auto simp: o')
  consider "ob = Missed" | "ob = NoVerdict" using Cons.prems by (auto simp: o')
  then show ?case
    using rw by cases (auto simp: o' track_def split: if_splits)
qed

text \<open>Every history splits at the last time the finding was seen, unless it never was since its target came back.\<close>

lemma history_split:
  "(\<exists>mid now f hid older. os = mid @ (now, Seen f hid) # older \<and> silent mid) \<or> after_runs ra fp os = None"
proof (induction os)
  case (Cons o' os)
  obtain n ob where o': "o' = (n, ob)" by (cases o')
  show ?case
  proof (cases ob)
    case (Seen f hid)
    then have "o' # os = [] @ (n, Seen f hid) # os \<and> silent []" by (simp add: o')
    then show ?thesis by blast
  next
    case Forgotten
    then show ?thesis by (simp add: o' track_def)
  next
    case Missed
    from Cons.IH show ?thesis
    proof
      assume "\<exists>mid now f hid older. os = mid @ (now, Seen f hid) # older \<and> silent mid"
      then obtain mid now f hid older where "os = mid @ (now, Seen f hid) # older \<and> silent mid" by blast
      then have "o' # os = (o' # mid) @ (now, Seen f hid) # older \<and> silent (o' # mid)"
        by (simp add: o' Missed)
      then show ?thesis by blast
    qed (simp add: o' Missed track_def)
  next
    case NoVerdict
    from Cons.IH show ?thesis
    proof
      assume "\<exists>mid now f hid older. os = mid @ (now, Seen f hid) # older \<and> silent mid"
      then obtain mid now f hid older where "os = mid @ (now, Seen f hid) # older \<and> silent mid" by blast
      then have "o' # os = (o' # mid) @ (now, Seen f hid) # older \<and> silent (o' # mid)"
        by (simp add: o' NoVerdict)
      then show ?thesis by blast
    qed (simp add: o' NoVerdict track_def)
  qed
qed simp

lemma last_seen_unique:
  "silent mid \<Longrightarrow> silent mid' \<Longrightarrow>
    mid @ (now, Seen f hid) # older = mid' @ (now', Seen f' hid') # older' \<Longrightarrow> mid = mid'"
proof (induction mid arbitrary: mid')
  case Nil
  then show ?case by (cases mid') auto
next
  case (Cons a mid)
  then show ?case by (cases mid'; cases a) auto
qed

lemma resolved_tracks:
  assumes "1 \<le> ra"
  shows "Resolved \<in> c_Kind ` set (snd (track ra fp now (after_runs ra fp os) ob)) \<longleftrightarrow>
    ob = Missed \<and> (\<exists>mid seen f hid older. os = mid @ (seen, Seen f hid) # older \<and> silent mid \<and>
      misses mid + 1 = ra)"
proof -
  have notmissed: "Resolved \<notin> c_Kind ` set (snd (track ra fp now known ob))" if "ob \<noteq> Missed" for known
    using that by (cases ob) (auto simp: track_def Let_def)
  show ?thesis
  proof (cases "ob = Missed \<and> after_runs ra fp os \<noteq> None")
    case True
    then obtain mid seen f hid older where os: "os = mid @ (seen, Seen f hid) # older" "silent mid"
      using history_split [of os ra fp] by auto
    obtain rw where rw: "after_runs ra fp os = Some rw"
      "if misses mid < ra then rw_open rw \<and> rw_missing rw = misses mid else \<not> rw_open rw"
      using after_seen [OF os(2) assms, of fp seen f hid older] os(1) by blast
    have "Resolved \<in> c_Kind ` set (snd (track ra fp now (after_runs ra fp os) ob)) \<longleftrightarrow> misses mid + 1 = ra"
      using True rw by (auto simp: track_def split: if_splits)
    moreover have "misses mid' + 1 = ra \<Longrightarrow> misses mid + 1 = ra"
      if "os = mid' @ (seen', Seen f' hid') # older'" "silent mid'" for mid' seen' f' hid' older'
      using last_seen_unique [OF os(2) that(2) trans [OF os(1) [symmetric] that(1)]] by simp
    ultimately show ?thesis using True os by blast
  next
    case False
    show ?thesis
    proof (cases "ob = Missed")
      case True
      then have none: "after_runs ra fp os = None" using False by simp
      have "\<not> silent mid" if "os = mid @ (seen, Seen f hid) # older" for mid seen f hid older
        using after_seen [of mid ra fp seen f hid older] none that assms by auto
      then show ?thesis using True none by (auto simp: track_def)
    qed (use notmissed in blast)
  qed
qed

subsection \<open>Many runs of Record\<close>

text \<open>The database after successive runs, the latest first.\<close>

fun record_all :: "(string \<Rightarrow> string) \<Rightarrow> options \<Rightarrow> 'e result list \<Rightarrow> store \<Rightarrow> store" where
  "record_all sha opts [] s = s"
| "record_all sha opts (res # older) s = snd (Record sha opts res (record_all sha opts older s))"

text \<open>What a run says of the finding of check \<open>i\<close> with subject \<open>u\<close> on target \<open>t\<close>, read off its result alone.\<close>

definition reports :: "string \<Rightarrow> string \<Rightarrow> string \<Rightarrow> 'e result \<Rightarrow> bool" where
  "reports i t u res \<longleftrightarrow> (\<exists>(f, hid)\<in>set (current_findings res). f_CheckID f = i \<and> f_Target f = t \<and> f_Subject f = u)"

definition scans :: "string \<Rightarrow> 'e result \<Rightarrow> bool" where
  "scans t res \<longleftrightarrow> t \<in> t_Name ` set (r_Targets res)"

text \<open>
  What the engine and the suppressions guarantee of a result: one finding for each check, target and
  subject, valid severities, current check IDs. \<open>T\<close> holds the triples that occur, whose digests differ.
\<close>

definition sound_run ::
  "(string \<Rightarrow> string) \<Rightarrow> options \<Rightarrow> (string \<times> string \<times> string) set \<Rightarrow> 'e result \<Rightarrow> bool" where
  "sound_run sha opts T res \<longleftrightarrow>
     distinct (map (\<lambda>p. finding_Fingerprint sha (fst p)) (current_findings res)) \<and>
     (\<forall>(f, hid)\<in>set (current_findings res). severity_Valid (f_Severity f) \<and> (f_CheckID f, f_Target f, f_Subject f) \<in> T)"

definition distinct_digests ::
  "(string \<Rightarrow> string) \<Rightarrow> options \<Rightarrow> (string \<times> string \<times> string) set \<Rightarrow> bool" where
  "distinct_digests sha opts T \<longleftrightarrow> inj_on (\<lambda>(i, t, u). Fingerprint sha i t u) T \<and>
     (\<forall>c. o_Canonical opts = Some c \<longrightarrow> (\<forall>(i, t, u)\<in>T. c i = i))"

definition stored_within ::
  "(string \<Rightarrow> string) \<Rightarrow> (string \<times> string \<times> string) set \<Rightarrow> store \<Rightarrow> bool" where
  "stored_within sha T s \<longleftrightarrow> stored_ok sha (s_findings s) \<and>
     (\<forall>(fp, r)\<in>set (s_findings s). (db_check_id r, db_target r, db_subject r) \<in> T)"

lemma sound_recordable:
  assumes T: "distinct_digests sha opts T" and "sound_run sha opts T res" "stored_within sha T s"
  shows "recordable sha opts res s"
proof -
  have sub: "triples (s_findings s) res \<subseteq> T"
    using assms(2,3) by (auto simp: triples_def sound_run_def stored_within_def)
  have "c (db_check_id r) = db_check_id r" if "o_Canonical opts = Some c" "(fp, r) \<in> set (s_findings s)" for c fp r
    using T assms(3) that unfolding distinct_digests_def stored_within_def by fast
  moreover have "inj_on (\<lambda>(i, t, u). Fingerprint sha i t u) (triples (s_findings s) res)"
    using T sub unfolding distinct_digests_def by (blast intro: inj_on_subset)
  ultimately show ?thesis
    using assms(2,3) by (auto simp: recordable_def sound_run_def stored_within_def)
qed

lemma Record_stored_within:
  assumes T: "distinct_digests sha opts T" and run: "sound_run sha opts T res" and s: "stored_within sha T s"
  shows "stored_within sha T (snd (Record sha opts res s))"
proof -
  define now where "now = unix_milli (r_Started res + r_Duration res)"
  define ra where "ra = max (o_ResolveAfter opts) 1"
  define s' where "s' = snd (Record sha opts res s)"
  have rec: "recordable sha opts res s" by (rule sound_recordable [OF assms])
  note stored = Record_stored [OF rec, folded now_def ra_def s'_def]
  have one: "Fingerprint sha (db_check_id r) (db_target r) (db_subject r) = fp \<and>
      (\<exists>v. severity_Valid v \<and> db_severity r = severity_String v) \<and> (db_check_id r, db_target r, db_subject r) \<in> T"
    if r: "map_of (s_findings s') fp = Some r" for fp r
  proof -
    obtain rw where rw: "row_after sha now ra res fp (history s fp) = Some rw" "saved rw (map_of (s_findings s) fp) = Some r"
      using r stored(1) [of fp] by (auto split: option.splits)
    note S = row_after_saved [OF rec rw(1)]
    have "row_of_db fp r = clean rw" "\<not> rw_gone rw"
      using S(1) rw(2) by (auto simp: visible_def split: if_splits)
    then have "rw_f (row_of_db fp r) = (rw_f rw)\<lparr>f_References := None\<rparr>" by (simp add: clean_def)
    then have key: "db_check_id r = f_CheckID (rw_f rw)" "db_target r = f_Target (rw_f rw)" "db_subject r = f_Subject (rw_f rw)"
      by (auto simp: row_of_db_def dest: arg_cong [where f = f_CheckID] arg_cong [where f = f_Target] arg_cong [where f = f_Subject])
    have old: "Fingerprint sha (db_check_id q) (db_target q) (db_subject q) = fp \<and>
        (\<exists>v. severity_Valid v \<and> db_severity q = severity_String v) \<and> (db_check_id q, db_target q, db_subject q) \<in> T"
      if "map_of (s_findings s) fp = Some q" for q
      using s map_of_SomeD [OF that] that unfolding stored_within_def stored_ok_def by blast
    have sev: "\<exists>v. severity_Valid v \<and> db_severity r = severity_String v"
      using rw(2) old S(4) by (auto simp: saved_def db_of_row_def split: if_splits option.splits)
    show ?thesis
    proof (cases "finding_of sha (current_findings res) fp")
      case (Some p)
      then have "rw_f rw = fst p" using rw(1) by (auto simp: row_after_def see_row_props(1))
      then show ?thesis
        using key sev finding_of_Some [OF Some] run by (auto simp: sound_run_def finding_Fingerprint_def)
    next
      case None
      then obtain q where "map_of (s_findings s) fp = Some q" "rw_f rw = rw_f (row_of_db fp q)"
        using rw(1) by (auto simp: row_after_def history_def missed_change_def miss_row_def Let_def split: if_splits)
      then show ?thesis using key sev old [of q] by (simp add: row_of_db_def)
    qed
  qed
  show ?thesis
    using stored(2) one unfolding s'_def [symmetric] stored_within_def stored_ok_def
    by (auto simp: map_of_eq_Some_iff)
qed

lemma record_all_within:
  assumes "distinct_digests sha opts T" "\<forall>r\<in>set rs. sound_run sha opts T r" "s_findings s = []"
  shows "stored_within sha T (record_all sha opts rs s)"
  using assms(2)
proof (induction rs)
  case Nil
  then show ?case using assms(3) by (simp add: stored_within_def stored_ok_def)
next
  case (Cons r rs)
  then show ?case using Record_stored_within [OF assms(1), of r "record_all sha opts rs s"] by simp
qed

text \<open>The observation a run makes of a finding, from its result alone; it agrees with what Record observes.\<close>

definition run_obs ::
  "(string \<Rightarrow> string) \<Rightarrow> string \<Rightarrow> string \<Rightarrow> string \<Rightarrow> 'e result \<Rightarrow> obs" where
  "run_obs sha i t u res =
     (case finding_of sha (current_findings res) (Fingerprint sha i t u) of
        Some p \<Rightarrow> Seen (fst p) (snd p)
      | None \<Rightarrow> if \<not> scans t res then Forgotten else if executions_ok res t i then Missed else NoVerdict)"

definition run_time :: "'e result \<Rightarrow> int" where
  "run_time res = unix_milli (r_Started res + r_Duration res)"

lemma digest_inj:
  assumes "distinct_digests sha opts T" "(i, t, u) \<in> T" "(i', t', u') \<in> T"
    and "Fingerprint sha i' t' u' = Fingerprint sha i t u"
  shows "i' = i \<and> t' = t \<and> u' = u"
  using assms unfolding distinct_digests_def inj_on_def by force

lemma run_obs_track:
  assumes T: "distinct_digests sha opts T" "stored_within sha T s" "(i, t, u) \<in> T"
  defines "fp \<equiv> Fingerprint sha i t u"
  shows "track ra fp now (history s fp) (observation sha res (history s fp) fp) =
    track ra fp now (history s fp) (run_obs sha i t u res)"
proof (cases "map_of (s_findings s) fp")
  case None
  then show ?thesis
    by (auto simp: observation_def run_obs_def history_def track_def fp_def [symmetric] split: option.split)
next
  case (Some r)
  have "(db_check_id r, db_target r, db_subject r) \<in> T" "Fingerprint sha (db_check_id r) (db_target r) (db_subject r) = fp"
    using T(2) map_of_SomeD [OF Some] Some unfolding stored_within_def stored_ok_def by auto
  then have "db_check_id r = i \<and> db_target r = t"
    using digest_inj [OF T(1,3)] by (simp add: fp_def)
  then show ?thesis
    using Some by (auto simp: observation_def run_obs_def history_def row_of_db_def scans_def fp_def [symmetric] split: option.split)
qed

lemma reports_Seen:
  assumes "distinct_digests sha opts T" "sound_run sha opts T res" "(i, t, u) \<in> T"
  shows "(\<exists>f hid. run_obs sha i t u res = Seen f hid) \<longleftrightarrow> reports i t u res"
proof -
  have "(\<exists>p. finding_of sha (current_findings res) (Fingerprint sha i t u) = Some p) \<longleftrightarrow> reports i t u res"
  proof
    assume "\<exists>p. finding_of sha (current_findings res) (Fingerprint sha i t u) = Some p"
    then obtain q where "finding_of sha (current_findings res) (Fingerprint sha i t u) = Some q" by blast
    note q = finding_of_Some [OF this]
    obtain f hid where p: "(f, hid) \<in> set (current_findings res)" "finding_Fingerprint sha f = Fingerprint sha i t u"
      using q that by (cases q) auto
    then have "(f_CheckID f, f_Target f, f_Subject f) \<in> T" using assms(2) unfolding sound_run_def by blast
    then have "f_CheckID f = i \<and> f_Target f = t \<and> f_Subject f = u"
      using p(2) by (intro digest_inj [OF assms(1,3)]) (simp_all add: finding_Fingerprint_def)
    then show "reports i t u res"
      using p(1) unfolding reports_def by blast
  next
    assume "reports i t u res"
    then show "\<exists>p. finding_of sha (current_findings res) (Fingerprint sha i t u) = Some p"
      using finding_of_None [where sha = sha and cur = "current_findings res" and fp = "Fingerprint sha i t u"]
      by (fastforce simp: reports_def finding_Fingerprint_def)
  qed
  then show ?thesis by (auto simp: run_obs_def split: option.split)
qed

lemma run_obs_cases:
  assumes "distinct_digests sha opts T" "sound_run sha opts T res" "(i, t, u) \<in> T"
  shows "run_obs sha i t u res = Missed \<longleftrightarrow> \<not> reports i t u res \<and> scans t res \<and> executions_ok res t i"
    and "run_obs sha i t u res = NoVerdict \<longleftrightarrow> \<not> reports i t u res \<and> scans t res \<and> \<not> executions_ok res t i"
  using reports_Seen [OF assms] by (auto simp: run_obs_def split: option.splits)

lemma record_all_history:
  assumes T: "distinct_digests sha opts T" and "(i, t, u) \<in> T" "s_findings s = []"
    and "\<forall>r\<in>set rs. sound_run sha opts T r"
  shows "history (record_all sha opts rs s) (Fingerprint sha i t u) =
    after_runs (max (o_ResolveAfter opts) 1) (Fingerprint sha i t u) (map (\<lambda>r. (run_time r, run_obs sha i t u r)) rs)"
  using assms(4)
proof (induction rs)
  case Nil
  then show ?case using assms(3) by (simp add: history_def)
next
  case (Cons r rs)
  have s: "stored_within sha T (record_all sha opts rs s)"
    using record_all_within [OF T _ assms(3), where rs = rs] Cons.prems by simp
  then have "recordable sha opts r (record_all sha opts rs s)"
    using sound_recordable [OF T] Cons.prems by fastforce
  from Record_tracks [OF this, of "Fingerprint sha i t u"] show ?case
    using Cons run_obs_track [OF T s assms(2), where res = r] by (simp add: Let_def case_prod_unfold run_time_def)
qed

lemma record_all_changes:
  assumes T: "distinct_digests sha opts T" and "(i, t, u) \<in> T" "s_findings s = []"
    and "\<forall>r\<in>set (res # rs). sound_run sha opts T r"
  shows "set (changes_of sha (Fingerprint sha i t u) (d_Changes (fst (Record sha opts res (record_all sha opts rs s))))) =
    set (snd (track (max (o_ResolveAfter opts) 1) (Fingerprint sha i t u) (run_time res)
      (after_runs (max (o_ResolveAfter opts) 1) (Fingerprint sha i t u) (map (\<lambda>r. (run_time r, run_obs sha i t u r)) rs))
      (run_obs sha i t u res)))"
proof -
  have s: "stored_within sha T (record_all sha opts rs s)"
    using record_all_within [OF T _ assms(3), where rs = rs] assms(4) by simp
  then have "recordable sha opts res (record_all sha opts rs s)"
    using sound_recordable [OF T] assms(4) by fastforce
  from Record_tracks [OF this, of "Fingerprint sha i t u"] show ?thesis
    using run_obs_track [OF T s assms(2), where res = res] record_all_history [OF assms(1-3), of rs] assms(4)
    by (auto simp: Let_def case_prod_unfold run_time_def dest: mset_eq_setD)
qed

lemma silent_runs:
  assumes "distinct_digests sha opts T" "(i, t, u) \<in> T" "\<forall>r\<in>set rs. sound_run sha opts T r"
  shows "silent (map (\<lambda>r. (run_time r, run_obs sha i t u r)) rs) \<longleftrightarrow> (\<forall>r\<in>set rs. \<not> reports i t u r \<and> scans t r)"
    and "silent (map (\<lambda>r. (run_time r, run_obs sha i t u r)) rs) \<Longrightarrow>
      misses (map (\<lambda>r. (run_time r, run_obs sha i t u r)) rs) = int (length (filter (\<lambda>r. executions_ok r t i) rs))"
  using assms(3) by (induction rs) (auto simp: run_obs_cases [OF assms(1) _ assms(2)])

lemma map_split:
  "(\<exists>mid x old. map g xs = mid @ x # old \<and> P mid x) \<longleftrightarrow> (\<exists>mid y old. xs = mid @ y # old \<and> P (map g mid) (g y))"
proof
  assume "\<exists>mid x old. map g xs = mid @ x # old \<and> P mid x"
  then obtain mid x old where m: "map g xs = mid @ x # old" "P mid x" by blast
  then obtain us vs where "xs = us @ vs" "mid = map g us" "x # old = map g vs" by (auto simp: map_eq_append_conv)
  then show "\<exists>mid y old. xs = mid @ y # old \<and> P (map g mid) (g y)" using m by (cases vs) auto
next
  assume "\<exists>mid y old. xs = mid @ y # old \<and> P (map g mid) (g y)"
  then obtain mid y old where "map g xs = map g mid @ g y # map g old" "P (map g mid) (g y)" by auto
  then show "\<exists>mid x old. map g xs = mid @ x # old \<and> P mid x" by blast
qed

lemma seen_split:
  "(\<exists>mid seen f hid old. os = mid @ (seen, Seen f hid) # old \<and> Q mid) \<longleftrightarrow>
   (\<exists>mid x old. os = mid @ x # old \<and> (\<exists>f hid. snd x = Seen f hid) \<and> Q mid)"
  by (simp add: split_paired_Ex) blast

text \<open>
  C9 Over any sequence of runs recorded into a database that was empty, Record reports a finding as resolved exactly
  in the run that completes \<open>ResolveAfter\<close> absences in which the finding's check ran without error, counted
  since the finding was last reported (suppressed or not). Runs in which the check failed or was not selected,
  however many, neither resolve it nor reset the count, and a run that no longer scans its target starts over.
  Lists hold the latest run first.
\<close>

theorem resolved_iff:
  assumes T: "distinct_digests sha opts T" "(i, t, u) \<in> T" and "s_findings s = []"
    and runs: "\<forall>r\<in>set (res # older). sound_run sha opts T r"
  shows "Resolved \<in> c_Kind ` set (changes_of sha (Fingerprint sha i t u)
      (d_Changes (fst (Record sha opts res (record_all sha opts older s))))) \<longleftrightarrow>
    (\<not> reports i t u res \<and> scans t res \<and> executions_ok res t i \<and>
     (\<exists>mid last before. older = mid @ last # before \<and> reports i t u last \<and>
        (\<forall>r\<in>set mid. \<not> reports i t u r \<and> scans t r) \<and>
        int (length (filter (\<lambda>r. executions_ok r t i) mid)) + 1 = max (o_ResolveAfter opts) 1))"
    (is "?L \<longleftrightarrow> ?R")
proof -
  let ?o = "\<lambda>r. (run_time r, run_obs sha i t u r)"
  let ?ra = "max (o_ResolveAfter opts) 1"
  have O: "run_obs sha i t u res = Missed \<longleftrightarrow> \<not> reports i t u res \<and> scans t res \<and> executions_ok res t i"
    using run_obs_cases(1) [OF T(1) _ T(2), where res = res] runs by simp
  have split: "(\<exists>mid seen f hid old. map ?o older = mid @ (seen, Seen f hid) # old \<and> silent mid \<and> misses mid + 1 = ?ra) \<longleftrightarrow>
      (\<exists>mid last before. older = mid @ last # before \<and> (\<exists>f hid. run_obs sha i t u last = Seen f hid) \<and>
        silent (map ?o mid) \<and> misses (map ?o mid) + 1 = ?ra)"
    unfolding seen_split map_split by simp
  have each: "older = mid @ last # before \<and> (\<exists>f hid. run_obs sha i t u last = Seen f hid) \<and>
        silent (map ?o mid) \<and> misses (map ?o mid) + 1 = ?ra \<longleftrightarrow>
      older = mid @ last # before \<and> reports i t u last \<and> (\<forall>r\<in>set mid. \<not> reports i t u r \<and> scans t r) \<and>
        int (length (filter (\<lambda>r. executions_ok r t i) mid)) + 1 = ?ra" for mid last before
  proof (cases "older = mid @ last # before")
    case True
    then have sound: "\<forall>r\<in>set mid. sound_run sha opts T r" "sound_run sha opts T last" using runs by auto
    show ?thesis
      using silent_runs [OF T sound(1)] reports_Seen [OF T(1) sound(2) T(2)] by auto
  qed simp
  have "?L \<longleftrightarrow> run_obs sha i t u res = Missed \<and>
      (\<exists>mid seen f hid old. map ?o older = mid @ (seen, Seen f hid) # old \<and> silent mid \<and> misses mid + 1 = ?ra)"
    unfolding record_all_changes [OF T assms(3) runs] by (rule resolved_tracks) simp
  also have "\<dots> \<longleftrightarrow> ?R"
    unfolding O split each by simp
  finally show ?thesis .
qed

definition empty_store :: store where
  "empty_store = \<lparr>s_user_version = latest_version, s_runs = [], s_findings = [], s_events = [],
     s_kv = Map.empty, s_next_id = 1\<rparr>"

definition demo_finding :: finding where
  "demo_finding = finding0\<lparr>f_CheckID := ''a.b.c'', f_Target := ''x.example'', f_Severity := SeverityLow, f_Title := ''t''\<rparr>"

definition demo_result :: "finding list \<Rightarrow> unit result" where
  "demo_result fs = \<lparr>r_Started = 0, r_Duration = 0, r_Targets = [target_named ''x.example''], r_Executions = 1,
     r_Ran = [(''x.example'', ''a.b.c'')], r_Findings = fs, r_Errors = [], r_Checks = [],
     r_Suppressed = [], r_Baselined = []\<rparr>"


definition demo_options :: options where "demo_options = \<lparr>o_ResolveAfter = 2, o_Canonical = None\<rparr>"

text \<open>Seen, missed, a run without the check, missed again: resolved.\<close>

theorem resolved_iff_witness:
  "Resolved \<in> c_Kind ` set (changes_of (\<lambda>_. []) (Fingerprint (\<lambda>_. []) ''a.b.c'' ''x.example'' [])
     (d_Changes (fst (Record (\<lambda>_. []) demo_options (demo_result [])
       (record_all (\<lambda>_. []) demo_options [(demo_result [])\<lparr>r_Ran := []\<rparr>, demo_result [], demo_result [demo_finding]] empty_store)))))"
proof -
  let ?T = "{(''a.b.c'', ''x.example'', [])} :: (string \<times> string \<times> string) set"
  let ?older = "[(demo_result [])\<lparr>r_Ran := []\<rparr>, demo_result [], demo_result [demo_finding]]"
  have T: "distinct_digests (\<lambda>_. []) demo_options ?T"
    by (simp add: distinct_digests_def demo_options_def)
  have runs: "\<forall>r\<in>set (demo_result [] # ?older). sound_run (\<lambda>_. []) demo_options ?T r"
    by (simp add: sound_run_def demo_result_def current_findings_def demo_finding_def finding0_def severity_Valid_def severity_defs)
  have "\<not> reports ''a.b.c'' ''x.example'' [] (demo_result [])" "scans ''x.example'' (demo_result [])"
    "executions_ok (demo_result []) ''x.example'' ''a.b.c''"
    by (simp_all add: reports_def scans_def executions_ok_def demo_result_def current_findings_def target_named_def)
  moreover have "?older = [(demo_result [])\<lparr>r_Ran := []\<rparr>, demo_result []] @ demo_result [demo_finding] # [] \<and>
      reports ''a.b.c'' ''x.example'' [] (demo_result [demo_finding]) \<and>
      (\<forall>r\<in>set [(demo_result [])\<lparr>r_Ran := []\<rparr>, demo_result []]. \<not> reports ''a.b.c'' ''x.example'' [] r \<and> scans ''x.example'' r) \<and>
      int (length (filter (\<lambda>r. executions_ok r ''x.example'' ''a.b.c'') [(demo_result [])\<lparr>r_Ran := []\<rparr>, demo_result []])) + 1 =
        max (o_ResolveAfter demo_options) 1"
    by (simp add: reports_def scans_def executions_ok_def demo_result_def current_findings_def target_named_def
        demo_options_def demo_finding_def finding0_def)
  ultimately show ?thesis
    by (subst resolved_iff [OF T _ _ runs]) (simp add: empty_store_def, simp add: empty_store_def, blast)
qed

end
