(* ===== verification/SetaBaseline.thy ===== *)
theory SetaBaseline
  imports SetaEngine
begin

text \<open>
  Package internal/baseline: the findings accepted as known. The JSON encoding of a file is not
  modelled; \<open>validate_file\<close> is what Read checks of a decoded one.
\<close>

definition baseline_Version :: int where "baseline_Version = 1"

record entry =
  en_Fingerprint :: string
  en_CheckID :: string
  en_Target :: string
  en_Subject :: string
  en_Severity :: severity
  en_Title :: string

record baseline_file =
  bf_Version :: int
  bf_Findings :: "entry list"

definition entry_of :: "(string \<Rightarrow> string) \<Rightarrow> finding \<Rightarrow> entry" where
  "entry_of sha x = \<lparr>en_Fingerprint = finding_Fingerprint sha x, en_CheckID = f_CheckID x,
     en_Target = f_Target x, en_Subject = f_Subject x, en_Severity = f_Severity x, en_Title = f_Title x\<rparr>"

definition compare_entries :: "entry \<Rightarrow> entry \<Rightarrow> int" where
  "compare_entries a b =
     cmp_or [str_compare (en_Target a) (en_Target b), str_compare (en_CheckID a) (en_CheckID b),
             str_compare (en_Subject a) (en_Subject b)]"

definition baseline_New :: "(string \<Rightarrow> string) \<Rightarrow> finding list \<Rightarrow> baseline_file" where
  "baseline_New sha findings =
     \<lparr>bf_Version = baseline_Version, bf_Findings = sort_func compare_entries (map (entry_of sha) findings)\<rparr>"

datatype baseline_error = UnsupportedVersion int | EntryLacksIDs nat

definition validate_file :: "baseline_file \<Rightarrow> baseline_error + baseline_file" where
  "validate_file f =
     (if bf_Version f \<noteq> baseline_Version then Inl (UnsupportedVersion (bf_Version f))
      else case find (\<lambda>(i, e). en_CheckID e = [] \<or> en_Target e = []) (enumerate 1 (bf_Findings f)) of
          Some (i, _) \<Rightarrow> Inl (EntryLacksIDs i)
        | None \<Rightarrow> Inr f)"

text \<open>\<open>known\<close> and \<open>seen\<close> of the code are sets of fingerprints: lists without repetition here.\<close>

definition known_fps :: "(string \<Rightarrow> string) \<Rightarrow> (string \<Rightarrow> string) \<Rightarrow> baseline_file \<Rightarrow> string list" where
  "known_fps sha canonical f =
     remdups (map (\<lambda>e. Fingerprint sha (canonical (en_CheckID e)) (en_Target e) (en_Subject e)) (bf_Findings f))"

definition baseline_Apply ::
  "(string \<Rightarrow> string) \<Rightarrow> (string \<Rightarrow> string) \<Rightarrow> baseline_file \<Rightarrow> 'e result \<Rightarrow> int \<times> 'e result" where
  "baseline_Apply sha canonical f res =
     (let known = known_fps sha canonical f;
          hit = (\<lambda>x. finding_Fingerprint sha x \<in> set known);
          seen = remdups (map (finding_Fingerprint sha) (filter hit (r_Findings res)))
      in (int (length known) - int (length seen),
          res\<lparr>r_Baselined := r_Baselined res @ filter hit (r_Findings res),
              r_Findings := filter (\<lambda>x. \<not> hit x) (r_Findings res)\<rparr>))"

definition entry_key :: "entry \<Rightarrow> string \<times> string \<times> string" where
  "entry_key e = (en_Target e, en_CheckID e, en_Subject e)"

lemma compare_entries_by: "compares_by compare_entries entry_key"
  unfolding compare_entries_def [abs_def] entry_key_def [abs_def]
  by (intro compares_by_cmp_or3 compares_by_cong [OF str_compare_by])

interpretation entry_sort: sorter sort_func compare_entries entry_key
  by unfold_locales (simp_all add: compare_entries_by sorted_func_sort_func [OF compare_entries_by])

lemma known_of_New:
  assumes "\<forall>x\<in>set fs. canonical (f_CheckID x) = f_CheckID x"
  shows "set (known_fps sha canonical (baseline_New sha fs)) = finding_Fingerprint sha ` set fs"
  using assms by (force simp: known_fps_def baseline_New_def entry_of_def finding_Fingerprint_def)

lemma length_remdups_set: "length (remdups xs) = card (set xs)"
  by (simp add: length_remdups_card_conv)

text \<open>
  Applying a baseline only moves findings: each finding of the run ends up either kept or
  baselined, in its order, and is baselined exactly when the baseline lists its check (under its
  current or a former ID), target and subject. The count returned is the number of distinct
  entries that no finding of the run matched, and is never negative.
\<close>

lemma baseline_Apply_spec:
  "let (gone, res') = baseline_Apply sha canonical f res;
       listed = (\<lambda>x. \<exists>e\<in>set (bf_Findings f).
         finding_Fingerprint sha x = Fingerprint sha (canonical (en_CheckID e)) (en_Target e) (en_Subject e))
   in r_Findings res' = filter (\<lambda>x. \<not> listed x) (r_Findings res) \<and>
      r_Baselined res' = r_Baselined res @ filter listed (r_Findings res) \<and>
      gone = int (card ((\<lambda>e. Fingerprint sha (canonical (en_CheckID e)) (en_Target e) (en_Subject e)) ` set (bf_Findings f)
                   - finding_Fingerprint sha ` set (r_Findings res)))"
proof -
  define K where "K = (\<lambda>e. Fingerprint sha (canonical (en_CheckID e)) (en_Target e) (en_Subject e)) ` set (bf_Findings f)"
  define F where "F = finding_Fingerprint sha ` set (r_Findings res)"
  have known: "set (known_fps sha canonical f) = K" "length (known_fps sha canonical f) = card K"
    by (simp_all add: known_fps_def K_def length_remdups_set)
  have listed: "(\<exists>e\<in>set (bf_Findings f). finding_Fingerprint sha x =
      Fingerprint sha (canonical (en_CheckID e)) (en_Target e) (en_Subject e)) \<longleftrightarrow> finding_Fingerprint sha x \<in> K" for x
    by (auto simp: K_def)
  have seen: "length (remdups (map (finding_Fingerprint sha) (filter (\<lambda>x. finding_Fingerprint sha x \<in> K) (r_Findings res)))) = card (K \<inter> F)"
    unfolding length_remdups_set by (rule arg_cong [where f = card]) (auto simp: F_def)
  have "finite K" by (simp add: K_def)
  then have "int (card K) - int (card (K \<inter> F)) = int (card (K - F))"
    by (metis card_Diff_subset_Int card_mono finite_Int inf_le1 of_nat_diff)
  then show ?thesis
    unfolding K_def [symmetric] F_def [symmetric] listed
    by (simp add: baseline_Apply_def Let_def known seen)
qed

lemma baseline_later:
  "let (gone, out) = baseline_Apply sha renamed (baseline_New sha fs) later;
       known = (\<lambda>x. Fingerprint sha (renamed (f_CheckID x)) (f_Target x) (f_Subject x)) ` set fs;
       hidden = (\<lambda>y. finding_Fingerprint sha y \<in> known)
   in r_Findings out = filter (\<lambda>y. \<not> hidden y) (r_Findings later) \<and>
      r_Baselined out = r_Baselined later @ filter hidden (r_Findings later) \<and>
      gone = int (card (known - finding_Fingerprint sha ` set (r_Findings later)))"
proof -
  have known: "(\<lambda>e. Fingerprint sha (renamed (en_CheckID e)) (en_Target e) (en_Subject e)) ` set (bf_Findings (baseline_New sha fs)) =
      (\<lambda>x. Fingerprint sha (renamed (f_CheckID x)) (f_Target x) (f_Subject x)) ` set fs"
    by (auto simp: baseline_New_def entry_of_def image_image)
  show ?thesis
    using baseline_Apply_spec [of sha renamed "baseline_New sha fs" later]
    unfolding Let_def case_prod_unfold known [symmetric] by (simp add: image_iff)
qed

text \<open>
  C12 What a baseline of a run hides. In any later result it hides exactly the findings whose check (under the ID
  it has by then), target and subject are those of a finding of that run, keeps all others, both in their order,
  and counts the findings of the run that no longer occur. So the run itself is hidden as a whole, with nothing
  gone. Read accepts the file (checks and targets being named), and it does not depend on the order the
  findings came in.
\<close>

theorem baseline_New_Apply:
  assumes "\<forall>x\<in>set (r_Findings res). canonical (f_CheckID x) = f_CheckID x \<and> f_CheckID x \<noteq> [] \<and> f_Target x \<noteq> []"
    and "r_Baselined res = []" and "mset fs = mset (r_Findings res)"
    and "inj_on entry_key (entry_of sha ` set fs)"
  shows "(\<forall>renamed later. let (gone, out) = baseline_Apply sha renamed (baseline_New sha fs) later;
        known = (\<lambda>x. Fingerprint sha (renamed (f_CheckID x)) (f_Target x) (f_Subject x)) ` set fs;
        hidden = (\<lambda>y. finding_Fingerprint sha y \<in> known)
      in r_Findings out = filter (\<lambda>y. \<not> hidden y) (r_Findings later) \<and>
         r_Baselined out = r_Baselined later @ filter hidden (r_Findings later) \<and>
         gone = int (card (known - finding_Fingerprint sha ` set (r_Findings later)))) \<and>
    baseline_Apply sha canonical (baseline_New sha fs) res =
      (0, res\<lparr>r_Baselined := r_Findings res, r_Findings := []\<rparr>) \<and>
    validate_file (baseline_New sha fs) = Inr (baseline_New sha fs) \<and>
    baseline_New sha fs = baseline_New sha (r_Findings res)"
proof -
  have set: "set fs = set (r_Findings res)" using assms(3) by (metis set_mset_mset)
  have known: "set (known_fps sha canonical (baseline_New sha fs)) = finding_Fingerprint sha ` set (r_Findings res)"
    using assms(1) known_of_New [of fs canonical sha] by (simp add: set)
  have len: "length (known_fps sha canonical (baseline_New sha fs)) = card (finding_Fingerprint sha ` set (r_Findings res))"
    unfolding known [symmetric] by (simp add: known_fps_def length_remdups_set)
  have all: "filter (\<lambda>x. finding_Fingerprint sha x \<in> finding_Fingerprint sha ` set (r_Findings res)) (r_Findings res) = r_Findings res"
    and none: "filter (\<lambda>x. finding_Fingerprint sha x \<notin> finding_Fingerprint sha ` set (r_Findings res)) (r_Findings res) = []"
    by (simp_all add: filter_id_conv filter_empty_conv)
  have same: "{x \<in> set (r_Findings res). finding_Fingerprint sha x \<in> finding_Fingerprint sha ` set (r_Findings res)} = set (r_Findings res)"
    by auto
  have self: "baseline_Apply sha canonical (baseline_New sha fs) res =
      (0, res\<lparr>r_Baselined := r_Findings res, r_Findings := []\<rparr>)"
    using assms(2) all none by (simp add: baseline_Apply_def Let_def known len length_remdups_set same)
  have "find (\<lambda>(i, e). en_CheckID e = [] \<or> en_Target e = []) (enumerate 1 (bf_Findings (baseline_New sha fs))) = None"
    using assms(1) set by (fastforce simp: find_None_iff baseline_New_def entry_of_def dest: set_zip_rightD simp: enumerate_eq_zip)
  then have valid: "validate_file (baseline_New sha fs) = Inr (baseline_New sha fs)"
    by (simp add: validate_file_def baseline_New_def)
  have order: "baseline_New sha fs = baseline_New sha (r_Findings res)"
    unfolding baseline_New_def
    by (subst entry_sort.same_elements [of _ "map (entry_of sha) (r_Findings res)"]) (use assms(3,4) in auto)
  show ?thesis by (intro conjI allI baseline_later self valid order)
qed

definition demo_run :: "finding list \<Rightarrow> unit result" where
  "demo_run fs = \<lparr>r_Started = 0, r_Duration = 0, r_Targets = [], r_Executions = 0, r_Ran = [],
     r_Findings = fs, r_Errors = [], r_Checks = [], r_Suppressed = [], r_Baselined = []\<rparr>"

theorem baseline_New_Apply_witness:
  "let f = finding0\<lparr>f_CheckID := ''a.b.c'', f_Target := ''x.example''\<rparr>;
       file = baseline_New (\<lambda>_. []) [f]
   in fst (baseline_Apply (\<lambda>_. []) (\<lambda>i. i) file (demo_run [f])) = 0 \<and>
      fst (baseline_Apply (\<lambda>_. []) (\<lambda>i. i) file (demo_run [])) = 1"
proof -
  define f where "f = finding0\<lparr>f_CheckID := ''a.b.c'', f_Target := ''x.example''\<rparr>"
  have spec: "(\<forall>renamed later. let (gone, out) = baseline_Apply (\<lambda>_. []) renamed (baseline_New (\<lambda>_. []) [f]) later;
        known = (\<lambda>x. Fingerprint (\<lambda>_. []) (renamed (f_CheckID x)) (f_Target x) (f_Subject x)) ` set [f];
        hidden = (\<lambda>y. finding_Fingerprint (\<lambda>_. []) y \<in> known)
      in r_Findings out = filter (\<lambda>y. \<not> hidden y) (r_Findings later) \<and>
         r_Baselined out = r_Baselined later @ filter hidden (r_Findings later) \<and>
         gone = int (card (known - finding_Fingerprint (\<lambda>_. []) ` set (r_Findings later)))) \<and>
    baseline_Apply (\<lambda>_. []) (\<lambda>i. i) (baseline_New (\<lambda>_. []) [f]) (demo_run [f]) =
      (0, (demo_run [f])\<lparr>r_Baselined := r_Findings (demo_run [f]), r_Findings := []\<rparr>) \<and>
    validate_file (baseline_New (\<lambda>_. []) [f]) = Inr (baseline_New (\<lambda>_. []) [f]) \<and>
    baseline_New (\<lambda>_. []) [f] = baseline_New (\<lambda>_. []) (r_Findings (demo_run [f]))"
    by (rule baseline_New_Apply) (simp_all add: demo_run_def f_def finding0_def)
  have "fst (baseline_Apply (\<lambda>_. []) (\<lambda>i. i) (baseline_New (\<lambda>_. []) [f]) (demo_run [])) = 1"
    using spec [THEN conjunct1, rule_format, of "\<lambda>i. i" "demo_run []"]
    by (simp add: Let_def case_prod_unfold demo_run_def)
  then show ?thesis using spec [THEN conjunct2, THEN conjunct1] unfolding Let_def f_def [symmetric] by simp
qed

end
