(* ===== verification/SetaNetip.thy ===== *)
theory SetaNetip
  imports SetaCore "HOL-Library.Word"
begin

text \<open>
  What the program uses of the standard library's net/netip: addresses as lists of bytes, their
  text, prefixes and the classes of addresses.
\<close>

datatype addr = V4 "nat list" | V6 "nat list" string

definition is4 :: "addr \<Rightarrow> bool" where "is4 a = (case a of V4 _ \<Rightarrow> True | V6 _ _ \<Rightarrow> False)"

definition is6 :: "addr \<Rightarrow> bool" where "is6 a \<longleftrightarrow> \<not> is4 a"

definition addr_ok :: "addr \<Rightarrow> bool" where
  "addr_ok a = (case a of
      V4 b \<Rightarrow> length b = 4 \<and> list_all (\<lambda>x. x < 256) b
    | V6 b z \<Rightarrow> length b = 16 \<and> list_all (\<lambda>x. x < 256) b)"

definition is4in6 :: "nat list \<Rightarrow> bool" where
  "is4in6 b \<longleftrightarrow> take 12 b = replicate 10 0 @ [255, 255]"

definition unmap :: "addr \<Rightarrow> addr" where
  "unmap a = (case a of V4 b \<Rightarrow> V4 b | V6 b z \<Rightarrow> if is4in6 b then V4 (drop 12 b) else a)"

definition addr_bytes :: "addr \<Rightarrow> nat list" where
  "addr_bytes a = (case a of V4 b \<Rightarrow> b | V6 b _ \<Rightarrow> b)"

text \<open>\<open>AddrFromSlice\<close>: 4 or 16 bytes.\<close>

definition addr_from_slice :: "nat list \<Rightarrow> addr option" where
  "addr_from_slice b = (if length b = 4 then Some (V4 b) else if length b = 16 then Some (V6 b []) else None)"

subsection \<open>Parsing\<close>

definition parse_octet :: "string \<Rightarrow> nat option" where
  "parse_octet s =
     (if s = [] \<or> \<not> list_all is_digit s \<or> (1 < length s \<and> hd s = CHR ''0'') \<or> 255 < digits_value s then None
      else Some (digits_value s))"

definition parse4 :: "string \<Rightarrow> nat list option" where
  "parse4 s =
     (case map parse_octet (split_on CHR ''.'' s) of
        [Some a, Some b, Some c, Some d] \<Rightarrow> Some [a, b, c, d]
      | _ \<Rightarrow> None)"

definition hex_val :: "char \<Rightarrow> nat option" where
  "hex_val c =
     (if is_digit c then Some (byte c - 48)
      else if CHR ''a'' \<le> c \<and> c \<le> CHR ''f'' then Some (byte c - 87)
      else if CHR ''A'' \<le> c \<and> c \<le> CHR ''F'' then Some (byte c - 55)
      else None)"

definition hex_number :: "string \<Rightarrow> nat" where
  "hex_number s = foldl (\<lambda>n c. 16 * n + the (hex_val c)) 0 s"

fun v6_groups :: "nat \<Rightarrow> nat list \<Rightarrow> nat option \<Rightarrow> string \<Rightarrow> (nat list \<times> nat option \<times> string) option" where
  "v6_groups 0 ip ell s = Some (ip, ell, s)"
| "v6_groups (Suc n) ip ell s =
     (let g = takeWhile (\<lambda>c. hex_val c \<noteq> None) s; rest = drop (length g) s in
      if g = [] \<or> 4 < length g then None
      else if rest \<noteq> [] \<and> hd rest = CHR ''.'' then
        (if ell = None \<and> length ip \<noteq> 12 then None
         else if 16 < length ip + 4 then None
         else map_option (\<lambda>b. (ip @ b, ell, [])) (parse4 s))
      else
        let ip' = ip @ [hex_number g div 256, hex_number g mod 256] in
        if rest = [] then Some (ip', ell, [])
        else if hd rest \<noteq> CHR '':'' \<or> length rest = 1 then None
        else if hd (tl rest) = CHR '':'' then
          (if ell \<noteq> None then None
           else if tl (tl rest) = [] then Some (ip', Some (length ip'), [])
           else v6_groups n ip' (Some (length ip')) (tl (tl rest)))
        else v6_groups n ip' ell (tl rest))"

definition parse6 :: "string \<Rightarrow> addr option" where
  "parse6 s0 =
     (case cut CHR ''%'' s0 of (s1, zone, zoned) \<Rightarrow>
      if zoned \<and> zone = [] then None
      else
        let lead = has_prefix s1 ''::''; s = (if lead then drop 2 s1 else s1) in
        if lead \<and> s = [] then Some (V6 (replicate 16 0) zone)
        else case v6_groups 8 [] (if lead then Some 0 else None) s of
            None \<Rightarrow> None
          | Some (ip, ell, left) \<Rightarrow>
              if left \<noteq> [] then None
              else if length ip < 16 then
                (case ell of
                   None \<Rightarrow> None
                 | Some e \<Rightarrow> Some (V6 (take e ip @ replicate (16 - length ip) 0 @ drop e ip) zone))
              else if ell \<noteq> None then None
              else Some (V6 ip zone))"

definition ParseAddr :: "string \<Rightarrow> addr option" where
  "ParseAddr s =
     (case find (\<lambda>c. c \<in> set ''.:%'') s of
        None \<Rightarrow> None
      | Some c \<Rightarrow> if c = CHR ''.'' then map_option V4 (parse4 s)
                  else if c = CHR '':'' then parse6 s else None)"

subsection \<open>Text\<close>

definition dotted :: "nat list \<Rightarrow> string" where
  "dotted b = join ''.'' (map nat_digits b)"

fun hex_text :: "nat \<Rightarrow> string" where
  "hex_text n = (if n < 16 then [hex_digit n] else hex_text (n div 16) @ [hex_digit (n mod 16)])"

declare hex_text.simps [simp del]

fun groups16 :: "nat list \<Rightarrow> nat list" where
  "groups16 (a # b # bs) = (256 * a + b) # groups16 bs"
| "groups16 _ = []"

fun zero_run :: "nat list \<Rightarrow> nat" where
  "zero_run (0 # gs) = Suc (zero_run gs)"
| "zero_run _ = 0"

text \<open>The longest run of at least two zero groups: (start, end).\<close>

fun longest_zeros :: "nat \<Rightarrow> nat list \<Rightarrow> nat \<times> nat \<Rightarrow> nat \<times> nat" where
  "longest_zeros i [] best = best"
| "longest_zeros i (g # gs) best =
     (let l = zero_run (g # gs) in
      longest_zeros (Suc i) gs (if 2 \<le> l \<and> snd best - fst best < l then (i, i + l) else best))"

definition string6 :: "nat list \<Rightarrow> string" where
  "string6 b =
     (let gs = groups16 b; (zs, ze) = longest_zeros 0 gs (255, 255) in
      if zs = 255 then join '':'' (map hex_text gs)
      else join '':'' (map hex_text (take zs gs)) @ ''::'' @ join '':'' (map hex_text (drop ze gs)))"

definition addr_String :: "addr \<Rightarrow> string" where
  "addr_String a =
     (case a of
        V4 b \<Rightarrow> dotted b
      | V6 b z \<Rightarrow>
          (if is4in6 b then ''::ffff:'' @ dotted (drop 12 b) else string6 b) @
          (if z = [] then [] else ''%'' @ z))"

subsection \<open>Address and port\<close>

definition addr_port_String :: "addr \<Rightarrow> nat \<Rightarrow> string" where
  "addr_port_String a p =
     (if is4 a then addr_String a @ '':'' @ nat_digits p
      else ''['' @ addr_String a @ '']:'' @ nat_digits p)"

definition ParseAddrPort :: "string \<Rightarrow> (addr \<times> nat) option" where
  "ParseAddrPort s =
     (case last_index_byte CHR '':'' s of
        None \<Rightarrow> None
      | Some i \<Rightarrow>
        let ip0 = take i s; port = drop (Suc i) s; v6 = has_prefix ip0 ''['' in
        if ip0 = [] \<or> port = [] then None
        else if v6 \<and> (length ip0 < 2 \<or> last ip0 \<noteq> CHR '']'') then None
        else
          let ip = (if v6 then butlast (tl ip0) else ip0) in
          (case parse_uint 16 port of
             None \<Rightarrow> None
           | Some p \<Rightarrow>
             (case ParseAddr ip of
                None \<Rightarrow> None
              | Some a \<Rightarrow> if v6 = is4 a then None else Some (a, p))))"

subsection \<open>Prefixes and classes\<close>

definition byte_bits :: "nat \<Rightarrow> bool list" where
  "byte_bits n = map (\<lambda>i. odd (n div 2 ^ i)) [7, 6, 5, 4, 3, 2, 1, 0]"

definition addr_bits :: "addr \<Rightarrow> bool list" where
  "addr_bits a = concat (map byte_bits (addr_bytes a))"

record prefix =
  px_Addr :: addr
  px_Bits :: nat

definition zone_of :: "addr \<Rightarrow> string" where
  "zone_of a = (case a of V4 _ \<Rightarrow> [] | V6 _ z \<Rightarrow> z)"

definition prefix_Contains :: "prefix \<Rightarrow> addr \<Rightarrow> bool" where
  "prefix_Contains p a \<longleftrightarrow> zone_of a = [] \<and> is4 (px_Addr p) = is4 a \<and>
     take (px_Bits p) (addr_bits (px_Addr p)) = take (px_Bits p) (addr_bits a)"

definition is_private :: "addr \<Rightarrow> bool" where
  "is_private a =
     (case unmap a of
        V4 b \<Rightarrow> b ! 0 = 10 \<or> (b ! 0 = 172 \<and> b ! 1 div 16 = 1) \<or> (b ! 0 = 192 \<and> b ! 1 = 168)
      | V6 b _ \<Rightarrow> b ! 0 div 2 = 126)"

definition is_global_unicast :: "addr \<Rightarrow> bool" where
  "is_global_unicast a =
     (case unmap a of
        V4 b \<Rightarrow> b \<noteq> [0, 0, 0, 0] \<and> b \<noteq> [255, 255, 255, 255] \<and> b ! 0 \<noteq> 127 \<and> b ! 0 div 16 \<noteq> 14 \<and>
               \<not> (b ! 0 = 169 \<and> b ! 1 = 254)
      | V6 b _ \<Rightarrow> b \<noteq> replicate 16 0 \<and> b \<noteq> replicate 15 0 @ [1] \<and> b ! 0 \<noteq> 255 \<and>
               \<not> (b ! 0 = 254 \<and> b ! 1 div 64 = 2))"

text \<open>\<open>netip.Addr.Compare\<close>: by family, then the bytes, then the zone.\<close>

fun bytes_compare :: "nat list \<Rightarrow> nat list \<Rightarrow> int" where
  "bytes_compare (a # as) (b # bs) = (if a < b then -1 else if b < a then 1 else bytes_compare as bs)"
| "bytes_compare _ _ = 0"

definition addr_compare :: "addr \<Rightarrow> addr \<Rightarrow> int" where
  "addr_compare a b =
     (if is4 a \<and> is6 b then -1 else if is6 a \<and> is4 b then 1
      else cmp_or [bytes_compare (addr_bytes a) (addr_bytes b), str_compare (zone_of a) (zone_of b)])"

subsection \<open>Round trip of IPv4\<close>

lemma nat_digits_hd: "0 < n \<Longrightarrow> hd (nat_digits n) \<noteq> CHR ''0''"
proof (induction n rule: nat_digits.induct)
  case (1 n)
  show ?case
  proof (cases "n < 10")
    case True
    then have "n \<in> {1, 2, 3, 4, 5, 6, 7, 8, 9}" using 1(2) by auto
    then have "char_of (48 + n) \<noteq> CHR ''0''" by (auto simp: char_of_def bit_0)
    then show ?thesis using True by (simp add: nat_digits.simps)
  next
    case False
    then show ?thesis using 1 by (simp add: nat_digits.simps [of n])
  qed
qed

lemma nat_digits_short: "n < 10 \<Longrightarrow> length (nat_digits n) = 1"
  by (simp add: nat_digits.simps)

lemma parse_octet_digits: "n < 256 \<Longrightarrow> parse_octet (nat_digits n) = Some n"
  using nat_digits_hd [of n] nat_digits_short [of 0] by (cases "n = 0") (auto simp: parse_octet_def)

lemma no_dot_digits: "CHR ''.'' \<notin> set (nat_digits n)"
  using nat_digits_digits [of "CHR ''.''" n] by (auto simp: is_digit_def byte_def)

lemma parse4_dotted:
  assumes "length b = 4" "list_all (\<lambda>x. x < 256) b"
  shows "parse4 (dotted b) = Some b"
proof -
  obtain w x y z where b: "b = [w, x, y, z]"
    using assms(1) by (auto simp: numeral_eq_Suc length_Suc_conv)
  have "split_on CHR ''.'' (dotted b) = map nat_digits b"
    unfolding dotted_def by (rule split_on_join) (use no_dot_digits b in auto)
  then show ?thesis
    using assms(2) by (simp add: parse4_def b parse_octet_digits)
qed

lemma ParseAddr_String4:
  assumes "addr_ok (V4 b)"
  shows "ParseAddr (addr_String (V4 b)) = Some (V4 b)"
proof -
  have b: "length b = 4" "list_all (\<lambda>x. x < 256) b" using assms by (simp_all add: addr_ok_def)
  obtain w x y z where bs: "b = [w, x, y, z]"
    using b(1) by (auto simp: numeral_eq_Suc length_Suc_conv)
  have nd: "find (\<lambda>c. c \<in> set ''.:%'') (nat_digits w @ CHR ''.'' # t) = Some CHR ''.''" for t
  proof -
    have "\<not> is_digit CHR ''.''" "\<not> is_digit CHR '':''" "\<not> is_digit CHR ''%''"
      by (simp_all add: is_digit_def byte_def)
    then have "\<forall>c\<in>set (nat_digits w). c \<notin> set ''.:%''"
      using nat_digits_digits [of _ w] by auto
    moreover have "\<forall>c\<in>set xs. \<not> P c \<Longrightarrow> find P (xs @ ys) = find P ys" for P and xs ys :: string
      by (induction xs) auto
    ultimately show ?thesis by simp
  qed
  have "dotted b = nat_digits w @ CHR ''.'' # dotted [x, y, z]"
    by (simp add: dotted_def bs)
  then have "find (\<lambda>c. c \<in> set ''.:%'') (dotted b) = Some CHR ''.''"
    using nd by simp
  then show ?thesis
    by (simp add: ParseAddr_def addr_String_def parse4_dotted [OF b])
qed

subsection \<open>Parsed addresses are well formed\<close>

lemma parse_octet_bound: "parse_octet s = Some n \<Longrightarrow> n < 256"
  by (auto simp: parse_octet_def split: if_splits)

lemma parse4_ok: "parse4 s = Some b \<Longrightarrow> addr_ok (V4 b)"
  by (auto simp: parse4_def addr_ok_def split: list.splits option.splits dest!: parse_octet_bound)

lemma hex_val_less: "hex_val c = Some v \<Longrightarrow> v < 16"
proof -
  assume a: "hex_val c = Some v"
  have "byte c \<le> byte CHR ''f''" if "c \<le> CHR ''f''" using that by (metis byte_less_iff not_less)
  moreover have "byte c \<le> byte CHR ''F''" if "c \<le> CHR ''F''" using that by (metis byte_less_iff not_less)
  moreover have "byte CHR ''f'' = 102" "byte CHR ''F'' = 70" by (simp_all add: byte_def)
  ultimately show ?thesis using a by (auto simp: hex_val_def is_digit_def split: if_splits)
qed

lemma hex_number_bound:
  assumes "\<forall>c\<in>set s. hex_val c \<noteq> None"
  shows "hex_number s < 16 ^ length s"
  using assms
proof (induction s rule: rev_induct)
  case (snoc c s)
  then obtain v where v: "hex_val c = Some v" by auto
  have "hex_number (s @ [c]) = 16 * hex_number s + v" by (simp add: hex_number_def v)
  then show ?case using snoc hex_val_less [OF v] by simp
qed (simp add: hex_number_def)

lemma hex_group_bytes:
  assumes "length g \<le> 4" "\<forall>c\<in>set g. hex_val c \<noteq> None"
  shows "hex_number g div 256 < 256"
proof -
  have "hex_number g < 16 ^ length g" by (rule hex_number_bound [OF assms(2)])
  also have "\<dots> \<le> 16 ^ 4" using assms(1) by (intro power_increasing) auto
  finally show ?thesis by simp
qed

lemma v6_groups_ok:
  "v6_groups n ip ell s = Some (ip', ell', left) \<Longrightarrow> length ip + 2 * n \<le> 16 \<Longrightarrow> list_all (\<lambda>x. x < 256) ip \<Longrightarrow>
    length ip' \<le> 16 \<and> list_all (\<lambda>x. x < 256) ip'"
proof (induction n arbitrary: ip ell s)
  case (Suc n)
  define g where "g = takeWhile (\<lambda>c. hex_val c \<noteq> None) s"
  define rest where "rest = drop (length g) s"
  let ?ip = "ip @ [hex_number g div 256, hex_number g mod 256]"
  have g: "\<forall>c\<in>set g. hex_val c \<noteq> None" unfolding g_def using set_takeWhileD by fastforce
  have l: "length g \<le> 4" using Suc.prems(1) by (auto simp: Let_def g_def split: if_splits)
  have ok: "list_all (\<lambda>x. x < 256) ?ip" using Suc.prems(3) hex_group_bytes [OF l g] by simp
  have len: "length ?ip + 2 * n \<le> 16" using Suc.prems(2) by simp
  have step: "length ip' \<le> 16 \<and> list_all (\<lambda>x. x < 256) ip'" if "v6_groups n ?ip e r = Some (ip', ell', left)" for e r
    by (rule Suc.IH [OF that len ok])
  have base: "length ?ip \<le> 16" using len by simp
  from Suc.prems(1) have "(if g = [] \<or> 4 < length g then None
      else if rest \<noteq> [] \<and> hd rest = CHR ''.'' then
        (if ell = None \<and> length ip \<noteq> 12 then None
         else if 16 < length ip + 4 then None
         else map_option (\<lambda>b. (ip @ b, ell, [])) (parse4 s))
      else if rest = [] then Some (?ip, ell, [])
        else if hd rest \<noteq> CHR '':'' \<or> length rest = 1 then None
        else if hd (tl rest) = CHR '':'' then
          (if ell \<noteq> None then None
           else if tl (tl rest) = [] then Some (?ip, Some (length ?ip), [])
           else v6_groups n ?ip (Some (length ?ip)) (tl (tl rest)))
        else v6_groups n ?ip ell (tl rest)) = Some (ip', ell', left)"
    by (simp only: v6_groups.simps Let_def g_def rest_def)
  then show ?case
    using base ok Suc.prems(3)
    by (auto simp del: length_append split: if_split_asm dest: step)
      (auto dest!: parse4_ok simp: addr_ok_def)
qed auto

lemma parse6_ok: "parse6 s = Some a \<Longrightarrow> addr_ok a"
proof -
  assume a: "parse6 s = Some a"
  obtain s1 zone zoned where c: "cut CHR ''%'' s = (s1, zone, zoned)" by (metis prod_cases3)
  let ?lead = "has_prefix s1 ''::''"
  let ?s = "if ?lead then drop 2 s1 else s1"
  show ?thesis
  proof (cases "?lead \<and> ?s = []")
    case True
    then show ?thesis using a c by (auto simp: parse6_def addr_ok_def list_all_iff split: if_splits)
  next
    case False
    then obtain ip ell left where g: "v6_groups 8 [] (if ?lead then Some 0 else None) ?s = Some (ip, ell, left)"
      using a c by (auto simp: parse6_def Let_def split: if_splits option.splits)
    have ok: "length ip \<le> 16 \<and> list_all (\<lambda>x. x < 256) ip" by (rule v6_groups_ok [OF g]) simp_all
    have "(if left \<noteq> [] then None
              else if length ip < 16 then
                (case ell of
                   None \<Rightarrow> None
                 | Some e \<Rightarrow> Some (V6 (take e ip @ replicate (16 - length ip) 0 @ drop e ip) zone))
              else if ell \<noteq> None then None
              else Some (V6 ip zone)) = Some a"
      using a c False g by (cases ell) (simp_all add: parse6_def Let_def split: if_split_asm)
    moreover have "list_all (\<lambda>x. x < 256) (take e ip)" "list_all (\<lambda>x. x < 256) (drop e ip)" for e
      using ok by (metis append_take_drop_id list_all_append)+
    moreover have "list_all (\<lambda>x. x < 256) (replicate k (0::nat))" for k by (simp add: list_all_iff)
    ultimately show ?thesis using ok
      by (cases ell) (auto simp: addr_ok_def min_def split: if_split_asm)
  qed
qed

lemma ParseAddr_ok: "ParseAddr s = Some a \<Longrightarrow> addr_ok a"
  by (auto simp: ParseAddr_def split: option.splits if_splits intro: parse4_ok parse6_ok)

end
