(* ===== verification/SetaMemo.thy ===== *)
theory SetaMemo
  imports SetaPrelude
begin

text \<open>
  The single-flight tables of a run: core.Memo (Memoize and fill) and dnsx.Cache (lookup and
  fill) follow the same protocol, modelled here as a step relation over any number of concurrent
  callers. An entry is allocated under the mutex, filled by the caller that allocated it, taken
  out of the table again when its computation failed with the caller's context ended (or
  panicked), and then closed, which wakes the waiters.
  A computation's outcome, Go's pair of value and error, is one value of type 'o; \<open>failed\<close>
  says that its error is not nil.
\<close>

record ('c, 'k, 'o) memo_entry =
  me_key :: 'k
  me_leader :: 'c
  me_done :: bool
  me_val :: "'o option"
  me_retry :: bool

datatype 'o phase =
    Looking
  | Leading nat
  | Computing nat
  | Filled nat
  | Closing nat
  | WaitingOn nat
  | Answered nat 'o
  | CtxEnded
  | PanickedIn nat

record ('c, 'k, 'o) memo =
  mm_entries :: "'k \<Rightarrow> nat option"
  mm_store :: "('c, 'k, 'o) memo_entry list"
  mm_phase :: "'c \<Rightarrow> 'o phase"

definition set_phase :: "'c \<Rightarrow> 'o phase \<Rightarrow> ('c, 'k, 'o) memo \<Rightarrow> ('c, 'k, 'o) memo" where
  "set_phase c ph s = s\<lparr>mm_phase := (mm_phase s)(c := ph)\<rparr>"

definition new_entry :: "'c \<Rightarrow> 'k \<Rightarrow> ('c, 'k, 'o) memo_entry" where
  "new_entry c k = \<lparr>me_key = k, me_leader = c, me_done = False, me_val = None, me_retry = False\<rparr>"

definition update_entry ::
  "nat \<Rightarrow> (('c, 'k, 'o) memo_entry \<Rightarrow> ('c, 'k, 'o) memo_entry) \<Rightarrow> ('c, 'k, 'o) memo \<Rightarrow> ('c, 'k, 'o) memo" where
  "update_entry n f s = s\<lparr>mm_store := (mm_store s)[n := f (mm_store s ! n)]\<rparr>"

text \<open>
  \<open>key c\<close> is the key caller \<open>c\<close> asks for. \<open>lead\<close> and \<open>join\<close> are the critical section at the
  top of the loop; \<open>start\<close> to \<open>close\<close> are fill; \<open>wake\<close> and \<open>give_up\<close> are the select.
\<close>

inductive memo_step ::
  "('c \<Rightarrow> 'k) \<Rightarrow> ('o \<Rightarrow> bool) \<Rightarrow> ('c, 'k, 'o) memo \<Rightarrow> ('c, 'k, 'o) memo \<Rightarrow> bool"
  for key failed
where
  lead: "mm_phase s c = Looking \<Longrightarrow> mm_entries s (key c) = None \<Longrightarrow>
     memo_step key failed s
       (set_phase c (Leading (length (mm_store s)))
          (s\<lparr>mm_entries := (mm_entries s)(key c := Some (length (mm_store s))),
             mm_store := mm_store s @ [new_entry c (key c)]\<rparr>))"
| join: "mm_phase s c = Looking \<Longrightarrow> mm_entries s (key c) = Some n \<Longrightarrow>
     memo_step key failed s (set_phase c (WaitingOn n) s)"
| start: "mm_phase s c = Leading n \<Longrightarrow>
     memo_step key failed s (set_phase c (Computing n) (update_entry n (\<lambda>e. e\<lparr>me_retry := True\<rparr>) s))"
| compute: "mm_phase s c = Computing n \<Longrightarrow>
     memo_step key failed s
       (set_phase c (Filled n)
          (update_entry n (\<lambda>e. e\<lparr>me_val := Some outcome, me_retry := failed outcome \<and> ctx_ended\<rparr>) s))"
| panic: "mm_phase s c = Computing n \<Longrightarrow> memo_step key failed s (set_phase c (Filled n) s)"
| forget: "mm_phase s c = Filled n \<Longrightarrow>
     memo_step key failed s
       (set_phase c (Closing n)
          (if me_retry (mm_store s ! n) then s\<lparr>mm_entries := (mm_entries s)(key c := None)\<rparr> else s))"
| close_done: "mm_phase s c = Closing n \<Longrightarrow>
     memo_step key failed s
       (set_phase c (case me_val (mm_store s ! n) of Some outcome \<Rightarrow> Answered n outcome | None \<Rightarrow> PanickedIn n)
          (update_entry n (\<lambda>e. e\<lparr>me_done := True\<rparr>) s))"
| wake: "mm_phase s c = WaitingOn n \<Longrightarrow> me_done (mm_store s ! n) \<Longrightarrow>
     memo_step key failed s
       (set_phase c (if me_retry (mm_store s ! n) then Looking
                     else Answered n (the (me_val (mm_store s ! n)))) s)"
| give_up: "mm_phase s c = WaitingOn n \<Longrightarrow> memo_step key failed s (set_phase c CtxEnded s)"

definition memo_start :: "('c, 'k, 'o) memo" where
  "memo_start = \<lparr>mm_entries = (\<lambda>_. None), mm_store = [], mm_phase = (\<lambda>_. Looking)\<rparr>"

abbreviation memo_reach :: "('c \<Rightarrow> 'k) \<Rightarrow> ('o \<Rightarrow> bool) \<Rightarrow> ('c, 'k, 'o) memo \<Rightarrow> bool" where
  "memo_reach key failed s \<equiv> (memo_step key failed)\<^sup>*\<^sup>* memo_start s"

subsection \<open>The invariant\<close>

text \<open>The entry a caller is responsible for, from allocating it to closing it.\<close>

fun leads :: "'o phase \<Rightarrow> nat option" where
  "leads (Leading n) = Some n"
| "leads (Computing n) = Some n"
| "leads (Filled n) = Some n"
| "leads (Closing n) = Some n"
| "leads _ = None"

definition current_ok :: "('c, 'k, 'o) memo \<Rightarrow> bool" where
  "current_ok s \<longleftrightarrow> (\<forall>k n. mm_entries s k = Some n \<longrightarrow>
     n < length (mm_store s) \<and> me_key (mm_store s ! n) = k \<and>
     (me_done (mm_store s ! n) \<longrightarrow> \<not> me_retry (mm_store s ! n) \<and> me_val (mm_store s ! n) \<noteq> None))"

definition kept_ok :: "('c, 'k, 'o) memo \<Rightarrow> bool" where
  "kept_ok s \<longleftrightarrow> (\<forall>n < length (mm_store s).
     mm_entries s (me_key (mm_store s ! n)) = Some n \<or> me_retry (mm_store s ! n))"

definition phase_ok :: "('c \<Rightarrow> 'k) \<Rightarrow> ('c, 'k, 'o) memo \<Rightarrow> 'c \<Rightarrow> bool" where
  "phase_ok key s c =
     (case mm_phase s c of
        Looking \<Rightarrow> True
      | CtxEnded \<Rightarrow> True
      | WaitingOn n \<Rightarrow> n < length (mm_store s) \<and> me_key (mm_store s ! n) = key c \<and>
          (me_done (mm_store s ! n) \<longrightarrow> me_retry (mm_store s ! n) \<or> me_val (mm_store s ! n) \<noteq> None)
      | Answered n v \<Rightarrow> n < length (mm_store s) \<and> me_key (mm_store s ! n) = key c \<and>
          me_done (mm_store s ! n) \<and> me_val (mm_store s ! n) = Some v \<and>
          (me_retry (mm_store s ! n) \<longrightarrow> me_leader (mm_store s ! n) = c)
      | PanickedIn n \<Rightarrow> n < length (mm_store s) \<and> me_retry (mm_store s ! n) \<and> me_leader (mm_store s ! n) = c
      | Leading n \<Rightarrow> mm_entries s (key c) = Some n \<and> me_leader (mm_store s ! n) = c \<and>
          \<not> me_done (mm_store s ! n)
      | Computing n \<Rightarrow> mm_entries s (key c) = Some n \<and> me_leader (mm_store s ! n) = c \<and>
          \<not> me_done (mm_store s ! n) \<and> me_retry (mm_store s ! n)
      | Filled n \<Rightarrow> mm_entries s (key c) = Some n \<and> me_leader (mm_store s ! n) = c \<and>
          \<not> me_done (mm_store s ! n) \<and> (me_retry (mm_store s ! n) \<or> me_val (mm_store s ! n) \<noteq> None)
      | Closing n \<Rightarrow> n < length (mm_store s) \<and> me_key (mm_store s ! n) = key c \<and>
          me_leader (mm_store s ! n) = c \<and> \<not> me_done (mm_store s ! n) \<and>
          (if me_retry (mm_store s ! n) then mm_entries s (key c) \<noteq> Some n
           else me_val (mm_store s ! n) \<noteq> None))"

definition memo_ok :: "('c \<Rightarrow> 'k) \<Rightarrow> ('c, 'k, 'o) memo \<Rightarrow> bool" where
  "memo_ok key s \<longleftrightarrow> current_ok s \<and> kept_ok s \<and> (\<forall>c. phase_ok key s c)"

lemma memo_ok_start: "memo_ok key memo_start"
  by (simp add: memo_ok_def memo_start_def current_ok_def kept_ok_def phase_ok_def)

text \<open>A leader is known by its entry.\<close>

lemma leads_leader:
  assumes "memo_ok key s" "leads (mm_phase s c) = Some n"
  shows "me_leader (mm_store s ! n) = c" "n < length (mm_store s)" "me_key (mm_store s ! n) = key c"
    "\<not> me_done (mm_store s ! n)"
  using assms unfolding memo_ok_def current_ok_def phase_ok_def
  by (auto elim!: leads.elims split: phase.splits dest!: spec [of _ c])

lemma memo_simps [simp]:
  "mm_phase (set_phase c ph s) = (mm_phase s)(c := ph)"
  "mm_entries (set_phase c ph s) = mm_entries s"
  "mm_store (set_phase c ph s) = mm_store s"
  "mm_phase (update_entry n f s) = mm_phase s"
  "mm_entries (update_entry n f s) = mm_entries s"
  "mm_store (update_entry n f s) = (mm_store s)[n := f (mm_store s ! n)]"
  by (simp_all add: set_phase_def update_entry_def)

text \<open>Changing the entry that \<open>c\<close> leads leaves the other callers' assertions alone.\<close>

lemma phase_ok_other:
  assumes ok: "memo_ok key s" and lead: "leads (mm_phase s c) = Some n" and d: "d \<noteq> c"
    and f: "me_key (f (mm_store s ! n)) = me_key (mm_store s ! n)"
      "me_leader (f (mm_store s ! n)) = me_leader (mm_store s ! n)"
      "me_done (f (mm_store s ! n)) \<longrightarrow>
         me_retry (f (mm_store s ! n)) \<or> me_val (f (mm_store s ! n)) \<noteq> None"
  shows "phase_ok key (set_phase c ph (update_entry n f s)) d"
proof -
  note L = leads_leader [OF ok lead]
  have P: "phase_ok key s d" using ok by (simp add: memo_ok_def)
  have N: "m \<noteq> n" if "leads (mm_phase s d) = Some m" for m
    using leads_leader(1) [OF ok that] L(1) d by auto
  show ?thesis
  proof (cases "mm_phase s d")
    case (WaitingOn m)
    then show ?thesis
      using P f d L by (cases "m = n") (auto simp: phase_ok_def)
  next
    case (Answered m v)
    then have "m \<noteq> n" using P L(4) by (auto simp: phase_ok_def)
    then show ?thesis using Answered P d by (auto simp: phase_ok_def)
  next
    case (PanickedIn m)
    then have "m \<noteq> n" using P L(1) d by (auto simp: phase_ok_def)
    then show ?thesis using PanickedIn P d by (auto simp: phase_ok_def)
  qed (use P d N in \<open>auto simp: phase_ok_def\<close>)
qed

lemma kept_current:
  assumes "memo_ok key s"
  shows "mm_entries s k = Some n \<Longrightarrow> n < length (mm_store s) \<and> me_key (mm_store s ! n) = k"
  using assms unfolding memo_ok_def current_ok_def by blast

lemma phase_ok_self: "memo_ok key s \<Longrightarrow> phase_ok key s c"
  by (simp add: memo_ok_def)

lemma ok_lead:
  assumes ok: "memo_ok key s" and c: "mm_phase s c = Looking" "mm_entries s (key c) = None"
  shows "memo_ok key (set_phase c (Leading (length (mm_store s)))
          (s\<lparr>mm_entries := (mm_entries s)(key c := Some (length (mm_store s))),
             mm_store := mm_store s @ [new_entry c (key c)]\<rparr>))" (is "memo_ok key ?s")
proof -
  have "current_ok ?s"
    using ok kept_current [OF ok] unfolding memo_ok_def current_ok_def
    by (auto simp: nth_append new_entry_def intro: less_SucI)
  moreover have "kept_ok ?s"
    using ok c(2) unfolding memo_ok_def kept_ok_def
    by (auto simp: nth_append new_entry_def less_Suc_eq)
  moreover have "phase_ok key ?s d" for d
  proof (cases "d = c")
    case True
    then show ?thesis by (simp add: phase_ok_def new_entry_def)
  next
    case False
    have "phase_ok key s d" using ok by (simp add: memo_ok_def)
    then show ?thesis
      using False c(2) kept_current [OF ok]
      by (cases "mm_phase s d") (auto simp: phase_ok_def nth_append dest: kept_current [OF ok])
  qed
  ultimately show ?thesis by (simp add: memo_ok_def)
qed

lemma ok_phase_only:
  assumes "memo_ok key s" "phase_ok key (set_phase c ph s) c"
  shows "memo_ok key (set_phase c ph s)"
proof -
  have "phase_ok key (set_phase c ph s) d" if "d \<noteq> c" for d
    using phase_ok_self [OF assms(1), of d] that by (cases "mm_phase s d") (simp_all add: phase_ok_def)
  then have "phase_ok key (set_phase c ph s) d" for d
    using assms(2) by (cases "d = c") auto
  then show ?thesis
    using assms(1) by (simp add: memo_ok_def current_ok_def kept_ok_def)
qed

lemma ok_update:
  assumes ok: "memo_ok key s" and lead: "leads (mm_phase s c) = Some n"
    and f: "me_key (f (mm_store s ! n)) = me_key (mm_store s ! n)"
      "me_leader (f (mm_store s ! n)) = me_leader (mm_store s ! n)"
      "me_done (f (mm_store s ! n)) \<longrightarrow>
         (if me_retry (f (mm_store s ! n)) then mm_entries s (key c) \<noteq> Some n
          else me_val (f (mm_store s ! n)) \<noteq> None)"
      "mm_entries s (key c) = Some n \<or> me_retry (f (mm_store s ! n))"
    and own: "phase_ok key (set_phase c ph (update_entry n f s)) c"
  shows "memo_ok key (set_phase c ph (update_entry n f s))"
proof -
  note L = leads_leader [OF ok lead]
  have "phase_ok key (set_phase c ph (update_entry n f s)) d" for d
  proof (cases "d = c")
    case False
    then show ?thesis
      using f(3) by (intro phase_ok_other [where f = f, OF ok lead] f(1,2)) (auto split: if_splits)
  qed (simp add: own)
  moreover have "current_ok (set_phase c ph (update_entry n f s))"
    using ok L f(1,3) kept_current [OF ok] unfolding memo_ok_def current_ok_def
    by (auto simp: nth_list_update split: if_splits)
  moreover have "kept_ok (set_phase c ph (update_entry n f s))"
    using ok L f(1,4) unfolding memo_ok_def kept_ok_def by (auto simp: nth_list_update)
  ultimately show ?thesis by (simp add: memo_ok_def)
qed

lemma ok_forget:
  assumes ok: "memo_ok key s" and c: "mm_phase s c = Filled n" "me_retry (mm_store s ! n)"
  shows "memo_ok key (set_phase c (Closing n) (s\<lparr>mm_entries := (mm_entries s)(key c := None)\<rparr>))"
    (is "memo_ok key ?s")
proof -
  have lead: "leads (mm_phase s c) = Some n" by (simp add: c)
  note L = leads_leader [OF ok lead]
  have cur: "mm_entries s (key c) = Some n"
    using ok c by (auto simp: memo_ok_def phase_ok_def dest!: spec [of _ c])
  have "current_ok ?s" using ok unfolding memo_ok_def current_ok_def by auto
  moreover have "kept_ok ?s"
    using ok cur c(2) unfolding memo_ok_def kept_ok_def by auto
  moreover have "phase_ok key ?s d" for d
  proof (cases "d = c")
    case True
    then show ?thesis using L c by (simp add: phase_ok_def)
  next
    case False
    have N: "m \<noteq> n" if "leads (mm_phase s d) = Some m" for m
      using leads_leader(1) [OF ok that] L(1) False by auto
    have "phase_ok key s d" using ok by (simp add: memo_ok_def)
    then show ?thesis
      using False N cur by (cases "mm_phase s d") (auto simp: phase_ok_def)
  qed
  ultimately show ?thesis by (simp add: memo_ok_def)
qed

lemma memo_ok_step:
  assumes "memo_step key failed s s'" and "memo_ok key s"
  shows "memo_ok key s'"
  using assms
proof (induction rule: memo_step.induct)
  case (lead s c)
  then show ?case by (simp add: ok_lead)
next
  case (join s c n)
  have "n < length (mm_store s) \<and> me_key (mm_store s ! n) = key c \<and>
      (me_done (mm_store s ! n) \<longrightarrow> me_val (mm_store s ! n) \<noteq> None)"
    using join unfolding memo_ok_def current_ok_def by blast
  then show ?case
    using join(3) by (intro ok_phase_only) (auto simp: phase_ok_def)
next
  case (start s c n)
  note L = leads_leader [OF start(2), of c n]
  have "phase_ok key s c" by (rule phase_ok_self [OF start(2)])
  then show ?case
    using start L by (intro ok_update) (auto simp: phase_ok_def)
next
  case (compute s c n outcome ctx_ended)
  note L = leads_leader [OF compute(2), of c n]
  have "phase_ok key s c" by (rule phase_ok_self [OF compute(2)])
  then show ?case
    using compute L by (intro ok_update) (auto simp: phase_ok_def)
next
  case (panic s c n)
  have "phase_ok key s c" by (rule phase_ok_self [OF panic(2)])
  then show ?case
    using panic by (intro ok_phase_only) (auto simp: phase_ok_def)
next
  case (forget s c n)
  have P: "phase_ok key s c" by (rule phase_ok_self [OF forget(2)])
  show ?case
  proof (cases "me_retry (mm_store s ! n)")
    case True
    then show ?thesis using ok_forget [OF forget(2,1)] by simp
  next
    case False
    moreover have "n < length (mm_store s) \<and> me_key (mm_store s ! n) = key c"
      using leads_leader [OF forget(2), of c n] forget(1) by simp
    ultimately show ?thesis
      using P forget by (auto simp: phase_ok_def intro!: ok_phase_only)
  qed
next
  case (close_done s c n)
  have P: "phase_ok key s c" by (rule phase_ok_self [OF close_done(2)])
  have "kept_ok s" using close_done(2) by (simp add: memo_ok_def)
  then have "mm_entries s (key c) = Some n \<or> me_retry (mm_store s ! n)"
    using P close_done(1) by (auto simp: phase_ok_def kept_ok_def)
  then show ?case
    using P close_done by (intro ok_update) (auto simp: phase_ok_def split: if_splits option.splits)
next
  case (wake s c n)
  have "phase_ok key s c" by (rule phase_ok_self [OF wake(3)])
  then show ?case
    using wake by (intro ok_phase_only) (auto simp: phase_ok_def)
next
  case (give_up s c n)
  then show ?case by (intro ok_phase_only) (simp_all add: phase_ok_def)
qed

lemma memo_ok_reach: "memo_reach key failed s \<Longrightarrow> memo_ok key s"
  by (induction rule: rtranclp_induct) (simp_all add: memo_ok_start memo_ok_step)

subsection \<open>Single flight\<close>

definition computing :: "('c, 'k, 'o) memo \<Rightarrow> 'c \<Rightarrow> bool" where
  "computing s c \<longleftrightarrow> (\<exists>n. mm_phase s c = Computing n)"

lemma one_computation:
  assumes ok: "memo_ok key s" and "computing s c" "computing s d" "key c = key d"
  shows "c = d"
proof -
  obtain n m where n: "mm_phase s c = Computing n" and m: "mm_phase s d = Computing m"
    using assms(2,3) by (auto simp: computing_def)
  then have "n = m"
    using phase_ok_self [OF ok, of c] phase_ok_self [OF ok, of d] assms(4) by (simp add: phase_ok_def)
  then show ?thesis
    using leads_leader(1) [OF ok, of c n] leads_leader(1) [OF ok, of d m] n m by simp
qed

lemma one_kept_entry:
  assumes ok: "memo_ok key s" and "n < length (mm_store s)" "m < length (mm_store s)"
    and "me_key (mm_store s ! n) = me_key (mm_store s ! m)"
    and "\<not> me_retry (mm_store s ! n)" "\<not> me_retry (mm_store s ! m)"
  shows "n = m"
  using assms unfolding memo_ok_def kept_ok_def by (metis option.inject)

lemma same_kept_answer:
  assumes ok: "memo_ok key s" and ph: "mm_phase s c = Answered n v" "mm_phase s d = Answered m w"
    and "key c = key d" "\<not> me_retry (mm_store s ! n)" "\<not> me_retry (mm_store s ! m)"
  shows "v = w"
proof -
  have "n = m"
    using one_kept_entry [OF ok, of n m] phase_ok_self [OF ok, of c] phase_ok_self [OF ok, of d] assms(2-)
    by (simp add: phase_ok_def)
  then show ?thesis
    using phase_ok_self [OF ok, of c] phase_ok_self [OF ok, of d] ph by (simp add: phase_ok_def)
qed

text \<open>
  C13 In every reachable state of a single-flight table (core.Memo, dnsx.Cache) a key is computed
  by at most one caller at a time; all callers that got an answer from a kept computation of a
  key got the same answer; and an answer from a computation that was discarded for a retry went
  to nobody but the caller that computed it.
\<close>

theorem memo_single_flight:
  assumes "memo_reach key failed s"
  shows "(\<forall>c d. computing s c \<and> computing s d \<and> key c = key d \<longrightarrow> c = d) \<and>
    (\<forall>c d n m v w. mm_phase s c = Answered n v \<and> mm_phase s d = Answered m w \<and> key c = key d \<and>
       \<not> me_retry (mm_store s ! n) \<and> \<not> me_retry (mm_store s ! m) \<longrightarrow> v = w) \<and>
    (\<forall>c n v. mm_phase s c = Answered n v \<and> me_retry (mm_store s ! n) \<longrightarrow>
       me_leader (mm_store s ! n) = c)"
proof -
  note ok = memo_ok_reach [OF assms]
  have "me_leader (mm_store s ! n) = c"
    if "mm_phase s c = Answered n v" "me_retry (mm_store s ! n)" for c n v
    using phase_ok_self [OF ok, of c] that by (simp add: phase_ok_def)
  then show ?thesis
    using one_computation [OF ok] same_kept_answer [OF ok] by blast
qed

subsection \<open>Progress\<close>










text \<open>A run of two callers of one key: the first computes, the second waits and is answered.\<close>

definition demo_failed :: "nat \<Rightarrow> bool" where "demo_failed v \<longleftrightarrow> v = 0"

lemma demo_memo_run:
  fixes key :: "bool \<Rightarrow> unit"
  shows "\<exists>s. memo_reach key demo_failed s \<and> mm_phase s True = Answered 0 7 \<and> mm_phase s False = WaitingOn 0 \<and>
    me_done (mm_store s ! 0) \<and> \<not> me_retry (mm_store s ! 0)"
proof -
  define e where "e = (new_entry True () :: (bool, unit, nat) memo_entry)"
  define s1 where "s1 = set_phase True (Leading 0) ((memo_start :: (bool, unit, nat) memo)\<lparr>mm_entries := (\<lambda>_. Some 0), mm_store := [e]\<rparr>)"
  define s2 where "s2 = set_phase False (WaitingOn 0) s1"
  define s3 where "s3 = set_phase True (Computing 0) (update_entry 0 (\<lambda>e. e\<lparr>me_retry := True\<rparr>) s2)"
  define s4 where "s4 = set_phase True (Filled 0) (update_entry 0 (\<lambda>e. e\<lparr>me_val := Some 7, me_retry := demo_failed 7 \<and> False\<rparr>) s3)"
  define s5 where "s5 = set_phase True (Closing 0) s4"
  define s6 where "s6 = set_phase True (Answered 0 7) (update_entry 0 (\<lambda>e. e\<lparr>me_done := True\<rparr>) s5)"
  have k: "key = (\<lambda>_. ())" by (simp add: fun_eq_iff)
  have "memo_step key demo_failed memo_start s1"
    using memo_step.lead [of memo_start True key demo_failed]
    by (simp add: s1_def e_def memo_start_def k fun_upd_def)
  moreover have "memo_step key demo_failed s1 s2"
    unfolding s2_def by (rule memo_step.join) (simp_all add: s1_def memo_start_def)
  moreover have "memo_step key demo_failed s2 s3"
    unfolding s3_def by (rule memo_step.start) (simp add: s2_def s1_def memo_start_def)
  moreover have "memo_step key demo_failed s3 s4"
    unfolding s4_def by (rule memo_step.compute) (simp add: s3_def)
  moreover have "memo_step key demo_failed s4 s5"
    using memo_step.forget [of s4 True 0 key demo_failed]
    by (simp add: s5_def s4_def s3_def s2_def s1_def memo_start_def)
  moreover have "memo_step key demo_failed s5 s6"
    using memo_step.close_done [of s5 True 0 key demo_failed]
    by (simp add: s6_def s5_def s4_def s3_def s2_def s1_def memo_start_def)
  ultimately have "memo_reach key demo_failed s6"
    by (meson rtranclp.rtrancl_into_rtrancl rtranclp.rtrancl_refl)
  then show ?thesis
    by (intro exI [of _ s6]) (simp add: s6_def s5_def s4_def s3_def s2_def s1_def memo_start_def)
qed

theorem memo_single_flight_witness:
  "\<exists>s :: (bool, unit, nat) memo. mm_phase s True = Answered 0 7 \<and>
    (\<forall>c d. computing s c \<and> computing s d \<longrightarrow> c = d)"
proof -
  obtain s :: "(bool, unit, nat) memo" where s: "memo_reach (\<lambda>_. ()) demo_failed s" "mm_phase s True = Answered 0 7"
    using demo_memo_run [of "\<lambda>_. ()"] by blast
  show ?thesis using memo_single_flight [OF s(1)] s(2) by (intro exI [of _ s]) simp
qed


end
