(* ===== verification/SetaDnsx.thy ===== *)
theory SetaDnsx
  imports SetaNetip SetaMemo
begin

text \<open>
  Package internal/dnsx. The records of miekg/dns are a datatype of what the code inspects of
  them. A resolver is a function from a query to an error or a response; its laws are the locale
  \<open>resolver\<close>, which the client, the cache and the test fake satisfy. Sockets, TLS, HTTP and the
  packing of messages are the parameter \<open>exchange\<close>.
\<close>

subsection \<open>Records and responses\<close>

definition TypeA :: nat where "TypeA = 1"
definition TypeNS :: nat where "TypeNS = 2"
definition TypeCNAME :: nat where "TypeCNAME = 5"
definition TypeSOA :: nat where "TypeSOA = 6"
definition TypePTR :: nat where "TypePTR = 12"
definition TypeMX :: nat where "TypeMX = 15"
definition TypeTXT :: nat where "TypeTXT = 16"
definition TypeAAAA :: nat where "TypeAAAA = 28"
definition TypeDS :: nat where "TypeDS = 43"
definition TypeRRSIG :: nat where "TypeRRSIG = 46"
definition TypeDNSKEY :: nat where "TypeDNSKEY = 48"
definition TypeTLSA :: nat where "TypeTLSA = 52"
definition TypeCAA :: nat where "TypeCAA = 257"

lemmas type_defs = TypeA_def TypeNS_def TypeCNAME_def TypeSOA_def TypePTR_def TypeMX_def TypeTXT_def
  TypeAAAA_def TypeDS_def TypeRRSIG_def TypeDNSKEY_def TypeTLSA_def TypeCAA_def

definition RcodeSuccess :: nat where "RcodeSuccess = 0"
definition RcodeServerFailure :: nat where "RcodeServerFailure = 2"
definition RcodeNameError :: nat where "RcodeNameError = 3"

lemmas rcode_defs = RcodeSuccess_def RcodeServerFailure_def RcodeNameError_def

datatype rdata =
    A_data "nat list"
  | AAAA_data "nat list"
  | MX_data nat string
  | TXT_data "string list"
  | CNAME_data string
  | NS_data string
  | PTR_data string
  | SOA_data string
  | DS_data nat nat nat string
  | DNSKEY_data nat nat nat string
  | RRSIG_data nat nat nat string nat nat nat nat string
  | CAA_data nat string string
  | TLSA_data nat nat nat string
  | Other_data string

record rr =
  rr_Name :: string
  rr_Rrtype :: nat
  rr_Data :: rdata

record response =
  rp_Name :: string
  rp_Type :: nat
  rp_Rcode :: nat
  rp_Answer :: "rr list"

definition NXDomain :: "response \<Rightarrow> bool" where
  "NXDomain r \<longleftrightarrow> rp_Rcode r = RcodeNameError"

definition Records :: "response \<Rightarrow> rr list" where
  "Records r = filter (\<lambda>x. rr_Rrtype x = rp_Type r) (rp_Answer r)"

definition RRSIGs :: "response \<Rightarrow> rr list" where
  "RRSIGs r = filter (\<lambda>x. case rr_Data x of RRSIG_data covered _ _ _ _ _ _ _ _ \<Rightarrow> covered = rp_Type r | _ \<Rightarrow> False)
     (rp_Answer r)"

definition resp_MX :: "response \<Rightarrow> (nat \<times> string) list" where
  "resp_MX r = concat (map (\<lambda>x. case rr_Data x of MX_data p h \<Rightarrow> [(p, h)] | _ \<Rightarrow> []) (rp_Answer r))"

definition resp_TXT :: "response \<Rightarrow> string list" where
  "resp_TXT r = concat (map (\<lambda>x. case rr_Data x of TXT_data ts \<Rightarrow> [join [] ts] | _ \<Rightarrow> []) (rp_Answer r))"

definition resp_Addrs :: "response \<Rightarrow> addr list" where
  "resp_Addrs r = concat (map (\<lambda>x. case rr_Data x of
      A_data b \<Rightarrow> (case addr_from_slice b of Some a \<Rightarrow> [unmap a] | None \<Rightarrow> [])
    | AAAA_data b \<Rightarrow> (case addr_from_slice b of Some a \<Rightarrow> [a] | None \<Rightarrow> [])
    | _ \<Rightarrow> []) (rp_Answer r))"

subsection \<open>Errors\<close>

datatype 'e dns_cause = Transport 'e | Rcode nat | NoDNSSEC

record 'e dns_error =
  de_Name :: string
  de_Type :: nat
  de_Cause :: "'e dns_cause"

text \<open>\<open>type_name\<close> and \<open>rcode_name\<close> are the tables TypeToString and RcodeToString of miekg/dns.\<close>

definition rcodeText :: "(nat \<Rightarrow> string option) \<Rightarrow> nat \<Rightarrow> string" where
  "rcodeText rcode_name rcode =
     (case rcode_name rcode of
        Some s \<Rightarrow> ''server responded '' @ s
      | None \<Rightarrow> ''server responded rcode '' @ nat_digits rcode)"

definition dns_error_text ::
  "(nat \<Rightarrow> string) \<Rightarrow> (nat \<Rightarrow> string option) \<Rightarrow> ('e \<Rightarrow> string) \<Rightarrow> 'e dns_error \<Rightarrow> string" where
  "dns_error_text type_name rcode_name text e =
     ''lookup '' @ type_name (de_Type e) @ '' '' @ trim_suffix (de_Name e) ''.'' @ '': '' @
     (case de_Cause e of
        Transport x \<Rightarrow> text x
      | Rcode n \<Rightarrow> rcodeText rcode_name n
      | NoDNSSEC \<Rightarrow> ''the resolver does not support DNSSEC queries'')"

text \<open>
  \<open>fqdn\<close> is dns.Fqdn of miekg/dns. What the code relies on: a name without a backslash gets a
  trailing dot unless it has one.
\<close>

definition CanonicalName :: "(string \<Rightarrow> string) \<Rightarrow> string \<Rightarrow> string" where
  "CanonicalName fqdn name = fqdn (to_lower name)"

definition plain_name :: "string \<Rightarrow> bool" where
  "plain_name s \<longleftrightarrow> char_of (92 :: nat) \<notin> set s"

locale dns_names =
  fixes fqdn :: "string \<Rightarrow> string"
  assumes fqdn_plain: "plain_name s \<Longrightarrow> fqdn s = (if has_suffix s ''.'' then s else s @ ''.'')"
begin

lemma lower_char_backslash: "lower_char c = char_of (92 :: nat) \<Longrightarrow> c = char_of (92 :: nat)"
  by (cases "is_upper c") (auto simp: lower_char_def is_upper_def byte_def split: if_splits)

lemma plain_lower: "plain_name s \<Longrightarrow> plain_name (to_lower s)"
  using lower_char_backslash by (force simp: plain_name_def to_lower_def)

lemma lower_dot: "to_lower (s @ ''.'') = to_lower s @ ''.''"
  by (simp add: to_lower_def lower_char_def is_upper_def byte_def)

lemma canonical_cases:
  "plain_name s \<Longrightarrow> CanonicalName fqdn s = (if has_suffix (to_lower s) ''.'' then to_lower s else to_lower s @ ''.'')"
  by (simp add: CanonicalName_def fqdn_plain plain_lower)

lemma plain_canonical: "plain_name s \<Longrightarrow> plain_name (CanonicalName fqdn s)"
  using plain_lower [of s] by (simp add: canonical_cases plain_name_def char_of_def)

lemma canonical_lower: "plain_name s \<Longrightarrow> to_lower (CanonicalName fqdn s) = CanonicalName fqdn s"
  by (simp only: canonical_cases lower_dot to_lower_idem split: if_split) simp

lemma canonical_dot: "plain_name s \<Longrightarrow> has_suffix (CanonicalName fqdn s) ''.''"
  by (simp add: canonical_cases has_suffix_iff)

lemma canonical_idem: "plain_name s \<Longrightarrow> CanonicalName fqdn (CanonicalName fqdn s) = CanonicalName fqdn s"
  using canonical_cases [OF plain_canonical] by (simp add: canonical_lower canonical_dot)

end

definition dot_terminated :: "string \<Rightarrow> string" where
  "dot_terminated s = (if has_suffix s ''.'' then s else s @ ''.'')"

interpretation dot_names: dns_names dot_terminated
  by unfold_locales (simp add: dot_terminated_def)

subsection \<open>Servers\<close>

datatype transport = Plain | TLS | HTTPS

definition Encrypted :: "transport \<Rightarrow> bool" where "Encrypted t \<longleftrightarrow> t = TLS \<or> t = HTTPS"

record server =
  sv_Transport :: transport
  sv_Addr :: string
  sv_ServerName :: string
  sv_URL :: string

definition Presets :: "string \<rightharpoonup> string list" where
  "Presets = [''doh'' \<mapsto> [''https://1.1.1.1/dns-query'', ''https://9.9.9.9/dns-query''],
              ''dot'' \<mapsto> [''tls://1.1.1.1'', ''tls://9.9.9.9'']]"

datatype server_error = BadDoH string | BadDoT string | BadScheme string | BadServer string

text \<open>
  What \<open>net/url\<close> tells of a URL, and its text when an empty path is replaced: the parameter
  \<open>parse_url\<close>.
\<close>

record url =
  u_Scheme :: string
  u_Host :: string
  u_Path :: string
  u_User :: bool
  u_Fragment :: string
  u_String :: "string \<Rightarrow> string"

definition trim_brackets :: "string \<Rightarrow> string" where
  "trim_brackets s = trim_right_by (\<lambda>c. c \<in> set ''[]'') (trim_left_by (\<lambda>c. c \<in> set ''[]'') s)"

definition ParseServer :: "(string \<Rightarrow> url option) \<Rightarrow> string \<Rightarrow> server_error + server" where
  "ParseServer parse_url spec =
     (if has_prefix spec ''https://'' then
        (case parse_url spec of
           None \<Rightarrow> Inl (BadDoH spec)
         | Some u \<Rightarrow>
             if u_Host u = [] \<or> u_User u \<or> u_Fragment u \<noteq> [] then Inl (BadDoH spec)
             else Inr \<lparr>sv_Transport = HTTPS, sv_Addr = [], sv_ServerName = [],
               sv_URL = u_String u (if u_Path u = [] then ''/dns-query'' else u_Path u)\<rparr>)
      else if has_prefix spec ''tls://'' then
        (let hostport = trim_prefix spec ''tls://'';
             (host, port) = (case split_host_port hostport of
                Some hp \<Rightarrow> hp
              | None \<Rightarrow> (trim_brackets hostport, ''853''))
         in if host = [] \<or> list_ex (\<lambda>c. c \<in> set ''/?#@ '') host then Inl (BadDoT spec)
            else Inr \<lparr>sv_Transport = TLS, sv_Addr = join_host_port host port, sv_ServerName = host, sv_URL = []\<rparr>)
      else if contains_sub spec ''://'' then Inl (BadScheme spec)
      else case ParseAddrPort spec of
          Some (a, p) \<Rightarrow> Inr \<lparr>sv_Transport = Plain, sv_Addr = addr_port_String a p, sv_ServerName = [], sv_URL = []\<rparr>
        | None \<Rightarrow>
          (case ParseAddr spec of
             Some a \<Rightarrow> Inr \<lparr>sv_Transport = Plain, sv_Addr = addr_port_String a 53, sv_ServerName = [], sv_URL = []\<rparr>
           | None \<Rightarrow> Inl (BadServer spec)))"

definition server_String :: "server \<Rightarrow> string" where
  "server_String s =
     (case sv_Transport s of HTTPS \<Rightarrow> sv_URL s | TLS \<Rightarrow> ''tls://'' @ sv_Addr s | Plain \<Rightarrow> sv_Addr s)"

subsection \<open>The client\<close>

record query =
  q_Name :: string
  q_Type :: nat
  q_DNSSEC :: bool

record message =
  ms_Rcode :: nat
  ms_Answer :: "rr list"

text \<open>
  \<open>exchange\<close> is one exchange with an upstream; \<open>ended\<close> says whether the caller's context has
  ended once that exchange failed.
\<close>

fun client_lookup ::
  "(server \<Rightarrow> query \<Rightarrow> 'e + message) \<Rightarrow> (server \<Rightarrow> bool) \<Rightarrow> query \<Rightarrow> server list \<Rightarrow> 'e dns_error option \<Rightarrow>
   ('e dns_error option) + response" where
  "client_lookup exchange ended q [] lastErr = Inl lastErr"
| "client_lookup exchange ended q (u # us) lastErr =
     (case exchange u q of
        Inl e \<Rightarrow>
          (let err = Some \<lparr>de_Name = q_Name q, de_Type = q_Type q, de_Cause = Transport e\<rparr> in
           if ended u then Inl err else client_lookup exchange ended q us err)
      | Inr m \<Rightarrow>
          if ms_Rcode m = RcodeSuccess \<or> ms_Rcode m = RcodeNameError then
            Inr \<lparr>rp_Name = q_Name q, rp_Type = q_Type q, rp_Rcode = ms_Rcode m, rp_Answer = ms_Answer m\<rparr>
          else client_lookup exchange ended q us
                 (Some \<lparr>de_Name = q_Name q, de_Type = q_Type q, de_Cause = Rcode (ms_Rcode m)\<rparr>))"

definition client_Lookup ::
  "(server \<Rightarrow> query \<Rightarrow> 'e + message) \<Rightarrow> (server \<Rightarrow> bool) \<Rightarrow> (string \<Rightarrow> string) \<Rightarrow> server list \<Rightarrow> bool \<Rightarrow>
   string \<Rightarrow> nat \<Rightarrow> ('e dns_error option) + response" where
  "client_Lookup exchange ended fqdn us dnssec name qtype =
     client_lookup exchange ended \<lparr>q_Name = CanonicalName fqdn name, q_Type = qtype, q_DNSSEC = dnssec\<rparr> us None"

definition client_Encrypted :: "server list \<Rightarrow> bool" where
  "client_Encrypted us \<longleftrightarrow> list_all (\<lambda>u. Encrypted (sv_Transport u)) us"

datatype client_error = NoServers | BadSpec server_error

definition NewClient :: "(string \<Rightarrow> url option) \<Rightarrow> string list \<Rightarrow> client_error + server list" where
  "NewClient parse_url specs =
     (if specs = [] then Inl NoServers
      else case try_map (ParseServer parse_url) specs of Inl e \<Rightarrow> Inl (BadSpec e) | Inr us \<Rightarrow> Inr us)"

text \<open>DNS over HTTPS: what the reply must be before it is used.\<close>

record http_reply =
  hr_Status :: nat
  hr_ContentType :: string
  hr_Body :: string

datatype doh_error = DohStatus nat | DohContentType string | DohTooBig | DohMalformed | DohMismatch

definition MaxMsgSize :: nat where "MaxMsgSize = 65535"

text \<open>\<open>unpack\<close> decodes a DNS message: its questions and the message.\<close>

definition doh_reply ::
  "(string \<Rightarrow> ((string \<times> nat) list \<times> message) option) \<Rightarrow> query \<Rightarrow> http_reply \<Rightarrow> doh_error + message" where
  "doh_reply unpack q r =
     (if hr_Status r \<noteq> 200 then Inl (DohStatus (hr_Status r))
      else if \<not> has_prefix (hr_ContentType r) ''application/dns-message'' then Inl (DohContentType (hr_ContentType r))
      else if MaxMsgSize < length (take (MaxMsgSize + 1) (hr_Body r)) then Inl DohTooBig
      else case unpack (hr_Body r) of
          None \<Rightarrow> Inl DohMalformed
        | Some ([(n, t)], m) \<Rightarrow> if equal_fold n (q_Name q) \<and> t = q_Type q then Inr m else Inl DohMismatch
        | Some _ \<Rightarrow> Inl DohMismatch)"

definition parsePort :: "int option \<Rightarrow> int" where
  "parsePort scanned = (case scanned of None \<Rightarrow> 53 | Some p \<Rightarrow> if p = 0 then 53 else p)"

subsection \<open>The contract of a resolver\<close>

text \<open>
  What checks rely on: an answer is for the canonical name and the type asked, with rcode NOERROR
  or NXDOMAIN, and the spelling of a name does not matter.
\<close>

locale resolver =
  fixes fqdn :: "string \<Rightarrow> string"
    and lookup :: "string \<Rightarrow> nat \<Rightarrow> 'e + response"
  assumes answers: "lookup name qtype = Inr r \<Longrightarrow>
      rp_Name r = CanonicalName fqdn name \<and> rp_Type r = qtype \<and> rp_Rcode r \<in> {RcodeSuccess, RcodeNameError}"
    and spelling: "CanonicalName fqdn name = CanonicalName fqdn name' \<Longrightarrow> lookup name qtype = lookup name' qtype"
begin

lemma records_of_type: "lookup name qtype = Inr r \<Longrightarrow> x \<in> set (Records r) \<Longrightarrow> rr_Rrtype x = qtype"
  using answers by (auto simp: Records_def)

lemma exists_or_not: "lookup name qtype = Inr r \<Longrightarrow> NXDomain r \<or> rp_Rcode r = RcodeSuccess"
  using answers by (auto simp: NXDomain_def)

end

lemma client_lookup_answers:
  "client_lookup exchange ended q us e = Inr r \<Longrightarrow>
    rp_Name r = q_Name q \<and> rp_Type r = q_Type q \<and> rp_Rcode r \<in> {RcodeSuccess, RcodeNameError} \<and>
    (\<exists>u\<in>set us. \<exists>m. exchange u q = Inr m \<and> rp_Answer r = ms_Answer m \<and> rp_Rcode r = ms_Rcode m)"
  by (induction us arbitrary: e) (auto simp: Let_def split: sum.splits if_splits)

lemma client_lookup_fails:
  "client_lookup exchange ended q us e = Inl e' \<Longrightarrow> us \<noteq> [] \<Longrightarrow> e' \<noteq> None"
  by (induction us arbitrary: e; (case_tac us)?) (auto simp: Let_def split: sum.splits if_splits)

lemma client_lookup_tries:
  assumes "client_lookup exchange ended q us e = Inl e'" "\<forall>u\<in>set us. \<not> ended u" "u \<in> set us" "exchange u q = Inr m"
  shows "ms_Rcode m \<notin> {RcodeSuccess, RcodeNameError}"
  using assms by (induction us arbitrary: e) (auto simp: Let_def split: sum.splits if_splits)

interpretation client: resolver fqdn "client_Lookup exchange ended fqdn us dnssec"
  by unfold_locales (use client_lookup_answers in \<open>fastforce simp: client_Lookup_def\<close>, simp add: client_Lookup_def)

text \<open>
  The client answers with the reply of one of its servers, for the canonical name and the
  type asked, and only when that reply says NOERROR or NXDOMAIN; as long as the caller's context
  has not ended it fails only after every server failed or answered with another rcode, and it
  then reports an error. So absence of a record is never confused with failure to find out.
\<close>

lemma client_Lookup_spec:
  assumes "us \<noteq> []"
  shows "case client_Lookup exchange ended fqdn us dnssec name qtype of
      Inr r \<Rightarrow> rp_Name r = CanonicalName fqdn name \<and> rp_Type r = qtype \<and>
        (\<exists>u\<in>set us. \<exists>m. exchange u \<lparr>q_Name = CanonicalName fqdn name, q_Type = qtype, q_DNSSEC = dnssec\<rparr> = Inr m \<and>
          rp_Answer r = ms_Answer m \<and> rp_Rcode r = ms_Rcode m \<and> ms_Rcode m \<in> {RcodeSuccess, RcodeNameError})
    | Inl e \<Rightarrow> e \<noteq> None \<and> ((\<forall>u\<in>set us. \<not> ended u) \<longrightarrow>
        (\<forall>u\<in>set us. \<forall>m. exchange u \<lparr>q_Name = CanonicalName fqdn name, q_Type = qtype, q_DNSSEC = dnssec\<rparr> = Inr m \<longrightarrow>
          ms_Rcode m \<notin> {RcodeSuccess, RcodeNameError}))"
proof -
  define q where "q = \<lparr>q_Name = CanonicalName fqdn name, q_Type = qtype, q_DNSSEC = dnssec\<rparr>"
  show ?thesis
  proof (cases "client_lookup exchange ended q us None")
    case (Inl e)
    then show ?thesis
      using client_lookup_fails [OF Inl assms] client_lookup_tries [OF Inl]
      unfolding client_Lookup_def q_def [symmetric] by auto
  next
    case (Inr r)
    have "\<exists>u\<in>set us. \<exists>m. exchange u q = Inr m \<and> rp_Answer r = ms_Answer m \<and> rp_Rcode r = ms_Rcode m \<and>
        ms_Rcode m \<in> {RcodeSuccess, RcodeNameError}"
      using client_lookup_answers [OF Inr] by metis
    moreover have "rp_Name r = CanonicalName fqdn name" "rp_Type r = qtype"
      using client_lookup_answers [OF Inr] by (simp_all add: q_def)
    ultimately show ?thesis
      using Inr unfolding client_Lookup_def q_def [symmetric] by simp
  qed
qed

lemma client_Lookup_spec_witness:
  "(case client_Lookup (\<lambda>_ _. (Inr \<lparr>ms_Rcode = 2, ms_Answer = []\<rparr> :: unit + message)) (\<lambda>_. False) dot_terminated
      [\<lparr>sv_Transport = Plain, sv_Addr = ''192.0.2.1:53'', sv_ServerName = [], sv_URL = []\<rparr>] False ''a.example'' 15 of
     Inr r \<Rightarrow> False | Inl e \<Rightarrow> e \<noteq> None)"
proof -
  have "[\<lparr>sv_Transport = Plain, sv_Addr = ''192.0.2.1:53'', sv_ServerName = [], sv_URL = []\<rparr>] \<noteq> []" by simp
  from client_Lookup_spec [OF this, where exchange = "\<lambda>_ _. (Inr \<lparr>ms_Rcode = 2, ms_Answer = []\<rparr> :: unit + message)"
      and ended = "\<lambda>_. False" and fqdn = dot_terminated and dnssec = False and name = "''a.example''" and qtype = 15]
  show ?thesis by (auto simp: rcode_defs split: sum.splits)
qed

subsection \<open>The per-run cache\<close>

text \<open>
  The cache is the single-flight table of SetaMemo with a key made of the canonical name, the
  type and the DNSSEC flag. \<open>cache_compute\<close> is what fill stores: the answer of the wrapped
  resolver, or an error where that resolver has no DNSSEC support (\<open>next_sec\<close> is None).
\<close>

definition cache_key :: "(string \<Rightarrow> string) \<Rightarrow> bool \<Rightarrow> string \<Rightarrow> nat \<Rightarrow> query" where
  "cache_key fqdn dnssec name qtype = \<lparr>q_Name = CanonicalName fqdn name, q_Type = qtype, q_DNSSEC = dnssec\<rparr>"

definition no_dnssec_error :: "query \<Rightarrow> 'e dns_error" where
  "no_dnssec_error k = \<lparr>de_Name = q_Name k, de_Type = q_Type k, de_Cause = NoDNSSEC\<rparr>"

definition cache_compute ::
  "(query \<Rightarrow> 'e) \<Rightarrow> (string \<Rightarrow> nat \<Rightarrow> 'e + response) \<Rightarrow> (string \<Rightarrow> nat \<Rightarrow> 'e + response) option \<Rightarrow>
   query \<Rightarrow> 'e + response" where
  "cache_compute no_dnssec next_lookup next_sec k =
     (if \<not> q_DNSSEC k then next_lookup (q_Name k) (q_Type k)
      else case next_sec of
          Some sec \<Rightarrow> sec (q_Name k) (q_Type k)
        | None \<Rightarrow> Inl (no_dnssec k))"

text \<open>One step of concurrent lookups: the callers' keys, and failures as the outcomes to retry.\<close>

definition cache_step ::
  "('c \<Rightarrow> query) \<Rightarrow> ('c, query, 'e dns_error + response) memo \<Rightarrow> ('c, query, 'e dns_error + response) memo \<Rightarrow> bool" where
  "cache_step key s s' \<longleftrightarrow> memo_step key is_err s s'"

context resolver
begin

text \<open>A cache in front of a resolver answers what the resolver answers.\<close>

lemma cached_same:
  assumes "CanonicalName fqdn (CanonicalName fqdn name) = CanonicalName fqdn name"
  shows "cache_compute no_dnssec lookup next_sec (cache_key fqdn False name qtype) = lookup name qtype"
  using spelling [OF assms] by (simp add: cache_compute_def cache_key_def)

end

subsection \<open>Probing a resolver\<close>

record canary =
  ca_Name :: string
  ca_Type :: nat

definition mailProviders :: "string list" where
  "mailProviders = [''gmail.com'', ''outlook.com'', ''yahoo.com'']"

definition signedZones :: "string list" where
  "signedZones = [''cloudflare.com'', ''ietf.org'', ''isc.org'']"

definition canaryTypes :: "(nat \<times> string list) list" where
  "canaryTypes = [(TypeA, mailProviders), (TypeMX, mailProviders), (TypeTXT, mailProviders), (TypeDS, signedZones)]"

definition Canaries :: "canary list" where
  "Canaries = concat (map (\<lambda>(t, ds). map (\<lambda>d. \<lparr>ca_Name = d, ca_Type = t\<rparr>) ds) canaryTypes)"

text \<open>A problem of a record type: its domains returned nothing, or the lookups failed.\<close>

datatype 'e problem = NoRecords nat "string list" | LookupsFailed nat 'e

record 'e probe_error =
  pe_Tampered :: bool
  pe_Problems :: "'e problem list"

text \<open>The verdict on one record type from the results of its canaries.\<close>

fun probe_type :: "bool \<Rightarrow> 'e option \<Rightarrow> ('e + nat) list \<Rightarrow> bool \<times> bool \<times> 'e option" where
  "probe_type answered firstErr [] = (False, answered, firstErr)"
| "probe_type answered firstErr (r # rs) =
     (case r of
        Inr n \<Rightarrow>
          (if 0 < n then (case probe_type answered firstErr rs of (ok, a, e) \<Rightarrow> (True, a, e))
           else probe_type True firstErr rs)
      | Inl e \<Rightarrow> probe_type answered (case firstErr of None \<Rightarrow> Some e | Some e' \<Rightarrow> Some e') rs)"

definition probe_results :: "(string \<Rightarrow> nat \<Rightarrow> 'e + response) \<Rightarrow> (canary \<times> ('e + nat)) list" where
  "probe_results lookup =
     map (\<lambda>c. (c, case lookup (ca_Name c) (ca_Type c) of Inl e \<Rightarrow> Inl e | Inr r \<Rightarrow> Inr (length (Records r)))) Canaries"

definition probe_problem :: "(string \<Rightarrow> nat \<Rightarrow> 'e + response) \<Rightarrow> nat \<times> string list \<Rightarrow> 'e problem list" where
  "probe_problem lookup td =
     (case td of (t, domains) \<Rightarrow>
      case probe_type False None (map snd (filter (\<lambda>(c, r). ca_Type c = t) (probe_results lookup))) of
        (ok, answered, firstErr) \<Rightarrow>
          if ok then []
          else if answered then [NoRecords t domains]
          else [LookupsFailed t (the firstErr)])"

datatype 'e probe_result = ProbeOk | ProbeCtx 'e | Unreliable "'e probe_error"

definition Probe :: "'e option \<Rightarrow> (string \<Rightarrow> nat \<Rightarrow> 'e + response) \<Rightarrow> 'e probe_result" where
  "Probe ctx_err lookup =
     (case ctx_err of
        Some e \<Rightarrow> ProbeCtx e
      | None \<Rightarrow>
        (let problems = concat (map (probe_problem lookup) canaryTypes) in
         if problems = [] then ProbeOk
         else Unreliable \<lparr>pe_Tampered = list_ex (\<lambda>p. case p of NoRecords _ _ \<Rightarrow> True | _ \<Rightarrow> False) problems,
                          pe_Problems = problems\<rparr>))"

definition joinOr :: "string list \<Rightarrow> string" where
  "joinOr items =
     (if length items < 2 then join [] items
      else join '', '' (butlast items) @ '' and '' @ last items)"

definition problem_text :: "(nat \<Rightarrow> string) \<Rightarrow> ('e \<Rightarrow> string) \<Rightarrow> 'e problem \<Rightarrow> string" where
  "problem_text type_name text p =
     (case p of
        NoRecords t ds \<Rightarrow> type_name t @ '' lookups for '' @ joinOr ds @ '' returned no records''
      | LookupsFailed t e \<Rightarrow> type_name t @ '' lookups failed ('' @ text e @ '')'')"

definition probe_error_text :: "(nat \<Rightarrow> string) \<Rightarrow> ('e \<Rightarrow> string) \<Rightarrow> 'e probe_error \<Rightarrow> string" where
  "probe_error_text type_name text e =
     (if pe_Tampered e then ''DNS resolver is returning incomplete answers''
      else ''DNS resolver is not answering correctly'') @ '': '' @
     join ''; '' (map (problem_text type_name text) (pe_Problems e))"

lemma probe_type_spec:
  "probe_type answered firstErr rs =
    (\<exists>n. Inr n \<in> set rs \<and> 0 < n, answered \<or> Inr 0 \<in> set rs,
     case firstErr of Some e \<Rightarrow> Some e
     | None \<Rightarrow> (case filter is_err rs of [] \<Rightarrow> None | r # _ \<Rightarrow> (case r of Inl e \<Rightarrow> Some e | Inr _ \<Rightarrow> None)))"
  by (induction rs arbitrary: answered firstErr) (auto simp: is_err_def split: sum.splits option.splits)

definition has_records :: "(string \<Rightarrow> nat \<Rightarrow> 'e + response) \<Rightarrow> nat \<Rightarrow> string \<Rightarrow> bool" where
  "has_records lookup t d \<longleftrightarrow> (\<exists>r. lookup d t = Inr r \<and> Records r \<noteq> [])"

lemma Canaries_of_type:
  "(t, ds) \<in> set canaryTypes \<Longrightarrow> filter (\<lambda>c. ca_Type c = t) Canaries = map (\<lambda>d. \<lparr>ca_Name = d, ca_Type = t\<rparr>) ds"
  by (auto simp: canaryTypes_def Canaries_def mailProviders_def signedZones_def type_defs)

definition probe_outcome :: "(string \<Rightarrow> nat \<Rightarrow> 'e + response) \<Rightarrow> nat \<Rightarrow> string \<Rightarrow> 'e + nat" where
  "probe_outcome lookup t d = (case lookup d t of Inl e \<Rightarrow> Inl e | Inr r \<Rightarrow> Inr (length (Records r)))"

lemma probe_results_of_type:
  assumes "(t, ds) \<in> set canaryTypes"
  shows "map snd (filter (\<lambda>(c, r). ca_Type c = t) (probe_results lookup)) = map (probe_outcome lookup t) ds"
proof -
  have "filter (\<lambda>(c, r). ca_Type c = t) (probe_results lookup) =
      map (\<lambda>c. (c, probe_outcome lookup (ca_Type c) (ca_Name c))) (filter (\<lambda>c. ca_Type c = t) Canaries)"
    by (simp add: probe_results_def probe_outcome_def filter_map o_def)
  then show ?thesis by (simp add: Canaries_of_type [OF assms] o_def)
qed

lemma probe_outcome_pos: "(\<exists>n. Inr n \<in> probe_outcome lookup t ` S \<and> 0 < n) \<longleftrightarrow> (\<exists>d\<in>S. has_records lookup t d)"
proof
  assume "\<exists>n. Inr n \<in> probe_outcome lookup t ` S \<and> 0 < n"
  then obtain n d where "d \<in> S" "Inr n = probe_outcome lookup t d" "0 < n" by auto
  then show "\<exists>d\<in>S. has_records lookup t d"
    by (intro bexI [of _ d]) (auto simp: probe_outcome_def has_records_def split: sum.splits)
next
  assume "\<exists>d\<in>S. has_records lookup t d"
  then obtain d r where "d \<in> S" "lookup d t = Inr r" "Records r \<noteq> []" by (auto simp: has_records_def)
  then have "probe_outcome lookup t d = Inr (length (Records r))" "0 < length (Records r)"
    by (simp_all add: probe_outcome_def)
  then show "\<exists>n. Inr n \<in> probe_outcome lookup t ` S \<and> 0 < n" using \<open>d \<in> S\<close> by (metis image_eqI)
qed

lemma probe_outcome_zero:
  assumes "\<not> (\<exists>d\<in>S. has_records lookup t d)"
  shows "Inr 0 \<in> probe_outcome lookup t ` S \<longleftrightarrow> (\<exists>d\<in>S. \<exists>r. lookup d t = Inr r)"
proof
  assume "Inr 0 \<in> probe_outcome lookup t ` S"
  then obtain d where "d \<in> S" "probe_outcome lookup t d = Inr 0" by (metis imageE)
  then show "\<exists>d\<in>S. \<exists>r. lookup d t = Inr r"
    by (intro bexI [of _ d]) (auto simp: probe_outcome_def split: sum.splits)
next
  assume "\<exists>d\<in>S. \<exists>r. lookup d t = Inr r"
  then obtain d r where d: "d \<in> S" "lookup d t = Inr r" by blast
  then have "Records r = []" using assms by (auto simp: has_records_def)
  then have "probe_outcome lookup t d = Inr 0" using d by (simp add: probe_outcome_def)
  then show "Inr 0 \<in> probe_outcome lookup t ` S" using d by (metis image_eqI)
qed

lemma probe_problem_cases:
  assumes "(t, ds) \<in> set canaryTypes"
  shows "(\<exists>d\<in>set ds. has_records lookup t d) \<Longrightarrow> probe_problem lookup (t, ds) = []"
    and "\<not> (\<exists>d\<in>set ds. has_records lookup t d) \<Longrightarrow> \<exists>d\<in>set ds. \<exists>r. lookup d t = Inr r \<Longrightarrow>
      probe_problem lookup (t, ds) = [NoRecords t ds]"
    and "\<not> (\<exists>d\<in>set ds. has_records lookup t d) \<Longrightarrow> \<not> (\<exists>d\<in>set ds. \<exists>r. lookup d t = Inr r) \<Longrightarrow>
      \<exists>e. probe_problem lookup (t, ds) = [LookupsFailed t e]"
proof -
  have P: "probe_problem lookup (t, ds) =
      (if \<exists>d\<in>set ds. has_records lookup t d then []
       else if Inr 0 \<in> probe_outcome lookup t ` set ds then [NoRecords t ds]
       else [LookupsFailed t (the (snd (snd (probe_type False None (map (probe_outcome lookup t) ds)))))])"
    unfolding probe_problem_def prod.case probe_results_of_type [OF assms]
    unfolding probe_type_spec prod.case snd_conv set_map probe_outcome_pos by simp
  show "(\<exists>d\<in>set ds. has_records lookup t d) \<Longrightarrow> probe_problem lookup (t, ds) = []"
    and "\<not> (\<exists>d\<in>set ds. has_records lookup t d) \<Longrightarrow> \<exists>d\<in>set ds. \<exists>r. lookup d t = Inr r \<Longrightarrow>
      probe_problem lookup (t, ds) = [NoRecords t ds]"
    and "\<not> (\<exists>d\<in>set ds. has_records lookup t d) \<Longrightarrow> \<not> (\<exists>d\<in>set ds. \<exists>r. lookup d t = Inr r) \<Longrightarrow>
      \<exists>e. probe_problem lookup (t, ds) = [LookupsFailed t e]"
    unfolding P using probe_outcome_zero [of "set ds" lookup t] by auto
qed

lemma probe_problems:
  "probe_problem lookup p = [] \<longleftrightarrow> (\<exists>d\<in>set (snd p). has_records lookup (fst p) d)"
  "(\<exists>t' ds'. NoRecords t' ds' \<in> set (probe_problem lookup p)) \<longleftrightarrow>
    (\<forall>d\<in>set (snd p). \<not> has_records lookup (fst p) d) \<and> (\<exists>d\<in>set (snd p). \<exists>r. lookup d (fst p) = Inr r)"
  if "p \<in> set canaryTypes"
proof -
  obtain t ds where p: "p = (t, ds)" by (cases p)
  note C = probe_problem_cases [OF that [unfolded p], of lookup]
  show "probe_problem lookup p = [] \<longleftrightarrow> (\<exists>d\<in>set (snd p). has_records lookup (fst p) d)"
    unfolding p fst_conv snd_conv using C by (metis list.distinct(1))
  have "(\<exists>t' ds'. NoRecords t' ds' \<in> set (probe_problem lookup (t, ds))) \<longleftrightarrow>
      \<not> (\<exists>d\<in>set ds. has_records lookup t d) \<and> (\<exists>d\<in>set ds. \<exists>r. lookup d t = Inr r)"
  proof (cases "\<exists>d\<in>set ds. has_records lookup t d")
    case True
    then show ?thesis using C(1) [OF True] by simp
  next
    case no: False
    show ?thesis
    proof (cases "\<exists>d\<in>set ds. \<exists>r. lookup d t = Inr r")
      case True
      then show ?thesis using C(2) [OF no True] no by simp
    next
      case False
      then obtain e where "probe_problem lookup (t, ds) = [LookupsFailed t e]" using C(3) [OF no] by blast
      then show ?thesis using False by simp
    qed
  qed
  then show "(\<exists>t' ds'. NoRecords t' ds' \<in> set (probe_problem lookup p)) \<longleftrightarrow>
    (\<forall>d\<in>set (snd p). \<not> has_records lookup (fst p) d) \<and> (\<exists>d\<in>set (snd p). \<exists>r. lookup d (fst p) = Inr r)"
    unfolding p fst_conv snd_conv by blast
qed

text \<open>
  The probe passes a resolver exactly when, for each record type, at least one of its
  well-known domains answers with records; it reports tampering exactly when some type had none
  although the resolver answered for it without an error.
\<close>

lemma Probe_spec:
  "case Probe None lookup of
     ProbeOk \<Rightarrow> \<forall>(t, ds)\<in>set canaryTypes. \<exists>d\<in>set ds. has_records lookup t d
   | ProbeCtx e \<Rightarrow> False
   | Unreliable pe \<Rightarrow> (\<exists>(t, ds)\<in>set canaryTypes. \<forall>d\<in>set ds. \<not> has_records lookup t d) \<and>
       (pe_Tampered pe \<longleftrightarrow> (\<exists>(t, ds)\<in>set canaryTypes. (\<forall>d\<in>set ds. \<not> has_records lookup t d) \<and>
          (\<exists>d\<in>set ds. \<exists>r. lookup d t = Inr r)))"
proof -
  define problems where "problems = concat (map (probe_problem lookup) canaryTypes)"
  have nil: "problems = [] \<longleftrightarrow> (\<forall>p\<in>set canaryTypes. \<exists>d\<in>set (snd p). has_records lookup (fst p) d)"
    unfolding problems_def by (simp add: probe_problems(1))
  have "list_ex (\<lambda>p. case p of NoRecords _ _ \<Rightarrow> True | _ \<Rightarrow> False) problems \<longleftrightarrow>
      (\<exists>q\<in>set problems. \<exists>t' ds'. q = NoRecords t' ds')"
    unfolding list_ex_iff by (rule bex_cong [OF refl]) (simp split: problem.split)
  also have "\<dots> \<longleftrightarrow> (\<exists>p\<in>set canaryTypes. \<exists>t' ds'. NoRecords t' ds' \<in> set (probe_problem lookup p))"
    unfolding problems_def by auto
  also have "\<dots> \<longleftrightarrow> (\<exists>p\<in>set canaryTypes. (\<forall>d\<in>set (snd p). \<not> has_records lookup (fst p) d) \<and>
      (\<exists>d\<in>set (snd p). \<exists>r. lookup d (fst p) = Inr r))"
    by (rule bex_cong [OF refl]) (rule probe_problems(2))
  finally show ?thesis
    using nil by (auto simp: Probe_def problems_def [symmetric] Let_def case_prod_unfold)
qed

text \<open>A resolver that blanks everything is told apart from one that answers.\<close>

lemma Probe_spec_witness:
  "\<exists>pe. Probe None (\<lambda>n t. (Inr \<lparr>rp_Name = n, rp_Type = t, rp_Rcode = 0, rp_Answer = []\<rparr> :: unit + response)) =
     Unreliable pe \<and> pe_Tampered pe"
proof -
  define l where "l = (\<lambda>n t. (Inr \<lparr>rp_Name = n, rp_Type = t, rp_Rcode = 0, rp_Answer = []\<rparr> :: unit + response))"
  have none: "\<not> has_records l t d" for t d by (simp add: has_records_def l_def Records_def)
  have "(TypeA, mailProviders) \<in> set canaryTypes" "''gmail.com'' \<in> set mailProviders"
    by (simp_all add: canaryTypes_def mailProviders_def)
  moreover have "\<exists>r. l ''gmail.com'' TypeA = Inr r" by (simp add: l_def)
  ultimately have "\<exists>(t, ds)\<in>set canaryTypes. (\<forall>d\<in>set ds. \<not> has_records l t d) \<and> (\<exists>d\<in>set ds. \<exists>r. l d t = Inr r)"
    using none by blast
  then show ?thesis
    using Probe_spec [of l] none unfolding l_def [symmetric]
    by (cases "Probe None l") (auto simp: canaryTypes_def mailProviders_def)
qed

subsection \<open>The fake resolver of the tests\<close>

text \<open>
  \<open>next_label\<close> is dns.NextLabel of miekg/dns: the name without its first label, None at the
  last one. The zone parser is not modelled; zones arrive as records.
\<close>

record 'e fake =
  fk_records :: "string \<Rightarrow> rr list"
  fk_exists :: "string \<Rightarrow> bool"
  fk_errs :: "string \<times> nat \<Rightarrow> 'e option"

definition NewFake :: "'e fake" where
  "NewFake = \<lparr>fk_records = (\<lambda>_. []), fk_exists = (\<lambda>_. False), fk_errs = (\<lambda>_. None)\<rparr>"

text \<open>The name and the names above it; a name has fewer labels than bytes.\<close>

fun ancestors :: "(string \<Rightarrow> string option) \<Rightarrow> nat \<Rightarrow> string \<Rightarrow> string list" where
  "ancestors next_label 0 n = [n]"
| "ancestors next_label (Suc k) n =
     n # (case next_label n of None \<Rightarrow> [] | Some m \<Rightarrow> ancestors next_label k m)"

definition fake_add1 ::
  "(string \<Rightarrow> string) \<Rightarrow> (string \<Rightarrow> string option) \<Rightarrow> rr \<Rightarrow> 'e fake \<Rightarrow> 'e fake" where
  "fake_add1 fqdn next_label r f =
     (let name = CanonicalName fqdn (rr_Name r) in
      f\<lparr>fk_records := (fk_records f)(name := fk_records f name @ [r\<lparr>rr_Name := name\<rparr>]),
        fk_exists := (\<lambda>n. n \<in> set (ancestors next_label (length name) name) \<or> fk_exists f n)\<rparr>)"

definition fake_Add ::
  "(string \<Rightarrow> string) \<Rightarrow> (string \<Rightarrow> string option) \<Rightarrow> rr list \<Rightarrow> 'e fake \<Rightarrow> 'e fake" where
  "fake_Add fqdn next_label rrs f = fold (fake_add1 fqdn next_label) rrs f"

definition canaryRR :: "(string \<Rightarrow> string) \<Rightarrow> canary \<Rightarrow> rr option" where
  "canaryRR fqdn c =
     (let hdr = (\<lambda>d. Some \<lparr>rr_Name = fqdn (ca_Name c), rr_Rrtype = ca_Type c, rr_Data = d\<rparr>) in
      if ca_Type c = TypeA then hdr (A_data [192, 0, 2, 1])
      else if ca_Type c = TypeMX then hdr (MX_data 10 (''mx.'' @ fqdn (ca_Name c)))
      else if ca_Type c = TypeTXT then hdr (TXT_data [''v=spf1 -all''])
      else if ca_Type c = TypeDS then hdr (DS_data 2371 13 2 ''00'')
      else None)"

definition AddCanaries :: "(string \<Rightarrow> string) \<Rightarrow> (string \<Rightarrow> string option) \<Rightarrow> 'e fake \<Rightarrow> 'e fake" where
  "AddCanaries fqdn next_label f = fold (\<lambda>c. case canaryRR fqdn c of Some r \<Rightarrow> fake_Add fqdn next_label [r] | None \<Rightarrow> id) Canaries f"

definition SetError ::
  "(string \<Rightarrow> string) \<Rightarrow> (query \<Rightarrow> 'e) \<Rightarrow> string \<Rightarrow> nat \<Rightarrow> 'e option \<Rightarrow> 'e fake \<Rightarrow> 'e fake" where
  "SetError fqdn servfail name qtype err f =
     (let n = CanonicalName fqdn name;
          e = (case err of Some e \<Rightarrow> e | None \<Rightarrow> servfail \<lparr>q_Name = n, q_Type = qtype, q_DNSSEC = False\<rparr>)
      in f\<lparr>fk_errs := (fk_errs f)((n, qtype) := Some e)\<rparr>)"

definition maxCNAMEChain :: nat where "maxCNAMEChain = 8"

fun fake_follow ::
  "(string \<Rightarrow> string) \<Rightarrow> 'e fake \<Rightarrow> nat \<Rightarrow> string \<Rightarrow> nat \<Rightarrow> bool \<Rightarrow> rr list \<Rightarrow> ('e option) + (nat \<times> rr list)" where
  "fake_follow fqdn f 0 current qtype dnssec answer = Inl None"
| "fake_follow fqdn f (Suc k) current qtype dnssec answer =
     (case fk_errs f (current, qtype) of
        Some e \<Rightarrow> Inl (Some e)
      | None \<Rightarrow>
        let here = fk_records f current;
            direct = filter (\<lambda>r. rr_Rrtype r = qtype) here;
            cnames = filter (\<lambda>r. rr_Rrtype r \<noteq> qtype \<and> rr_Rrtype r = TypeCNAME) here;
            covered = (if direct = [] \<and> cnames \<noteq> [] \<and> qtype \<noteq> TypeCNAME then TypeCNAME else qtype);
            sigs = filter (\<lambda>r. dnssec \<and> qtype \<noteq> TypeRRSIG \<and>
              (case rr_Data r of RRSIG_data c _ _ _ _ _ _ _ _ \<Rightarrow> c = covered | _ \<Rightarrow> False)) here
        in if direct \<noteq> [] \<or> cnames = [] \<or> qtype = TypeCNAME then
             Inr (if fk_exists f current then RcodeSuccess else RcodeNameError, answer @ direct @ sigs)
           else
             (let c = last cnames in
              case rr_Data c of
                CNAME_data t \<Rightarrow> fake_follow fqdn f k (CanonicalName fqdn t) qtype dnssec (answer @ sigs @ [c])
              | _ \<Rightarrow> Inl None))"

definition fake_Lookup ::
  "(string \<Rightarrow> string) \<Rightarrow> (query \<Rightarrow> 'e) \<Rightarrow> 'e fake \<Rightarrow> bool \<Rightarrow> string \<Rightarrow> nat \<Rightarrow> 'e + response" where
  "fake_Lookup fqdn servfail f dnssec name qtype =
     (let n = CanonicalName fqdn name in
      case fake_follow fqdn f maxCNAMEChain n qtype dnssec [] of
        Inl (Some e) \<Rightarrow> Inl e
      | Inl None \<Rightarrow> Inl (servfail \<lparr>q_Name = n, q_Type = qtype, q_DNSSEC = False\<rparr>)
      | Inr (rcode, answer) \<Rightarrow> Inr \<lparr>rp_Name = n, rp_Type = qtype, rp_Rcode = rcode, rp_Answer = answer\<rparr>)"

lemma fake_follow_rcode:
  "fake_follow fqdn f k current qtype dnssec answer = Inr (rcode, ans) \<Longrightarrow>
    rcode \<in> {RcodeSuccess, RcodeNameError}"
  by (induction k arbitrary: current answer) (auto simp: Let_def split: option.splits if_splits rdata.splits)

interpretation fake: resolver fqdn "fake_Lookup fqdn servfail f dnssec"
proof
  fix name qtype r assume "fake_Lookup fqdn servfail f dnssec name qtype = Inr r"
  then show "rp_Name r = CanonicalName fqdn name \<and> rp_Type r = qtype \<and> rp_Rcode r \<in> {RcodeSuccess, RcodeNameError}"
    using fake_follow_rcode [of fqdn f maxCNAMEChain "CanonicalName fqdn name" qtype dnssec "[]"]
    by (auto simp: fake_Lookup_def Let_def split: sum.splits option.splits)
qed (simp add: fake_Lookup_def)

text \<open>
  Asking through the run's cache is asking the resolver: what fill computes for a query is
  the resolver's own answer for the name as the check spelled it, for the client and for the
  fake, and names that differ in case or in the final dot share one cache entry.
\<close>

lemma cache_transparent:
  assumes "dns_names fqdn" and "plain_name name"
  shows "cache_compute no_dnssec (client_Lookup exchange ended fqdn us False) sec (cache_key fqdn False name qtype) =
      client_Lookup exchange ended fqdn us False name qtype \<and>
    cache_compute no_dnssec' (fake_Lookup fqdn servfail f False) sec' (cache_key fqdn False name qtype) =
      fake_Lookup fqdn servfail f False name qtype \<and>
    cache_key fqdn d (to_lower name) qtype = cache_key fqdn d name qtype \<and>
    cache_key fqdn d (CanonicalName fqdn name) qtype = cache_key fqdn d name qtype"
proof -
  have idem: "CanonicalName fqdn (CanonicalName fqdn name) = CanonicalName fqdn name"
    by (rule dns_names.canonical_idem [OF assms])
  show ?thesis
  proof (intro conjI client.cached_same [OF idem] fake.cached_same [OF idem])
    show "cache_key fqdn d (to_lower name) qtype = cache_key fqdn d name qtype"
      by (simp add: cache_key_def CanonicalName_def)
    show "cache_key fqdn d (CanonicalName fqdn name) qtype = cache_key fqdn d name qtype"
      by (simp add: cache_key_def idem)
  qed
qed

lemma cache_transparent_witness:
  "cache_key dot_terminated False ''A.example.'' 15 = cache_key dot_terminated False ''a.example'' 15"
proof -
  have "dns_names dot_terminated" by (rule dot_names.dns_names_axioms)
  moreover have "plain_name ''a.example''" by (simp add: plain_name_def char_of_def bit_0)
  ultimately have "cache_key dot_terminated False (CanonicalName dot_terminated ''a.example'') 15 =
      cache_key dot_terminated False ''a.example'' 15"
    using cache_transparent [where fqdn = dot_terminated and name = "''a.example''" and d = False and qtype = 15] by blast
  moreover have "CanonicalName dot_terminated ''A.example.'' = CanonicalName dot_terminated (CanonicalName dot_terminated ''a.example'')"
    by code_simp
  ultimately show ?thesis by (simp add: cache_key_def)
qed

end
