(* ===== verification/SetaNetx.thy ===== *)
theory SetaNetx
  imports SetaDnsx
begin

text \<open>
  Package internal/netx: resolving a host and dialling its addresses. The dialer is a parameter;
  TLS configurations and the HTTP client are not modelled.
\<close>

datatype 'e addr_error = AddrLookup 'e | ErrNoAddress string

fun lookup_families ::
  "(string \<Rightarrow> nat \<Rightarrow> 'e + response) \<Rightarrow> string \<Rightarrow> nat list \<Rightarrow> addr list \<Rightarrow> 'e option \<Rightarrow> addr list \<times> 'e option" where
  "lookup_families lookup host [] addrs firstErr = (addrs, firstErr)"
| "lookup_families lookup host (t # ts) addrs firstErr =
     (case lookup host t of
        Inl e \<Rightarrow> lookup_families lookup host ts addrs (case firstErr of Some p \<Rightarrow> Some p | None \<Rightarrow> Some e)
      | Inr r \<Rightarrow> lookup_families lookup host ts (addrs @ resp_Addrs r) firstErr)"

definition LookupAddrs :: "(string \<Rightarrow> nat \<Rightarrow> 'e + response) \<Rightarrow> string \<Rightarrow> 'e addr_error + addr list" where
  "LookupAddrs lookup host =
     (case ParseAddr host of
        Some a \<Rightarrow> Inr [a]
      | None \<Rightarrow>
        (case lookup_families lookup host [TypeA, TypeAAAA] [] None of
           (addrs, firstErr) \<Rightarrow>
             if addrs \<noteq> [] then Inr addrs
             else case firstErr of Some e \<Rightarrow> Inl (AddrLookup e) | None \<Rightarrow> Inl (ErrNoAddress host)))"

datatype ('e, 'd) dial_error = BadHostPort string | DialLookup "'e addr_error" | DialFailed 'd

text \<open>\<open>ended a\<close>: whether the context has ended once dialling \<open>a\<close> failed.\<close>

fun dial_each :: "(string \<Rightarrow> 'd + 'c) \<Rightarrow> (string \<Rightarrow> bool) \<Rightarrow> string list \<Rightarrow> 'd option \<Rightarrow> 'd option + 'c" where
  "dial_each dial ended [] lastErr = Inl lastErr"
| "dial_each dial ended (a # as) lastErr =
     (case dial a of
        Inr c \<Rightarrow> Inr c
      | Inl e \<Rightarrow> if ended a then Inl (Some e) else dial_each dial ended as (Some e))"

definition Dial ::
  "(string \<Rightarrow> nat \<Rightarrow> 'e + response) \<Rightarrow> (string \<Rightarrow> 'd + 'c) \<Rightarrow> (string \<Rightarrow> bool) \<Rightarrow> string \<Rightarrow>
   (('e, 'd) dial_error option) + 'c" where
  "Dial lookup dial ended hostport =
     (case split_host_port hostport of
        None \<Rightarrow> Inl (Some (BadHostPort hostport))
      | Some (host, port) \<Rightarrow>
        (case LookupAddrs lookup host of
           Inl e \<Rightarrow> Inl (Some (DialLookup e))
         | Inr addrs \<Rightarrow>
           (case dial_each dial ended (map (\<lambda>a. join_host_port (addr_String a) port) addrs) None of
              Inl e \<Rightarrow> Inl (map_option DialFailed e)
            | Inr c \<Rightarrow> Inr c)))"

definition addrs_of :: "'e + response \<Rightarrow> addr list" where
  "addrs_of r = (case r of Inl _ \<Rightarrow> [] | Inr r \<Rightarrow> resp_Addrs r)"

lemma addrs_of_simps [simp]: "addrs_of (Inl e) = []" "addrs_of (Inr r) = resp_Addrs r"
  by (simp_all add: addrs_of_def)

lemma lookup_two:
  "lookup_families lookup host [t, u] [] None =
    (addrs_of (lookup host t) @ addrs_of (lookup host u),
     case lookup host t of Inl e \<Rightarrow> Some e | Inr _ \<Rightarrow> (case lookup host u of Inl e \<Rightarrow> Some e | Inr _ \<Rightarrow> None))"
  by (simp split: sum.split)

text \<open>
  A host's addresses are its IPv4 then its IPv6 addresses, one family's failure being ignored
  when the other has answers. The error "no address" is reported only when both lookups answered,
  so a host is never taken for absent because a lookup failed; an IP literal stands for itself.
\<close>

lemma LookupAddrs_spec:
  "case LookupAddrs lookup host of
     Inr as \<Rightarrow> as \<noteq> [] \<and> (case ParseAddr host of Some a \<Rightarrow> as = [a]
       | None \<Rightarrow> as = addrs_of (lookup host TypeA) @ addrs_of (lookup host TypeAAAA))
   | Inl (ErrNoAddress h) \<Rightarrow> h = host \<and> \<not> is_err (lookup host TypeA) \<and> \<not> is_err (lookup host TypeAAAA) \<and>
       addrs_of (lookup host TypeA) = [] \<and> addrs_of (lookup host TypeAAAA) = []
   | Inl (AddrLookup e) \<Rightarrow> lookup host TypeA = Inl e \<or> (\<not> is_err (lookup host TypeA) \<and> lookup host TypeAAAA = Inl e)"
  by (auto simp: LookupAddrs_def lookup_two is_err_def split: option.splits sum.splits if_splits)

subsection \<open>Certificates\<close>

text \<open>What the checks read of an X.509 certificate. Times are nanoseconds.\<close>

record cert =
  ct_CommonName :: string
  ct_DNSNames :: "string list"
  ct_Issuer :: string
  ct_NotAfter :: int

definition day :: int where "day = 86400000000000"

text \<open>Whole days, cut off towards zero as a conversion to int does.\<close>

definition days_left :: "int \<Rightarrow> int" where
  "days_left left = (if left < 0 then - ((- left) div day) else left div day)"

end
