(* ===== verification/SetaConfig.thy ===== *)
theory SetaConfig
  imports SetaEngine
begin

text \<open>
  Package internal/config: the configuration (config.go) and its effect on a result (apply.go).
  Durations and times are nanoseconds. Parameters: \<open>std_duration\<close>, the value of
  time.ParseDuration of the standard library (its fractions are floating point), and plugin
  settings, JSON objects of which the code only merges the top-level keys.
\<close>

subsection \<open>The configuration\<close>

record cfg_resolver =
  cr_Servers :: "string list"
  cr_Timeout :: int
  cr_SkipCheck :: bool

record cfg_defaults =
  cd_Checks :: "string list option"
  cd_Active :: bool
  cd_CheckTimeout :: int

record cfg_email =
  cm_DKIMSelectors :: "string list"
  cm_ExpectedMX :: "string list"
  cm_DNSBLs :: "string list"

type_synonym 'j plugin_config = "string \<rightharpoonup> 'j"

record 'j cfg_target =
  ct_Domain :: string
  ct_Checks :: "string list option"
  ct_Active :: "bool option"
  ct_Email :: cfg_email
  ct_Hosts :: "string list"
  ct_URLs :: "string list"
  ct_Plugins :: "(string \<times> 'j plugin_config) list"
  ct_Line :: int

record suppression =
  su_Check :: string
  su_Target :: string
  su_Subject :: string
  su_Reason :: string
  su_Expires :: "int option"
  su_Line :: int
  su_ids :: "string list"

record cfg_state =
  cs_Path :: string
  cs_ResolveAfter :: int
  cs_Retention :: int

record notifier_config =
  nc_Type :: string
  nc_Name :: string
  nc_On :: "string list"
  nc_MinSeverity :: string
  nc_Heartbeat :: int
  nc_BotToken :: string
  nc_ChatID :: string
  nc_Webhook :: string
  nc_URL :: string
  nc_Secret :: string
  nc_Format :: string
  nc_BlockPrivateIPs :: bool
  nc_Host :: string
  nc_Port :: int
  nc_TLS :: string
  nc_Username :: string
  nc_Password :: string
  nc_From :: string
  nc_To :: "string list"
  nc_Line :: int
  nc_Severity :: severity

record 'j config =
  cf_Version :: int
  cf_Resolver :: cfg_resolver
  cf_Defaults :: cfg_defaults
  cf_Targets :: "'j cfg_target list"
  cf_SeverityOverrides :: "(string \<times> severity) list"
  cf_Suppressions :: "suppression list"
  cf_State :: cfg_state
  cf_Notify :: "notifier_config list"
  cf_Schedule :: string
  cf_PluginsDir :: string
  cf_Plugins :: "(string \<times> 'j plugin_config) list"
  cf_Path :: string

definition config_Version :: int where "config_Version = 1"

definition DefaultStatePath :: string where "DefaultStatePath = ''seta-state.db''"

definition DefaultResolveAfter :: int where "DefaultResolveAfter = 2"

definition hour :: int where "hour = 3600000000000"

definition DefaultRetention :: int where "DefaultRetention = 90 * 24 * hour"

definition DefaultSchedule :: string where "DefaultSchedule = ''0 */6 * * *''"

definition TLSStartTLS :: string where "TLSStartTLS = ''starttls''"

definition TLSImplicit :: string where "TLSImplicit = ''tls''"

definition TLSNone :: string where "TLSNone = ''none''"

subsection \<open>Selections and plugin settings\<close>

definition CheckPatterns :: "'j config \<Rightarrow> 'j cfg_target \<Rightarrow> string list option" where
  "CheckPatterns c t = (case ct_Checks t of Some ps \<Rightarrow> Some ps | None \<Rightarrow> cd_Checks (cf_Defaults c))"

definition ActiveFor :: "'j config \<Rightarrow> 'j cfg_target \<Rightarrow> bool" where
  "ActiveFor c t = (case ct_Active t of Some b \<Rightarrow> b | None \<Rightarrow> cd_Active (cf_Defaults c))"

definition or_empty :: "'j plugin_config option \<Rightarrow> 'j plugin_config" where
  "or_empty m = (case m of None \<Rightarrow> Map.empty | Some p \<Rightarrow> p)"

text \<open>The settings each plugin gets for a target, before JSON encoding.\<close>

definition PluginConfig :: "'j config \<Rightarrow> 'j cfg_target \<Rightarrow> string \<rightharpoonup> 'j plugin_config" where
  "PluginConfig c t =
     (let out = map_of (map (\<lambda>(name, global). (name, global ++ or_empty (map_of (ct_Plugins t) name))) (cf_Plugins c))
      in (\<lambda>name. case out name of
            Some m \<Rightarrow> Some m
          | None \<Rightarrow> map_of (ct_Plugins t) name))"

subsection \<open>Durations\<close>

text \<open>Go's int64 arithmetic.\<close>

definition wrap64 :: "int \<Rightarrow> int" where
  "wrap64 x = (x + 2 ^ 63) mod 2 ^ 64 - 2 ^ 63"

definition cut_suffix :: "string \<Rightarrow> string \<Rightarrow> string option" where
  "cut_suffix s suf = (if has_suffix s suf then Some (trim_suffix s suf) else None)"

definition parseDuration :: "(string \<Rightarrow> int option) \<Rightarrow> string \<Rightarrow> int option" where
  "parseDuration std_duration s =
     (if s = ''daily'' then Some (24 * hour)
      else if s = ''weekly'' then Some (7 * 24 * hour)
      else case cut_suffix s ''d'' of
          Some days \<Rightarrow> map_option (\<lambda>n. wrap64 (wrap64 (n * 24) * hour)) (atoi days)
        | None \<Rightarrow> std_duration s)"

datatype duration_error = InvalidDuration string | NegativeDuration string

definition duration_UnmarshalYAML :: "(string \<Rightarrow> int option) \<Rightarrow> bool \<Rightarrow> string \<Rightarrow> duration_error + int" where
  "duration_UnmarshalYAML std_duration scalar s =
     (case parseDuration std_duration s of
        None \<Rightarrow> Inl (InvalidDuration s)
      | Some v \<Rightarrow> if \<not> scalar then Inl (InvalidDuration s)
                  else if v < 0 then Inl (NegativeDuration s) else Inr v)"

lemma wrap64_id: "- (2 ^ 63) \<le> x \<Longrightarrow> x < 2 ^ 63 \<Longrightarrow> wrap64 x = x"
  by (simp add: wrap64_def)

lemma wrap64_mod: "wrap64 x mod 2 ^ 64 = x mod 2 ^ 64"
  unfolding wrap64_def by (simp add: mod_diff_left_eq)

lemma wrap64_range: "- (2 ^ 63) \<le> wrap64 x \<and> wrap64 x < 2 ^ 63"
  using pos_mod_bound [of "2 ^ 64" "x + 2 ^ 63"] pos_mod_sign [of "2 ^ 64" "x + 2 ^ 63"]
  by (simp add: wrap64_def del: pos_mod_bound pos_mod_sign)

lemma parseDuration_nd:
  assumes "0 \<le> n" "n < 2 ^ 63"
  shows "parseDuration std (itoa n @ ''d'') = Some (wrap64 (wrap64 (n * 24) * hour))"
proof -
  have "itoa n = nat_digits (nat n)" using assms(1) by (simp add: itoa_def)
  then have "has_suffix (itoa n @ ''d'') ''d''" "itoa n @ ''d'' \<noteq> ''daily''" "itoa n @ ''d'' \<noteq> ''weekly''"
    by (auto simp: has_suffix_iff append_eq_Cons_conv append_eq_append_conv2)
  then show ?thesis
    using atoi_itoa [OF assms] by (simp add: parseDuration_def cut_suffix_def)
qed

text \<open>
  A number of days is read exactly as long as it fits Go's 64-bit nanoseconds, that is up to
  106751 days; beyond that the product wraps around: "213505d" (584 years) is read as one day and
  25 minutes, which passes every check that follows.
\<close>

lemma parseDuration_days:
  "(0 \<le> n \<and> n \<le> 106751 \<longrightarrow> parseDuration std (itoa n @ ''d'') = Some (n * 24 * hour)) \<and>
   parseDuration std (itoa 213505 @ ''d'') = Some (24 * hour + 1526290448384)"
  by (simp add: parseDuration_nd wrap64_id hour_def wrap64_def)

lemma parseDuration_days_witness:
  "parseDuration (\<lambda>_. None) (itoa 90 @ ''d'') = Some DefaultRetention"
  using parseDuration_days [of 90 "\<lambda>_. None"] by (simp add: DefaultRetention_def)

subsection \<open>Suppressions\<close>

definition suppression_Matches :: "suppression \<Rightarrow> finding \<Rightarrow> bool" where
  "suppression_Matches s f \<longleftrightarrow> f_CheckID f \<in> set (su_ids s) \<and>
     (su_Target s = [] \<or> su_Target s = f_Target f) \<and> (su_Subject s = [] \<or> su_Subject s = f_Subject f)"

definition suppression_Expired :: "suppression \<Rightarrow> int \<Rightarrow> bool" where
  "suppression_Expired s now \<longleftrightarrow> (case su_Expires s of None \<Rightarrow> False | Some t \<Rightarrow> \<not> now < t)"

definition firstMatch :: "suppression list \<Rightarrow> finding \<Rightarrow> suppression option" where
  "firstMatch sups f = find (\<lambda>s. suppression_Matches s f) sups"

text \<open>The loop of Apply over the findings.\<close>

fun apply_findings ::
  "(string \<Rightarrow> severity option) \<Rightarrow> suppression list \<Rightarrow> finding list \<Rightarrow>
   finding list \<times> (finding \<times> string \<times> int option) list" where
  "apply_findings overrides active [] = ([], [])"
| "apply_findings overrides active (f # fs) =
     (let f' = (case overrides (f_CheckID f) of Some sev \<Rightarrow> f\<lparr>f_Severity := sev\<rparr> | None \<Rightarrow> f);
          (kept, sups) = apply_findings overrides active fs
      in case firstMatch active f' of
           Some s \<Rightarrow> (kept, (f', su_Reason s, su_Expires s) # sups)
         | None \<Rightarrow> (f' # kept, sups))"

definition compare_suppressed :: "finding \<times> string \<times> int option \<Rightarrow> finding \<times> string \<times> int option \<Rightarrow> int" where
  "compare_suppressed a b = CompareFindings (fst a) (fst b)"

definition config_Apply :: "'j config \<Rightarrow> 'e result \<Rightarrow> int \<Rightarrow> suppression list \<times> 'e result" where
  "config_Apply c res now =
     (let expired = filter (\<lambda>s. suppression_Expired s now) (cf_Suppressions c);
          active = filter (\<lambda>s. \<not> suppression_Expired s now) (cf_Suppressions c);
          (kept, sups) = apply_findings (map_of (cf_SeverityOverrides c)) active (r_Findings res)
      in (expired,
          res\<lparr>r_Findings := sort_func CompareFindings kept,
              r_Suppressed := sort_func compare_suppressed (r_Suppressed res @ sups)\<rparr>))"

text \<open>The same, finding by finding.\<close>

definition overridden :: "'j config \<Rightarrow> finding \<Rightarrow> finding" where
  "overridden c f = (case map_of (cf_SeverityOverrides c) (f_CheckID f) of
      Some sev \<Rightarrow> f\<lparr>f_Severity := sev\<rparr> | None \<Rightarrow> f)"

definition suppresses :: "'j config \<Rightarrow> int \<Rightarrow> finding \<Rightarrow> suppression option" where
  "suppresses c now f = find (\<lambda>s. \<not> suppression_Expired s now \<and> suppression_Matches s f) (cf_Suppressions c)"

lemma find_filter: "find P (filter Q xs) = find (\<lambda>x. Q x \<and> P x) xs"
  by (induction xs) auto

lemma apply_findings_spec:
  "apply_findings (map_of (cf_SeverityOverrides c)) (filter (\<lambda>s. \<not> suppression_Expired s now) (cf_Suppressions c)) fs =
    (filter (\<lambda>f. suppresses c now f = None) (map (overridden c) fs),
     map (\<lambda>f. case suppresses c now f of Some s \<Rightarrow> (f, su_Reason s, su_Expires s) | None \<Rightarrow> (f, [], None))
       (filter (\<lambda>f. suppresses c now f \<noteq> None) (map (overridden c) fs)))"
  by (induction fs)
    (auto simp: Let_def firstMatch_def find_filter suppresses_def overridden_def split: option.splits)

lemma overridden_id [simp]: "f_CheckID (overridden c f) = f_CheckID f" "f_Target (overridden c f) = f_Target f"
    "f_Subject (overridden c f) = f_Subject f"
  by (simp_all add: overridden_def split: option.splits)

lemma suppresses_overridden [simp]: "suppresses c now (overridden c f) = suppresses c now f"
  by (simp add: suppresses_def suppression_Matches_def)

text \<open>
  C10 Applying the configuration changes severities and moves findings, and nothing else: every
  finding of the run is, with its overridden severity, either kept or suppressed; it is suppressed
  exactly when some suppression that has not expired matches it, with that suppression's reason;
  the kept findings are sorted; a suppression is returned as expired from its expiry on, and
  then hides nothing.
\<close>

theorem config_Apply_spec:
  "let (expired, res') = config_Apply c res now in
    mset (r_Findings res') = {#overridden c f. f \<in># filter_mset (\<lambda>f. suppresses c now f = None) (mset (r_Findings res))#} \<and>
    image_mset fst (mset (r_Suppressed res')) = image_mset fst (mset (r_Suppressed res)) +
      {#overridden c f. f \<in># filter_mset (\<lambda>f. suppresses c now f \<noteq> None) (mset (r_Findings res))#} \<and>
    sorted_func CompareFindings (r_Findings res') \<and>
    (\<forall>f reason expires. (f, reason, expires) \<in> set (r_Suppressed res') - set (r_Suppressed res) \<longrightarrow>
      (\<exists>s \<in> set (cf_Suppressions c). s \<notin> set expired \<and> suppression_Matches s f \<and>
        reason = su_Reason s \<and> expires = su_Expires s)) \<and>
    set expired = {s \<in> set (cf_Suppressions c). \<exists>t. su_Expires s = Some t \<and> t \<le> now}"
proof -
  define fs where "fs = map (overridden c) (r_Findings res)"
  define sups where "sups = map (\<lambda>f. case suppresses c now f of Some s \<Rightarrow> (f, su_Reason s, su_Expires s) | None \<Rightarrow> (f, [], None))
       (filter (\<lambda>f. suppresses c now f \<noteq> None) fs)"
  have A: "config_Apply c res now =
      (filter (\<lambda>s. suppression_Expired s now) (cf_Suppressions c),
       res\<lparr>r_Findings := sort_func CompareFindings (filter (\<lambda>f. suppresses c now f = None) fs),
           r_Suppressed := sort_func compare_suppressed (r_Suppressed res @ sups)\<rparr>)"
    by (simp add: config_Apply_def apply_findings_spec fs_def sups_def)
  have fst_sups: "map fst sups = filter (\<lambda>f. suppresses c now f \<noteq> None) fs"
    unfolding sups_def by (simp add: map_idI split: option.splits)
  have "filter (\<lambda>f. suppresses c now f = None) fs = map (overridden c) (filter (\<lambda>f. suppresses c now f = None) (r_Findings res))"
    "filter (\<lambda>f. suppresses c now f \<noteq> None) fs = map (overridden c) (filter (\<lambda>f. suppresses c now f \<noteq> None) (r_Findings res))"
    by (simp_all add: fs_def filter_map o_def)
  then have 1: "mset (filter (\<lambda>f. suppresses c now f = None) fs) =
      {#overridden c f. f \<in># filter_mset (\<lambda>f. suppresses c now f = None) (mset (r_Findings res))#}"
    and 2: "image_mset fst (mset sups) =
      {#overridden c f. f \<in># filter_mset (\<lambda>f. suppresses c now f \<noteq> None) (mset (r_Findings res))#}"
    unfolding mset_map [symmetric] fst_sups by simp_all
  have 3: "\<exists>s \<in> set (cf_Suppressions c). \<not> suppression_Expired s now \<and> suppression_Matches s f \<and>
        reason = su_Reason s \<and> expires = su_Expires s" if "(f, reason, expires) \<in> set sups" for f reason expires
  proof -
    from that obtain s where s: "suppresses c now f = Some s" "reason = su_Reason s" "expires = su_Expires s"
      by (auto simp: sups_def)
    from s(1) have "s \<in> set (cf_Suppressions c) \<and> \<not> suppression_Expired s now \<and> suppression_Matches s f"
      unfolding suppresses_def by (auto simp: find_Some_iff)
    then show ?thesis using s by blast
  qed
  have 4: "sorted_func CompareFindings (sort_func CompareFindings (filter (\<lambda>f. suppresses c now f = None) fs))"
    by (rule finding_sort.ordered)
  show ?thesis
    unfolding A using 1 2 3 4
    by (auto simp: suppression_Expired_def split: option.splits) fastforce+
qed

definition bare_target :: "string \<Rightarrow> unit cfg_target" where
  "bare_target d = \<lparr>ct_Domain = d, ct_Checks = None, ct_Active = None,
     ct_Email = \<lparr>cm_DKIMSelectors = [], cm_ExpectedMX = [], cm_DNSBLs = []\<rparr>, ct_Hosts = [], ct_URLs = [],
     ct_Plugins = [], ct_Line = 0\<rparr>"

definition bare_config :: "unit cfg_target list \<Rightarrow> (string \<times> severity) list \<Rightarrow> unit config" where
  "bare_config ts ov = \<lparr>cf_Version = 1, cf_Resolver = \<lparr>cr_Servers = [], cr_Timeout = 0, cr_SkipCheck = False\<rparr>,
     cf_Defaults = \<lparr>cd_Checks = None, cd_Active = False, cd_CheckTimeout = 0\<rparr>, cf_Targets = ts,
     cf_SeverityOverrides = ov, cf_Suppressions = [], cf_State = \<lparr>cs_Path = [], cs_ResolveAfter = 0, cs_Retention = 0\<rparr>,
     cf_Notify = [], cf_Schedule = [], cf_PluginsDir = [], cf_Plugins = [], cf_Path = []\<rparr>"

theorem config_Apply_spec_witness:
  "let c = (bare_config [] [] :: unit config)\<lparr>cf_Suppressions :=
         [\<lparr>su_Check = ''a.b.c'', su_Target = [], su_Subject = [], su_Reason = ''accepted'', su_Expires = Some 10,
           su_Line = 1, su_ids = [''a.b.c'']\<rparr>]\<rparr>;
       res = (\<lparr>r_Started = 0, r_Duration = 0, r_Targets = [], r_Executions = 1, r_Ran = [],
         r_Findings = [finding0\<lparr>f_CheckID := ''a.b.c''\<rparr>], r_Errors = [], r_Checks = [], r_Suppressed = [],
         r_Baselined = []\<rparr> :: unit result)
   in config_Apply c res 5 = ([], res\<lparr>r_Findings := [], r_Suppressed := r_Suppressed (snd (config_Apply c res 5))\<rparr>)"
proof -
  define s where "s = \<lparr>su_Check = ''a.b.c'', su_Target = [], su_Subject = [], su_Reason = ''accepted'', su_Expires = Some 10,
           su_Line = 1, su_ids = [''a.b.c'']\<rparr>"
  define c where "c = (bare_config [] [] :: unit config)\<lparr>cf_Suppressions := [s]\<rparr>"
  define res where "res = (\<lparr>r_Started = 0, r_Duration = 0, r_Targets = [], r_Executions = 1, r_Ran = [],
         r_Findings = [finding0\<lparr>f_CheckID := ''a.b.c''\<rparr>], r_Errors = [], r_Checks = [], r_Suppressed = [],
         r_Baselined = []\<rparr> :: unit result)"
  obtain e res' where a: "config_Apply c res 5 = (e, res')" by fastforce
  have "suppresses c 5 (finding0\<lparr>f_CheckID := ''a.b.c''\<rparr>) \<noteq> None"
    by (simp add: suppresses_def c_def s_def suppression_Expired_def suppression_Matches_def)
  moreover have "r_Findings res = [finding0\<lparr>f_CheckID := ''a.b.c''\<rparr>]" "cf_Suppressions c = [s]" "su_Expires s = Some 10"
    by (simp_all add: res_def c_def s_def)
  ultimately have "r_Findings res' = []" "set e = {}"
    using config_Apply_spec [of c res 5] unfolding a by auto
  moreover have "res' = res\<lparr>r_Findings := r_Findings res', r_Suppressed := r_Suppressed res'\<rparr>"
    using a by (auto simp: config_Apply_def Let_def split: prod.splits)
  ultimately have "config_Apply c res 5 = ([], res\<lparr>r_Findings := [], r_Suppressed := r_Suppressed (snd (config_Apply c res 5))\<rparr>)"
    using a by simp
  then show ?thesis unfolding Let_def c_def s_def res_def by simp
qed

end
