(* ===== verification/SetaConfigLoad.thy ===== *)
theory SetaConfigLoad
  imports SetaConfig SetaDnsx SetaState
begin

text \<open>
  Package internal/config, load.go: validating a configuration file. YAML nodes are a datatype
  of what the code reads of them; the decoder of yaml.v3 is a parameter. A nil pointer that the
  code dereferences is an explicit panic (None). Errors are collected with their position.
  Standard-library and third-party validators (URLs, mail addresses, cron) are parameters of the
  environment record.
\<close>

subsection \<open>YAML nodes\<close>

record position =
  p_Line :: int
  p_Column :: int

datatype ynode =
    YScalar position string string nat
  | YSeq position "ynode list"
  | YMap position "(ynode \<times> ynode) list"
  | YAlias position string

fun y_pos :: "ynode \<Rightarrow> position" where
  "y_pos (YScalar p _ _ _) = p"
| "y_pos (YSeq p _) = p"
| "y_pos (YMap p _) = p"
| "y_pos (YAlias p _) = p"

text \<open>\<open>Node.Value\<close>: empty for anything but a scalar.\<close>

definition y_Value :: "ynode \<Rightarrow> string" where
  "y_Value n = (case n of YScalar _ v _ _ \<Rightarrow> v | YAlias _ a \<Rightarrow> a | _ \<Rightarrow> [])"

definition y_value :: "ynode option \<Rightarrow> string \<Rightarrow> ynode option" where
  "y_value n key =
     (case n of
        Some (YMap _ kvs) \<Rightarrow> map_option snd (find (\<lambda>(k, v). y_Value k = key) kvs)
      | _ \<Rightarrow> None)"

definition y_item :: "ynode option \<Rightarrow> nat \<Rightarrow> ynode option" where
  "y_item n i =
     (case n of
        Some (YSeq _ xs) \<Rightarrow> if i < length xs then Some (xs ! i) else n
      | _ \<Rightarrow> n)"

definition nodeOr :: "ynode option \<Rightarrow> ynode option \<Rightarrow> ynode option" where
  "nodeOr n fallback = (case n of None \<Rightarrow> fallback | Some _ \<Rightarrow> n)"

subsection \<open>Errors\<close>

datatype var_msg = UnterminatedVar string | InvalidVarName string | VarNotSet string

datatype target_msg =
    MissingDomain
  | BadDomain domain_error
  | DuplicateTarget string int
  | BadHost host_error
  | BadURL string
  | BadURLHost string host_error
  | BadSelector string
  | BadExpectedMX domain_error
  | BadDNSBL domain_error

datatype suppression_msg =
    MissingCheck
  | ExclusionCheck string
  | BadCheck reg_error
  | BadTarget domain_error
  | UnknownTarget string
  | NeedsReason

datatype notifier_msg =
    UnknownType string
  | DuplicateName string int
  | DoesNotApply string string
  | Needs string string
  | UnknownOn string
  | BadMinSeverity string
  | BadHeartbeat
  | BadToken
  | BadDiscord
  | BadSlack
  | BadWebhookURL
  | UnknownFormat string

datatype email_msg =
    BadMailHost
  | UnknownTLS string
  | BadPort
  | UserWithoutPassword
  | PasswordInClear
  | BadFrom string
  | BadTo string

datatype setting_msg =
    NotSupported string
  | UnknownSetting string string
  | ConfigEmpty
  | RootNotMapping
  | MissingVersion
  | UnsupportedConfigVersion int
  | BadResolverServer server_error
  | NoTargets
  | BadPattern reg_error
  | SelectsNothing "string list"
  | NoSuchPlugin string
  | UnknownCheck string
  | OverriddenTwice string
  | BadResolveAfter
  | BadRetention
  | BadSchedule string
  | YamlMessage string

datatype cfg_msg =
    VarMsg var_msg
  | SettingMsg setting_msg
  | TargetMsg target_msg
  | SuppressionMsg suppression_msg
  | NotifierMsg notifier_msg
  | EmailMsg email_msg

record cfg_error =
  ce_Line :: int
  ce_Column :: int
  ce_Msg :: cfg_msg

definition errorf :: "ynode option \<Rightarrow> cfg_msg \<Rightarrow> cfg_error list" where
  "errorf n msg =
     [case n of
        None \<Rightarrow> \<lparr>ce_Line = 0, ce_Column = 0, ce_Msg = msg\<rparr>
      | Some m \<Rightarrow> \<lparr>ce_Line = p_Line (y_pos m), ce_Column = p_Column (y_pos m), ce_Msg = msg\<rparr>]"

text \<open>\<open>Errors.Error\<close>: one line per problem, with the position where it is known.\<close>

definition cfg_error_text :: "(cfg_msg \<Rightarrow> string) \<Rightarrow> string \<Rightarrow> cfg_error list \<Rightarrow> string" where
  "cfg_error_text text path es =
     join [char_of (10 :: nat)] (map (\<lambda>e.
       path @ (if 0 < ce_Line e then '':'' @ itoa (ce_Line e) @
                 (if 0 < ce_Column e then '':'' @ itoa (ce_Column e) else []) else []) @
       '': '' @ text (ce_Msg e)) es)"

subsection \<open>Environment variables\<close>

definition env_name :: "string \<Rightarrow> bool" where
  "env_name s =
     (case s of [] \<Rightarrow> False
      | c # cs \<Rightarrow> (is_lower c \<or> is_upper c \<or> c = CHR ''_'') \<and>
                  list_all (\<lambda>d. is_lower d \<or> is_upper d \<or> is_digit d \<or> d = CHR ''_'') cs)"

lemma index_sub_bound: "index_sub s p = Some i \<Longrightarrow> i + length p \<le> length s"
proof (induction s arbitrary: i)
  case (Cons c s)
  show ?case
  proof (cases "has_prefix (c # s) p")
    case True
    then obtain t where "c # s = p @ t" by (auto simp: has_prefix_iff)
    then have "length p \<le> length (c # s)" by (metis le_add1 length_append)
    then show ?thesis using Cons.prems True by simp
  next
    case False
    then show ?thesis using Cons by (auto split: option.splits)
  qed
qed (auto split: if_splits)

function expand :: "(string \<Rightarrow> string option) \<Rightarrow> string \<Rightarrow> var_msg + string" where
  "expand env s =
     (case index_sub s ''${'' of
        None \<Rightarrow> Inr s
      | Some i \<Rightarrow>
          if 0 < i \<and> s ! (i - 1) = CHR ''$'' then
            (case expand env (drop (i + 2) s) of
               Inl e \<Rightarrow> Inl e
             | Inr r \<Rightarrow> Inr (take (i - 1) s @ ''${'' @ r))
          else
            (case index_byte CHR ''}'' (drop i s) of
               None \<Rightarrow> Inl (UnterminatedVar (drop i s))
             | Some e \<Rightarrow>
                 let name = take (e - 2) (drop (i + 2) s) in
                 if \<not> env_name name then Inl (InvalidVarName name)
                 else case env name of
                     None \<Rightarrow> Inl (VarNotSet name)
                   | Some v \<Rightarrow>
                       (case expand env (drop (i + e + 1) s) of
                          Inl err \<Rightarrow> Inl err
                        | Inr r \<Rightarrow> Inr (take i s @ v @ r))))"
  by pat_completeness auto

termination
  by (relation "measure (\<lambda>(env, s). length s)") (auto dest!: index_sub_bound)

declare expand.simps [simp del]

text \<open>How to write a text so that it stands for itself: "${" becomes "$${".\<close>

fun escape :: "string \<Rightarrow> string" where
  "escape [] = []"
| "escape (c # s) = (if has_prefix (c # s) ''${'' then CHR ''$'' # c # escape s else c # escape s)"

lemma index_sub_Some:
  "index_sub s p = Some i \<Longrightarrow> s = take i s @ p @ drop (i + length p) s"
proof (induction s arbitrary: i)
  case (Cons c s)
  show ?case
  proof (cases "has_prefix (c # s) p")
    case True
    then obtain t where t: "c # s = p @ t" by (auto simp: has_prefix_iff)
    have "i = 0" using Cons.prems True by simp
    then show ?thesis by (simp only: t) simp
  next
    case False
    then show ?thesis using Cons by (auto split: option.splits)
  qed
qed (auto split: if_splits)

lemma escape_none: "index_sub s ''${'' = None \<Longrightarrow> escape s = s"
  by (induction s) (auto split: if_splits)

lemma escape_some:
  "index_sub (a @ ''${'' @ b) ''${'' = Some (length a) \<Longrightarrow>
    escape (a @ ''${'' @ b) = a @ ''$${'' @ escape b \<and>
    index_sub (a @ ''$${'' @ r) ''${'' = Some (Suc (length a))"
proof (induction a)
  case Nil
  then show ?case by (simp add: has_prefix_def)
next
  case (Cons c a)
  have np: "\<not> has_prefix (c # a @ ''${'' @ b) ''${''"
    using Cons.prems by (auto split: if_splits)
  then have "index_sub (a @ ''${'' @ b) ''${'' = Some (length a)"
    using Cons.prems by (auto split: if_splits option.splits)
  note IH = Cons.IH [OF this]
  have "\<not> has_prefix (c # a @ ''$${'' @ r) ''${''"
    using np by (cases a) (auto simp: has_prefix_def)
  then show ?case using IH np by simp
qed

text \<open>
  Every text can be written in a configuration: escaping it and expanding the result gives
  the text back, whatever the environment holds.
\<close>

lemma expand_escape: "expand env (escape s) = Inr s"
proof (induction s rule: length_induct)
  case (1 s)
  show ?case
  proof (cases "index_sub s ''${''")
    case None
    then show ?thesis by (simp add: escape_none expand.simps)
  next
    case (Some i)
    define a where "a = take i s"
    define b where "b = drop (i + 2) s"
    have "s = a @ ''${'' @ b"
      using index_sub_Some [OF Some] by (simp add: a_def b_def)
    moreover have "length a = i"
      using index_sub_bound [OF Some] by (simp add: a_def)
    ultimately have s: "s = a @ ''${'' @ b" "index_sub (a @ ''${'' @ b) ''${'' = Some (length a)"
      using Some by simp_all
    have rec: "expand env (escape b) = Inr b" using 1 s(1) by simp
    note E = escape_some [OF s(2), of "escape b"]
    have "index_sub (escape s) ''${'' = Some (Suc (length a))"
      "escape s = a @ ''$${'' @ escape b" using E s(1) by simp_all
    then show ?thesis
      using rec s(1) by (subst expand.simps) (simp add: nth_append)
  qed
qed

subsection \<open>Unknown settings\<close>

text \<open>The row-by-row edit distance: \<open>prev\<close> is the row of the shorter prefix of \<open>a\<close>.\<close>

fun edit_row :: "char \<Rightarrow> string \<Rightarrow> nat list \<Rightarrow> nat \<Rightarrow> nat list" where
  "edit_row c (d # b) (diag # up # prev) left =
     (let v = min (min (up + 1) (left + 1)) (diag + (if c = d then 0 else 1)) in
      v # edit_row c b (up # prev) v)"
| "edit_row c _ _ left = []"

fun edit_rows :: "string \<Rightarrow> string \<Rightarrow> nat \<Rightarrow> nat list \<Rightarrow> nat list" where
  "edit_rows [] b i prev = prev"
| "edit_rows (c # a) b i prev = edit_rows a b (i + 1) (i # edit_row c b prev i)"

definition editDistance :: "string \<Rightarrow> string \<Rightarrow> nat" where
  "editDistance a b = last (edit_rows a b 1 [0..<length b + 1])"

text \<open>The distance as a recursion over the last characters (reversed prefixes).\<close>

fun lev :: "string \<Rightarrow> string \<Rightarrow> nat" where
  "lev [] b = length b"
| "lev (c # a) [] = length (c # a)"
| "lev (c # a) (d # b) =
     min (min (lev a (d # b) + 1) (lev (c # a) b + 1)) (lev a b + (if c = d then 0 else 1))"

definition lev_row :: "string \<Rightarrow> string \<Rightarrow> nat list" where
  "lev_row ra b = map (\<lambda>j. lev ra (rev (take j b))) [0..<length b + 1]"

text \<open>The rest of a row, from column \<open>j\<close> on.\<close>

lemma edit_row_lev:
  assumes "j < length b"
  shows "edit_row c (drop j b) (map (\<lambda>k. lev ra (rev (take k b))) [j..<length b + 1]) (lev (c # ra) (rev (take j b))) =
    map (\<lambda>k. lev (c # ra) (rev (take k b))) [j + 1..<length b + 1]"
  using assms
proof (induction "length b - j" arbitrary: j)
  case (Suc n)
  have d: "drop j b = b ! j # drop (j + 1) b" using Suc.prems by (simp add: Cons_nth_drop_Suc)
  have up: "[j..<length b + 1] = j # (j + 1) # [j + 1 + 1..<length b + 1]"
    using Suc.prems by (simp add: upt_conv_Cons)
  have tk: "rev (take (j + 1) b) = b ! j # rev (take j b)"
    using Suc.prems by (simp add: take_Suc_conv_app_nth)
  have v: "min (min (lev ra (rev (take (j + 1) b)) + 1) (lev (c # ra) (rev (take j b)) + 1))
      (lev ra (rev (take j b)) + (if c = b ! j then 0 else 1)) = lev (c # ra) (rev (take (j + 1) b))"
    by (simp only: tk lev.simps)
  have tail: "[j + 1..<length b + 1] = (j + 1) # [j + 1 + 1..<length b + 1]"
    using Suc.prems by (simp add: upt_conv_Cons)
  have m: "f (j + 1) # map f [j + 1 + 1..<length b + 1] = map f [j + 1..<length b + 1]" for f :: "nat \<Rightarrow> nat"
    by (simp only: tail list.map)
  show ?case
  proof (cases "j + 1 < length b")
    case True
    have "n = length b - (j + 1)" using Suc.hyps(2) by simp
    note IH = Suc.hyps(1) [OF this True]
    show ?thesis
      unfolding d up list.map edit_row.simps Let_def v
      unfolding m [of "\<lambda>k. lev ra (rev (take k b))"] IH by (rule m)
  next
    case False
    then have "j + 1 = length b" using Suc.prems by simp
    then show ?thesis
      unfolding d up list.map edit_row.simps Let_def v by simp
  qed
qed simp

lemma lev_Nil2 [simp]: "lev a [] = length a"
  by (cases a) simp_all

lemma edit_row_full:
  "length ra + 1 = i \<Longrightarrow> i # edit_row c b (lev_row ra b) i = lev_row (c # ra) b"
proof -
  assume i: "length ra + 1 = i"
  have split: "[0..<length b + 1] = 0 # [0 + 1..<length b + 1]"
    using upt_conv_Cons [of 0 "length b + 1"] by (simp del: upt_Suc)
  have "edit_row c b (lev_row ra b) i = map (\<lambda>k. lev (c # ra) (rev (take k b))) [0 + 1..<length b + 1]"
  proof (cases b)
    case Nil
    then show ?thesis by simp
  next
    case (Cons d b')
    then have "0 < length b" by simp
    from edit_row_lev [OF this, of c ra] i show ?thesis by (simp add: lev_row_def)
  qed
  moreover have "lev_row (c # ra) b = i # map (\<lambda>k. lev (c # ra) (rev (take k b))) [0 + 1..<length b + 1]"
    unfolding lev_row_def split list.map using i by simp
  ultimately show ?thesis by simp
qed

lemma edit_rows_lev:
  "edit_rows a b (length ra + 1) (lev_row ra b) = lev_row (rev a @ ra) b"
proof (induction a arbitrary: ra)
  case (Cons c a)
  then show ?case using edit_row_full [OF refl, of ra c b] Cons.IH [of "c # ra"] by simp
qed simp

text \<open>
  The two-row loop behind "did you mean" computes the Levenshtein distance: the least number
  of insertions, deletions and substitutions, as its recursive definition gives it.
\<close>

lemma editDistance_lev: "editDistance a b = lev (rev a) (rev b)"
proof -
  have "[0..<length b + 1] = lev_row [] b"
    unfolding lev_row_def by (rule map_idI [symmetric]) (auto simp: min_def)
  then have "editDistance a b = last (lev_row (rev a) b)"
    using edit_rows_lev [of a b "[]"] by (simp add: editDistance_def)
  then show ?thesis by (simp add: lev_row_def)
qed

text \<open>The best name so far and its distance, over the names in the map's iteration order.\<close>

definition suggest_step :: "string \<Rightarrow> string \<times> nat \<Rightarrow> string \<Rightarrow> string \<times> nat" where
  "suggest_step key st name =
     (case st of (best, bestDist) \<Rightarrow>
      let d = editDistance key name in
      if d < bestDist \<or> (d = bestDist \<and> str_compare name best < 0) then (name, d) else (best, bestDist))"

definition suggest :: "string \<Rightarrow> string list \<Rightarrow> string" where
  "suggest key names = fst (foldl (suggest_step key) ([], 3) names)"

text \<open>
  The Go types the keys are checked against: a structure with its name and yaml fields, a slice,
  or anything else (scalars, maps, and the types with an UnmarshalYAML of their own).
\<close>

datatype ytype = YTStruct string "(string \<times> ytype) list" | YTSlice ytype | YTLeaf

definition leaves :: "string list \<Rightarrow> (string \<times> ytype) list" where
  "leaves ks = map (\<lambda>k. (k, YTLeaf)) ks"

definition strings :: "string list \<Rightarrow> (string \<times> ytype) list" where
  "strings ks = map (\<lambda>k. (k, YTSlice YTLeaf)) ks"

definition config_type :: ytype where
  "config_type = YTStruct ''Config''
     ([(''version'', YTLeaf),
       (''resolver'', YTStruct ''Resolver'' (strings [''servers''] @ leaves [''timeout'', ''skip_check''])),
       (''defaults'', YTStruct ''Defaults'' (strings [''checks''] @ leaves [''active'', ''check_timeout''])),
       (''targets'', YTSlice (YTStruct ''Target''
          (leaves [''domain'', ''active'', ''plugins''] @ strings [''checks'', ''hosts'', ''urls''] @
           [(''email'', YTStruct ''Email'' (strings [''dkim_selectors'', ''expected_mx'', ''dnsbls'']))]))),
       (''severity_overrides'', YTLeaf),
       (''suppressions'', YTSlice (YTStruct ''Suppression''
          (leaves [''check'', ''target'', ''subject'', ''reason'', ''expires'']))),
       (''state'', YTStruct ''State'' (leaves [''path'', ''resolve_after'', ''retention''])),
       (''notify'', YTSlice (YTStruct ''Notifier''
          (leaves [''type'', ''name'', ''min_severity'', ''heartbeat'', ''bot_token'', ''chat_id'', ''webhook'',
             ''url'', ''secret'', ''format'', ''block_private_ips'', ''host'', ''port'', ''tls'', ''username'',
             ''password'', ''from''] @ strings [''on'', ''to''])))] @
      leaves [''schedule'', ''plugins_dir'', ''plugins''])"

definition notYet :: "string \<Rightarrow> bool" where "notYet k \<longleftrightarrow> k = ''include''"

fun checkFields :: "ynode \<Rightarrow> ytype \<Rightarrow> cfg_error list"
and check_items :: "ynode list \<Rightarrow> ytype \<Rightarrow> cfg_error list"
and check_entries :: "(ynode \<times> ynode) list \<Rightarrow> string \<Rightarrow> (string \<times> ytype) list \<Rightarrow> cfg_error list" where
  "checkFields (YSeq p xs) (YTSlice t) = check_items xs t"
| "checkFields (YMap p kvs) (YTStruct name fs) = check_entries kvs name fs"
| "checkFields _ _ = []"
| "check_items [] t = []"
| "check_items (x # xs) t = checkFields x t @ check_items xs t"
| "check_entries [] name fs = []"
| "check_entries ((k, v) # kvs) name fs =
     (case map_of fs (y_Value k) of
        Some t \<Rightarrow> checkFields v t
      | None \<Rightarrow>
          if y_Value k = ''<<'' then []
          else if name = ''Config'' \<and> notYet (y_Value k) then errorf (Some k) (SettingMsg (NotSupported (y_Value k)))
          else errorf (Some k) (SettingMsg (UnknownSetting (y_Value k) (suggest (y_Value k) (map fst fs))))) @
     check_entries kvs name fs"

subsection \<open>Interpolation\<close>

fun interpolate :: "(string \<Rightarrow> string option) \<Rightarrow> ynode \<Rightarrow> cfg_error list \<times> ynode"
and interpolate_items :: "(string \<Rightarrow> string option) \<Rightarrow> ynode list \<Rightarrow> cfg_error list \<times> ynode list"
and interpolate_entries ::
  "(string \<Rightarrow> string option) \<Rightarrow> (ynode \<times> ynode) list \<Rightarrow> cfg_error list \<times> (ynode \<times> ynode) list" where
  "interpolate env (YSeq p xs) = (case interpolate_items env xs of (es, ys) \<Rightarrow> (es, YSeq p ys))"
| "interpolate env (YMap p kvs) = (case interpolate_entries env kvs of (es, kvs') \<Rightarrow> (es, YMap p kvs'))"
| "interpolate env (YScalar p v tag style) =
     (if \<not> contains_sub v ''${'' then ([], YScalar p v tag style)
      else case expand env v of
          Inl m \<Rightarrow> (errorf (Some (YScalar p v tag style)) (VarMsg m), YScalar p v tag style)
        | Inr v' \<Rightarrow> ([], YScalar p v' (if style = 0 then [] else tag) style))"
| "interpolate env (YAlias p a) = ([], YAlias p a)"
| "interpolate_items env [] = ([], [])"
| "interpolate_items env (x # xs) =
     (case interpolate env x of (es, y) \<Rightarrow> case interpolate_items env xs of (fs, ys) \<Rightarrow> (es @ fs, y # ys))"
| "interpolate_entries env [] = ([], [])"
| "interpolate_entries env ((k, v) # kvs) =
     (case interpolate env v of (es, w) \<Rightarrow> case interpolate_entries env kvs of (fs, ws) \<Rightarrow> (es @ fs, (k, w) # ws))"

subsection \<open>The parts of validate\<close>

text \<open>The environment of the parser: options, and the validators that are not code of the program.\<close>

record 'r parser =
  pr_lookupEnv :: "string \<Rightarrow> string option"
  pr_reg :: "'r registry"
  pr_plugins :: "string list"
  pr_idna :: "string \<Rightarrow> string option"
  pr_url :: "string \<Rightarrow> url option"
  pr_mail :: "string \<Rightarrow> bool"
  pr_cron :: "string \<Rightarrow> bool"

definition validResolver :: "'r parser \<Rightarrow> string \<Rightarrow> server_error option" where
  "validResolver p spec =
     (if spec = ''system'' \<or> Presets spec \<noteq> None then None
      else case ParseServer (pr_url p) spec of Inl e \<Rightarrow> Some e | Inr _ \<Rightarrow> None)"

definition validate_patterns :: "'r parser \<Rightarrow> ynode option \<Rightarrow> ynode option \<Rightarrow> string list option \<Rightarrow> cfg_error list" where
  "validate_patterns p n parent patterns =
     (case patterns of
        None \<Rightarrow> []
      | Some ps \<Rightarrow>
        let errs = concat (map (\<lambda>(i, pat). case Select (pr_reg p) [pat] of
              Inl e \<Rightarrow> errorf (y_item n i) (SettingMsg (BadPattern e)) | Inr _ \<Rightarrow> []) (enumerate 0 ps))
        in if errs \<noteq> [] then errs
           else case Select (pr_reg p) ps of
               Inl e \<Rightarrow> errorf (nodeOr n parent) (SettingMsg (BadPattern e))
             | Inr sel \<Rightarrow> if sel = [] then errorf (nodeOr n parent) (SettingMsg (SelectsNothing ps)) else [])"

definition validate_plugins :: "'r parser \<Rightarrow> ynode option \<Rightarrow> cfg_error list" where
  "validate_plugins p n =
     (case n of
        Some (YMap _ kvs) \<Rightarrow> concat (map (\<lambda>(k, v).
          if y_Value k \<in> set (pr_plugins p) then [] else errorf (Some k) (SettingMsg (NoSuchPlugin (y_Value k)))) kvs)
      | _ \<Rightarrow> [])"

text \<open>A loop over a list that replaces the valid entries and reports the others.\<close>

definition validate_each ::
  "ynode option \<Rightarrow> (string \<Rightarrow> target_msg + string) \<Rightarrow> string list \<Rightarrow> cfg_error list \<times> string list" where
  "validate_each n f xs =
     (concat (map (\<lambda>(i, x). case f x of Inl m \<Rightarrow> errorf (y_item n i) (TargetMsg m) | Inr _ \<Rightarrow> []) (enumerate 0 xs)),
      map (\<lambda>x. case f x of Inl _ \<Rightarrow> x | Inr y \<Rightarrow> y) xs)"

definition check_host :: "'r parser \<Rightarrow> string \<Rightarrow> target_msg + string" where
  "check_host p h = (case ParseHost (pr_idna p) h of Inl e \<Rightarrow> Inl (BadHost e) | Inr host \<Rightarrow> Inr (host_String host))"

definition check_url :: "'r parser \<Rightarrow> string \<Rightarrow> target_msg + string" where
  "check_url p raw =
     (case pr_url p raw of
        None \<Rightarrow> Inl (BadURL raw)
      | Some u \<Rightarrow>
          if (u_Scheme u \<noteq> ''https'' \<and> u_Scheme u \<noteq> ''http'') \<or> u_Host u = [] \<or> u_User u then Inl (BadURL raw)
          else case ParseHost (pr_idna p) (u_Host u) of Inl e \<Rightarrow> Inl (BadURLHost raw e) | Inr _ \<Rightarrow> Inr raw)"

definition check_selector :: "'r parser \<Rightarrow> string \<Rightarrow> target_msg + string" where
  "check_selector p s =
     (if is_err (ParseDomain (pr_idna p) (s @ ''._domainkey.example'')) \<or> s = [] then Inl (BadSelector s) else Inr s)"

definition check_mx :: "'r parser \<Rightarrow> string \<Rightarrow> target_msg + string" where
  "check_mx p h =
     (let wildcard = has_prefix h ''*.''; name = (if wildcard then drop 2 h else h) in
      case ParseDomain (pr_idna p) name of
        Inl e \<Rightarrow> Inl (BadExpectedMX e)
      | Inr d \<Rightarrow> Inr (if wildcard then ''*.'' @ d else d))"

definition check_dnsbl :: "'r parser \<Rightarrow> string \<Rightarrow> target_msg + string" where
  "check_dnsbl p z = (case ParseDomain (pr_idna p) z of Inl e \<Rightarrow> Inl (BadDNSBL e) | Inr d \<Rightarrow> Inr d)"

definition validate_target_rest ::
  "'r parser \<Rightarrow> 'j cfg_target \<Rightarrow> ynode option \<Rightarrow> cfg_error list \<times> 'j cfg_target" where
  "validate_target_rest p t n =
     (let email = y_value n ''email'';
          (e1, hosts) = validate_each (y_value n ''hosts'') (check_host p) (ct_Hosts t);
          (e2, _) = validate_each (y_value n ''urls'') (check_url p) (ct_URLs t);
          (e3, _) = validate_each (y_value email ''dkim_selectors'') (check_selector p) (cm_DKIMSelectors (ct_Email t));
          (e4, mx) = validate_each (y_value email ''expected_mx'') (check_mx p) (cm_ExpectedMX (ct_Email t));
          (e5, bls) = validate_each (y_value email ''dnsbls'') (check_dnsbl p) (cm_DNSBLs (ct_Email t))
      in (validate_patterns p (y_value n ''checks'') n (ct_Checks t) @ validate_plugins p (y_value n ''plugins'') @
            e1 @ e2 @ e3 @ e4 @ e5,
          t\<lparr>ct_Hosts := hosts, ct_Email := (ct_Email t)\<lparr>cm_ExpectedMX := mx, cm_DNSBLs := bls\<rparr>\<rparr>))"

text \<open>
  \<open>p.target\<close>. None is the panic on a nil node: the node itself (\<open>n.Line\<close>), or the domain's
  node when it is recorded (\<open>dn.Line\<close>).
\<close>

definition validate_target ::
  "'r parser \<Rightarrow> 'j cfg_target \<Rightarrow> ynode option \<Rightarrow> (string \<Rightarrow> int option) \<Rightarrow>
   (cfg_error list \<times> 'j cfg_target \<times> (string \<Rightarrow> int option)) option" where
  "validate_target p t0 n firstLine =
     (case n of
        None \<Rightarrow> None
      | Some node \<Rightarrow>
        let t = t0\<lparr>ct_Line := p_Line (y_pos node)\<rparr>; dn = y_value n ''domain'' in
        if ct_Domain t = [] then Some (errorf n (TargetMsg MissingDomain), t, firstLine)
        else case ParseDomain (pr_idna p) (ct_Domain t) of
            Inl e \<Rightarrow> Some (errorf dn (TargetMsg (BadDomain e)), t, firstLine)
          | Inr name \<Rightarrow>
            (case validate_target_rest p (t\<lparr>ct_Domain := name\<rparr>) n of (errs, t') \<Rightarrow>
             (case firstLine name of
                Some line \<Rightarrow> Some (errorf dn (TargetMsg (DuplicateTarget name line)) @ errs, t', firstLine)
              | None \<Rightarrow>
                (case dn of
                   None \<Rightarrow> None
                 | Some d \<Rightarrow> Some (errs, t', firstLine(name \<mapsto> p_Line (y_pos d)))))))"

fun validate_targets ::
  "'r parser \<Rightarrow> ynode option \<Rightarrow> nat \<Rightarrow> 'j cfg_target list \<Rightarrow> (string \<Rightarrow> int option) \<Rightarrow>
   (cfg_error list \<times> 'j cfg_target list \<times> (string \<Rightarrow> int option)) option" where
  "validate_targets p n i [] firstLine = Some ([], [], firstLine)"
| "validate_targets p n i (t # ts) firstLine =
     (case validate_target p t (y_item n i) firstLine of
        None \<Rightarrow> None
      | Some (es, t', fl) \<Rightarrow>
        (case validate_targets p n (Suc i) ts fl of
           None \<Rightarrow> None
         | Some (fs, ts', fl') \<Rightarrow> Some (es @ fs, t' # ts', fl')))"

fun override_entries ::
  "'r parser \<Rightarrow> (string \<Rightarrow> severity option) \<Rightarrow> (ynode \<times> ynode) list \<Rightarrow> (string \<times> severity) list \<Rightarrow>
   cfg_error list \<times> (string \<times> severity) list" where
  "override_entries p overrides [] canonical = ([], canonical)"
| "override_entries p overrides ((k, v) # kvs) canonical =
     (case registry_Lookup (pr_reg p) (y_Value k) of
        None \<Rightarrow>
          (case override_entries p overrides kvs canonical of (es, c) \<Rightarrow>
             (errorf (Some k) (SettingMsg (UnknownCheck (y_Value k))) @ es, c))
      | Some c \<Rightarrow>
          if map_of canonical (check_ID c) \<noteq> None then
            (case override_entries p overrides kvs canonical of (es, c') \<Rightarrow>
               (errorf (Some k) (SettingMsg (OverriddenTwice (check_ID c))) @ es, c'))
          else override_entries p overrides kvs
                 (AList.update (check_ID c) (case overrides (y_Value k) of Some s \<Rightarrow> s | None \<Rightarrow> SeverityUnset) canonical))"

definition validate_overrides ::
  "'r parser \<Rightarrow> (string \<times> severity) list \<Rightarrow> ynode option \<Rightarrow> cfg_error list \<times> (string \<times> severity) list" where
  "validate_overrides p overrides n =
     (case n of
        None \<Rightarrow> ([], overrides)
      | Some (YMap _ kvs) \<Rightarrow> override_entries p (map_of overrides) kvs []
      | Some _ \<Rightarrow> ([], []))"

text \<open>The three parts of \<open>p.suppression\<close>: the check pattern, the target and the reason.\<close>

definition suppression_check ::
  "'r parser \<Rightarrow> suppression \<Rightarrow> ynode option \<Rightarrow> cfg_error list \<times> suppression" where
  "suppression_check p s n =
     (let cn = y_value n ''check'' in
      if su_Check s = [] then (errorf n (SuppressionMsg MissingCheck), s)
      else if has_prefix (su_Check s) ''!'' then (errorf cn (SuppressionMsg (ExclusionCheck (su_Check s))), s)
      else case Select (pr_reg p) [su_Check s] of
          Inl e \<Rightarrow> (errorf cn (SuppressionMsg (BadCheck e)), s)
        | Inr checks \<Rightarrow> ([], s\<lparr>su_ids := map check_ID checks\<rparr>))"

definition suppression_target ::
  "'r parser \<Rightarrow> suppression \<Rightarrow> ynode option \<Rightarrow> (string \<Rightarrow> int option) \<Rightarrow> cfg_error list \<times> suppression" where
  "suppression_target p s n targets =
     (let tn = y_value n ''target'' in
      if su_Target s = [] then ([], s)
      else case ParseDomain (pr_idna p) (su_Target s) of
          Inl e \<Rightarrow> (errorf tn (SuppressionMsg (BadTarget e)), s)
        | Inr name \<Rightarrow>
            if targets name = None \<or> targets name = Some 0 then (errorf tn (SuppressionMsg (UnknownTarget name)), s)
            else ([], s\<lparr>su_Target := name\<rparr>))"

definition suppression_reason :: "suppression \<Rightarrow> ynode option \<Rightarrow> cfg_error list" where
  "suppression_reason s n =
     (if trim_space (su_Reason s) = [] then errorf (nodeOr (y_value n ''reason'') n) (SuppressionMsg NeedsReason)
      else [])"

definition validate_suppression ::
  "'r parser \<Rightarrow> suppression \<Rightarrow> ynode option \<Rightarrow> (string \<Rightarrow> int option) \<Rightarrow> (cfg_error list \<times> suppression) option" where
  "validate_suppression p s0 n targets =
     (case n of
        None \<Rightarrow> None
      | Some node \<Rightarrow>
        (case suppression_check p (s0\<lparr>su_Line := p_Line (y_pos node)\<rparr>) n of (e1, s1) \<Rightarrow>
         case suppression_target p s1 n targets of (e2, s2) \<Rightarrow>
           Some (e1 @ e2 @ suppression_reason s2 n, s2)))"

definition validate_state :: "cfg_state \<Rightarrow> ynode option \<Rightarrow> cfg_error list \<times> cfg_state" where
  "validate_state s n =
     (let path = (if cs_Path s = [] then DefaultStatePath else cs_Path s);
          ra = (if cs_ResolveAfter s = 0 then DefaultResolveAfter else cs_ResolveAfter s);
          e1 = (if cs_ResolveAfter s < 0 then errorf (y_value n ''resolve_after'') (SettingMsg BadResolveAfter) else []);
          ret = (if cs_Retention s = 0 then DefaultRetention else cs_Retention s);
          e2 = (if cs_Retention s \<noteq> 0 \<and> cs_Retention s < 24 * hour
                then errorf (y_value n ''retention'') (SettingMsg BadRetention) else [])
      in (e1 @ e2, \<lparr>cs_Path = path, cs_ResolveAfter = ra, cs_Retention = ret\<rparr>))"

text \<open>The type-specific fields of the notifier types: required and optional.\<close>

definition notifierFields :: "(string \<times> string list \<times> string list) list" where
  "notifierFields =
     [(''telegram'', [''bot_token'', ''chat_id''], []),
      (''discord'', [''webhook''], []),
      (''slack'', [''webhook''], []),
      (''email'', [''host'', ''from'', ''to''], [''port'', ''tls'', ''username'', ''password'']),
      (''webhook'', [''url''], [''secret'', ''format'', ''block_private_ips''])]"

definition isTypeField :: "string \<Rightarrow> bool" where
  "isTypeField key \<longleftrightarrow> list_ex (\<lambda>(_, req, opt). key \<in> set req \<or> key \<in> set opt) notifierFields"

definition word_char :: "char \<Rightarrow> bool" where
  "word_char c \<longleftrightarrow> is_lower c \<or> is_upper c \<or> is_digit c \<or> c = CHR ''_'' \<or> c = CHR ''-''"

text \<open>The regular expressions for tokens and webhook URLs.\<close>

definition telegramToken :: "string \<Rightarrow> bool" where
  "telegramToken s =
     (case cut CHR '':'' s of (a, b, ok) \<Rightarrow>
        ok \<and> a \<noteq> [] \<and> list_all is_digit a \<and> b \<noteq> [] \<and> list_all word_char b)"

definition slackWebhook :: "string \<Rightarrow> bool" where
  "slackWebhook s = list_ex (\<lambda>host.
     (case cut_prefix s (''https://'' @ host @ ''/services/'') of
        None \<Rightarrow> False
      | Some r \<Rightarrow> r \<noteq> [] \<and> list_all (\<lambda>c. word_char c \<or> c = CHR ''/'') r))
     [''hooks.slack.com'', ''hooks.slack-gov.com'']"

definition discordWebhook :: "string \<Rightarrow> bool" where
  "discordWebhook s = list_ex (\<lambda>host.
     (case cut_prefix s (''https://'' @ host @ ''/api/webhooks/'') of
        None \<Rightarrow> False
      | Some r \<Rightarrow>
          (case cut CHR ''/'' r of (i, tok, ok) \<Rightarrow>
             ok \<and> i \<noteq> [] \<and> list_all is_digit i \<and> tok \<noteq> [] \<and> list_all word_char tok)))
     [''discord.com'', ''discordapp.com'', ''ptb.discord.com'', ''canary.discord.com'']"

definition default_port :: "string \<Rightarrow> int" where
  "default_port tls = (if tls = TLSStartTLS then 587 else if tls = TLSImplicit then 465
     else if tls = TLSNone then 25 else 0)"

definition validate_email ::
  "'r parser \<Rightarrow> notifier_config \<Rightarrow> ynode option \<Rightarrow> cfg_error list \<times> notifier_config" where
  "validate_email p nt n =
     (let err = (\<lambda>key m. errorf (y_value n key) (EmailMsg m));
          e1 = (if nc_Host nt \<noteq> [] \<and> ParseAddr (nc_Host nt) = None \<and>
                   is_err (ParseDomain (pr_idna p) (nc_Host nt)) \<and> nc_Host nt \<noteq> ''localhost''
                then err ''host'' BadMailHost else []);
          tls = (if nc_TLS nt = [] then TLSStartTLS else nc_TLS nt);
          e2 = (if tls \<notin> {TLSStartTLS, TLSImplicit, TLSNone} then err ''tls'' (UnknownTLS tls) else []);
          port = (if nc_Port nt = 0 then default_port tls else nc_Port nt);
          e3 = (if nc_Port nt \<noteq> 0 \<and> (nc_Port nt < 1 \<or> 65535 < nc_Port nt) then err ''port'' BadPort else []);
          e4 = (if (nc_Username nt = []) \<noteq> (nc_Password nt = [])
                then errorf (nodeOr (y_value n ''password'') (y_value n ''username'')) (EmailMsg UserWithoutPassword) else []);
          e5 = (if nc_Password nt \<noteq> [] \<and> tls = TLSNone then err ''tls'' PasswordInClear else []);
          e6 = (if nc_From nt \<noteq> [] \<and> \<not> pr_mail p (nc_From nt) then err ''from'' (BadFrom (nc_From nt)) else []);
          e7 = concat (map (\<lambda>(i, a). if pr_mail p a then [] else errorf (y_item (y_value n ''to'') i) (EmailMsg (BadTo a)))
                 (enumerate 0 (nc_To nt)))
      in (e1 @ e2 @ e3 @ e4 @ e5 @ e6 @ e7, nt\<lparr>nc_TLS := tls, nc_Port := port\<rparr>))"

definition field_missing :: "ynode option \<Rightarrow> bool" where
  "field_missing v =
     (case v of
        None \<Rightarrow> True
      | Some (YScalar _ s _ _) \<Rightarrow> s = []
      | Some (YSeq _ xs) \<Rightarrow> xs = []
      | Some _ \<Rightarrow> False)"

definition validate_notifier_type ::
  "'r parser \<Rightarrow> notifier_config \<Rightarrow> ynode option \<Rightarrow> cfg_error list \<times> notifier_config" where
  "validate_notifier_type p nt n =
     (let err = (\<lambda>key m. errorf (y_value n key) (NotifierMsg m)) in
      if nc_Type nt = ''telegram'' then
        ((if nc_BotToken nt \<noteq> [] \<and> \<not> telegramToken (nc_BotToken nt) then err ''bot_token'' BadToken else []), nt)
      else if nc_Type nt = ''discord'' then
        ((if nc_Webhook nt \<noteq> [] \<and> \<not> discordWebhook (nc_Webhook nt) then err ''webhook'' BadDiscord else []), nt)
      else if nc_Type nt = ''slack'' then
        ((if nc_Webhook nt \<noteq> [] \<and> \<not> slackWebhook (nc_Webhook nt) then err ''webhook'' BadSlack else []), nt)
      else if nc_Type nt = ''email'' then validate_email p nt n
      else if nc_Type nt = ''webhook'' then
        ((if nc_URL nt = [] then []
          else case pr_url p (nc_URL nt) of
              None \<Rightarrow> err ''url'' BadWebhookURL
            | Some u \<Rightarrow> if (u_Scheme u \<noteq> ''https'' \<and> u_Scheme u \<noteq> ''http'') \<or> u_Host u = [] then err ''url'' BadWebhookURL else []) @
         (if nc_Format nt \<noteq> [] \<and> nc_Format nt \<noteq> ''json'' then err ''format'' (UnknownFormat (nc_Format nt)) else []), nt)
      else ([], nt))"

definition validate_notifier ::
  "'r parser \<Rightarrow> notifier_config \<Rightarrow> ynode option \<Rightarrow> (string \<Rightarrow> int option) \<Rightarrow>
   (cfg_error list \<times> notifier_config \<times> (string \<Rightarrow> int option)) option" where
  "validate_notifier p nt0 n names =
     (case n of
        None \<Rightarrow> None
      | Some node \<Rightarrow>
        let nt1 = nt0\<lparr>nc_Line := p_Line (y_pos node)\<rparr> in
        case map_of notifierFields (nc_Type nt1) of
          None \<Rightarrow> Some (errorf (nodeOr (y_value n ''type'') n) (NotifierMsg (UnknownType (nc_Type nt1))), nt1, names)
        | Some (req, opt) \<Rightarrow>
          let nt2 = (if nc_Name nt1 = [] then nt1\<lparr>nc_Name := nc_Type nt1\<rparr> else nt1);
              e1 = (case names (nc_Name nt2) of
                      Some line \<Rightarrow> errorf n (NotifierMsg (DuplicateName (nc_Name nt2) line)) | None \<Rightarrow> []);
              keys = (case node of YMap _ kvs \<Rightarrow> map fst kvs | _ \<Rightarrow> []);
              e2 = concat (map (\<lambda>k. if isTypeField (y_Value k) \<and> y_Value k \<notin> set req \<and> y_Value k \<notin> set opt
                     then errorf (Some k) (NotifierMsg (DoesNotApply (y_Value k) (nc_Type nt2))) else []) keys);
              e3 = concat (map (\<lambda>f. if field_missing (y_value n f)
                     then errorf (nodeOr (y_value n f) n) (NotifierMsg (Needs (nc_Type nt2) f)) else []) req);
              e4 = concat (map (\<lambda>(i, k). if ParseKind k = None
                     then errorf (y_item (y_value n ''on'') i) (NotifierMsg (UnknownOn k)) else []) (enumerate 0 (nc_On nt2)));
              (e5, nt3) = (if nc_MinSeverity nt2 = [] then ([], nt2)
                else case ParseSeverity (nc_MinSeverity nt2) of
                    Inl m \<Rightarrow> (errorf (y_value n ''min_severity'') (NotifierMsg (BadMinSeverity m)), nt2\<lparr>nc_Severity := SeverityUnset\<rparr>)
                  | Inr sev \<Rightarrow> ([], nt2\<lparr>nc_Severity := sev\<rparr>));
              e6 = (if nc_Heartbeat nt3 \<noteq> 0 \<and> nc_Heartbeat nt3 < hour
                then errorf (y_value n ''heartbeat'') (NotifierMsg BadHeartbeat) else []);
              (e7, nt4) = validate_notifier_type p nt3 n
          in Some (e1 @ e2 @ e3 @ e4 @ e5 @ e6 @ e7, nt4, names(nc_Name nt2 \<mapsto> p_Line (y_pos node))))"

fun validate_notifiers ::
  "'r parser \<Rightarrow> ynode option \<Rightarrow> nat \<Rightarrow> notifier_config list \<Rightarrow> (string \<Rightarrow> int option) \<Rightarrow>
   (cfg_error list \<times> notifier_config list) option" where
  "validate_notifiers p n i [] names = Some ([], [])"
| "validate_notifiers p n i (t # ts) names =
     (case validate_notifier p t (y_item n i) names of
        None \<Rightarrow> None
      | Some (es, t', names') \<Rightarrow>
        (case validate_notifiers p n (Suc i) ts names' of
           None \<Rightarrow> None
         | Some (fs, ts') \<Rightarrow> Some (es @ fs, t' # ts')))"

fun validate_suppressions ::
  "'r parser \<Rightarrow> ynode option \<Rightarrow> nat \<Rightarrow> suppression list \<Rightarrow> (string \<Rightarrow> int option) \<Rightarrow>
   (cfg_error list \<times> suppression list) option" where
  "validate_suppressions p n i [] targets = Some ([], [])"
| "validate_suppressions p n i (s # ss) targets =
     (case validate_suppression p s (y_item n i) targets of
        None \<Rightarrow> None
      | Some (es, s') \<Rightarrow>
        (case validate_suppressions p n (Suc i) ss targets of
           None \<Rightarrow> None
         | Some (fs, ss') \<Rightarrow> Some (es @ fs, s' # ss')))"

definition validate_version :: "int \<Rightarrow> ynode option \<Rightarrow> cfg_error list" where
  "validate_version v root =
     (case y_value root ''version'' of
        None \<Rightarrow> errorf root (SettingMsg MissingVersion)
      | Some n \<Rightarrow> if v \<noteq> config_Version then errorf (Some n) (SettingMsg (UnsupportedConfigVersion v)) else [])"

definition validate_schedule :: "'r parser \<Rightarrow> string \<Rightarrow> ynode option \<Rightarrow> cfg_error list \<times> string" where
  "validate_schedule p sched root =
     (if sched = [] then ([], DefaultSchedule)
      else if \<not> pr_cron p sched then (errorf (y_value root ''schedule'') (SettingMsg (BadSchedule sched)), sched)
      else ([], sched))"

text \<open>\<open>p.validate\<close>; None is a panic.\<close>

definition validate :: "'r parser \<Rightarrow> 'j config \<Rightarrow> ynode \<Rightarrow> (cfg_error list \<times> 'j config) option" where
  "validate p c root =
     (let r = Some root;
          servers = y_value (y_value r ''resolver'') ''servers'';
          e1 = validate_version (cf_Version c) r;
          e2 = concat (map (\<lambda>(i, s). case validResolver p s of
                 Some e \<Rightarrow> errorf (y_item servers i) (SettingMsg (BadResolverServer e)) | None \<Rightarrow> [])
                 (enumerate 0 (cr_Servers (cf_Resolver c))));
          e3 = validate_patterns p (y_value (y_value r ''defaults'') ''checks'') r (cd_Checks (cf_Defaults c));
          targets = y_value r ''targets'';
          e4 = (if cf_Targets c = [] then errorf (nodeOr targets r) (SettingMsg NoTargets) else [])
      in case validate_targets p targets 0 (cf_Targets c) (\<lambda>_. None) of
           None \<Rightarrow> None
         | Some (e5, ts, firstLine) \<Rightarrow>
           (case validate_overrides p (cf_SeverityOverrides c) (y_value r ''severity_overrides'') of (e6, ov) \<Rightarrow>
            (case validate_suppressions p (y_value r ''suppressions'') 0 (cf_Suppressions c) firstLine of
               None \<Rightarrow> None
             | Some (e7, sups) \<Rightarrow>
               (let e8 = validate_plugins p (y_value r ''plugins'');
                    (e9, st) = validate_state (cf_State c) (y_value r ''state'')
                in case validate_notifiers p (y_value r ''notify'') 0 (cf_Notify c) (\<lambda>_. None) of
                     None \<Rightarrow> None
                   | Some (e10, nots) \<Rightarrow>
                     (case validate_schedule p (cf_Schedule c) r of (e11, sched) \<Rightarrow>
                        Some (e1 @ e2 @ e3 @ e4 @ e5 @ e6 @ e7 @ e8 @ e9 @ e10 @ e11,
                          c\<lparr>cf_Targets := ts, cf_SeverityOverrides := ov, cf_Suppressions := sups,
                            cf_State := st, cf_Notify := nots, cf_Schedule := sched\<rparr>))))))"

text \<open>
  \<open>Parse\<close> on a document's root node; \<open>decode\<close> is yaml.v3's decoder into the structure, with its
  error messages. The result: the problems in file order, or the configuration.
\<close>

definition compare_lines :: "cfg_error \<Rightarrow> cfg_error \<Rightarrow> int" where
  "compare_lines a b = ce_Line a - ce_Line b"

definition Parse ::
  "'r parser \<Rightarrow> (ynode \<Rightarrow> cfg_error list + 'j config) \<Rightarrow> ynode option \<Rightarrow> (cfg_error list + 'j config) option" where
  "Parse p decode doc =
     (let done = (\<lambda>es. Inl (sort_func compare_lines es)) in
      case doc of
        None \<Rightarrow> Some (done (errorf None (SettingMsg ConfigEmpty)))
      | Some root \<Rightarrow>
        (case root of
           YMap _ _ \<Rightarrow>
             (case interpolate (pr_lookupEnv p) root of (es, root') \<Rightarrow>
              let errs = es @ checkFields root' config_type in
              if errs \<noteq> [] then Some (done errs)
              else case decode root' of
                  Inl es' \<Rightarrow> Some (done es')
                | Inr c \<Rightarrow>
                  (case validate p c root' of
                     None \<Rightarrow> None
                   | Some (errs', c') \<Rightarrow> if errs' \<noteq> [] then Some (done errs') else Some (Inr c')))
         | _ \<Rightarrow> Some (done (errorf (Some root) (SettingMsg RootNotMapping)))))"

subsection \<open>What a validated configuration satisfies\<close>

lemma errorf_not_Nil [simp]: "errorf n m \<noteq> []"
  by (simp add: errorf_def)

lemma validate_state_ok:
  "fst (validate_state s n) = [] \<Longrightarrow>
    cs_Path (snd (validate_state s n)) \<noteq> [] \<and> 1 \<le> cs_ResolveAfter (snd (validate_state s n)) \<and>
    24 * hour \<le> cs_Retention (snd (validate_state s n))"
  by (auto simp: validate_state_def Let_def DefaultStatePath_def DefaultResolveAfter_def DefaultRetention_def hour_def
      split: if_splits)

lemma validate_target_ok:
  assumes "validate_target p t n fl = Some ([], t', fl')"
  shows "fl (ct_Domain t') = None" "\<exists>l. fl' = fl(ct_Domain t' \<mapsto> l)"
    "ParseDomain (pr_idna p) (ct_Domain t) = Inr (ct_Domain t')"
  using assms
  by (auto simp: validate_target_def validate_target_rest_def Let_def
      split: option.splits if_splits sum.splits prod.splits)

lemma validate_targets_ok:
  "validate_targets p n i ts fl = Some ([], ts', fl') \<Longrightarrow>
    distinct (map ct_Domain ts') \<and> (\<forall>t\<in>set ts'. fl (ct_Domain t) = None \<and>
      (\<exists>d. ParseDomain (pr_idna p) d = Inr (ct_Domain t))) \<and> length ts' = length ts"
proof (induction ts arbitrary: i fl ts')
  case (Cons t ts)
  then obtain t' fl1 ts1 where t: "validate_target p t (y_item n i) fl = Some ([], t', fl1)"
    "validate_targets p n (Suc i) ts fl1 = Some ([], ts1, fl')" "ts' = t' # ts1"
    by (auto split: option.splits)
  note IH = Cons.IH [OF t(2)]
  note T = validate_target_ok [OF t(1)]
  have "ct_Domain u \<noteq> ct_Domain t' \<and> fl (ct_Domain u) = None" if "u \<in> set ts1" for u
    using IH T(2) that by (auto split: if_splits)
  then have "ct_Domain t' \<notin> ct_Domain ` set ts1" by (metis imageE)
  moreover have "\<forall>u\<in>set ts1. fl (ct_Domain u) = None"
    using \<open>\<And>u. u \<in> set ts1 \<Longrightarrow> ct_Domain u \<noteq> ct_Domain t' \<and> fl (ct_Domain u) = None\<close> by blast
  ultimately show ?case using IH T(1,3) t(3) by auto
qed simp

lemma suppression_check_ok:
  assumes "suppression_check p s n = ([], s')"
  shows "su_Check s' \<noteq> []" "\<not> has_prefix (su_Check s') ''!''"
    "\<exists>cs. Select (pr_reg p) [su_Check s'] = Inr cs \<and> su_ids s' = map check_ID cs"
proof -
  have "su_Check s \<noteq> []" "\<not> has_prefix (su_Check s) ''!''"
    using assms by (simp_all add: suppression_check_def Let_def split: if_split_asm)
  moreover from this obtain cs where "Select (pr_reg p) [su_Check s] = Inr cs" "s' = s\<lparr>su_ids := map check_ID cs\<rparr>"
    using assms by (cases "Select (pr_reg p) [su_Check s]") (auto simp: suppression_check_def)
  ultimately show "su_Check s' \<noteq> []" "\<not> has_prefix (su_Check s') ''!''"
    "\<exists>cs. Select (pr_reg p) [su_Check s'] = Inr cs \<and> su_ids s' = map check_ID cs"
    by simp_all
qed

lemma suppression_target_ok:
  assumes "suppression_target p s n targets = ([], s')"
  shows "su_Check s' = su_Check s" "su_ids s' = su_ids s"
    "su_Target s' = [] \<or> targets (su_Target s') \<noteq> None"
proof -
  have "s' = s \<and> su_Target s = [] \<or> (\<exists>d. s' = s\<lparr>su_Target := d\<rparr> \<and> targets d \<noteq> None)"
  proof (cases "su_Target s = []")
    case False
    then show ?thesis using assms
      by (cases "ParseDomain (pr_idna p) (su_Target s)")
        (auto simp: suppression_target_def split: if_split_asm)
  qed (use assms in \<open>simp add: suppression_target_def\<close>)
  then show "su_Check s' = su_Check s" "su_ids s' = su_ids s"
    "su_Target s' = [] \<or> targets (su_Target s') \<noteq> None"
    by (elim disjE exE conjE, simp_all)+
qed

lemma validate_suppression_ok:
  assumes "validate_suppression p s n targets = Some ([], s')"
  shows "trim_space (su_Reason s') \<noteq> [] \<and> su_Check s' \<noteq> [] \<and> \<not> has_prefix (su_Check s') ''!'' \<and>
    (\<exists>cs. Select (pr_reg p) [su_Check s'] = Inr cs \<and> su_ids s' = map check_ID cs) \<and>
    (su_Target s' = [] \<or> targets (su_Target s') \<noteq> None)"
proof -
  obtain node where n: "n = Some node" using assms by (cases n) (simp_all add: validate_suppression_def)
  let ?s = "s\<lparr>su_Line := p_Line (y_pos node)\<rparr>"
  obtain e1 s1 where c: "suppression_check p ?s n = (e1, s1)" by fastforce
  obtain e2 s2 where t: "suppression_target p s1 n targets = (e2, s2)" by fastforce
  have e: "e1 = [] \<and> e2 = [] \<and> suppression_reason s2 n = [] \<and> s2 = s'"
    using assms by (simp only: validate_suppression_def n option.case c [unfolded n] t [unfolded n] prod.case) auto
  have r: "suppression_reason s' n = []" using e n by auto
  have c: "suppression_check p ?s n = ([], s1)" and t: "suppression_target p s1 n targets = ([], s')"
    using c t e by simp_all
  have "trim_space (su_Reason s') \<noteq> []" using r by (auto simp: suppression_reason_def split: if_splits)
  then show ?thesis using suppression_check_ok [OF c] suppression_target_ok [OF t] by simp
qed

lemma validate_suppressions_ok:
  "validate_suppressions p n i ss targets = Some ([], ss') \<Longrightarrow>
    \<forall>s\<in>set ss'. trim_space (su_Reason s) \<noteq> [] \<and> su_Check s \<noteq> [] \<and> \<not> has_prefix (su_Check s) ''!'' \<and>
      (\<exists>cs. Select (pr_reg p) [su_Check s] = Inr cs \<and> su_ids s = map check_ID cs) \<and>
      (su_Target s = [] \<or> targets (su_Target s) \<noteq> None)"
proof (induction ss arbitrary: i ss')
  case (Cons s ss)
  then obtain s' ss1 where s: "validate_suppression p s (y_item n i) targets = Some ([], s')"
    "validate_suppressions p n (Suc i) ss targets = Some ([], ss1)" "ss' = s' # ss1"
    by (auto split: option.splits)
  show ?case unfolding s(3) list.set ball_simps
    by (rule conjI [OF validate_suppression_ok [OF s(1)] Cons.IH [OF s(2)]])
qed simp

lemma validate_targets_lines:
  "validate_targets p n i ts fl = Some (es, ts', fl') \<Longrightarrow> es = [] \<Longrightarrow>
    (\<forall>d. fl' d \<noteq> None \<longrightarrow> fl d \<noteq> None \<or> d \<in> ct_Domain ` set ts')"
proof (induction ts arbitrary: i fl ts' es)
  case (Cons t ts)
  then obtain t' fl1 ts1 where t: "validate_target p t (y_item n i) fl = Some ([], t', fl1)"
    "validate_targets p n (Suc i) ts fl1 = Some ([], ts1, fl')" "ts' = t' # ts1"
    by (auto split: option.splits)
  obtain l where fl1: "fl1 = fl(ct_Domain t' \<mapsto> l)" using validate_target_ok(2) [OF t(1)] by blast
  note IH = Cons.IH [OF t(2) refl]
  have "fl d \<noteq> None \<or> d \<in> insert (ct_Domain t') (ct_Domain ` set ts1)" if "fl' d \<noteq> None" for d
    using IH [rule_format, OF that] unfolding fl1 by (cases "d = ct_Domain t'") simp_all
  then show ?case unfolding t(3) list.set image_insert by blast
qed simp

lemma validate_ok:
  assumes "validate p c root = Some ([], c')"
  shows "cf_Version c' = config_Version \<and> cf_Targets c' \<noteq> [] \<and> distinct (map ct_Domain (cf_Targets c')) \<and>
    (\<forall>t\<in>set (cf_Targets c'). canonical_domain (ct_Domain t)) \<and>
    (\<forall>s\<in>set (cf_Suppressions c'). trim_space (su_Reason s) \<noteq> [] \<and>
      (\<exists>cs. Select (pr_reg p) [su_Check s] = Inr cs \<and> su_ids s = map check_ID cs) \<and>
      (su_Target s = [] \<or> su_Target s \<in> ct_Domain ` set (cf_Targets c'))) \<and>
    cs_Path (cf_State c') \<noteq> [] \<and> 1 \<le> cs_ResolveAfter (cf_State c') \<and> 24 * hour \<le> cs_Retention (cf_State c') \<and>
    cf_Schedule c' \<noteq> []"
proof -
  obtain ts fl sups nots where
    T: "validate_targets p (y_value (Some root) ''targets'') 0 (cf_Targets c) (\<lambda>_. None) = Some ([], ts, fl)"
    and S: "validate_suppressions p (y_value (Some root) ''suppressions'') 0 (cf_Suppressions c) fl = Some ([], sups)"
    and st: "fst (validate_state (cf_State c) (y_value (Some root) ''state'')) = []"
    and v: "validate_version (cf_Version c) (Some root) = []" "cf_Targets c \<noteq> []"
      "fst (validate_schedule p (cf_Schedule c) (Some root)) = []"
    and c': "cf_Targets c' = ts" "cf_Suppressions c' = sups" "cf_Version c' = cf_Version c"
      "cf_State c' = snd (validate_state (cf_State c) (y_value (Some root) ''state''))"
      "cf_Schedule c' = snd (validate_schedule p (cf_Schedule c) (Some root))"
    using assms by (auto simp: validate_def Let_def split: option.splits prod.splits if_splits)
  have "cf_Version c = config_Version"
    using v(1) by (auto simp: validate_version_def split: option.splits if_splits)
  moreover have "cf_Schedule c' \<noteq> []"
    using v(3) c'(5) by (auto simp: validate_schedule_def DefaultSchedule_def split: if_splits)
  moreover have "\<forall>t\<in>set ts. canonical_domain (ct_Domain t)"
    using validate_targets_ok [OF T] ParseDomain_canonical by blast
  moreover have "\<forall>d. fl d \<noteq> None \<longrightarrow> d \<in> ct_Domain ` set ts"
    using validate_targets_lines [OF T refl] by blast
  then have "\<forall>s\<in>set sups. trim_space (su_Reason s) \<noteq> [] \<and>
      (\<exists>cs. Select (pr_reg p) [su_Check s] = Inr cs \<and> su_ids s = map check_ID cs) \<and>
      (su_Target s = [] \<or> su_Target s \<in> ct_Domain ` set ts)"
    using validate_suppressions_ok [OF S] by blast
  moreover have "ts \<noteq> []" using validate_targets_ok [OF T] v(2) by (metis list.size(3) length_0_conv)
  ultimately show ?thesis
    using validate_targets_ok [OF T] validate_state_ok [OF st] c' by simp
qed

lemma Parse_Inr:
  "Parse p decode doc = Some (Inr c) \<Longrightarrow> \<exists>c0 root. validate p c0 root = Some ([], c)"
  by (auto simp: Parse_def Let_def split: option.splits ynode.splits prod.splits sum.splits if_splits)

text \<open>
  C11 A configuration that Parse accepts is usable as it is: the version is the supported one,
  there is at least one target, the targets are distinct and in canonical form, every suppression
  has a reason, names at least the checks its pattern selects, and is for a configured target or
  for all, and the state settings are in range (also when left out).
\<close>

theorem Parse_valid:
  assumes "Parse p decode doc = Some (Inr c)"
  shows "cf_Version c = config_Version \<and> cf_Targets c \<noteq> [] \<and> distinct (map ct_Domain (cf_Targets c)) \<and>
    (\<forall>t\<in>set (cf_Targets c). canonical_domain (ct_Domain t)) \<and>
    (\<forall>s\<in>set (cf_Suppressions c). trim_space (su_Reason s) \<noteq> [] \<and>
      (\<exists>cs. Select (pr_reg p) [su_Check s] = Inr cs \<and> su_ids s = map check_ID cs) \<and>
      (su_Target s = [] \<or> su_Target s \<in> ct_Domain ` set (cf_Targets c))) \<and>
    cs_Path (cf_State c) \<noteq> [] \<and> 1 \<le> cs_ResolveAfter (cf_State c) \<and> 24 * hour \<le> cs_Retention (cf_State c) \<and>
    cf_Schedule c \<noteq> []"
  using Parse_Inr [OF assms] validate_ok by blast

definition demo_parser :: "unit parser" where
  "demo_parser = \<lparr>pr_lookupEnv = Map.empty, pr_reg = demo_registry, pr_plugins = [], pr_idna = (\<lambda>_. None),
     pr_url = (\<lambda>_. None), pr_mail = (\<lambda>_. True), pr_cron = (\<lambda>_. True)\<rparr>"

definition pos :: "int \<Rightarrow> int \<Rightarrow> position" where "pos l c = \<lparr>p_Line = l, p_Column = c\<rparr>"

definition scalar :: "int \<Rightarrow> string \<Rightarrow> ynode" where "scalar l v = YScalar (pos l 1) v [] 0"

definition demo_doc :: "ynode list \<Rightarrow> ynode" where
  "demo_doc targets = YMap (pos 1 1) [(scalar 1 ''version'', scalar 1 ''1''), (scalar 2 ''targets'', YSeq (pos 3 3) targets)]"

lemma demo_domain: "ParseDomain (\<lambda>_. None) ''a.example'' = Inr ''a.example''"
  by code_simp

theorem Parse_valid_witness:
  "\<exists>c. Parse demo_parser (\<lambda>_. Inr (bare_config [bare_target ''a.example''] []))
      (Some (demo_doc [YMap (pos 3 5) [(scalar 3 ''domain'', scalar 3 ''a.example'')]])) = Some (Inr c) \<and>
    cs_ResolveAfter (cf_State c) = 2 \<and> distinct (map ct_Domain (cf_Targets c))"
proof -
  let ?doc = "demo_doc [YMap (pos 3 5) [(scalar 3 ''domain'', scalar 3 ''a.example'')]]"
  have i: "interpolate (pr_lookupEnv demo_parser) ?doc = ([], ?doc)"
    by (simp add: demo_doc_def scalar_def demo_parser_def has_prefix_def)
  have f: "checkFields ?doc config_type = []"
    by (simp add: demo_doc_def scalar_def config_type_def leaves_def strings_def y_Value_def)
  obtain c where v: "validate demo_parser (bare_config [bare_target ''a.example''] []) ?doc = Some ([], c)"
    and ra: "cs_ResolveAfter (cf_State c) = 2"
    by (simp add: validate_def Let_def bare_config_def bare_target_def demo_doc_def scalar_def y_value_def y_item_def
        y_Value_def validate_version_def config_Version_def validate_patterns_def validate_target_def
        validate_target_rest_def validate_each_def validate_plugins_def validate_overrides_def
        validate_state_def DefaultResolveAfter_def validate_schedule_def demo_parser_def demo_domain)
  have P: "Parse demo_parser (\<lambda>_. Inr (bare_config [bare_target ''a.example''] [])) (Some ?doc) = Some (Inr c)"
    unfolding Parse_def using i f v by (simp add: demo_doc_def Let_def)
  show ?thesis using P ra Parse_valid [OF P] by blast
qed

text \<open>
  YAML aliases break validation where the decoder accepts them: a target written as an alias
  of a valid target makes the program dereference a nil node and panic, and severity overrides
  written as an alias are dropped without an error.
\<close>

lemma aliases_not_validated:
  "Parse demo_parser (\<lambda>_. Inr (bare_config [bare_target ''a.example''] [])) (Some (demo_doc [YAlias (pos 3 5) ''x''])) = None \<and>
   validate_overrides demo_parser [(''a.b.c'', SeverityHigh)] (Some (YAlias (pos 4 1) ''x'')) = ([], [])"
proof
  let ?doc = "demo_doc [YAlias (pos 3 5) ''x'']"
  have i: "interpolate (pr_lookupEnv demo_parser) ?doc = ([], ?doc)"
    by (simp add: demo_doc_def scalar_def demo_parser_def has_prefix_def)
  have f: "checkFields ?doc config_type = []"
    by (simp add: demo_doc_def scalar_def config_type_def leaves_def strings_def y_Value_def)
  have "validate demo_parser (bare_config [bare_target ''a.example''] []) ?doc = None"
    by (simp add: validate_def Let_def bare_config_def bare_target_def demo_doc_def scalar_def y_value_def y_item_def
        y_Value_def validate_target_def demo_parser_def demo_domain split: prod.split)
  then show "Parse demo_parser (\<lambda>_. Inr (bare_config [bare_target ''a.example''] [])) (Some ?doc) = None"
    unfolding Parse_def using i f by (simp add: demo_doc_def Let_def)
qed (simp add: validate_overrides_def)

end
