(* ===== verification/SetaSpf.thy ===== *)
theory SetaSpf
  imports SetaDnsx
begin

text \<open>
  Package checks/email/internal/spf, parse.go: SPF records (RFC 7208). Byte positions become the
  text that is left; the error texts are values. As in the other packages the text is ASCII, so
  ToLower and Fields act on single bytes.
\<close>

subsection \<open>Records\<close>

datatype qualifier = Pass | Fail | SoftFail | Neutral

definition qualifier_char :: "qualifier \<Rightarrow> char" where
  "qualifier_char q = (case q of Pass \<Rightarrow> CHR ''+'' | Fail \<Rightarrow> CHR ''-'' | SoftFail \<Rightarrow> CHR ''~'' | Neutral \<Rightarrow> CHR ''?'')"

definition qualifier_of :: "char \<Rightarrow> qualifier option" where
  "qualifier_of c =
     (if c = CHR ''+'' then Some Pass else if c = CHR ''-'' then Some Fail
      else if c = CHR ''~'' then Some SoftFail else if c = CHR ''?'' then Some Neutral else None)"

record mechanism =
  m_Qualifier :: qualifier
  m_Kind :: string
  m_Domain :: string
  m_Network :: "prefix option"
  m_CIDR4 :: int
  m_CIDR6 :: int

record spf_record =
  sr_Raw :: string
  sr_Mechanisms :: "mechanism list"
  sr_Redirect :: string
  sr_Exp :: string

text \<open>\<open>Prefix.String\<close>; None is the zero prefix.\<close>

definition prefix_String :: "prefix option \<Rightarrow> string" where
  "prefix_String p = (case p of
      None \<Rightarrow> ''invalid Prefix''
    | Some x \<Rightarrow> addr_String (px_Addr x) @ ''/'' @ nat_digits (px_Bits x))"

definition mechanism_String :: "mechanism \<Rightarrow> string" where
  "mechanism_String m =
     (let q = (if m_Qualifier m \<noteq> Pass then [qualifier_char (m_Qualifier m)] else []) in
      if m_Kind m = ''ip4'' \<or> m_Kind m = ''ip6'' then q @ m_Kind m @ '':'' @ prefix_String (m_Network m)
      else if m_Domain m \<noteq> [] then q @ m_Kind m @ '':'' @ m_Domain m
      else q @ m_Kind m)"

definition CountsLookup :: "mechanism \<Rightarrow> bool" where
  "CountsLookup m \<longleftrightarrow> m_Kind m \<in> {''include'', ''a'', ''mx'', ''ptr'', ''exists''}"

definition record_All :: "spf_record \<Rightarrow> mechanism option" where
  "record_All r = find (\<lambda>m. m_Kind m = ''all'') (sr_Mechanisms r)"

definition IsSPF :: "string \<Rightarrow> bool" where
  "IsSPF txt \<longleftrightarrow> \<not> (length txt < 6 \<or> \<not> equal_fold (take 6 txt) ''v=spf1'') \<and>
     (length txt = 6 \<or> txt ! 6 = CHR '' '')"

subsection \<open>Macro strings and domain specifications\<close>

definition is_alpha :: "char \<Rightarrow> bool" where
  "is_alpha c \<longleftrightarrow> is_lower c \<or> is_upper c"

datatype macro_error =
    InvalidCharacter char
  | DanglingPercent
  | InvalidMacro string
  | UnterminatedMacro
  | InvalidMacroLetter string
  | InvalidTransformer string

definition macro_letters :: "bool \<Rightarrow> string" where
  "macro_letters exp = (if exp then ''slodiphvcrt'' else ''slodiphv'')"

text \<open>After the macro letter: digits, an optional r, then delimiters.\<close>

definition transformers_ok :: "string \<Rightarrow> bool" where
  "transformers_ok s =
     (let r = dropWhile is_digit s;
          d = (case r of c # cs \<Rightarrow> if lower_char c = CHR ''r'' then cs else r | [] \<Rightarrow> [])
      in list_all (\<lambda>c. c \<in> set ''.-+,/_='') d)"

definition macro_body :: "bool \<Rightarrow> string \<Rightarrow> macro_error option" where
  "macro_body exp body =
     (case body of
        [] \<Rightarrow> Some (InvalidMacroLetter (''%{'' @ body @ ''}''))
      | l # t \<Rightarrow>
          if lower_char l \<notin> set (macro_letters exp) then Some (InvalidMacroLetter (''%{'' @ body @ ''}''))
          else if \<not> transformers_ok t then Some (InvalidTransformer (''%{'' @ body @ ''}''))
          else None)"

lemma length_cut: "cut sep s = (a, b, ok) \<Longrightarrow> length b \<le> length s"
proof (induction s arbitrary: a)
  case (Cons c s)
  then show ?case by (cases "cut sep s") (auto split: if_splits)
qed simp

text \<open>The loop of \<open>parseMacroString\<close>; \<open>ends\<close> is endsWithMacro.\<close>

function macro_loop :: "bool \<Rightarrow> bool \<Rightarrow> string \<Rightarrow> macro_error + bool" where
  "macro_loop exp ends [] = Inr ends"
| "macro_loop exp ends (c # s) =
     (if c \<noteq> CHR ''%'' then
        (if byte c < 33 \<or> 126 < byte c then Inl (InvalidCharacter c) else macro_loop exp False s)
      else case s of
          [] \<Rightarrow> Inl DanglingPercent
        | d # r \<Rightarrow>
            if d = CHR ''%'' \<or> d = CHR ''_'' \<or> d = CHR ''-'' then macro_loop exp False r
            else if d \<noteq> CHR ''{'' then Inl (InvalidMacro [c, d])
            else case cut CHR ''}'' r of (body, rest, found) \<Rightarrow>
              if \<not> found then Inl UnterminatedMacro
              else case macro_body exp body of
                  Some e \<Rightarrow> Inl e
                | None \<Rightarrow> macro_loop exp True rest)"
  by pat_completeness auto
termination
  by (relation "measure (\<lambda>(_, _, s). length s)") (auto simp: less_Suc_eq_le dest!: sym [of _ "cut _ _"] dest: length_cut intro: le_SucI)

definition parseMacroString :: "string \<Rightarrow> bool \<Rightarrow> macro_error + bool" where
  "parseMacroString s exp = macro_loop exp False s"

definition HasMacro :: "string \<Rightarrow> bool" where
  "HasMacro ds = contains_sub ds ''%{''"

definition validTopLabel :: "string \<Rightarrow> bool" where
  "validTopLabel l \<longleftrightarrow> l \<noteq> [] \<and> hd l \<noteq> CHR ''-'' \<and> last l \<noteq> CHR ''-'' \<and>
     list_all (\<lambda>c. is_alpha c \<or> is_digit c \<or> c = CHR ''-'') l \<and>
     (list_ex is_alpha l \<or> CHR ''-'' \<in> set l)"

datatype spec_error = BadMacro macro_error | NotQualified string | BadTopLabel string

definition validateDomainSpec :: "string \<Rightarrow> bool \<Rightarrow> spec_error option" where
  "validateDomainSpec ds exp =
     (case parseMacroString ds exp of
        Inl e \<Rightarrow> Some (BadMacro e)
      | Inr True \<Rightarrow> None
      | Inr False \<Rightarrow>
          let name = trim_suffix ds ''.'' in
          case last_index_byte CHR ''.'' name of
            None \<Rightarrow> Some (NotQualified ds)
          | Some i \<Rightarrow> if \<not> validTopLabel (drop (i + 1) name) then Some (BadTopLabel ds) else None)"

subsection \<open>Networks and CIDR lengths\<close>

definition parseCIDRLen :: "string \<Rightarrow> int \<Rightarrow> int option" where
  "parseCIDRLen s mx =
     (if s = [] \<or> (1 < length s \<and> hd s = CHR ''0'') then None
      else case atoi s of
          None \<Rightarrow> None
        | Some n \<Rightarrow> if n < 0 \<or> mx < n then None else Some n)"

datatype term_error =
    AllTakesNoArguments
  | RequiresDomain string
  | BadSpec spec_error
  | MalformedDomain
  | PtrTakesNoCIDR
  | BadCIDR4 string
  | BadCIDR6 string
  | RequiresAddress string
  | BadAddress string
  | WrongFamily string bool
  | BadCIDR string
  | UnknownMechanism string

definition bit_len :: "addr \<Rightarrow> nat" where
  "bit_len a = (if is4 a then 32 else 128)"

definition parseNetwork :: "string \<Rightarrow> bool \<Rightarrow> term_error + prefix" where
  "parseNetwork s v4 =
     (case cut CHR ''/'' s of (addr, len, hasLen) \<Rightarrow>
      case ParseAddr addr of
        None \<Rightarrow> Inl (BadAddress addr)
      | Some a \<Rightarrow>
          if zone_of a \<noteq> [] then Inl (BadAddress addr)
          else if (v4 \<and> \<not> is4 a) \<or> (\<not> v4 \<and> \<not> is6 a) then Inl (WrongFamily addr v4)
          else if hasLen then
            (case parseCIDRLen len (int (bit_len a)) of
               None \<Rightarrow> Inl (BadCIDR len)
             | Some n \<Rightarrow> Inr \<lparr>px_Addr = a, px_Bits = nat n\<rparr>)
          else Inr \<lparr>px_Addr = a, px_Bits = bit_len a\<rparr>)"

text \<open>\<open>strings.Cut(s, "//")\<close>.\<close>

definition cut_slashes :: "string \<Rightarrow> string \<times> string \<times> bool" where
  "cut_slashes s = (case index_sub s ''//'' of
      None \<Rightarrow> (s, [], False) | Some i \<Rightarrow> (take i s, drop (i + 2) s, True))"

definition cidr4 :: "mechanism \<Rightarrow> string \<Rightarrow> term_error + mechanism" where
  "cidr4 m v4 =
     (if v4 = [] then Inr m
      else case parseCIDRLen (trim_prefix v4 ''/'') 32 of
          None \<Rightarrow> Inl (BadCIDR4 v4)
        | Some n \<Rightarrow> if \<not> has_prefix v4 ''/'' then Inl (BadCIDR4 v4) else Inr (m\<lparr>m_CIDR4 := n\<rparr>))"

definition parseDualCIDR :: "mechanism \<Rightarrow> string \<Rightarrow> term_error + mechanism" where
  "parseDualCIDR m s =
     (case cut_slashes s of (v4, v6, dual) \<Rightarrow>
      case cidr4 m v4 of
        Inl e \<Rightarrow> Inl e
      | Inr m' \<Rightarrow>
          if dual then
            (case parseCIDRLen v6 128 of
               None \<Rightarrow> Inl (BadCIDR6 v6)
             | Some n \<Rightarrow> Inr (m'\<lparr>m_CIDR6 := n\<rparr>))
          else Inr m')"

subsection \<open>Mechanisms, modifiers, records\<close>

definition mech0 :: mechanism where
  "mech0 = \<lparr>m_Qualifier = Pass, m_Kind = [], m_Domain = [], m_Network = None, m_CIDR4 = -1, m_CIDR6 = -1\<rparr>"

definition split_qualifier :: "string \<Rightarrow> qualifier \<times> string" where
  "split_qualifier term =
     (case qualifier_of (hd term) of Some q \<Rightarrow> (q, tl term) | None \<Rightarrow> (Pass, term))"

text \<open>The branches of \<open>parseMechanism\<close>'s switch on the kind; \<open>arg\<close> starts with ':' or '/' or is empty.\<close>

definition parse_include :: "mechanism \<Rightarrow> string \<Rightarrow> term_error + mechanism" where
  "parse_include m arg =
     (case cut_prefix arg '':'' of
        None \<Rightarrow> Inl (RequiresDomain (m_Kind m))
      | Some ds \<Rightarrow>
          if ds = [] then Inl (RequiresDomain (m_Kind m))
          else case validateDomainSpec ds False of
              Some e \<Rightarrow> Inl (BadSpec e)
            | None \<Rightarrow> Inr (m\<lparr>m_Domain := ds\<rparr>))"

definition parse_host_domain :: "mechanism \<Rightarrow> string \<Rightarrow> term_error + mechanism" where
  "parse_host_domain m d =
     (if d = [] then Inr m
      else case cut_prefix d '':'' of
          None \<Rightarrow> Inl MalformedDomain
        | Some ds \<Rightarrow>
            if ds = [] then Inl MalformedDomain
            else case validateDomainSpec ds False of
                Some e \<Rightarrow> Inl (BadSpec e)
              | None \<Rightarrow> Inr (m\<lparr>m_Domain := ds\<rparr>))"

definition parse_host :: "mechanism \<Rightarrow> string \<Rightarrow> term_error + mechanism" where
  "parse_host m arg =
     (let (ds, cidr) = (case index_byte CHR ''/'' arg of
             Some i \<Rightarrow> (take i arg, drop i arg) | None \<Rightarrow> (arg, []))
      in case parse_host_domain m ds of
          Inl e \<Rightarrow> Inl e
        | Inr m' \<Rightarrow>
            if cidr = [] then Inr m'
            else if m_Kind m' = ''ptr'' then Inl PtrTakesNoCIDR
            else parseDualCIDR m' cidr)"

definition parse_ip :: "mechanism \<Rightarrow> string \<Rightarrow> term_error + mechanism" where
  "parse_ip m arg =
     (case cut_prefix arg '':'' of
        None \<Rightarrow> Inl (RequiresAddress (m_Kind m))
      | Some v \<Rightarrow>
          if v = [] then Inl (RequiresAddress (m_Kind m))
          else case parseNetwork v (m_Kind m = ''ip4'') of
              Inl e \<Rightarrow> Inl e
            | Inr p \<Rightarrow> Inr (m\<lparr>m_Network := Some p\<rparr>))"

definition parseMechanism :: "string \<Rightarrow> term_error + mechanism" where
  "parseMechanism term =
     (case split_qualifier term of (q, rest) \<Rightarrow>
      let kind = takeWhile (\<lambda>c. c \<noteq> CHR '':'' \<and> c \<noteq> CHR ''/'') rest;
          arg = drop (length kind) rest;
          m = mech0\<lparr>m_Qualifier := q, m_Kind := to_lower kind\<rparr>
      in if m_Kind m = ''all'' then (if arg \<noteq> [] then Inl AllTakesNoArguments else Inr m)
         else if m_Kind m = ''include'' \<or> m_Kind m = ''exists'' then parse_include m arg
         else if m_Kind m = ''a'' \<or> m_Kind m = ''mx'' \<or> m_Kind m = ''ptr'' then parse_host m arg
         else if m_Kind m = ''ip4'' \<or> m_Kind m = ''ip6'' then parse_ip m arg
         else Inl (UnknownMechanism (m_Kind m)))"

datatype spf_error =
    NotSPF
  | BadTerm string term_error
  | DuplicateModifier string
  | BadModifier string string spec_error
  | BadUnknownModifier string string macro_error

fun modifier_name_chars :: "bool \<Rightarrow> string \<Rightarrow> string" where
  "modifier_name_chars first [] = []"
| "modifier_name_chars first (c # cs) =
     (if is_alpha c \<or> (\<not> first \<and> (is_digit c \<or> c \<in> set ''-_.'')) then c # modifier_name_chars False cs else [])"

definition splitModifier :: "string \<Rightarrow> (string \<times> string) option" where
  "splitModifier term =
     (let name = modifier_name_chars True term; i = length name in
      if i = 0 \<or> length term \<le> i \<or> term ! i \<noteq> CHR ''='' then None
      else Some (name, drop (i + 1) term))"

definition addModifier :: "spf_record \<Rightarrow> string \<Rightarrow> string \<Rightarrow> spf_error + spf_record" where
  "addModifier r name value =
     (if name = ''redirect'' \<or> name = ''exp'' then
        (if (name = ''redirect'' \<and> sr_Redirect r \<noteq> []) \<or> (name = ''exp'' \<and> sr_Exp r \<noteq> []) then Inl (DuplicateModifier name)
         else case validateDomainSpec value (name = ''exp'') of
             Some e \<Rightarrow> Inl (BadModifier name value e)
           | None \<Rightarrow> Inr (if name = ''redirect'' then r\<lparr>sr_Redirect := value\<rparr> else r\<lparr>sr_Exp := value\<rparr>))
      else case parseMacroString value False of
          Inl e \<Rightarrow> Inl (BadUnknownModifier name value e)
        | Inr _ \<Rightarrow> Inr r)"

definition parse_term :: "spf_record \<Rightarrow> string \<Rightarrow> spf_error + spf_record" where
  "parse_term r term =
     (case splitModifier term of
        Some (name, value) \<Rightarrow> addModifier r (to_lower name) value
      | None \<Rightarrow>
          (case parseMechanism term of
             Inl e \<Rightarrow> Inl (BadTerm term e)
           | Inr m \<Rightarrow> Inr (r\<lparr>sr_Mechanisms := sr_Mechanisms r @ [m]\<rparr>)))"

fun parse_terms :: "spf_record \<Rightarrow> string list \<Rightarrow> spf_error + spf_record" where
  "parse_terms r [] = Inr r"
| "parse_terms r (t # ts) =
     (case parse_term r t of Inl e \<Rightarrow> Inl e | Inr r' \<Rightarrow> parse_terms r' ts)"

definition spf_Parse :: "string \<Rightarrow> spf_error + spf_record" where
  "spf_Parse txt =
     (if \<not> IsSPF txt then Inl NotSPF
      else parse_terms \<lparr>sr_Raw = txt, sr_Mechanisms = [], sr_Redirect = [], sr_Exp = []\<rparr> (SetaPrelude.fields (drop 6 txt)))"

subsection \<open>What a parsed record satisfies\<close>

definition network_ok :: "bool \<Rightarrow> prefix \<Rightarrow> bool" where
  "network_ok v4 p \<longleftrightarrow> addr_ok (px_Addr p) \<and> zone_of (px_Addr p) = [] \<and> is4 (px_Addr p) = v4 \<and>
     px_Bits p \<le> bit_len (px_Addr p)"

text \<open>
  The shape of a mechanism by its kind: which of the domain, the network and the CIDR lengths it
  may carry, and their ranges.
\<close>

definition mech_ok :: "mechanism \<Rightarrow> bool" where
  "mech_ok m \<longleftrightarrow>
     (if m_Kind m = ''all'' then m_Domain m = [] \<and> m_Network m = None \<and> m_CIDR4 m = -1 \<and> m_CIDR6 m = -1
      else if m_Kind m = ''include'' \<or> m_Kind m = ''exists'' then
        m_Domain m \<noteq> [] \<and> validateDomainSpec (m_Domain m) False = None \<and> m_Network m = None \<and>
        m_CIDR4 m = -1 \<and> m_CIDR6 m = -1
      else if m_Kind m = ''a'' \<or> m_Kind m = ''mx'' \<or> m_Kind m = ''ptr'' then
        (m_Domain m \<noteq> [] \<longrightarrow> validateDomainSpec (m_Domain m) False = None \<and> CHR ''/'' \<notin> set (m_Domain m)) \<and>
        m_Network m = None \<and> -1 \<le> m_CIDR4 m \<and> m_CIDR4 m \<le> 32 \<and> -1 \<le> m_CIDR6 m \<and> m_CIDR6 m \<le> 128 \<and>
        (m_Kind m = ''ptr'' \<longrightarrow> m_CIDR4 m = -1 \<and> m_CIDR6 m = -1)
      else if m_Kind m = ''ip4'' \<or> m_Kind m = ''ip6'' then
        m_Domain m = [] \<and> m_CIDR4 m = -1 \<and> m_CIDR6 m = -1 \<and>
        (\<exists>p. m_Network m = Some p \<and> network_ok (m_Kind m = ''ip4'') p)
      else False)"

lemma parseCIDRLen_range: "parseCIDRLen s mx = Some n \<Longrightarrow> 0 \<le> n \<and> n \<le> mx"
  by (auto simp: parseCIDRLen_def split: if_splits option.splits)

lemma parseNetwork_ok: "parseNetwork s v4 = Inr p \<Longrightarrow> network_ok v4 p"
  by (auto simp: parseNetwork_def network_ok_def is6_def nat_le_iff split: prod.splits option.splits if_splits
      dest: ParseAddr_ok parseCIDRLen_range)

lemma parse_include_ok:
  assumes "parse_include m arg = Inr m'"
  shows "\<exists>ds. ds \<noteq> [] \<and> arg = '':'' @ ds \<and> validateDomainSpec ds False = None \<and> m' = m\<lparr>m_Domain := ds\<rparr>"
  using assms by (auto simp: parse_include_def cut_prefix_Some split: option.splits if_splits)

lemma parse_host_domain_ok:
  assumes "parse_host_domain m d = Inr m'"
  shows "d = [] \<and> m' = m \<or> (\<exists>ds. ds \<noteq> [] \<and> d = '':'' @ ds \<and> validateDomainSpec ds False = None \<and> m' = m\<lparr>m_Domain := ds\<rparr>)"
  using assms by (auto simp: parse_host_domain_def cut_prefix_Some split: option.splits if_splits)

lemma cidr4_ok:
  assumes "cidr4 m s = Inr m'"
  shows "m' = m \<or> (\<exists>n. 0 \<le> n \<and> n \<le> 32 \<and> m' = m\<lparr>m_CIDR4 := n\<rparr>)"
  using assms by (auto simp: cidr4_def split: option.splits if_splits dest: parseCIDRLen_range)

lemma parseDualCIDR_ok:
  assumes "parseDualCIDR m s = Inr m'" "m_CIDR4 m = -1" "m_CIDR6 m = -1"
  shows "\<exists>a b. -1 \<le> a \<and> a \<le> 32 \<and> -1 \<le> b \<and> b \<le> 128 \<and> m' = m\<lparr>m_CIDR4 := a, m_CIDR6 := b\<rparr>"
proof -
  obtain v4 v6 dual where c: "cut_slashes s = (v4, v6, dual)" by (metis prod_cases3)
  then obtain m1 where m1: "cidr4 m v4 = Inr m1"
    using assms(1) by (cases "cidr4 m v4") (simp_all add: parseDualCIDR_def)
  obtain a where a: "-1 \<le> a" "a \<le> 32" "m1 = m\<lparr>m_CIDR4 := a\<rparr>"
  proof (cases "m1 = m")
    case True
    then have "m1 = m\<lparr>m_CIDR4 := -1\<rparr>" using assms(2) by simp
    then show thesis by (rule that [rotated 2]) simp_all
  next
    case False
    then obtain n where "0 \<le> n" "n \<le> 32" "m1 = m\<lparr>m_CIDR4 := n\<rparr>" using cidr4_ok [OF m1] by blast
    then show thesis by (intro that [of n]) simp_all
  qed
  show ?thesis
  proof (cases dual)
    case True
    then obtain n where n: "parseCIDRLen v6 128 = Some n" "m' = m1\<lparr>m_CIDR6 := n\<rparr>"
      using assms(1) c m1 by (cases "parseCIDRLen v6 128") (simp_all add: parseDualCIDR_def)
    have "-1 \<le> n" "n \<le> 128" using parseCIDRLen_range [OF n(1)] by simp_all
    then show ?thesis using n(2) a by blast
  next
    case False
    then have "m' = m1" using assms(1) c m1 by (simp add: parseDualCIDR_def)
    then have "m' = m\<lparr>m_CIDR4 := a, m_CIDR6 := -1\<rparr>" using a(3) assms(3) by simp
    then show ?thesis using a(1,2) by (intro exI [of _ a] exI [of _ "-1"]) simp
  qed
qed

lemma parse_host_ok:
  assumes "parse_host m arg = Inr m'" "m_CIDR4 m = -1" "m_CIDR6 m = -1" "m_Domain m = []"
  shows "m_Qualifier m' = m_Qualifier m \<and> m_Kind m' = m_Kind m \<and> m_Network m' = m_Network m \<and>
    -1 \<le> m_CIDR4 m' \<and> m_CIDR4 m' \<le> 32 \<and> -1 \<le> m_CIDR6 m' \<and> m_CIDR6 m' \<le> 128 \<and>
    (m_Kind m = ''ptr'' \<longrightarrow> m_CIDR4 m' = -1 \<and> m_CIDR6 m' = -1) \<and>
    (m_Domain m' \<noteq> [] \<longrightarrow> validateDomainSpec (m_Domain m') False = None \<and> CHR ''/'' \<notin> set (m_Domain m'))"
proof -
  obtain ds cidr where dc: "(case index_byte CHR ''/'' arg of
             Some i \<Rightarrow> (take i arg, drop i arg) | None \<Rightarrow> (arg, [])) = (ds, cidr)" by fastforce
  have noslash: "CHR ''/'' \<notin> set ds"
  proof (cases "index_byte CHR ''/'' arg")
    case None
    then show ?thesis using dc index_byte_None [THEN iffD1, OF None] by simp
  next
    case (Some i)
    then have "\<forall>j<i. arg ! j \<noteq> CHR ''/''" "i < length arg"
      using index_where_Some [of "\<lambda>d. d = CHR ''/''" arg i] by (auto simp: index_byte_def)
    then show ?thesis using dc Some by (auto simp: in_set_conv_nth)
  qed
  obtain m1 where m1: "parse_host_domain m ds = Inr m1"
    using assms(1) dc by (cases "parse_host_domain m ds") (simp_all add: parse_host_def)
  then have d: "m1 = m \<or> (\<exists>d. d \<noteq> [] \<and> ds = '':'' @ d \<and> validateDomainSpec d False = None \<and> m1 = m\<lparr>m_Domain := d\<rparr>)"
    using parse_host_domain_ok by blast
  then have e: "m_CIDR4 m1 = -1" "m_CIDR6 m1 = -1" "m_Kind m1 = m_Kind m" "m_Qualifier m1 = m_Qualifier m"
    "m_Network m1 = m_Network m"
    "m_Domain m1 \<noteq> [] \<longrightarrow> validateDomainSpec (m_Domain m1) False = None \<and> CHR ''/'' \<notin> set (m_Domain m1)"
    using assms(2-4) noslash by auto
  have r: "(if cidr = [] then Inr m1 else if m_Kind m1 = ''ptr'' then Inl PtrTakesNoCIDR else parseDualCIDR m1 cidr) = Inr m'"
    using assms(1) dc m1 by (simp add: parse_host_def Let_def)
  show ?thesis
  proof (cases "cidr = []")
    case True
    then show ?thesis using r e by simp
  next
    case False
    then have "m_Kind m1 \<noteq> ''ptr''" "parseDualCIDR m1 cidr = Inr m'" using r by (simp_all split: if_split_asm)
    then show ?thesis using parseDualCIDR_ok [OF _ e(1,2)] e by fastforce
  qed
qed

lemma parseMechanism_ok:
  assumes "parseMechanism t = Inr m"
  shows "mech_ok m"
proof -
  obtain q rest where qr: "split_qualifier t = (q, rest)" by fastforce
  define kind where "kind = takeWhile (\<lambda>c. c \<noteq> CHR '':'' \<and> c \<noteq> CHR ''/'') rest"
  define arg where "arg = drop (length kind) rest"
  define m0 where "m0 = mech0\<lparr>m_Qualifier := q, m_Kind := to_lower kind\<rparr>"
  have f: "m_CIDR4 m0 = -1" "m_CIDR6 m0 = -1" "m_Domain m0 = []" "m_Network m0 = None"
    by (simp_all add: m0_def mech0_def)
  have P: "(if m_Kind m0 = ''all'' then (if arg \<noteq> [] then Inl AllTakesNoArguments else Inr m0)
         else if m_Kind m0 = ''include'' \<or> m_Kind m0 = ''exists'' then parse_include m0 arg
         else if m_Kind m0 = ''a'' \<or> m_Kind m0 = ''mx'' \<or> m_Kind m0 = ''ptr'' then parse_host m0 arg
         else if m_Kind m0 = ''ip4'' \<or> m_Kind m0 = ''ip6'' then parse_ip m0 arg
         else Inl (UnknownMechanism (m_Kind m0))) = Inr m"
    using assms by (simp only: parseMechanism_def qr prod.case Let_def kind_def [symmetric] arg_def [symmetric] m0_def [symmetric])
  consider "m_Kind m0 = ''all''" | "m_Kind m0 = ''include'' \<or> m_Kind m0 = ''exists''"
    | "m_Kind m0 = ''a'' \<or> m_Kind m0 = ''mx'' \<or> m_Kind m0 = ''ptr''" | "m_Kind m0 = ''ip4'' \<or> m_Kind m0 = ''ip6''"
    using P by (auto split: if_split_asm)
  then show ?thesis
  proof cases
    case 1
    then have "m = m0" using P by (simp split: if_split_asm)
    then show ?thesis using 1 f by (simp add: mech_ok_def)
  next
    case 2
    then have "parse_include m0 arg = Inr m" using P by (auto split: if_split_asm)
    then show ?thesis using 2 f parse_include_ok by (fastforce simp: mech_ok_def)
  next
    case 3
    then have "parse_host m0 arg = Inr m" using P by (auto split: if_split_asm)
    from parse_host_ok [OF this f(1,2,3)] show ?thesis using 3 f by (auto simp: mech_ok_def)
  next
    case 4
    then have "parse_ip m0 arg = Inr m" using P by (auto split: if_split_asm)
    then obtain v p where "parseNetwork v (m_Kind m0 = ''ip4'') = Inr p" "m = m0\<lparr>m_Network := Some p\<rparr>"
      by (auto simp: parse_ip_def split: option.splits if_splits sum.splits)
    then show ?thesis using 4 f parseNetwork_ok by (fastforce simp: mech_ok_def)
  qed
qed

lemma parse_term_ok:
  assumes "parse_term r t = Inr r'" "list_all mech_ok (sr_Mechanisms r)"
    "sr_Redirect r \<noteq> [] \<longrightarrow> validateDomainSpec (sr_Redirect r) False = None"
    "sr_Exp r \<noteq> [] \<longrightarrow> validateDomainSpec (sr_Exp r) True = None"
  shows "list_all mech_ok (sr_Mechanisms r') \<and> sr_Raw r' = sr_Raw r \<and>
    (sr_Redirect r' \<noteq> [] \<longrightarrow> validateDomainSpec (sr_Redirect r') False = None) \<and>
    (sr_Exp r' \<noteq> [] \<longrightarrow> validateDomainSpec (sr_Exp r') True = None)"
  using assms parseMechanism_ok
  by (auto simp: parse_term_def addModifier_def split: option.splits prod.splits sum.splits if_splits)

lemma parse_terms_ok:
  assumes "parse_terms r ts = Inr r'" "list_all mech_ok (sr_Mechanisms r)"
    "sr_Redirect r \<noteq> [] \<longrightarrow> validateDomainSpec (sr_Redirect r) False = None"
    "sr_Exp r \<noteq> [] \<longrightarrow> validateDomainSpec (sr_Exp r) True = None"
  shows "list_all mech_ok (sr_Mechanisms r') \<and> sr_Raw r' = sr_Raw r \<and>
    (sr_Redirect r' \<noteq> [] \<longrightarrow> validateDomainSpec (sr_Redirect r') False = None) \<and>
    (sr_Exp r' \<noteq> [] \<longrightarrow> validateDomainSpec (sr_Exp r') True = None)"
  using assms
proof (induction ts arbitrary: r)
  case (Cons t ts)
  then obtain r1 where r1: "parse_term r t = Inr r1" "parse_terms r1 ts = Inr r'"
    by (cases "parse_term r t") simp_all
  then show ?case using Cons.IH [OF r1(2)] parse_term_ok [OF r1(1)] Cons.prems by simp
qed simp

text \<open>
  C15 What Parse accepts is a well-formed SPF record: it starts with the version term, every
  mechanism has one of the eight kinds with the arguments its kind requires and allows, CIDR
  lengths and networks are in the range of their address family, and every domain, the redirect
  and the explanation are valid domain specifications.
\<close>

theorem spf_Parse_wellformed:
  assumes "spf_Parse txt = Inr r"
  shows "IsSPF txt \<and> sr_Raw r = txt \<and> list_all mech_ok (sr_Mechanisms r) \<and>
    (sr_Redirect r \<noteq> [] \<longrightarrow> validateDomainSpec (sr_Redirect r) False = None) \<and>
    (sr_Exp r \<noteq> [] \<longrightarrow> validateDomainSpec (sr_Exp r) True = None)"
  using assms parse_terms_ok [of "\<lparr>sr_Raw = txt, sr_Mechanisms = [], sr_Redirect = [], sr_Exp = []\<rparr>"]
  by (fastforce simp: spf_Parse_def split: if_splits)

theorem spf_Parse_wellformed_witness:
  "\<exists>m. spf_Parse ''v=spf1 a:x.y/24 -all'' = Inr m \<and> list_all mech_ok (sr_Mechanisms m) \<and> length (sr_Mechanisms m) = 2"
proof -
  define r where "r = \<lparr>sr_Raw = ''v=spf1 a:x.y/24 -all'', sr_Mechanisms =
      [mech0\<lparr>m_Kind := ''a'', m_Domain := ''x.y'', m_CIDR4 := 24\<rparr>, mech0\<lparr>m_Qualifier := Fail, m_Kind := ''all''\<rparr>],
      sr_Redirect = [], sr_Exp = []\<rparr>"
  have "spf_Parse ''v=spf1 a:x.y/24 -all'' = Inr r" unfolding r_def by code_simp
  from this spf_Parse_wellformed [OF this] show ?thesis by (auto simp: r_def)
qed

text \<open>A sign is let through by Atoi, which the grammar of RFC 7208 does not allow.\<close>

lemma parseCIDRLen_sign: "parseCIDRLen ''+24'' 32 = Some 24 \<and> parseCIDRLen ''-0'' 32 = Some 0"
  by code_simp

subsection \<open>Printing and parsing a mechanism\<close>

definition spf_kinds :: "string set" where
  "spf_kinds = {''all'', ''include'', ''exists'', ''a'', ''mx'', ''ptr'', ''ip4'', ''ip6''}"

lemma kind_text:
  "k \<in> spf_kinds \<Longrightarrow> k \<noteq> [] \<and> qualifier_of (hd k) = None \<and> to_lower k = k \<and> CHR '':'' \<notin> set k \<and> CHR ''/'' \<notin> set k"
  by (auto simp: spf_kinds_def qualifier_of_def to_lower_def lower_char_def is_upper_def byte_def)

definition qualifier_text :: "qualifier \<Rightarrow> string" where
  "qualifier_text q = (if q \<noteq> Pass then [qualifier_char q] else [])"

lemma split_qualifier_text:
  "s \<noteq> [] \<Longrightarrow> qualifier_of (hd s) = None \<Longrightarrow> split_qualifier (qualifier_text q @ s) = (q, s)"
  by (cases q) (auto simp: split_qualifier_def qualifier_text_def qualifier_char_def qualifier_of_def)

lemma takeWhile_kind:
  assumes "CHR '':'' \<notin> set k" "CHR ''/'' \<notin> set k" "arg = [] \<or> hd arg = CHR '':''"
  shows "takeWhile (\<lambda>c. c \<noteq> CHR '':'' \<and> c \<noteq> CHR ''/'') (k @ arg) = k"
  using assms by (cases arg) (auto simp: takeWhile_eq_all_conv takeWhile_append2 takeWhile_append)

lemma parseMechanism_text:
  fixes q :: qualifier
  assumes k: "k \<in> spf_kinds" and arg: "arg = [] \<or> hd arg = CHR '':''"
  defines "m \<equiv> mech0\<lparr>m_Qualifier := q, m_Kind := k\<rparr>"
  shows "parseMechanism (qualifier_text q @ k @ arg) =
     (if k = ''all'' then (if arg \<noteq> [] then Inl AllTakesNoArguments else Inr m)
      else if k = ''include'' \<or> k = ''exists'' then parse_include m arg
      else if k = ''a'' \<or> k = ''mx'' \<or> k = ''ptr'' then parse_host m arg
      else parse_ip m arg)"
proof -
  note t = kind_text [OF k]
  have sq: "split_qualifier (qualifier_text q @ k @ arg) = (q, k @ arg)"
    by (rule split_qualifier_text) (use t in auto)
  have tw: "takeWhile (\<lambda>c. c \<noteq> CHR '':'' \<and> c \<noteq> CHR ''/'') (k @ arg) = k"
    by (rule takeWhile_kind) (use t arg in auto)
  have dr: "drop (length k) (k @ arg) = arg" by simp
  have lo: "to_lower k = k" using t by blast
  have P: "parseMechanism (qualifier_text q @ k @ arg) =
     (if m_Kind m = ''all'' then (if arg \<noteq> [] then Inl AllTakesNoArguments else Inr m)
         else if m_Kind m = ''include'' \<or> m_Kind m = ''exists'' then parse_include m arg
         else if m_Kind m = ''a'' \<or> m_Kind m = ''mx'' \<or> m_Kind m = ''ptr'' then parse_host m arg
         else if m_Kind m = ''ip4'' \<or> m_Kind m = ''ip6'' then parse_ip m arg
         else Inl (UnknownMechanism (m_Kind m)))"
    by (simp only: parseMechanism_def sq prod.case Let_def tw dr lo m_def)
  have "m_Kind m = k" by (simp add: m_def)
  moreover have "k = ''all'' \<or> k = ''include'' \<or> k = ''exists'' \<or> k = ''a'' \<or> k = ''mx'' \<or> k = ''ptr'' \<or> k = ''ip4'' \<or> k = ''ip6''"
    using k by (simp add: spf_kinds_def)
  ultimately show ?thesis unfolding P by (elim disjE) simp_all
qed

lemma parseNetwork_String:
  assumes "network_ok True p"
  shows "parseNetwork (prefix_String (Some p)) True = Inr p"
proof -
  obtain b where b: "px_Addr p = V4 b" "addr_ok (V4 b)" and n: "px_Bits p \<le> 32"
    using assms by (cases "px_Addr p") (auto simp: network_ok_def is4_def bit_len_def)
  have noslash: "CHR ''/'' \<notin> set (dotted b)"
  proof -
    have "CHR ''/'' \<notin> set (nat_digits i)" for i
      using nat_digits_digits [of "CHR ''/''" i] by (auto simp: is_digit_def byte_def)
    moreover have "set (join sep ws) \<subseteq> set sep \<union> \<Union> (set ` set ws)" for sep ws
      by (induction sep ws rule: join.induct) auto
    ultimately show ?thesis unfolding dotted_def by fastforce
  qed
  have len: "parseCIDRLen (nat_digits (px_Bits p)) 32 = Some (int (px_Bits p))"
  proof -
    have "\<not> (1 < length (nat_digits (px_Bits p)) \<and> hd (nat_digits (px_Bits p)) = CHR ''0'')"
      using nat_digits_hd [of "px_Bits p"] nat_digits_short [of 0] by (cases "px_Bits p = 0") auto
    then show ?thesis using n atoi_nat_digits [of "px_Bits p"] by (simp add: parseCIDRLen_def)
  qed
  have "prefix_String (Some p) = dotted b @ CHR ''/'' # nat_digits (px_Bits p)"
    using b by (simp add: prefix_String_def addr_String_def)
  moreover have "ParseAddr (dotted b) = Some (V4 b)"
    using ParseAddr_String4 [OF b(2)] by (simp add: addr_String_def)
  ultimately show ?thesis
    using len b by (simp add: parseNetwork_def cut_append [OF noslash] zone_of_def is4_def bit_len_def)
qed

lemma mech_eqI:
  assumes "m_CIDR4 m = -1" "m_CIDR6 m = -1"
  shows "m = mech0\<lparr>m_Qualifier := m_Qualifier m, m_Kind := m_Kind m, m_Domain := m_Domain m, m_Network := m_Network m\<rparr>"
  using assms by (simp add: mech0_def)

lemma mechanism_parse_String:
  assumes ok: "mech_ok m" and c: "m_CIDR4 m = -1" "m_CIDR6 m = -1" and no6: "m_Kind m \<noteq> ''ip6''"
  shows "parseMechanism (mechanism_String m) = Inr m"
proof -
  define q k where "q = m_Qualifier m" and "k = m_Kind m"
  have kk: "k \<in> spf_kinds" using ok by (auto simp: mech_ok_def spf_kinds_def k_def split: if_splits)
  have q: "qualifier_text q = (if m_Qualifier m \<noteq> Pass then [qualifier_char (m_Qualifier m)] else [])"
    by (simp add: qualifier_text_def q_def)
  note e = mech_eqI [OF c, folded q_def k_def]
  consider "k = ''all''" | "k = ''include'' \<or> k = ''exists''" | "k = ''a'' \<or> k = ''mx'' \<or> k = ''ptr''" | "k = ''ip4''"
    using kk no6 by (auto simp: spf_kinds_def k_def)
  then show ?thesis
  proof cases
    case 1
    then have "m_Domain m = []" "m_Network m = None" using ok by (simp_all add: mech_ok_def k_def)
    moreover from this have "mechanism_String m = qualifier_text q @ k @ []"
      using 1 by (simp add: mechanism_String_def q k_def Let_def)
    ultimately show ?thesis using e 1 parseMechanism_text [OF kk, of "[]" q] by (simp add: mech0_def)
  next
    case 2
    then have d: "m_Domain m \<noteq> []" "validateDomainSpec (m_Domain m) False = None" "m_Network m = None"
      using ok by (auto simp: mech_ok_def k_def)
    moreover from this have "mechanism_String m = qualifier_text q @ k @ (CHR '':'' # m_Domain m)"
      using 2 by (auto simp: mechanism_String_def q k_def Let_def)
    ultimately show ?thesis using e 2 parseMechanism_text [OF kk, of "CHR '':'' # m_Domain m" q]
      by (auto simp: parse_include_def cut_prefix_def has_prefix_def mech0_def)
  next
    case 3
    then have d: "m_Domain m \<noteq> [] \<longrightarrow> validateDomainSpec (m_Domain m) False = None \<and> CHR ''/'' \<notin> set (m_Domain m)"
      "m_Network m = None" using ok by (auto simp: mech_ok_def k_def)
    show ?thesis
    proof (cases "m_Domain m = []")
      case True
      then have "mechanism_String m = qualifier_text q @ k @ []"
        using 3 by (auto simp: mechanism_String_def q k_def Let_def)
      then show ?thesis using e 3 d True parseMechanism_text [OF kk, of "[]" q]
        by (auto simp: parse_host_def index_byte_def parse_host_domain_def mech0_def)
    next
      case False
      then have s: "mechanism_String m = qualifier_text q @ k @ (CHR '':'' # m_Domain m)"
        using 3 by (auto simp: mechanism_String_def q k_def Let_def)
      have i: "index_byte CHR ''/'' (CHR '':'' # m_Domain m) = None"
        using d(1) False by (simp add: index_byte_None)
      have "parse_host (mech0\<lparr>m_Qualifier := q, m_Kind := k\<rparr>) (CHR '':'' # m_Domain m) =
          Inr (mech0\<lparr>m_Qualifier := q, m_Kind := k, m_Domain := m_Domain m\<rparr>)"
        unfolding parse_host_def i
        using d(1) False by (simp add: parse_host_domain_def cut_prefix_def has_prefix_def)
      then show ?thesis using e 3 d(2) parseMechanism_text [OF kk, of "CHR '':'' # m_Domain m" q]
        unfolding s by (auto simp: mech0_def)
    qed
  next
    case 4
    then obtain p where p: "m_Domain m = []" "m_Network m = Some p" "network_ok True p"
      using ok by (auto simp: mech_ok_def k_def)
    have s: "mechanism_String m = qualifier_text q @ k @ (CHR '':'' # prefix_String (Some p))"
      using 4 p by (simp add: mechanism_String_def q k_def Let_def)
    have "prefix_String (Some p) \<noteq> []" by (simp add: prefix_String_def)
    then have "parse_ip (mech0\<lparr>m_Qualifier := q, m_Kind := k\<rparr>) (CHR '':'' # prefix_String (Some p)) =
        Inr (mech0\<lparr>m_Qualifier := q, m_Kind := k, m_Network := Some p\<rparr>)"
      using parseNetwork_String [OF p(3)] 4 by (simp add: parse_ip_def cut_prefix_def has_prefix_def)
    then show ?thesis using e 4 p parseMechanism_text [OF kk, of "CHR '':'' # prefix_String (Some p)" q]
      unfolding s by (simp add: mech0_def)
  qed
qed

text \<open>
  A mechanism's text stands for it: a parsed mechanism without CIDR lengths, other than ip6,
  prints to a term that parses to the same mechanism, whatever spelling it was read from.
\<close>

lemma mechanism_String_roundtrip:
  assumes "parseMechanism t = Inr m" and "m_CIDR4 m = -1" "m_CIDR6 m = -1" and "m_Kind m \<noteq> ''ip6''"
  shows "parseMechanism (mechanism_String m) = Inr m"
  using mechanism_parse_String [OF parseMechanism_ok [OF assms(1)] assms(2-4)] .

lemma mechanism_String_roundtrip_witness:
  "parseMechanism ''~ip4:192.0.2.0/24'' = Inr (mech0\<lparr>m_Qualifier := SoftFail, m_Kind := ''ip4'',
     m_Network := Some \<lparr>px_Addr = V4 [192, 0, 2, 0], px_Bits = 24\<rparr>\<rparr>)"
proof -
  let ?m = "mech0\<lparr>m_Qualifier := SoftFail, m_Kind := ''ip4'', m_Network := Some \<lparr>px_Addr = V4 [192, 0, 2, 0], px_Bits = 24\<rparr>\<rparr>"
  have "parseMechanism ''~IP4:192.0.2.0/24'' = Inr ?m" by code_simp
  moreover have "mechanism_String ?m = ''~ip4:192.0.2.0/24''" by code_simp
  ultimately show ?thesis
    using mechanism_String_roundtrip [of "''~IP4:192.0.2.0/24''" ?m] by (simp add: mech0_def)
qed
end
