(* ===== verification/SetaSpfEval.thy ===== *)
theory SetaSpfEval
  imports SetaSpf
begin

text \<open>
  Package checks/email/internal/spf, eval.go: the walk over a record and everything it includes or
  redirects to. The walker's state is passed along; its field \<open>wk_issued\<close> lists the calls to the
  resolver, prefetches included. The walk takes the number of levels left, maxDepth - depth,
  instead of the depth; \<open>fqdn\<close> is dns.Fqdn (see \<open>dns_names\<close>).
\<close>

subsection \<open>The walker\<close>

definition MaxLookups :: nat where "MaxLookups = 10"
definition MaxMXNames :: nat where "MaxMXNames = 10"
definition maxDepth :: nat where "maxDepth = 10"
definition maxQueries :: nat where "maxQueries = 100"

datatype problem_msg =
    TooManyMX string string nat
  | LoopsBack string
  | NoSPFRecord string
  | ManySPFRecords string nat
  | InvalidSPF string spf_error

record evaluation =
  ev_Lookups :: nat
  ev_VoidLookups :: nat
  ev_Cost :: "(string \<times> nat) list"
  ev_Voids :: "string list"
  ev_Problems :: "(string \<times> problem_msg) list"
  ev_PermissiveIncludes :: "string list"
  ev_Effective :: "mechanism option"
  ev_Unexpanded :: "string list"
  ev_Incomplete :: bool

record walker =
  wk_ev :: evaluation
  wk_stack :: "string set"
  wk_queries :: nat
  wk_issued :: "(string \<times> nat) list"

definition evaluation0 :: evaluation where
  "evaluation0 = \<lparr>ev_Lookups = 0, ev_VoidLookups = 0, ev_Cost = [], ev_Voids = [], ev_Problems = [],
     ev_PermissiveIncludes = [], ev_Effective = None, ev_Unexpanded = [], ev_Incomplete = False\<rparr>"

abbreviation upd_ev :: "(evaluation \<Rightarrow> evaluation) \<Rightarrow> walker \<Rightarrow> walker" where
  "upd_ev f w \<equiv> w\<lparr>wk_ev := f (wk_ev w)\<rparr>"

abbreviation lookups :: "walker \<Rightarrow> nat" where "lookups w \<equiv> ev_Lookups (wk_ev w)"

definition count_lookup :: "walker \<Rightarrow> walker" where
  "count_lookup w = upd_ev (\<lambda>e. e\<lparr>ev_Lookups := Suc (ev_Lookups e)\<rparr>) w"

definition void :: "string \<Rightarrow> walker \<Rightarrow> walker" where
  "void term w = upd_ev (\<lambda>e. e\<lparr>ev_VoidLookups := Suc (ev_VoidLookups e), ev_Voids := ev_Voids e @ [term]\<rparr>) w"

definition add_problem :: "string \<Rightarrow> problem_msg \<Rightarrow> walker \<Rightarrow> walker" where
  "add_problem where msg w =
     (if (where, msg) \<in> set (ev_Problems (wk_ev w)) then w
      else upd_ev (\<lambda>e. e\<lparr>ev_Problems := ev_Problems e @ [(where, msg)]\<rparr>) w)"

definition unexpanded :: "string \<Rightarrow> walker \<Rightarrow> walker" where
  "unexpanded term w = upd_ev (\<lambda>e. e\<lparr>ev_Unexpanded := ev_Unexpanded e @ [term]\<rparr>) w"

definition incomplete :: "walker \<Rightarrow> walker" where
  "incomplete w = upd_ev (\<lambda>e. e\<lparr>ev_Incomplete := True\<rparr>) w"

definition must_stop :: "walker \<Rightarrow> bool" where
  "must_stop w \<longleftrightarrow> maxQueries \<le> wk_queries w \<or> 5 * MaxLookups < lookups w"

text \<open>\<open>w.stop\<close>, with the state it leaves.\<close>

definition stop :: "walker \<Rightarrow> bool \<times> walker" where
  "stop w = (if must_stop w then (True, incomplete w) else (False, w))"

text \<open>\<open>w.lookup\<close>, and the bookkeeping of a call to the resolver.\<close>

definition walker_lookup ::
  "(string \<Rightarrow> nat \<Rightarrow> 'e + response) \<Rightarrow> string \<Rightarrow> nat \<Rightarrow> walker \<Rightarrow> ('e + response) \<times> walker" where
  "walker_lookup r name qtype w =
     (r name qtype, w\<lparr>wk_queries := Suc (wk_queries w), wk_issued := wk_issued w @ [(name, qtype)]\<rparr>)"

text \<open>\<open>Fetch\<close>: the SPF records of a domain, and whether there was no TXT record at all.\<close>

definition Fetch :: "(string \<Rightarrow> nat \<Rightarrow> 'e + response) \<Rightarrow> string \<Rightarrow> 'e + string list \<times> bool" where
  "Fetch r domain =
     (case r domain TypeTXT of
        Inl e \<Rightarrow> Inl e
      | Inr resp \<Rightarrow> Inr (filter IsSPF (resp_TXT resp), resp_TXT resp = []))"

subsection \<open>Prefetching\<close>

definition prefetch_add :: "string \<Rightarrow> string \<Rightarrow> nat list \<Rightarrow> (string \<times> nat) list" where
  "prefetch_add domain spec qtypes =
     (if HasMacro spec then [] else map (\<lambda>t. (if spec \<noteq> [] then spec else domain, t)) qtypes)"

definition prefetch_mechanism :: "string \<Rightarrow> mechanism \<Rightarrow> (string \<times> nat) list" where
  "prefetch_mechanism domain m =
     (if m_Kind m = ''include'' then prefetch_add domain (m_Domain m) [TypeTXT]
      else if m_Kind m = ''a'' then prefetch_add domain (m_Domain m) [TypeA, TypeAAAA]
      else if m_Kind m = ''mx'' then prefetch_add domain (m_Domain m) [TypeMX]
      else if m_Kind m = ''exists'' then prefetch_add domain (m_Domain m) [TypeA]
      else [])"

definition prefetch_queries :: "string \<Rightarrow> spf_record \<Rightarrow> (string \<times> nat) list" where
  "prefetch_queries domain rec =
     concat (map (prefetch_mechanism domain) (sr_Mechanisms rec)) @
     (if record_All rec = None \<and> sr_Redirect rec \<noteq> [] then prefetch_add domain (sr_Redirect rec) [TypeTXT] else [])"

definition prefetch :: "string \<Rightarrow> spf_record \<Rightarrow> walker \<Rightarrow> walker" where
  "prefetch domain rec w =
     (let qs = prefetch_queries domain rec in
      if length qs < 2 \<or> maxQueries - wk_queries w < length qs then w
      else w\<lparr>wk_issued := wk_issued w @ qs\<rparr>)"

subsection \<open>The walk\<close>

text \<open>The queries of an a, exists or mx mechanism.\<close>

fun query_all ::
  "(string \<Rightarrow> nat \<Rightarrow> 'e + response) \<Rightarrow> string \<Rightarrow> nat list \<Rightarrow> bool \<Rightarrow> walker \<Rightarrow> 'e + bool \<times> walker" where
  "query_all r target [] blank w = Inr (blank, w)"
| "query_all r target (qt # qts) blank w =
     (case walker_lookup r target qt w of (res, w') \<Rightarrow>
      case res of
        Inl e \<Rightarrow> Inl e
      | Inr resp \<Rightarrow> query_all r target qts (if Records resp \<noteq> [] then False else blank) w')"

definition query_mechanism ::
  "(string \<Rightarrow> nat \<Rightarrow> 'e + response) \<Rightarrow> mechanism \<Rightarrow> string \<Rightarrow> string \<Rightarrow> walker \<Rightarrow> 'e + walker" where
  "query_mechanism r m target where w =
     (if m_Kind m = ''a'' \<or> m_Kind m = ''exists'' then
        (case query_all r target (if m_Kind m = ''exists'' then [TypeA] else [TypeA, TypeAAAA]) True w of
           Inl e \<Rightarrow> Inl e
         | Inr (blank, w') \<Rightarrow> Inr (if blank then void (mechanism_String m) w' else w'))
      else if m_Kind m = ''mx'' then
        (case walker_lookup r target TypeMX w of (res, w') \<Rightarrow>
         case res of
           Inl e \<Rightarrow> Inl e
         | Inr resp \<Rightarrow>
           (let n = length (resp_MX resp);
                w1 = (if n = 0 then void (mechanism_String m) w' else w')
            in Inr (if MaxMXNames < n then add_problem where (TooManyMX (mechanism_String m) target n) w1 else w1)))
      else Inr w)"

text \<open>\<open>w.mechanism\<close>; \<open>fol\<close> is \<open>w.follow\<close> at the walk's depth.\<close>

definition mechanism_step ::
  "(string \<Rightarrow> nat \<Rightarrow> 'e + response) \<Rightarrow> (string \<Rightarrow> string \<Rightarrow> bool \<Rightarrow> walker \<Rightarrow> 'e + walker) \<Rightarrow>
   string \<Rightarrow> mechanism \<Rightarrow> string \<Rightarrow> walker \<Rightarrow> 'e + walker" where
  "mechanism_step r fol domain m where w0 =
     (let w = count_lookup w0 in
      if m_Domain m \<noteq> [] \<and> HasMacro (m_Domain m) then Inr (unexpanded (mechanism_String m) w)
      else
        let target = (if m_Domain m \<noteq> [] then trim_suffix (to_lower (m_Domain m)) ''.'' else domain) in
        if m_Kind m = ''include'' then fol target (''include:'' @ target) False w
        else query_mechanism r m target where w)"

text \<open>The cost entry of a top-level term.\<close>

definition cost_open :: "string \<Rightarrow> walker \<Rightarrow> walker" where
  "cost_open term w = upd_ev (\<lambda>e. e\<lparr>ev_Cost := ev_Cost e @ [(term, 0)]\<rparr>) w"

definition cost_close :: "nat \<Rightarrow> walker \<Rightarrow> walker" where
  "cost_close n w = upd_ev (\<lambda>e. e\<lparr>ev_Cost := butlast (ev_Cost e) @ [(fst (last (ev_Cost e)), n)]\<rparr>) w"

text \<open>The loop of \<open>w.walk\<close> over the mechanisms; True when it stopped at the work caps.\<close>

fun walk_mechanisms ::
  "(string \<Rightarrow> nat \<Rightarrow> 'e + response) \<Rightarrow> (string \<Rightarrow> string \<Rightarrow> bool \<Rightarrow> walker \<Rightarrow> 'e + walker) \<Rightarrow>
   string \<Rightarrow> mechanism list \<Rightarrow> string \<Rightarrow> bool \<Rightarrow> walker \<Rightarrow> 'e + bool \<times> walker" where
  "walk_mechanisms r fol domain [] where is_top w = Inr (False, w)"
| "walk_mechanisms r fol domain (m # ms) where is_top w =
     (if \<not> CountsLookup m then walk_mechanisms r fol domain ms where is_top w
      else
        let own = is_top \<and> where = [];
            w1 = (if own then cost_open (mechanism_String m) w else w);
            before = lookups w1
        in case mechanism_step r fol domain m where w1 of
             Inl e \<Rightarrow> Inl e
           | Inr w2 \<Rightarrow>
             (let w3 = (if own then cost_close (lookups w2 - before) w2 else w2) in
              case stop w3 of (stopped, w4) \<Rightarrow>
              if stopped then Inr (True, w4) else walk_mechanisms r fol domain ms where is_top w4))"

text \<open>The part of \<open>w.walk\<close> after the loop: the record's "all", or its redirect.\<close>

definition walk_rest ::
  "(string \<Rightarrow> string \<Rightarrow> bool \<Rightarrow> walker \<Rightarrow> 'e + walker) \<Rightarrow> spf_record \<Rightarrow> string \<Rightarrow> bool \<Rightarrow> walker \<Rightarrow> 'e + walker" where
  "walk_rest fol rec where is_top w =
     (case record_All rec of
        Some all \<Rightarrow> Inr (if is_top then upd_ev (\<lambda>e. e\<lparr>ev_Effective := Some all\<rparr>) w else w)
      | None \<Rightarrow>
        if sr_Redirect rec = [] then Inr w
        else
          let own = is_top \<and> where = [];
              w1 = count_lookup w;
              w2 = (if own then cost_close 1 (cost_open (''redirect='' @ sr_Redirect rec) w1) else w1);
              before = lookups w2
          in if HasMacro (sr_Redirect rec) then Inr (unexpanded (''redirect='' @ sr_Redirect rec) w2)
             else
               let target = trim_suffix (to_lower (sr_Redirect rec)) ''.'' in
               case fol target (''redirect:'' @ target) is_top w2 of
                 Inl e \<Rightarrow> Inl e
               | Inr w3 \<Rightarrow> Inr (if own then cost_close (1 + (lookups w3 - before)) w3 else w3))"

definition walk_body ::
  "(string \<Rightarrow> nat \<Rightarrow> 'e + response) \<Rightarrow> (string \<Rightarrow> string \<Rightarrow> bool \<Rightarrow> walker \<Rightarrow> 'e + walker) \<Rightarrow>
   string \<Rightarrow> spf_record \<Rightarrow> string \<Rightarrow> bool \<Rightarrow> walker \<Rightarrow> 'e + walker" where
  "walk_body r fol domain rec where is_top w =
     (case walk_mechanisms r fol domain (sr_Mechanisms rec) where is_top (prefetch domain rec w) of
        Inl e \<Rightarrow> Inl e
      | Inr (stopped, w') \<Rightarrow> if stopped then Inr w' else walk_rest fol rec where is_top w')"

text \<open>\<open>w.follow\<close>; \<open>wlk\<close> is \<open>w.walk\<close> one level deeper, None at the depth limit.\<close>

definition follow ::
  "(string \<Rightarrow> string) \<Rightarrow> (string \<Rightarrow> nat \<Rightarrow> 'e + response) \<Rightarrow>
   (string \<Rightarrow> spf_record \<Rightarrow> string \<Rightarrow> bool \<Rightarrow> walker \<Rightarrow> 'e + walker) option \<Rightarrow>
   string \<Rightarrow> string \<Rightarrow> bool \<Rightarrow> walker \<Rightarrow> 'e + walker" where
  "follow fqdn r wlk target via is_top w =
     (let key = CanonicalName fqdn target in
      if key \<in> wk_stack w then Inr (add_problem via (LoopsBack via) w)
      else case wlk of
          None \<Rightarrow> Inr (incomplete w)
        | Some walk \<Rightarrow>
          let w1 = w\<lparr>wk_queries := Suc (wk_queries w), wk_issued := wk_issued w @ [(target, TypeTXT)]\<rparr> in
          case Fetch r target of
            Inl e \<Rightarrow> Inl e
          | Inr (records, blank) \<Rightarrow>
            (case records of
               [] \<Rightarrow> Inr (add_problem via (NoSPFRecord target) (if blank then void via w1 else w1))
             | rec # others \<Rightarrow>
               if others \<noteq> [] then Inr (add_problem via (ManySPFRecords target (length records)) w1)
               else case spf_Parse rec of
                   Inl e \<Rightarrow> Inr (add_problem via (InvalidSPF target e) w1)
                 | Inr sub \<Rightarrow>
                   (let permissive = (case record_All sub of Some all \<Rightarrow> \<not> is_top \<and> m_Qualifier all = Pass | None \<Rightarrow> False);
                        w2 = (if permissive
                              then upd_ev (\<lambda>e. e\<lparr>ev_PermissiveIncludes := ev_PermissiveIncludes e @ [via]\<rparr>) w1 else w1)
                    in case walk target sub via is_top (w2\<lparr>wk_stack := insert key (wk_stack w2)\<rparr>) of
                         Inl e \<Rightarrow> Inl e
                       | Inr w3 \<Rightarrow> Inr (w3\<lparr>wk_stack := wk_stack w3 - {key}\<rparr>))))"

primrec walk ::
  "(string \<Rightarrow> string) \<Rightarrow> (string \<Rightarrow> nat \<Rightarrow> 'e + response) \<Rightarrow> nat \<Rightarrow>
   string \<Rightarrow> spf_record \<Rightarrow> string \<Rightarrow> bool \<Rightarrow> walker \<Rightarrow> 'e + walker" where
  "walk fqdn r 0 = walk_body r (follow fqdn r None)"
| "walk fqdn r (Suc left) = walk_body r (follow fqdn r (Some (walk fqdn r left)))"

definition walker0 :: "(string \<Rightarrow> string) \<Rightarrow> string \<Rightarrow> walker" where
  "walker0 fqdn domain =
     \<lparr>wk_ev = evaluation0, wk_stack = {CanonicalName fqdn domain}, wk_queries = 0, wk_issued = []\<rparr>"

definition Evaluate ::
  "(string \<Rightarrow> string) \<Rightarrow> (string \<Rightarrow> nat \<Rightarrow> 'e + response) \<Rightarrow> string \<Rightarrow> spf_record \<Rightarrow> 'e + evaluation" where
  "Evaluate fqdn r domain rec = map_sum id wk_ev (walk fqdn r maxDepth domain rec [] True (walker0 fqdn domain))"

subsection \<open>Bounds and bookkeeping\<close>

definition cost_sum :: "walker \<Rightarrow> nat" where
  "cost_sum w = sum_list (map snd (ev_Cost (wk_ev w)))"

definition voids_ok :: "walker \<Rightarrow> bool" where
  "voids_ok w \<longleftrightarrow> ev_VoidLookups (wk_ev w) = length (ev_Voids (wk_ev w))"

text \<open>
  What a part of the walk with \<open>n\<close> levels below it may do to the counters: \<open>l\<close> lookups and
  \<open>n + 2\<close> queries beyond the caps, or beyond where it started.
\<close>

definition advances :: "nat \<Rightarrow> nat \<Rightarrow> walker \<Rightarrow> walker \<Rightarrow> bool" where
  "advances l n w w' \<longleftrightarrow> wk_stack w' = wk_stack w \<and> lookups w \<le> lookups w' \<and>
     lookups w' \<le> max (lookups w) (5 * MaxLookups) + l \<and>
     wk_queries w \<le> wk_queries w' \<and> wk_queries w' \<le> max (wk_queries w) (maxQueries - 1) + n + 2 \<and>
     (voids_ok w \<longrightarrow> voids_ok w')"

lemmas cap_defs = MaxLookups_def maxQueries_def

lemma count_lookup_simps [simp]:
  "lookups (count_lookup w) = Suc (lookups w)" "wk_queries (count_lookup w) = wk_queries w"
  "wk_stack (count_lookup w) = wk_stack w" "ev_Cost (wk_ev (count_lookup w)) = ev_Cost (wk_ev w)"
  "voids_ok (count_lookup w) = voids_ok w"
  by (simp_all add: count_lookup_def voids_ok_def)

lemma void_simps [simp]:
  "lookups (void t w) = lookups w" "wk_queries (void t w) = wk_queries w"
  "wk_stack (void t w) = wk_stack w" "ev_Cost (wk_ev (void t w)) = ev_Cost (wk_ev w)"
  "voids_ok (void t w) = voids_ok w"
  by (simp_all add: void_def voids_ok_def)

lemma add_problem_simps [simp]:
  "lookups (add_problem v p w) = lookups w" "wk_queries (add_problem v p w) = wk_queries w"
  "wk_stack (add_problem v p w) = wk_stack w" "ev_Cost (wk_ev (add_problem v p w)) = ev_Cost (wk_ev w)"
  "voids_ok (add_problem v p w) = voids_ok w"
  by (simp_all add: add_problem_def voids_ok_def)

lemma unexpanded_simps [simp]:
  "lookups (unexpanded t w) = lookups w" "wk_queries (unexpanded t w) = wk_queries w"
  "wk_stack (unexpanded t w) = wk_stack w" "ev_Cost (wk_ev (unexpanded t w)) = ev_Cost (wk_ev w)"
  "voids_ok (unexpanded t w) = voids_ok w"
  by (simp_all add: unexpanded_def voids_ok_def)

lemma incomplete_simps [simp]:
  "lookups (incomplete w) = lookups w" "wk_queries (incomplete w) = wk_queries w"
  "wk_stack (incomplete w) = wk_stack w" "ev_Cost (wk_ev (incomplete w)) = ev_Cost (wk_ev w)"
  "voids_ok (incomplete w) = voids_ok w"
  by (simp_all add: incomplete_def voids_ok_def)

lemma prefetch_simps [simp]:
  "wk_ev (prefetch d rec w) = wk_ev w" "wk_queries (prefetch d rec w) = wk_queries w"
  "wk_stack (prefetch d rec w) = wk_stack w" "voids_ok (prefetch d rec w) = voids_ok w"
  by (simp_all add: prefetch_def Let_def voids_ok_def)

lemma cost_open_simps [simp]:
  "lookups (cost_open t w) = lookups w" "wk_queries (cost_open t w) = wk_queries w"
  "wk_stack (cost_open t w) = wk_stack w" "ev_Cost (wk_ev (cost_open t w)) = ev_Cost (wk_ev w) @ [(t, 0)]"
  "voids_ok (cost_open t w) = voids_ok w"
  by (simp_all add: cost_open_def voids_ok_def)

lemma cost_close_simps [simp]:
  "lookups (cost_close n w) = lookups w" "wk_queries (cost_close n w) = wk_queries w"
  "wk_stack (cost_close n w) = wk_stack w" "voids_ok (cost_close n w) = voids_ok w"
  by (simp_all add: cost_close_def voids_ok_def)

lemma cost_close_append:
  "ev_Cost (wk_ev w) = cs @ [c] \<Longrightarrow> ev_Cost (wk_ev (cost_close n w)) = cs @ [(fst c, n)]"
  by (simp add: cost_close_def)

lemma query_all_ok:
  "query_all r t qts b w = Inr (b', w') \<Longrightarrow>
    wk_ev w' = wk_ev w \<and> wk_stack w' = wk_stack w \<and> wk_queries w' = wk_queries w + length qts"
proof (induction qts arbitrary: b w)
  case (Cons qt qts)
  then show ?case by (cases "r t qt") (fastforce simp: walker_lookup_def)+
qed simp

lemma query_mechanism_ok:
  assumes "query_mechanism r m t v w = Inr w'"
  shows "lookups w' = lookups w \<and> ev_Cost (wk_ev w') = ev_Cost (wk_ev w) \<and> wk_stack w' = wk_stack w \<and>
    wk_queries w \<le> wk_queries w' \<and> wk_queries w' \<le> wk_queries w + 2 \<and> voids_ok w' = voids_ok w"
proof -
  consider "m_Kind m = ''a'' \<or> m_Kind m = ''exists''" | "m_Kind m = ''mx''"
    | "m_Kind m \<noteq> ''a''" "m_Kind m \<noteq> ''exists''" "m_Kind m \<noteq> ''mx''" by blast
  then show ?thesis
  proof cases
    case 1
    let ?qts = "if m_Kind m = ''exists'' then [TypeA] else [TypeA, TypeAAAA]"
    obtain b w1 where q: "query_all r t ?qts True w = Inr (b, w1)" "w' = (if b then void (mechanism_String m) w1 else w1)"
      using assms 1 by (cases "query_all r t ?qts True w") (auto simp: query_mechanism_def)
    show ?thesis using query_all_ok [OF q(1)] q(2) by (auto simp: voids_ok_def void_def)
  next
    case 2
    then obtain resp where "r t TypeMX = Inr resp"
      using assms by (cases "r t TypeMX") (auto simp: query_mechanism_def walker_lookup_def)
    then show ?thesis using assms 2
      by (auto simp: query_mechanism_def walker_lookup_def Let_def voids_ok_def void_def add_problem_def split: if_splits)
  next
    case 3
    then show ?thesis using assms by (simp add: query_mechanism_def)
  qed
qed

text \<open>What a follow function must satisfy for a walk with \<open>n\<close> levels left.\<close>

definition follow_ok :: "nat \<Rightarrow> (string \<Rightarrow> string \<Rightarrow> bool \<Rightarrow> walker \<Rightarrow> 'e + walker) \<Rightarrow> bool" where
  "follow_ok n fol \<longleftrightarrow> (\<forall>target via tp w w'. via \<noteq> [] \<longrightarrow> fol target via tp w = Inr w' \<longrightarrow>
     advances n n w w' \<and> ev_Cost (wk_ev w') = ev_Cost (wk_ev w))"

lemma follow_okD:
  assumes "follow_ok n fol" "via \<noteq> []" "fol target via tp w = Inr w'"
  shows "advances n n w w' \<and> ev_Cost (wk_ev w') = ev_Cost (wk_ev w)"
  using assms by (simp add: follow_ok_def)

lemma advances_mono: "advances l n w w' \<Longrightarrow> l \<le> l' \<Longrightarrow> advances l' n w w'"
  by (auto simp: advances_def)

lemma mechanism_step_ok:
  assumes f: "follow_ok n fol" and s: "mechanism_step r fol d m v w = Inr w'"
  shows "advances (n + 1) n w w' \<and> ev_Cost (wk_ev w') = ev_Cost (wk_ev w)"
proof -
  let ?t = "if m_Domain m \<noteq> [] then trim_suffix (to_lower (m_Domain m)) ''.'' else d"
  show ?thesis
  proof (cases "m_Domain m \<noteq> [] \<and> HasMacro (m_Domain m)")
    case True
    then have "w' = unexpanded (mechanism_String m) (count_lookup w)"
      using s by (simp add: mechanism_step_def Let_def)
    then show ?thesis by (simp add: advances_def max_def)
  next
    case False
    then have e: "(if m_Kind m = ''include'' then fol ?t (''include:'' @ ?t) False (count_lookup w)
        else query_mechanism r m ?t v (count_lookup w)) = Inr w'"
      using s by (simp only: mechanism_step_def Let_def if_False)
    show ?thesis
    proof (cases "m_Kind m = ''include''")
      case True
      have i: "fol ?t (''include:'' @ ?t) False (count_lookup w) = Inr w'" using e by (simp only: if_P [OF True])
      have "''include:'' @ ?t \<noteq> []" by simp
      from follow_okD [OF f, OF this i] show ?thesis
        unfolding advances_def count_lookup_simps max_def by (auto split: if_splits)
    next
      case False
      have "query_mechanism r m ?t v (count_lookup w) = Inr w'" using e by (simp only: if_not_P [OF False])
      from query_mechanism_ok [OF this] show ?thesis by (auto simp: advances_def max_def)
    qed
  qed
qed

lemma stop_cases:
  "stop w = (b, w') \<Longrightarrow>
    (b \<and> w' = incomplete w \<and> must_stop w) \<or>
    (\<not> b \<and> w' = w \<and> wk_queries w \<le> maxQueries - 1 \<and> lookups w \<le> 5 * MaxLookups)"
  by (auto simp: stop_def must_stop_def cap_defs split: if_splits)

lemma advances_trans:
  assumes "advances l n w w1" "advances l n w1 w2" "wk_queries w1 \<le> max (wk_queries w) (maxQueries - 1)"
    "lookups w1 \<le> max (lookups w) (5 * MaxLookups)"
  shows "advances l n w w2"
  using assms by (auto simp: advances_def max_def split: if_splits)

lemma advances_cong:
  assumes "advances l n w w1" "lookups w' = lookups w" "wk_queries w' = wk_queries w" "wk_stack w' = wk_stack w"
    "voids_ok w' = voids_ok w"
    and "lookups w1' = lookups w1" "wk_queries w1' = wk_queries w1" "wk_stack w1' = wk_stack w1"
    "voids_ok w1' = voids_ok w1"
  shows "advances l n w' w1'"
  using assms by (simp add: advances_def)

text \<open>The entry that a top-level term opens and closes accounts for the lookups in between.\<close>

definition cost_follows :: "bool \<Rightarrow> walker \<Rightarrow> walker \<Rightarrow> bool" where
  "cost_follows own w w' \<longleftrightarrow>
     (if own then cost_sum w' + lookups w = cost_sum w + lookups w' else ev_Cost (wk_ev w') = ev_Cost (wk_ev w))"

lemma cost_follows_trans:
  "cost_follows own w w1 \<Longrightarrow> cost_follows own w1 w2 \<Longrightarrow> cost_follows own w w2"
  by (auto simp: cost_follows_def split: if_splits)

lemma cost_entry:
  assumes "ev_Cost (wk_ev w2) = ev_Cost (wk_ev (cost_open t w))" "lookups w \<le> lookups w2"
  shows "cost_follows True w (cost_close (lookups w2 - lookups w) w2)"
  using assms cost_close_append [of w2 "ev_Cost (wk_ev w)" "(t, 0)"]
  by (simp add: cost_follows_def cost_sum_def)

lemma walk_mechanisms_ok:
  assumes f: "follow_ok n fol" and s: "walk_mechanisms r fol d ms v tp w = Inr (st, w')"
  shows "advances (n + 1) n w w' \<and> cost_follows (tp \<and> v = []) w w' \<and>
    (\<not> st \<longrightarrow> wk_queries w' \<le> max (wk_queries w) (maxQueries - 1) \<and> lookups w' \<le> max (lookups w) (5 * MaxLookups))"
  using s
proof (induction ms arbitrary: w)
  case Nil
  then show ?case by (auto simp: advances_def cost_follows_def max_def)
next
  case (Cons m ms)
  show ?case
  proof (cases "CountsLookup m")
    case False
    then show ?thesis using Cons by simp
  next
    case True
    define own where "own \<longleftrightarrow> tp \<and> v = []"
    define w1 where "w1 = (if own then cost_open (mechanism_String m) w else w)"
    obtain w2 where w2: "mechanism_step r fol d m v w1 = Inr w2"
      using Cons.prems True by (cases "mechanism_step r fol d m v w1") (simp_all add: own_def w1_def Let_def)
    define w3 where "w3 = (if own then cost_close (lookups w2 - lookups w1) w2 else w2)"
    obtain b w4 where w4: "stop w3 = (b, w4)" by fastforce
    have res: "(if b then Inr (True, w4) else walk_mechanisms r fol d ms v tp w4) = Inr (st, w')"
    proof -
      have "walk_mechanisms r fol d (m # ms) v tp w =
          (case mechanism_step r fol d m v w1 of Inl e \<Rightarrow> Inl e
           | Inr w2 \<Rightarrow> (case stop (if own then cost_close (lookups w2 - lookups w1) w2 else w2) of (stopped, w4) \<Rightarrow>
              if stopped then Inr (True, w4) else walk_mechanisms r fol d ms v tp w4))"
        by (simp only: walk_mechanisms.simps True not_True_eq_False if_False own_def w1_def Let_def)
      then show ?thesis using Cons.prems w2 w4 [unfolded w3_def] by simp
    qed
    note a = mechanism_step_ok [OF f w2]
    have adv: "advances (n + 1) n w w3"
      by (rule advances_cong [OF conjunct1 [OF a]]) (simp_all add: w1_def w3_def)
    have cost: "cost_follows own w w3"
    proof (cases own)
      case True
      then show ?thesis using cost_entry [of w2 "mechanism_String m" w] a
        by (simp add: w1_def w3_def advances_def)
    next
      case False
      then show ?thesis using a by (simp add: w1_def w3_def cost_follows_def)
    qed
    from stop_cases [OF w4] show ?thesis
    proof (elim disjE conjE)
      assume "b" "w4 = incomplete w3"
      then have "st" "w' = incomplete w3" using res by auto
      then show ?thesis using adv cost
        by (simp add: own_def [symmetric] cost_follows_def cost_sum_def advances_def split: if_split_asm)
    next
      assume nb: "\<not> b" "w4 = w3" "wk_queries w3 \<le> maxQueries - 1" "lookups w3 \<le> 5 * MaxLookups"
      then have "walk_mechanisms r fol d ms v tp w3 = Inr (st, w')" using res by simp
      note IH = Cons.IH [OF this, folded own_def]
      have "advances (n + 1) n w w'"
        by (rule advances_trans [OF adv conjunct1 [OF IH]]) (use nb(3,4) in simp_all)
      moreover have "cost_follows own w w'" using cost_follows_trans cost IH by blast
      ultimately show ?thesis using IH nb(3,4) by (auto simp: own_def [symmetric] max_def)
    qed
  qed
qed

lemma walk_rest_ok:
  assumes f: "follow_ok n fol" and s: "walk_rest fol rec v tp w = Inr w'"
  shows "advances (n + 1) n w w' \<and> cost_follows (tp \<and> v = []) w w'"
proof -
  define own where "own \<longleftrightarrow> tp \<and> v = []"
  define red where "red = sr_Redirect rec"
  define w2 where "w2 = (if own then cost_close 1 (cost_open (''redirect='' @ red) (count_lookup w)) else count_lookup w)"
  define t where "t = trim_suffix (to_lower red) ''.''"
  have w2: "lookups w2 = Suc (lookups w)" "wk_queries w2 = wk_queries w" "wk_stack w2 = wk_stack w"
    "voids_ok w2 = voids_ok w" by (simp_all add: w2_def)
  have c2: "cost_follows own w w2"
    by (simp add: w2_def cost_follows_def cost_sum_def cost_close_append)
  have last: "own \<Longrightarrow> ev_Cost (wk_ev w2) = ev_Cost (wk_ev w) @ [(''redirect='' @ red, 1)]"
    by (simp add: w2_def cost_close_append)
  show ?thesis
  proof (cases "record_All rec")
    case (Some all)
    then show ?thesis using s
      by (auto simp: walk_rest_def advances_def cost_follows_def cost_sum_def max_def voids_ok_def split: if_splits)
  next
    case None
    show ?thesis
    proof (cases "red = []")
      case True
      then show ?thesis using s None by (simp add: walk_rest_def red_def advances_def cost_follows_def max_def)
    next
      case False
      have e: "(if HasMacro red then Inr (unexpanded (''redirect='' @ red) w2)
         else case fol t (''redirect:'' @ t) tp w2 of
              Inl e \<Rightarrow> Inl e
            | Inr w3 \<Rightarrow> Inr (if own then cost_close (1 + (lookups w3 - lookups w2)) w3 else w3)) = Inr w'"
        using s None False
        by (simp only: walk_rest_def option.case red_def [symmetric] if_False Let_def own_def [symmetric]
            w2_def [symmetric] t_def [symmetric])
      show ?thesis
      proof (cases "HasMacro red")
        case True
        then have "w' = unexpanded (''redirect='' @ red) w2" using e by simp
        then show ?thesis using w2 c2
          by (simp add: own_def [symmetric] advances_def cost_follows_def cost_sum_def max_def split: if_split_asm)
      next
        case False
        then obtain w3 where w3: "fol t (''redirect:'' @ t) tp w2 = Inr w3"
          "w' = (if own then cost_close (1 + (lookups w3 - lookups w2)) w3 else w3)"
          using e by (cases "fol t (''redirect:'' @ t) tp w2") simp_all
        have "''redirect:'' @ t \<noteq> []" by simp
        note a = follow_okD [OF f, OF this w3(1)]
        have "advances (n + 1) n w w'"
          using a w2 w3(2) by (auto simp: advances_def max_def split: if_split_asm)
        moreover have "cost_follows own w w'"
          using a w2 w3(2) c2 last cost_close_append [of w3 "ev_Cost (wk_ev w)" "(''redirect='' @ red, 1)"]
          by (auto simp: cost_follows_def cost_sum_def advances_def)
        ultimately show ?thesis by (simp add: own_def)
      qed
    qed
  qed
qed

definition walk_ok :: "nat \<Rightarrow> (string \<Rightarrow> spf_record \<Rightarrow> string \<Rightarrow> bool \<Rightarrow> walker \<Rightarrow> 'e + walker) \<Rightarrow> bool" where
  "walk_ok n wlk \<longleftrightarrow> (\<forall>d rec v tp w w'. wlk d rec v tp w = Inr w' \<longrightarrow>
     advances (n + 1) n w w' \<and> cost_follows (tp \<and> v = []) w w')"

lemma walk_body_ok:
  assumes f: "follow_ok n fol"
  shows "walk_ok n (walk_body r fol)"
  unfolding walk_ok_def
proof (intro allI impI)
  fix d rec v tp w w'
  assume s: "walk_body r fol d rec v tp w = Inr w'"
  obtain st w1 where m: "walk_mechanisms r fol d (sr_Mechanisms rec) v tp (prefetch d rec w) = Inr (st, w1)"
    and r: "(if st then Inr w1 else walk_rest fol rec v tp w1) = Inr w'"
    using s by (auto simp: walk_body_def split: sum.splits prod.splits)
  note a = walk_mechanisms_ok [OF f m]
  have adv: "advances (n + 1) n w w1" by (rule advances_cong [OF conjunct1 [OF a]]) simp_all
  have cost: "cost_follows (tp \<and> v = []) w w1" using a by (auto simp: cost_follows_def cost_sum_def split: if_splits)
  show "advances (n + 1) n w w' \<and> cost_follows (tp \<and> v = []) w w'"
  proof (cases st)
    case True
    then show ?thesis using r adv cost by simp
  next
    case False
    then have "walk_rest fol rec v tp w1 = Inr w'" using r by simp
    note b = walk_rest_ok [OF f this]
    have "advances (n + 1) n w w'"
      by (rule advances_trans [OF adv conjunct1 [OF b]]) (use a False in simp_all)
    then show ?thesis using cost_follows_trans cost b by blast
  qed
qed

lemma follow_None_ok: "follow_ok 0 (follow fqdn r None)"
  by (auto simp: follow_ok_def follow_def advances_def max_def Let_def split: if_splits)

text \<open>The record a followed name leads to, and the state in which it is walked.\<close>

lemma follow_Some_cases:
  assumes "follow fqdn r (Some wlk) target via tp w = Inr w'"
  obtains (ends) w1 where "lookups w1 = lookups w" "wk_queries w \<le> wk_queries w1" "wk_queries w1 \<le> Suc (wk_queries w)"
      "wk_stack w1 = wk_stack w" "ev_Cost (wk_ev w1) = ev_Cost (wk_ev w)" "voids_ok w1 = voids_ok w" "w' = w1"
  | (walks) key sub w2 w3 where "key \<notin> wk_stack w" "lookups w2 = lookups w" "wk_queries w2 = Suc (wk_queries w)"
      "wk_stack w2 = insert key (wk_stack w)" "ev_Cost (wk_ev w2) = ev_Cost (wk_ev w)" "voids_ok w2 = voids_ok w"
      "wlk target sub via tp w2 = Inr w3" "w' = w3\<lparr>wk_stack := wk_stack w3 - {key}\<rparr>"
proof -
  define key where "key = CanonicalName fqdn target"
  define w1 where "w1 = w\<lparr>wk_queries := Suc (wk_queries w), wk_issued := wk_issued w @ [(target, TypeTXT)]\<rparr>"
  have w1: "lookups w1 = lookups w" "wk_queries w1 = Suc (wk_queries w)" "wk_stack w1 = wk_stack w"
    "ev_Cost (wk_ev w1) = ev_Cost (wk_ev w)" "voids_ok w1 = voids_ok w"
    by (simp_all add: w1_def voids_ok_def)
  show thesis
  proof (cases "key \<in> wk_stack w")
    case True
    then have "w' = add_problem via (LoopsBack via) w" using assms by (simp add: follow_def key_def Let_def)
    then show thesis by (intro ends [of w']) simp_all
  next
    case False
    obtain records blank where F: "Fetch r target = Inr (records, blank)"
      using assms False by (cases "Fetch r target") (auto simp: follow_def key_def Let_def)
    have e: "(case records of
               [] \<Rightarrow> Inr (add_problem via (NoSPFRecord target) (if blank then void via w1 else w1))
             | rec # others \<Rightarrow>
               if others \<noteq> [] then Inr (add_problem via (ManySPFRecords target (length records)) w1)
               else case spf_Parse rec of
                   Inl e \<Rightarrow> Inr (add_problem via (InvalidSPF target e) w1)
                 | Inr sub \<Rightarrow>
                   (let permissive = (case record_All sub of Some all \<Rightarrow> \<not> tp \<and> m_Qualifier all = Pass | None \<Rightarrow> False);
                        w2 = (if permissive
                              then upd_ev (\<lambda>e. e\<lparr>ev_PermissiveIncludes := ev_PermissiveIncludes e @ [via]\<rparr>) w1 else w1)
                    in case wlk target sub via tp (w2\<lparr>wk_stack := insert key (wk_stack w2)\<rparr>) of
                         Inl e \<Rightarrow> Inl e
                       | Inr w3 \<Rightarrow> Inr (w3\<lparr>wk_stack := wk_stack w3 - {key}\<rparr>))) = Inr w'"
      using assms False F by (simp only: follow_def key_def Let_def w1_def if_False option.case sum.case prod.case)
    show thesis
    proof (cases "\<exists>rec sub. records = [rec] \<and> spf_Parse rec = Inr sub")
      case False
      have "w' = add_problem via (NoSPFRecord target) (if blank then void via w1 else w1) \<or>
          w' = add_problem via (ManySPFRecords target (length records)) w1 \<or>
          (\<exists>e. w' = add_problem via (InvalidSPF target e) w1)"
      proof (cases records)
        case Nil
        then show ?thesis using e by (simp only: list.case sum.inject) simp
      next
        case (Cons rec others)
        show ?thesis
        proof (cases "others = []")
          case True
          then obtain x where "spf_Parse rec = Inl x" using False Cons by (cases "spf_Parse rec") simp_all
          then show ?thesis using e Cons True by (simp only: list.case sum.case simp_thms if_False sum.inject) blast?
        next
          case False
          then show ?thesis using e Cons by (simp only: list.case simp_thms if_True sum.inject)
        qed
      qed
      then obtain f where "w' = f w1" "lookups (f w1) = lookups w1" "wk_queries (f w1) = wk_queries w1"
        "wk_stack (f w1) = wk_stack w1" "ev_Cost (wk_ev (f w1)) = ev_Cost (wk_ev w1)" "voids_ok (f w1) = voids_ok w1"
      proof (elim disjE exE)
        assume "w' = add_problem via (NoSPFRecord target) (if blank then void via w1 else w1)"
        then show thesis by (intro that [of "\<lambda>w. add_problem via (NoSPFRecord target) (if blank then void via w else w)"]) simp_all
      next
        assume "w' = add_problem via (ManySPFRecords target (length records)) w1"
        then show thesis by (intro that [of "add_problem via (ManySPFRecords target (length records))"]) simp_all
      next
        fix e assume "w' = add_problem via (InvalidSPF target e) w1"
        then show thesis by (intro that [of "add_problem via (InvalidSPF target e)"]) simp_all
      qed
      then show thesis by (intro ends [of w']) (simp_all add: w1)
    next
      case True
      then obtain rec sub where rs: "records = [rec]" "spf_Parse rec = Inr sub" by blast
      define w2 where "w2 = (if (case record_All sub of Some all \<Rightarrow> \<not> tp \<and> m_Qualifier all = Pass | None \<Rightarrow> False)
          then upd_ev (\<lambda>e. e\<lparr>ev_PermissiveIncludes := ev_PermissiveIncludes e @ [via]\<rparr>) w1 else w1)"
      have w2: "lookups w2 = lookups w" "wk_queries w2 = Suc (wk_queries w)" "wk_stack w2 = wk_stack w"
        "ev_Cost (wk_ev w2) = ev_Cost (wk_ev w)" "voids_ok w2 = voids_ok w"
        using w1 by (simp_all add: w2_def voids_ok_def)
      have "(case wlk target sub via tp (w2\<lparr>wk_stack := insert key (wk_stack w2)\<rparr>) of
                         Inl e \<Rightarrow> Inl e
                       | Inr w3 \<Rightarrow> Inr (w3\<lparr>wk_stack := wk_stack w3 - {key}\<rparr>)) = Inr w'"
        using e rs by (simp only: list.case sum.case Let_def w2_def simp_thms if_False)
      then obtain w3 where "wlk target sub via tp (w2\<lparr>wk_stack := insert key (wk_stack w2)\<rparr>) = Inr w3"
        "w' = w3\<lparr>wk_stack := wk_stack w3 - {key}\<rparr>"
        by (cases "wlk target sub via tp (w2\<lparr>wk_stack := insert key (wk_stack w2)\<rparr>)") simp_all
      then show thesis using False w2
        by (intro walks [of key "w2\<lparr>wk_stack := insert key (wk_stack w2)\<rparr>" sub w3]) (simp_all add: voids_ok_def)
    qed
  qed
qed

lemma follow_Some_ok:
  assumes "walk_ok n wlk"
  shows "follow_ok (Suc n) (follow fqdn r (Some wlk))"
  unfolding follow_ok_def
proof (intro allI impI)
  fix target via tp w w'
  assume v: "via \<noteq> []" and s: "follow fqdn r (Some wlk) target via tp w = Inr w'"
  from s show "advances (Suc n) (Suc n) w w' \<and> ev_Cost (wk_ev w') = ev_Cost (wk_ev w)"
  proof (cases rule: follow_Some_cases)
    case (ends w1)
    then show ?thesis by (simp add: advances_def max_def)
  next
    case (walks key sub w2 w3)
    have "advances (n + 1) n w2 w3 \<and> cost_follows (tp \<and> via = []) w2 w3"
      using assms walks(7) by (simp add: walk_ok_def)
    then show ?thesis using walks v
      by (auto simp: advances_def cost_follows_def voids_ok_def max_def split: if_splits)
  qed
qed

lemma walk_always_ok: "walk_ok n (walk fqdn r n)"
proof (induction n)
  case 0
  show ?case by (simp add: walk_body_ok [OF follow_None_ok])
next
  case (Suc n)
  show ?case by (simp add: walk_body_ok [OF follow_Some_ok [OF Suc]])
qed

subsection \<open>Errors\<close>

definition fails_as :: "(string \<Rightarrow> nat \<Rightarrow> 'e + response) \<Rightarrow> ('e + 'a) \<Rightarrow> bool" where
  "fails_as r res \<longleftrightarrow> (\<forall>e. res = Inl e \<longrightarrow> (\<exists>n t. r n t = Inl e))"

lemma fails_as_Inr [simp]: "fails_as r (Inr x)"
  by (simp add: fails_as_def)

lemma fails_as_lookup [simp]: "r n t = Inl e \<Longrightarrow> fails_as r (Inl e)"
  by (auto simp: fails_as_def)

lemma fails_as_case:
  assumes "fails_as r x" "\<And>y. x = Inr y \<Longrightarrow> fails_as r (f y)"
  shows "fails_as r (case x of Inl e \<Rightarrow> Inl e | Inr y \<Rightarrow> f y)"
  using assms by (cases x) (auto simp: fails_as_def)

lemma fails_as_if:
  "(b \<Longrightarrow> fails_as r x) \<Longrightarrow> (\<not> b \<Longrightarrow> fails_as r y) \<Longrightarrow> fails_as r (if b then x else y)"
  by simp

lemma fails_as_prod:
  "(\<And>a b. fails_as r (f a b)) \<Longrightarrow> fails_as r (case x of (a, b) \<Rightarrow> f a b)"
  by (simp split: prod.split)

lemma fails_as_list:
  "fails_as r a \<Longrightarrow> (\<And>y ys. fails_as r (f y ys)) \<Longrightarrow> fails_as r (case xs of [] \<Rightarrow> a | y # ys \<Rightarrow> f y ys)"
  by (simp split: list.split)

lemma fails_as_sum:
  "(\<And>e. fails_as r (f e)) \<Longrightarrow> (\<And>y. fails_as r (g y)) \<Longrightarrow> fails_as r (case x of Inl e \<Rightarrow> f e | Inr y \<Rightarrow> g y)"
  by (simp split: sum.split)

lemma query_all_fails: "fails_as r (query_all r t qts b w)"
proof (induction qts arbitrary: b w)
  case (Cons qt qts)
  then show ?case by (cases "r t qt") (auto simp: walker_lookup_def intro: fails_as_lookup)
qed simp

lemma query_mechanism_fails: "fails_as r (query_mechanism r m t v w)"
proof -
  have "fails_as r (case query_all r t qts True w of Inl e \<Rightarrow> Inl e
      | Inr (b, w') \<Rightarrow> Inr (if b then void (mechanism_String m) w' else w'))" for qts
    by (rule fails_as_case [OF query_all_fails]) (simp split: prod.split)
  moreover have "fails_as r (case r t TypeMX of Inl e \<Rightarrow> Inl e | Inr resp \<Rightarrow> Inr (f resp))" for f :: "response \<Rightarrow> walker"
    by (cases "r t TypeMX") (auto intro: fails_as_lookup)
  ultimately show ?thesis
    unfolding query_mechanism_def walker_lookup_def prod.case Let_def by (intro fails_as_if fails_as_Inr)
qed

lemma mechanism_step_fails:
  assumes "\<And>t via tp w. fails_as r (fol t via tp w)"
  shows "fails_as r (mechanism_step r fol d m v w)"
  unfolding mechanism_step_def Let_def
  by (intro fails_as_if fails_as_Inr assms query_mechanism_fails)

lemma walk_mechanisms_fails:
  assumes "\<And>t via tp w. fails_as r (fol t via tp w)"
  shows "fails_as r (walk_mechanisms r fol d ms v tp w)"
proof (induction ms arbitrary: w)
  case (Cons m ms)
  show ?case
    unfolding walk_mechanisms.simps Let_def
    by (intro fails_as_if Cons fails_as_case mechanism_step_fails assms fails_as_prod fails_as_Inr)
qed simp

lemma walk_body_fails:
  assumes "\<And>t via tp w. fails_as r (fol t via tp w)"
  shows "fails_as r (walk_body r fol d rec v tp w)"
proof -
  have rest: "fails_as r (walk_rest fol rec v tp w)" for w
    unfolding walk_rest_def Let_def
    by (cases "record_All rec") (auto intro!: fails_as_case assms)
  show ?thesis
    unfolding walk_body_def
    by (intro fails_as_case walk_mechanisms_fails assms) (auto split: prod.split intro: rest)
qed

lemma follow_fails:
  assumes "\<And>wlk d rec v tp w. wo = Some wlk \<Longrightarrow> fails_as r (wlk d rec v tp w)"
  shows "fails_as r (follow fqdn r wo t via tp w)"
proof (cases wo)
  case None
  then show ?thesis by (simp add: follow_def Let_def)
next
  case (Some wlk)
  have F: "fails_as r (Fetch r t)" by (cases "r t TypeTXT") (auto simp: Fetch_def intro: fails_as_lookup)
  have S: "fails_as r (case wlk t sub via tp w of Inl e \<Rightarrow> Inl e | Inr w3 \<Rightarrow> Inr (f w3))"
    for sub w and f :: "walker \<Rightarrow> walker"
    by (rule fails_as_case [OF assms [OF Some]]) simp
  show ?thesis
    unfolding follow_def Let_def Some option.case
    by (intro fails_as_if fails_as_Inr fails_as_case [OF F] fails_as_prod fails_as_list fails_as_sum S)
qed

lemma walk_fails: "fails_as r (walk fqdn r n d rec v tp w)"
proof (induction n arbitrary: d rec v tp w)
  case 0
  show ?case unfolding walk.simps by (intro walk_body_fails follow_fails) simp
next
  case (Suc n)
  show ?case unfolding walk.simps by (intro walk_body_fails follow_fails) (use Suc in auto)
qed

text \<open>
  C16 An evaluation always returns. It fails only with an error of the resolver. Otherwise its own
  queries stay below 112 and the lookups it counts below 62, whatever records the includes and
  redirects lead to; every counted lookup is attributed to exactly one top-level term; each void
  lookup is listed; and every record that was entered has been left.
\<close>

theorem Evaluate_accounts:
  "case walk fqdn r maxDepth domain rec [] True (walker0 fqdn domain) of
     Inl e \<Rightarrow> Evaluate fqdn r domain rec = Inl e \<and> (\<exists>n t. r n t = Inl e)
   | Inr w \<Rightarrow> Evaluate fqdn r domain rec = Inr (wk_ev w) \<and>
       wk_queries w < 112 \<and> ev_Lookups (wk_ev w) < 62 \<and>
       sum_list (map snd (ev_Cost (wk_ev w))) = ev_Lookups (wk_ev w) \<and>
       ev_VoidLookups (wk_ev w) = length (ev_Voids (wk_ev w)) \<and>
       wk_stack w = {CanonicalName fqdn domain}"
proof (cases "walk fqdn r maxDepth domain rec [] True (walker0 fqdn domain)")
  case (Inl e)
  then show ?thesis
    using walk_fails [of r fqdn maxDepth domain rec "[]" True "walker0 fqdn domain"]
    by (simp add: Evaluate_def fails_as_def)
next
  case (Inr w)
  have "advances (maxDepth + 1) maxDepth (walker0 fqdn domain) w \<and> cost_follows True (walker0 fqdn domain) w"
    using walk_always_ok [of maxDepth fqdn r] Inr unfolding walk_ok_def by fastforce
  then show ?thesis using Inr
    by (simp add: Evaluate_def advances_def cost_follows_def cost_sum_def voids_ok_def walker0_def
        evaluation0_def cap_defs maxDepth_def)
qed

end
