(* ===== verification/SetaNotify.thy ===== *)
theory SetaNotify
  imports SetaState SetaConfig
begin

text \<open>
  Package internal/notify, notify.go: which changes a channel receives, and what happens to those
  it could not deliver. The key-value store is the interface \<open>kv_store\<close> of this theory, provided by
  the state database with any pattern of failing operations. Sending is a function from the
  message to an error; the JSON text of the changes and the RFC 3339 text of a time are
  parameters (\<open>enc\<close>, \<open>dec\<close>, \<open>fmt_time\<close>, \<open>parse_time\<close>), as is SHA-256. The channels are independent:
  a channel's delivery touches only its own two keys.
\<close>

subsection \<open>Rules and messages\<close>

datatype event = EventDigest | EventHeartbeat | EventTest

definition event_String :: "event \<Rightarrow> string" where
  "event_String e = (case e of EventDigest \<Rightarrow> ''digest'' | EventHeartbeat \<Rightarrow> ''heartbeat'' | EventTest \<Rightarrow> ''test'')"

record message =
  ms_Event :: event
  ms_RunID :: int
  ms_Started :: int
  ms_Duration :: int
  ms_Targets :: "string list"
  ms_Changes :: "change list"
  ms_Open :: int
  ms_Errors :: int
  ms_Notifier :: string

record rule =
  ru_On :: "string list"
  ru_MinSeverity :: severity
  ru_Heartbeat :: int

definition DefaultOn :: "kind list" where
  "DefaultOn = [New, Regressed, Resolved]"

definition rule_wants :: "rule \<Rightarrow> change \<Rightarrow> bool" where
  "rule_wants r c \<longleftrightarrow> \<not> c_Suppressed c \<and> kind_String (c_Kind c) \<in> set (ru_On r) \<and>
     ru_MinSeverity r \<le> f_Severity (c_Finding c)"

definition rule_Filter :: "rule \<Rightarrow> change list \<Rightarrow> change list" where
  "rule_Filter r changes = filter (rule_wants r) changes"

subsection \<open>Channels from the configuration\<close>

text \<open>The five notifiers with their settings; an email address is what the mail parser returns.\<close>

datatype 'a transport_config =
    Telegram string string
  | Discord string
  | Webhook string string
  | Slack string
  | Email string int string string string 'a "'a list"

record 'a channel =
  ch_Name :: string
  ch_Notifier :: "'a transport_config"
  ch_Rule :: rule
  ch_Secrets :: "string list"

datatype channel_error = BadFromAddress string | BadToAddress string | UnknownNotifier string

definition after_last_slash :: "string \<Rightarrow> string" where
  "after_last_slash s = (case last_index_byte CHR ''/'' s of None \<Rightarrow> s | Some i \<Rightarrow> drop (i + 1) s)"

text \<open>\<open>on\<close> is None where the setting is left out (nil), which selects the default kinds.\<close>

definition channel_rule :: "string list option \<Rightarrow> notifier_config \<Rightarrow> rule" where
  "channel_rule on nt =
     \<lparr>ru_On = (case on of None \<Rightarrow> map kind_String DefaultOn | Some ks \<Rightarrow> ks),
      ru_MinSeverity = nc_Severity nt, ru_Heartbeat = nc_Heartbeat nt\<rparr>"

definition email_notifier ::
  "(string \<Rightarrow> 'a option) \<Rightarrow> notifier_config \<Rightarrow> channel_error + 'a transport_config" where
  "email_notifier mail nt =
     (case mail (nc_From nt) of
        None \<Rightarrow> Inl (BadFromAddress (nc_Name nt))
      | Some from_addr \<Rightarrow>
        (case try_map (\<lambda>a. case mail a of None \<Rightarrow> Inl (BadToAddress (nc_Name nt)) | Some x \<Rightarrow> Inr x) (nc_To nt) of
           Inl e \<Rightarrow> Inl e
         | Inr tos \<Rightarrow> Inr (Email (nc_Host nt) (nc_Port nt) (nc_TLS nt) (nc_Username nt) (nc_Password nt) from_addr tos)))"

definition channel_of ::
  "(string \<Rightarrow> 'a option) \<Rightarrow> string list option \<times> notifier_config \<Rightarrow> channel_error + 'a channel" where
  "channel_of mail x =
     (case x of (on, nt) \<Rightarrow>
      let ch = (\<lambda>n secrets. \<lparr>ch_Name = nc_Name nt, ch_Notifier = n, ch_Rule = channel_rule on nt, ch_Secrets = secrets\<rparr>) in
      if nc_Type nt = ''telegram'' then Inr (ch (Telegram (nc_BotToken nt) (nc_ChatID nt)) [nc_BotToken nt])
      else if nc_Type nt = ''discord'' then
        Inr (ch (Discord (nc_Webhook nt)) [nc_Webhook nt, after_last_slash (nc_Webhook nt)])
      else if nc_Type nt = ''webhook'' then Inr (ch (Webhook (nc_URL nt) (nc_Secret nt)) [nc_Secret nt, nc_URL nt])
      else if nc_Type nt = ''slack'' then Inr (ch (Slack (nc_Webhook nt)) [nc_Webhook nt])
      else if nc_Type nt = ''email'' then
        (case email_notifier mail nt of Inl e \<Rightarrow> Inl e | Inr n \<Rightarrow> Inr (ch n [nc_Password nt]))
      else Inl (UnknownNotifier (nc_Type nt)))"

definition FromConfig ::
  "(string \<Rightarrow> 'a option) \<Rightarrow> (string list option \<times> notifier_config) list \<Rightarrow> channel_error + 'a channel list" where
  "FromConfig mail nts = try_map (channel_of mail) nts"

subsection \<open>Redaction\<close>

fun redact :: "string \<Rightarrow> string list \<Rightarrow> string" where
  "redact msg [] = msg"
| "redact msg (s # ss) = redact (if 4 \<le> length s then replace_all msg s ''[redacted]'' else msg) ss"

subsection \<open>Merging undelivered changes\<close>

definition change_fp :: "(string \<Rightarrow> string) \<Rightarrow> change \<Rightarrow> string" where
  "change_fp sha c = finding_Fingerprint sha (c_Finding c)"

text \<open>The index of the last pending change with each fingerprint.\<close>

fun index_from :: "(change \<Rightarrow> string) \<Rightarrow> nat \<Rightarrow> change list \<Rightarrow> (string \<rightharpoonup> nat) \<Rightarrow> string \<rightharpoonup> nat" where
  "index_from fp i [] ix = ix"
| "index_from fp i (c # cs) ix = index_from fp (Suc i) cs (ix(fp c \<mapsto> i))"

fun merge_loop :: "(change \<Rightarrow> string) \<Rightarrow> change list \<Rightarrow> (string \<rightharpoonup> nat) \<Rightarrow> change list \<Rightarrow> change list" where
  "merge_loop fp [] ix out = out"
| "merge_loop fp (c # cs) ix out =
     (case ix (fp c) of
        None \<Rightarrow> merge_loop fp cs (ix(fp c \<mapsto> length out)) (out @ [c])
      | Some i \<Rightarrow>
          if c_Kind c \<noteq> Persisting \<or> c_Kind (out ! i) = Persisting
          then merge_loop fp cs ix (out[i := c])
          else merge_loop fp cs ix out)"

definition merge_changes :: "(string \<Rightarrow> string) \<Rightarrow> change list \<Rightarrow> change list \<Rightarrow> change list" where
  "merge_changes sha pending current =
     (if pending = [] then current
      else sort_func CompareChanges
        (merge_loop (change_fp sha) current (index_from (change_fp sha) 0 pending Map.empty) pending))"

subsection \<open>The key-value store\<close>

record ('s, 'x) kv =
  kv_get :: "string \<Rightarrow> 's \<Rightarrow> 'x + string option"
  kv_set :: "string \<Rightarrow> string \<Rightarrow> 's \<Rightarrow> 'x option \<times> 's"
  kv_delete :: "string \<Rightarrow> 's \<Rightarrow> 'x option \<times> 's"

text \<open>
  What the dispatcher relies on, with \<open>val\<close> the value stored under a key: a read that succeeds
  returns it, a write that succeeds changes just it, and a write that fails changes nothing.
\<close>

locale kv_store =
  fixes db :: "('s, 'x) kv" and val :: "'s \<Rightarrow> string \<Rightarrow> string option"
  assumes get_val: "kv_get db k s = Inr r \<Longrightarrow> r = val s k"
    and set_ok: "kv_set db k v s = (None, s') \<Longrightarrow> val s' = (val s)(k \<mapsto> v)"
    and set_fails: "kv_set db k v s = (Some e, s') \<Longrightarrow> val s' = val s"
    and delete_ok: "kv_delete db k s = (None, s') \<Longrightarrow> val s' = (val s)(k := None)"
    and delete_fails: "kv_delete db k s = (Some e, s') \<Longrightarrow> val s' = val s"

datatype kv_op = GetOp string | SetOp string | DeleteOp string

text \<open>The state database, with the failures of its operations as given by \<open>bad\<close>.\<close>

definition store_kv :: "(kv_op \<Rightarrow> 'x option) \<Rightarrow> (store, 'x) kv" where
  "store_kv bad =
     \<lparr>kv_get = (\<lambda>k s. case bad (GetOp k) of Some e \<Rightarrow> Inl e | None \<Rightarrow> Inr (store_Get k s)),
      kv_set = (\<lambda>k v s. case bad (SetOp k) of Some e \<Rightarrow> (Some e, s) | None \<Rightarrow> (None, store_Set k v s)),
      kv_delete = (\<lambda>k s. case bad (DeleteOp k) of Some e \<Rightarrow> (Some e, s) | None \<Rightarrow> (None, store_Delete k s))\<rparr>"

subsection \<open>Delivery\<close>

datatype 'x deliver_error = KVError 'x | SendError 'x | SendAndKVError 'x 'x

record ('s, 'x) environment =
  env_kv :: "('s, 'x) kv"
  env_enc :: "change list \<Rightarrow> string"
  env_dec :: "string \<Rightarrow> change list"
  env_fmt_time :: "int \<Rightarrow> string"
  env_parse_time :: "string \<Rightarrow> int option"
  env_sha :: "string \<Rightarrow> string"
  env_now :: int

definition pending_key :: "string \<Rightarrow> string" where
  "pending_key name = ''notify.pending.'' @ name"

definition sent_key :: "string \<Rightarrow> string" where
  "sent_key name = ''notify.last_sent.'' @ name"

definition maxPending :: nat where "maxPending = 500"

definition heartbeatDue ::
  "('s, 'x) environment \<Rightarrow> rule \<Rightarrow> string \<Rightarrow> 's \<Rightarrow> 'x + bool" where
  "heartbeatDue env rule key s =
     (if ru_Heartbeat rule \<le> 0 then Inr False
      else case kv_get (env_kv env) key s of
          Inl e \<Rightarrow> Inl e
        | Inr None \<Rightarrow> Inr True
        | Inr (Some v) \<Rightarrow>
            (case env_parse_time env v of
               None \<Rightarrow> Inr True
             | Some sent \<Rightarrow> Inr (ru_Heartbeat rule \<le> env_now env - sent)))"

text \<open>The newest changes the store keeps; the code counts from the end of the list.\<close>

definition cap_pending :: "change list \<Rightarrow> change list" where
  "cap_pending changes = (if maxPending < length changes then drop (length changes - maxPending) changes else changes)"

text \<open>\<open>d.KV.Set\<close> of the undelivered changes after a failed Send.\<close>

definition keep_pending ::
  "('s, 'x) environment \<Rightarrow> string \<Rightarrow> change list \<Rightarrow> 'x \<Rightarrow> 's \<Rightarrow> 'x deliver_error option \<times> 's" where
  "keep_pending env name changes e s =
     (if changes = [] then (Some (SendError e), s)
      else case kv_set (env_kv env) (pending_key name) (env_enc env (cap_pending changes)) s of
          (None, s') \<Rightarrow> (Some (SendError e), s')
        | (Some e', s') \<Rightarrow> (Some (SendAndKVError e e'), s'))"

text \<open>The bookkeeping after a successful Send.\<close>

definition mark_sent ::
  "('s, 'x) environment \<Rightarrow> string \<Rightarrow> bool \<Rightarrow> 's \<Rightarrow> 'x deliver_error option \<times> 's" where
  "mark_sent env name had_pending s =
     (case (if had_pending then kv_delete (env_kv env) (pending_key name) s else (None, s)) of
        (Some e, s') \<Rightarrow> (Some (KVError e), s')
      | (None, s') \<Rightarrow>
        (case kv_set (env_kv env) (sent_key name) (env_fmt_time env (env_now env)) s' of
           (Some e, s'') \<Rightarrow> (Some (KVError e), s'')
         | (None, s'') \<Rightarrow> (None, s'')))"

definition digest :: "string \<Rightarrow> 'e diff \<Rightarrow> change list \<Rightarrow> message" where
  "digest name diff changes =
     \<lparr>ms_Event = EventDigest, ms_RunID = d_RunID diff, ms_Started = d_Started diff, ms_Duration = d_Duration diff,
      ms_Targets = d_Targets diff, ms_Changes = changes, ms_Open = d_Open diff,
      ms_Errors = int (length (d_Errors diff)), ms_Notifier = name\<rparr>"

text \<open>The stored changes; \<open>dec\<close> is what json.Unmarshal leaves in the slice, also after an error.\<close>

definition pending_of :: "(string \<Rightarrow> change list) \<Rightarrow> string option \<Rightarrow> change list" where
  "pending_of dec v = (case v of None \<Rightarrow> [] | Some t \<Rightarrow> dec t)"

text \<open>
  \<open>d.deliver\<close>: the error, the store, and the message handed to Send, if any.
\<close>

definition deliver ::
  "('s, 'x) environment \<Rightarrow> (message \<Rightarrow> 'x option) \<Rightarrow> string \<Rightarrow> rule \<Rightarrow> 'e diff \<Rightarrow> 's \<Rightarrow>
   'x deliver_error option \<times> 's \<times> message option" where
  "deliver env send name rule diff s =
     (case kv_get (env_kv env) (pending_key name) s of
        Inl e \<Rightarrow> (Some (KVError e), s, None)
      | Inr v \<Rightarrow>
        let pending = pending_of (env_dec env) v;
            changes = merge_changes (env_sha env) pending (rule_Filter rule (d_Changes diff));
            go = (\<lambda>msg. case send msg of
                Some e \<Rightarrow> (case keep_pending env name changes e s of (err, s') \<Rightarrow> (err, s', Some msg))
              | None \<Rightarrow> (case mark_sent env name (pending \<noteq> []) s of (err, s') \<Rightarrow> (err, s', Some msg)))
        in if changes \<noteq> [] then go (digest name diff changes)
           else case heartbeatDue env rule (sent_key name) s of
               Inl e \<Rightarrow> (Some (KVError e), s, None)
             | Inr due \<Rightarrow> if \<not> due then (None, s, None)
                          else go ((digest name diff changes)\<lparr>ms_Event := EventHeartbeat\<rparr>))"

text \<open>The text of an error as the caller sees it, with the channel's secrets removed.\<close>

fun Dispatch ::
  "('s, 'x) environment \<Rightarrow> ('a transport_config \<Rightarrow> message \<Rightarrow> 'x option) \<Rightarrow> ('x deliver_error \<Rightarrow> string) \<Rightarrow>
   'a channel list \<Rightarrow> 'e diff \<Rightarrow> 's \<Rightarrow> (string \<rightharpoonup> string) \<times> 's" where
  "Dispatch env send text [] diff s = (Map.empty, s)"
| "Dispatch env send text (ch # chs) diff s =
     (case deliver env (send (ch_Notifier ch)) (ch_Name ch) (ch_Rule ch) diff s of (err, s1, _) \<Rightarrow>
      case Dispatch env send text chs diff s1 of (failed, s2) \<Rightarrow>
        ((case err of None \<Rightarrow> failed
          | Some e \<Rightarrow> failed(ch_Name ch \<mapsto> redact (text e) (ch_Secrets ch))), s2))"

text \<open>The test message, \<open>Test\<close>.\<close>

definition test_message :: "string \<Rightarrow> int \<Rightarrow> message" where
  "test_message name now =
     \<lparr>ms_Event = EventTest, ms_RunID = 0, ms_Started = now, ms_Duration = 0, ms_Targets = [], ms_Changes = [],
      ms_Open = 0, ms_Errors = 0, ms_Notifier = name\<rparr>"

definition notify_Test ::
  "('a transport_config \<Rightarrow> message \<Rightarrow> 'x option) \<Rightarrow> ('x \<Rightarrow> string) \<Rightarrow> int \<Rightarrow> 'a channel list \<Rightarrow> string \<rightharpoonup> string" where
  "notify_Test send text now chs =
     foldl (\<lambda>failed ch. case send (ch_Notifier ch) (test_message (ch_Name ch) now) of
         None \<Rightarrow> failed
       | Some e \<Rightarrow> failed(ch_Name ch \<mapsto> redact (text e) (ch_Secrets ch))) Map.empty chs"

subsection \<open>Merging, fingerprint by fingerprint\<close>

text \<open>The change a list holds for each fingerprint, and the rule by which a newer one replaces it.\<close>

definition by_fp :: "(string \<Rightarrow> string) \<Rightarrow> change list \<Rightarrow> string \<rightharpoonup> change" where
  "by_fp sha cs = map_of (map (\<lambda>c. (change_fp sha c, c)) cs)"

definition distinct_fps :: "(string \<Rightarrow> string) \<Rightarrow> change list \<Rightarrow> bool" where
  "distinct_fps sha cs \<longleftrightarrow> distinct (map (change_fp sha) cs)"

fun latest :: "change option \<Rightarrow> change option \<Rightarrow> change option" where
  "latest old None = old"
| "latest None (Some c) = Some c"
| "latest (Some old) (Some c) =
     (if c_Kind c \<noteq> Persisting \<or> c_Kind old = Persisting then Some c else Some old)"

definition overlay :: "(string \<rightharpoonup> change) \<Rightarrow> (string \<rightharpoonup> change) \<Rightarrow> string \<rightharpoonup> change" where
  "overlay old cur = (\<lambda>f. latest (old f) (cur f))"

lemma latest_None [simp]: "latest None c = c"
  by (cases c) simp_all

lemma map_of_update:
  "distinct (map fst kvs) \<Longrightarrow> i < length kvs \<Longrightarrow> fst (kvs ! i) = k \<Longrightarrow>
    map_of (kvs[i := (k, v)]) = (map_of kvs)(k \<mapsto> v)"
proof (induction kvs arbitrary: i)
  case (Cons kv kvs)
  show ?case
  proof (cases i)
    case 0
    then show ?thesis using Cons.prems by (cases kv) auto
  next
    case (Suc j)
    then have "k \<in> fst ` set kvs" using Cons.prems(2,3) by (auto intro!: image_eqI [of _ _ "kvs ! j"])
    then have "fst kv \<noteq> k" using Cons.prems(1) by auto
    then show ?thesis using Cons Suc by (cases kv) (auto simp: fun_upd_twist)
  qed
qed simp

text \<open>The index: exactly the positions of the list, by fingerprint.\<close>

definition indexes :: "(change \<Rightarrow> string) \<Rightarrow> (string \<rightharpoonup> nat) \<Rightarrow> change list \<Rightarrow> bool" where
  "indexes fp ix out \<longleftrightarrow> distinct (map fp out) \<and> (\<forall>f i. ix f = Some i \<longleftrightarrow> i < length out \<and> fp (out ! i) = f)"

lemma indexes_None:
  assumes "indexes fp ix out" "ix f = None"
  shows "f \<notin> fp ` set out"
proof
  assume "f \<in> fp ` set out"
  then obtain i where "i < length out" "fp (out ! i) = f" by (auto simp: in_set_conv_nth)
  then have "ix f = Some i" using assms(1) by (simp add: indexes_def)
  then show False using assms(2) by simp
qed

lemma index_from_other: "f \<notin> fp ` set cs \<Longrightarrow> index_from fp n cs ix f = ix f"
  by (induction cs arbitrary: n ix) auto

lemma index_from_nth:
  "distinct (map fp cs) \<Longrightarrow> i < length cs \<Longrightarrow> index_from fp n cs ix (fp (cs ! i)) = Some (n + i)"
proof (induction cs arbitrary: n ix i)
  case (Cons c cs)
  then show ?case by (cases i) (auto simp: index_from_other)
qed simp

lemma index_from_indexes:
  assumes "distinct (map fp cs)"
  shows "indexes fp (index_from fp 0 cs Map.empty) cs"
proof -
  have "index_from fp 0 cs Map.empty f = Some i \<longleftrightarrow> i < length cs \<and> fp (cs ! i) = f" for f i
  proof (cases "f \<in> fp ` set cs")
    case True
    then obtain j where j: "j < length cs" "fp (cs ! j) = f" by (metis image_iff in_set_conv_nth)
    then have "index_from fp 0 cs Map.empty f = Some j" using index_from_nth [OF assms j(1)] by simp
    then show ?thesis using j assms by (auto simp: distinct_conv_nth)
  next
    case False
    then show ?thesis by (auto simp: index_from_other)
  qed
  then show ?thesis using assms by (simp add: indexes_def)
qed

lemma merge_loop_spec:
  fixes fp :: "change \<Rightarrow> string"
  defines "look \<equiv> \<lambda>cs. map_of (map (\<lambda>c. (fp c, c)) cs)"
  assumes "indexes fp ix out" "distinct (map fp cs)"
  shows "distinct (map fp (merge_loop fp cs ix out)) \<and>
    look (merge_loop fp cs ix out) = (\<lambda>f. latest (look out f) (look cs f))"
  using assms(2,3)
proof (induction cs arbitrary: ix out)
  case Nil
  then show ?case by (simp add: indexes_def look_def)
next
  case (Cons c cs)
  have cs: "look (c # cs) = (look cs)(fp c \<mapsto> c)" "look cs (fp c) = None"
    using Cons.prems(2) by (auto simp: look_def map_of_eq_None_iff)
  show ?case
  proof (cases "ix (fp c)")
    case None
    then have n: "fp c \<notin> fp ` set out" using indexes_None [OF Cons.prems(1)] by blast
    have "\<And>i. i < length out \<Longrightarrow> fp (out ! i) \<noteq> fp c" using n by (metis imageI nth_mem)
    then have "indexes fp (ix(fp c \<mapsto> length out)) (out @ [c])"
      using Cons.prems(1) n by (auto simp: indexes_def nth_append less_Suc_eq)
    note IH = Cons.IH [OF this]
    have o2: "look out (fp c) = None"
      using n unfolding look_def map_of_eq_None_iff by (simp add: image_image)
    have o1: "look (out @ [c]) = (look out)(fp c \<mapsto> c)"
    proof
      fix f
      show "look (out @ [c]) f = ((look out)(fp c \<mapsto> c)) f"
        using o2 by (cases "map_of (map (\<lambda>c. (fp c, c)) out) f") (auto simp: look_def map_add_def)
    qed
    note o = o1 o2
    have "(\<lambda>f. latest (look (out @ [c]) f) (look cs f)) = (\<lambda>f. latest (look out f) (look (c # cs) f))"
      by (rule ext) (simp add: o cs)
    then show ?thesis using IH Cons.prems(2) None by (simp del: fun_upd_apply)
  next
    case (Some i)
    then have i: "i < length out" "fp (out ! i) = fp c" using Cons.prems(1) by (simp_all add: indexes_def)
    have lo: "look out (fp c) = Some (out ! i)"
      unfolding look_def using Cons.prems(1) i
      by (intro map_of_is_SomeI) (auto simp: indexes_def o_def image_iff in_set_conv_nth intro!: exI [of _ i])
    show ?thesis
    proof (cases "c_Kind c \<noteq> Persisting \<or> c_Kind (out ! i) = Persisting")
      case True
      have m: "map fp (out[i := c]) = map fp out" using i by (simp add: map_update list_update_same_conv)
      have "indexes fp ix (out[i := c])"
        using Cons.prems(1) m i unfolding indexes_def by (metis length_list_update nth_map)
      note IH = Cons.IH [OF this]
      have o: "look (out[i := c]) = (look out)(fp c \<mapsto> c)"
        unfolding look_def map_update
        using Cons.prems(1) i by (intro map_of_update) (simp_all add: indexes_def o_def)
      have "(\<lambda>f. latest (look (out[i := c]) f) (look cs f)) = (\<lambda>f. latest (look out f) (look (c # cs) f))"
        by (rule ext) (use True in \<open>auto simp: o cs lo\<close>)
      then show ?thesis using IH Cons.prems(2) Some True by auto
    next
      case False
      note IH = Cons.IH [OF Cons.prems(1)]
      have "(\<lambda>f. latest (look out f) (look cs f)) = (\<lambda>f. latest (look out f) (look (c # cs) f))"
        by (rule ext) (use False in \<open>auto simp: cs lo\<close>)
      then show ?thesis using IH Cons.prems(2) Some False by simp
    qed
  qed
qed

lemma by_fp_sort:
  assumes "distinct_fps sha cs"
  shows "by_fp sha (sort_func CompareChanges cs) = by_fp sha cs \<and> distinct_fps sha (sort_func CompareChanges cs)"
proof -
  have p: "mset (sort_func CompareChanges cs) = mset cs" by (rule change_sort.perm)
  then have d: "distinct_fps sha (sort_func CompareChanges cs)"
    using assms unfolding distinct_fps_def by (metis mset_eq_imp_distinct_iff mset_map)
  have s: "set (sort_func CompareChanges cs) = set cs" using p by (metis set_mset_mset)
  have "map_of (map (\<lambda>c. (change_fp sha c, c)) (sort_func CompareChanges cs)) = map_of (map (\<lambda>c. (change_fp sha c, c)) cs)"
    by (subst map_of_inject_set) (use assms d s in \<open>simp_all add: distinct_fps_def o_def\<close>)
  then show ?thesis using d by (simp add: by_fp_def)
qed

lemma merge_changes_ok:
  assumes "distinct_fps sha pending" "distinct_fps sha current"
  shows "by_fp sha (merge_changes sha pending current) = overlay (by_fp sha pending) (by_fp sha current) \<and>
    distinct_fps sha (merge_changes sha pending current)"
proof (cases "pending = []")
  case True
  then show ?thesis using assms by (simp add: merge_changes_def overlay_def by_fp_def)
next
  case False
  let ?fp = "change_fp sha"
  let ?m = "merge_loop ?fp current (index_from ?fp 0 pending Map.empty) pending"
  have "distinct (map ?fp pending)" using assms(1) by (simp add: distinct_fps_def)
  from merge_loop_spec [OF index_from_indexes [OF this], of current] assms(2)
  have "distinct_fps sha ?m" "by_fp sha ?m = overlay (by_fp sha pending) (by_fp sha current)"
    by (simp_all add: distinct_fps_def by_fp_def overlay_def)
  then show ?thesis using False by_fp_sort by (simp add: merge_changes_def)
qed

subsection \<open>Deliveries\<close>

lemma keys_differ [simp]: "pending_key a \<noteq> sent_key b" "sent_key b \<noteq> pending_key a"
  by (simp_all add: pending_key_def sent_key_def)

lemma merge_Nil_iff:
  assumes "distinct_fps sha p" "distinct_fps sha c"
  shows "merge_changes sha p c = [] \<longleftrightarrow> overlay (by_fp sha p) (by_fp sha c) = Map.empty"
proof -
  have "by_fp sha m = Map.empty \<longleftrightarrow> m = []" for m by (simp add: by_fp_def)
  then show ?thesis using merge_changes_ok [OF assms] by metis
qed

lemma merge_loop_length: "length out \<le> length (merge_loop fp cs ix out)"
proof (induction cs arbitrary: ix out)
  case (Cons c cs)
  show ?case
    using Cons.IH [of "out @ [c]" "ix(fp c \<mapsto> length out)"] Cons.IH [of "out[the (ix (fp c)) := c]" ix] Cons.IH [of out ix]
    by (auto simp del: fun_upd_apply split: option.split)
qed simp

lemma merge_Nil_pending:
  assumes "merge_changes sha p c = []"
  shows "p = []"
proof (rule ccontr)
  assume "p \<noteq> []"
  define l where "l = merge_loop (change_fp sha) c (index_from (change_fp sha) 0 p Map.empty) p"
  have "sort_func CompareChanges l = []" using assms \<open>p \<noteq> []\<close> by (simp add: merge_changes_def l_def)
  then have "mset l = {#}" using change_sort.perm [of l] by simp
  then have "l = []" by simp
  then show False
    using merge_loop_length [of p "change_fp sha" c "index_from (change_fp sha) 0 p Map.empty"] \<open>p \<noteq> []\<close>
    by (simp add: l_def)
qed

context kv_store
begin

lemma mark_sent_pending:
  assumes "env_kv env = db" "mark_sent env name p s = (err, s')"
  shows "err = None \<Longrightarrow> val s' (pending_key name) = (if p then None else val s (pending_key name))"
    and "\<not> p \<Longrightarrow> val s' (pending_key name) = val s (pending_key name)"
    and "err = None \<or> (\<exists>e. err = Some (KVError e))"
proof -
  let ?d = "if p then kv_delete db (pending_key name) s else (None, s)"
  obtain e1 s1 where d: "?d = (e1, s1)" by fastforce
  obtain e2 s2 where w: "kv_set db (sent_key name) (env_fmt_time env (env_now env)) s1 = (e2, s2)" by fastforce
  have r: "(err, s') = (case e1 of Some e \<Rightarrow> (Some (KVError e), s1)
      | None \<Rightarrow> (case e2 of Some e \<Rightarrow> (Some (KVError e), s2) | None \<Rightarrow> (None, s2)))"
    using assms d w by (auto simp: mark_sent_def split: option.splits)
  have s2: "val s2 (pending_key name) = val s1 (pending_key name)"
    using w set_ok set_fails by (cases e2) (force, force)
  have s1: "e1 = None \<Longrightarrow> val s1 (pending_key name) = (if p then None else val s (pending_key name))"
    using d delete_ok by (auto split: if_splits)
  show "err = None \<Longrightarrow> val s' (pending_key name) = (if p then None else val s (pending_key name))"
    using r s1 s2 by (auto split: option.splits)
  show "\<not> p \<Longrightarrow> val s' (pending_key name) = val s (pending_key name)"
    using r d s2 by (auto split: option.splits)
  show "err = None \<or> (\<exists>e. err = Some (KVError e))"
    using r by (auto split: option.splits)
qed

lemma keep_pending_val:
  assumes "env_kv env = db" "keep_pending env name ch e s = (err, s')" "ch \<noteq> []"
  shows "err = Some (SendError e) \<and> val s' (pending_key name) = Some (env_enc env (cap_pending ch)) \<or>
    (\<exists>e'. err = Some (SendAndKVError e e')) \<and> val s' = val s"
proof -
  obtain e1 s1 where d: "kv_set db (pending_key name) (env_enc env (cap_pending ch)) s = (e1, s1)" by fastforce
  then show ?thesis
    using assms set_ok [of "pending_key name" "env_enc env (cap_pending ch)" s s1]
      set_fails [of "pending_key name" "env_enc env (cap_pending ch)" s _ s1]
    by (cases e1) (auto simp: keep_pending_def)
qed

text \<open>A delivery with something to send.\<close>

lemma deliver_digest:
  assumes kv: "env_kv env = db" and g: "kv_get db (pending_key name) s = Inr w"
    and m: "m = merge_changes (env_sha env) (pending_of (env_dec env) (val s (pending_key name))) (rule_Filter rule (d_Changes diff))"
      "m \<noteq> []"
    and d: "deliver env send name rule diff s = (err, s', sent)"
  shows "sent = Some (digest name diff m) \<and>
    (case send (digest name diff m) of
       Some e \<Rightarrow> err = Some (SendError e) \<and> val s' (pending_key name) = Some (env_enc env (cap_pending m)) \<or>
         (\<exists>e'. err = Some (SendAndKVError e e')) \<and> val s' = val s
     | None \<Rightarrow> err = None \<and> pending_of (env_dec env) (val s' (pending_key name)) = [] \<or> (\<exists>e. err = Some (KVError e)))"
proof -
  let ?p = "pending_of (env_dec env) (val s (pending_key name))"
  have w: "w = val s (pending_key name)" by (rule get_val [OF g])
  have D: "deliver env send name rule diff s =
      (case send (digest name diff m) of
         Some e \<Rightarrow> (case keep_pending env name m e s of (err, s') \<Rightarrow> (err, s', Some (digest name diff m)))
       | None \<Rightarrow> (case mark_sent env name (?p \<noteq> []) s of (err, s') \<Rightarrow> (err, s', Some (digest name diff m))))"
    using m(2) unfolding deliver_def kv g sum.case w Let_def m(1) [symmetric] by simp
  show ?thesis
  proof (cases "send (digest name diff m)")
    case None
    obtain e s1 where ms: "mark_sent env name (?p \<noteq> []) s = (e, s1)" by fastforce
    then have "err = e" "s' = s1" "sent = Some (digest name diff m)" using D d None by simp_all
    moreover have "e = None \<Longrightarrow> pending_of (env_dec env) (val s1 (pending_key name)) = []"
      using mark_sent_pending(1) [OF kv ms] by (simp add: pending_of_def split: if_split_asm)
    ultimately show ?thesis using mark_sent_pending(3) [OF kv ms] None by auto
  next
    case (Some e)
    obtain e1 s1 where kp: "keep_pending env name m e s = (e1, s1)" by fastforce
    then have "err = e1" "s' = s1" "sent = Some (digest name diff m)" using D d Some by simp_all
    then show ?thesis using keep_pending_val [OF kv kp m(2)] Some by simp
  qed
qed

text \<open>A delivery with nothing to send: at most a heartbeat, and nothing becomes pending.\<close>

lemma deliver_quiet:
  assumes kv: "env_kv env = db" and g: "kv_get db (pending_key name) s = Inr w"
    and m: "merge_changes (env_sha env) (pending_of (env_dec env) (val s (pending_key name))) (rule_Filter rule (d_Changes diff)) = []"
    and d: "deliver env send name rule diff s = (err, s', sent)"
  shows "val s' (pending_key name) = val s (pending_key name) \<and> (\<forall>x. sent = Some x \<longrightarrow> ms_Event x = EventHeartbeat)"
proof -
  let ?p = "pending_of (env_dec env) (val s (pending_key name))"
  let ?h = "(digest name diff [])\<lparr>ms_Event := EventHeartbeat\<rparr>"
  have w: "w = val s (pending_key name)" by (rule get_val [OF g])
  have p: "?p = []" by (rule merge_Nil_pending [OF m])
  have D: "deliver env send name rule diff s =
      (case heartbeatDue env rule (sent_key name) s of
         Inl e \<Rightarrow> (Some (KVError e), s, None)
       | Inr due \<Rightarrow> if \<not> due then (None, s, None)
           else case send ?h of
               Some e \<Rightarrow> (case keep_pending env name [] e s of (err, s') \<Rightarrow> (err, s', Some ?h))
             | None \<Rightarrow> (case mark_sent env name (?p \<noteq> []) s of (err, s') \<Rightarrow> (err, s', Some ?h)))"
    using m unfolding deliver_def kv g sum.case w Let_def m by simp
  obtain e1 s1 where ms: "mark_sent env name (?p \<noteq> []) s = (e1, s1)" by fastforce
  have "val s1 (pending_key name) = val s (pending_key name)" using mark_sent_pending(2) [OF kv ms] p by simp
  then show ?thesis using d D ms
    by (auto simp: keep_pending_def split: sum.split_asm if_split_asm option.split_asm)
qed

end

interpretation store_db: kv_store "store_kv bad" "\<lambda>s k. store_Get k s"
  by unfold_locales
    (auto simp: store_kv_def store_Get_def store_Set_def store_Delete_def split: option.splits)

text \<open>The changes a channel still owes, by fingerprint.\<close>

definition owed :: "(store, 'x) environment \<Rightarrow> string \<Rightarrow> store \<Rightarrow> string \<rightharpoonup> change" where
  "owed env name s = by_fp (env_sha env) (pending_of (env_dec env) (store_Get (pending_key name) s))"

lemma store_ok:
  assumes "env_kv env = store_kv bad" and "\<forall>op. bad op = None"
  shows "fst (mark_sent env name p s) = None" and "fst (keep_pending env name ch e s) = Some (SendError e)"
    and "\<exists>b. heartbeatDue env rule key s = Inr b" and "kv_get (env_kv env) k s = Inr (store_Get k s)"
  using assms by (auto simp: mark_sent_def keep_pending_def heartbeatDue_def store_kv_def split: option.split)

lemma deliver_err:
  assumes "env_kv env = store_kv bad" and "\<forall>op. bad op = None"
    and "deliver env send name rule diff s = (err, s', sent)"
  shows "err = None \<or> (\<exists>e. err = Some (SendError e))"
proof -
  note ok = store_ok [OF assms(1,2)]
  obtain due where due: "heartbeatDue env rule (sent_key name) s = Inr due" using ok(3) by blast
  have go: "fst (case send msg of
                Some e \<Rightarrow> (case keep_pending env name ch e s of (err, s') \<Rightarrow> (err, s', Some msg))
              | None \<Rightarrow> (case mark_sent env name p s of (err, s') \<Rightarrow> (err, s', Some msg))) \<in> {None} \<union> range (Some \<circ> SendError)"
    for msg ch p
    using ok(1) [of name p s] ok(2) [of name ch "the (send msg)" s] by (auto split: option.split prod.split)
  have "fst (deliver env send name rule diff s) \<in> {None} \<union> range (Some \<circ> SendError)"
    unfolding deliver_def ok(4) sum.case Let_def due
    by (rule if_split [where P = "\<lambda>x. fst x \<in> _", THEN iffD2], intro conjI impI, rule go)
      (rule if_split [where P = "\<lambda>x. fst x \<in> _", THEN iffD2], intro conjI impI, simp, rule go)
  then show ?thesis using assms(3) by auto
qed

text \<open>
  C17 While the state database works, no change is lost and none is sent twice. What a channel
  owes is, for each finding, the latest change it has not been sent (a finding that merely
  persists does not hide that it was new); a digest holds exactly that, it is emptied by a
  successful delivery and kept by a failed one; with nothing owed at most a heartbeat goes out.
\<close>

theorem deliver_refines:
  assumes "env_kv env = store_kv bad" and "\<forall>op. bad op = None"
    and "deliver env send name rule diff s = (err, s', sent)"
    and "distinct_fps (env_sha env) (pending_of (env_dec env) (store_Get (pending_key name) s))"
    and "distinct_fps (env_sha env) (rule_Filter rule (d_Changes diff))"
    and "m = merge_changes (env_sha env) (pending_of (env_dec env) (store_Get (pending_key name) s)) (rule_Filter rule (d_Changes diff))"
    and "length m \<le> maxPending" and "env_dec env (env_enc env m) = m"
  shows "let due = overlay (owed env name s) (by_fp (env_sha env) (rule_Filter rule (d_Changes diff))) in
    if due = Map.empty then owed env name s' = Map.empty \<and> (\<forall>x. sent = Some x \<longrightarrow> ms_Event x = EventHeartbeat)
    else \<exists>x. sent = Some x \<and> ms_Event x = EventDigest \<and> by_fp (env_sha env) (ms_Changes x) = due \<and>
      (if send x = None then err = None \<and> owed env name s' = Map.empty else err \<noteq> None \<and> owed env name s' = due)"
proof -
  define P where "P = pending_of (env_dec env) (store_Get (pending_key name) s)"
  define C where "C = rule_Filter rule (d_Changes diff)"
  have g: "kv_get (store_kv bad) (pending_key name) s = Inr (store_Get (pending_key name) s)"
    using assms(2) by (simp add: store_kv_def)
  have d: "distinct_fps (env_sha env) P" "distinct_fps (env_sha env) C" using assms(4,5) by (simp_all add: P_def C_def)
  have m: "m = merge_changes (env_sha env) P C" using assms(6) by (simp add: P_def C_def)
  note mo = merge_changes_ok [OF d, folded m]
  have due: "overlay (owed env name s) (by_fp (env_sha env) C) = by_fp (env_sha env) m"
    using mo by (simp add: owed_def P_def)
  have mN: "by_fp (env_sha env) m = Map.empty \<longleftrightarrow> m = []" by (simp add: by_fp_def)
  show ?thesis
  proof (cases "m = []")
    case True
    then have "P = []" using merge_Nil_pending m by simp
    moreover have "merge_changes (env_sha env) (pending_of (env_dec env) (store_Get (pending_key name) s))
        (rule_Filter rule (d_Changes diff)) = []" using True m by (simp add: P_def C_def)
    note q = store_db.deliver_quiet [OF assms(1) g this assms(3)]
    ultimately have "owed env name s' = Map.empty" by (simp add: owed_def P_def by_fp_def)
    then show ?thesis using q True mN unfolding Let_def C_def [symmetric] due by simp
  next
    case False
    have c: "cap_pending m = m" using assms(7) by (simp add: cap_pending_def)
    note q = store_db.deliver_digest [OF assms(1) g assms(6) False assms(3)]
    note e = deliver_err [OF assms(1,2,3)]
    have x: "ms_Event (digest name diff m) = EventDigest" "ms_Changes (digest name diff m) = m"
      by (simp_all add: digest_def)
    have "if send (digest name diff m) = None then err = None \<and> owed env name s' = Map.empty
        else err \<noteq> None \<and> owed env name s' = by_fp (env_sha env) m"
    proof (cases "send (digest name diff m)")
      case None
      then have "err = None \<and> pending_of (env_dec env) (store_Get (pending_key name) s') = []" using q e by auto
      then show ?thesis using None by (simp add: owed_def by_fp_def)
    next
      case (Some e1)
      then have "err = Some (SendError e1) \<and> store_Get (pending_key name) s' = Some (env_enc env m)" using q e c by auto
      then show ?thesis using Some assms(8) by (simp add: owed_def pending_of_def)
    qed
    then show ?thesis
      using q False mN x unfolding Let_def C_def [symmetric] due by auto
  qed
qed

definition demo_change :: change where
  "demo_change = \<lparr>c_Kind = New, c_Finding = demo_finding, c_Suppressed = False, c_FirstSeen = 0\<rparr>"

definition demo_env :: "(store, unit) environment" where
  "demo_env = \<lparr>env_kv = store_kv (\<lambda>_. None), env_enc = (\<lambda>_. ''json''), env_dec = (\<lambda>_. [demo_change]),
     env_fmt_time = (\<lambda>_. ''now''), env_parse_time = (\<lambda>_. None), env_sha = (\<lambda>_. []), env_now = 0\<rparr>"

definition demo_diff :: "unit diff" where
  "demo_diff = \<lparr>d_RunID = 1, d_Started = 0, d_Duration = 0, d_Targets = [], d_Changes = [demo_change], d_Errors = [], d_Open = 1\<rparr>"

definition demo_rule :: rule where
  "demo_rule = \<lparr>ru_On = [''new''], ru_MinSeverity = SeverityUnset, ru_Heartbeat = 0\<rparr>"

theorem deliver_refines_witness:
  "\<exists>err s' m. deliver demo_env (\<lambda>_. Some ()) ''ops'' demo_rule demo_diff empty_store = (err, s', Some m) \<and>
     err \<noteq> None \<and> owed demo_env ''ops'' s' \<noteq> Map.empty"
proof -
  obtain err s' sent where d: "deliver demo_env (\<lambda>_. Some ()) ''ops'' demo_rule demo_diff empty_store = (err, s', sent)"
    by (metis prod_cases3)
  have p: "pending_of (env_dec demo_env) (store_Get (pending_key ''ops'') empty_store) = []"
    by (simp add: pending_of_def store_Get_def empty_store_def)
  have c: "rule_Filter demo_rule (d_Changes demo_diff) = [demo_change]"
    by (simp add: rule_Filter_def rule_wants_def demo_diff_def demo_rule_def demo_change_def kind_String_def
        demo_finding_def SeverityUnset_def SeverityLow_def)
  have m: "merge_changes (env_sha demo_env) [] [demo_change] = [demo_change]" by (simp add: merge_changes_def)
  have "overlay (owed demo_env ''ops'' empty_store) (by_fp (env_sha demo_env) [demo_change]) \<noteq> Map.empty"
    by (simp add: owed_def p by_fp_def overlay_def fun_eq_iff)
  moreover have "env_kv demo_env = store_kv (\<lambda>_. None)" "env_dec demo_env (env_enc demo_env [demo_change]) = [demo_change]"
    by (simp_all add: demo_env_def)
  moreover have "by_fp (env_sha demo_env) [demo_change] \<noteq> Map.empty" by (simp add: by_fp_def)
  ultimately have r: "\<exists>x. sent = Some x \<and> err \<noteq> None \<and>
      owed demo_env ''ops'' s' = overlay (owed demo_env ''ops'' empty_store) (by_fp (env_sha demo_env) [demo_change])"
    using deliver_refines [of demo_env "\<lambda>_. None" "\<lambda>_. Some ()" "''ops''" demo_rule demo_diff empty_store err s' sent "[demo_change]",
        unfolded p c Let_def] d m
    by (simp add: distinct_fps_def maxPending_def) blast
  with d show ?thesis
    using \<open>overlay (owed demo_env ''ops'' empty_store) (by_fp (env_sha demo_env) [demo_change]) \<noteq> Map.empty\<close> by metis
qed

subsection \<open>Redacted messages\<close>

text \<open>Replacing is cutting at the occurrences and joining with the new text.\<close>

lemma replace_all_acc_skip: "replace_all_acc k s old new = replace_all_acc 0 (drop k s) old new"
proof (induction s arbitrary: k)
  case (Cons c s)
  show ?case by (cases k) (simp_all add: Cons)
qed simp

lemma replace_all_pieces:
  assumes "old \<noteq> []"
  shows "\<exists>ps. ps \<noteq> [] \<and> s = join old ps \<and> replace_all s old new = join new ps \<and> (\<forall>p\<in>set ps. \<not> contains_sub p old)"
proof (induction s rule: length_induct)
  case (1 s)
  show ?case
  proof (cases s)
    case Nil
    then show ?thesis using assms by (intro exI [of _ "[[]]"]) (simp add: replace_all_def)
  next
    case (Cons c t)
    show ?thesis
    proof (cases "has_prefix s old")
      case True
      then obtain r where r: "s = old @ r" by (auto simp: has_prefix_iff)
      then obtain ps where ps: "ps \<noteq> []" "r = join old ps" "replace_all r old new = join new ps"
        "\<forall>p\<in>set ps. \<not> contains_sub p old" using 1 assms by (metis length_append length_greater_0_conv less_add_same_cancel2)
      have "drop (length old - 1) t = r" using r Cons assms by (cases old) auto
      then have "replace_all s old new = new @ replace_all r old new"
        using True Cons unfolding replace_all_def by (simp add: replace_all_acc_skip [of "length old - Suc 0"])
      then show ?thesis using ps r assms by (intro exI [of _ "[] # ps"]) (simp add: join_Cons)
    next
      case False
      obtain ps where ps: "ps \<noteq> []" "t = join old ps" "replace_all t old new = join new ps"
        "\<forall>p\<in>set ps. \<not> contains_sub p old" using 1 Cons by (metis length_Cons lessI)
      then obtain q qs where q: "ps = q # qs" by (cases ps) auto
      have j: "join x ((c # q) # qs) = c # join x (q # qs)" for x by (cases qs) simp_all
      have "replace_all s old new = c # replace_all t old new"
        using False Cons by (simp add: replace_all_def)
      moreover have "\<not> contains_sub (c # q) old"
      proof
        assume "contains_sub (c # q) old"
        then have "has_prefix (c # q) old" using ps(4) q by simp
        moreover obtain r where "s = (c # q) @ r"
          using Cons ps(2) q by (cases qs) auto
        ultimately show False using False unfolding has_prefix_iff by (metis append.assoc)
      qed
      ultimately show ?thesis using ps q Cons j by (intro exI [of _ "(c # q) # qs"]) simp
    qed
  qed
qed

lemma join_piece: "q \<in> set ps \<Longrightarrow> contains_sub q p \<Longrightarrow> contains_sub (join x ps) p"
proof (induction x ps rule: join.induct)
  case (3 sep w v vs)
  then show ?case
    using contains_sub_append [of w p "[]" "sep @ join sep (v # vs)"]
      contains_sub_append [of "join sep (v # vs)" p "w @ sep" "[]"] by auto
qed auto

definition unlike_mark :: "string \<Rightarrow> bool" where
  "unlike_mark p \<longleftrightarrow> p \<noteq> [] \<and> CHR ''['' \<notin> set p \<and> CHR '']'' \<notin> set p \<and> \<not> contains_sub ''redacted'' p"

lemma join_mark:
  assumes "unlike_mark p"
  shows "contains_sub (join ''[redacted]'' ps) p \<Longrightarrow> \<exists>q\<in>set ps. contains_sub q p"
proof (induction "''[redacted]''" ps rule: join.induct)
  case (3 w v vs)
  let ?r = "join ''[redacted]'' (v # vs)"
  have "contains_sub (w @ CHR ''['' # ''redacted'' @ CHR '']'' # ?r) p" using 3(2) by simp
  then have "contains_sub w p \<or> contains_sub (''redacted'' @ CHR '']'' # ?r) p"
    using assms by (intro contains_sub_sep) (auto simp: unlike_mark_def)
  then have "contains_sub w p \<or> contains_sub ?r p"
    using assms contains_sub_sep [of "CHR '']''" p "''redacted''" ?r] by (auto simp: unlike_mark_def)
  then show ?case using 3(1) by auto
qed (use assms in \<open>auto simp: unlike_mark_def\<close>)

lemma replace_all_absent:
  assumes "unlike_mark p" "old \<noteq> []" "\<not> contains_sub s p \<or> p = old"
  shows "\<not> contains_sub (replace_all s old ''[redacted]'') p"
proof
  assume c: "contains_sub (replace_all s old ''[redacted]'') p"
  obtain ps where ps: "s = join old ps" "replace_all s old ''[redacted]'' = join ''[redacted]'' ps"
    "\<forall>p\<in>set ps. \<not> contains_sub p old" using replace_all_pieces [OF assms(2)] by metis
  then obtain q where "q \<in> set ps" "contains_sub q p" using join_mark [OF assms(1)] c by metis
  then show False using assms(3) ps join_piece by metis
qed

lemma redact_keeps_absent:
  "unlike_mark p \<Longrightarrow> \<not> contains_sub msg p \<Longrightarrow> \<not> contains_sub (redact msg ss) p"
proof (induction ss arbitrary: msg)
  case (Cons s ss)
  have "4 \<le> length s \<Longrightarrow> s \<noteq> []" by auto
  then show ?case using Cons replace_all_absent [OF Cons.prems(1), of s msg] by auto
qed simp

text \<open>
  C18 Secrets stay out of the logs: after redaction no secret of at least four bytes occurs in the
  message, wherever and however often it did, provided the secret has no square bracket and is not
  a part of the word that replaces it.
\<close>

theorem redact_hides_secrets:
  assumes "s \<in> set secrets" and "4 \<le> length s" and "unlike_mark s"
  shows "\<not> contains_sub (redact msg secrets) s"
  using assms
proof (induction secrets arbitrary: msg)
  case (Cons t ts)
  show ?case
  proof (cases "s = t")
    case True
    have "\<not> contains_sub (replace_all msg t ''[redacted]'') s"
      using Cons.prems True by (intro replace_all_absent) auto
    then show ?thesis using redact_keeps_absent [OF Cons.prems(3)] Cons.prems(2) True by simp
  next
    case False
    then show ?thesis using Cons by simp
  qed
qed simp

theorem redact_hides_secrets_witness:
  "\<not> contains_sub (redact ''post https://x/123:abc failed (123:abc)'' [''123:abc'']) ''123:abc''"
  by (rule redact_hides_secrets) (simp_all add: unlike_mark_def has_prefix_def)

end
