(* ===== verification/SetaRunes.thy ===== *)
theory SetaRunes
  imports SetaPrelude
begin

text \<open>
  Text as UTF-8 in bytes: \<open>runes\<close> cuts it as Go's conversion to []rune does, an invalid byte being a rune
  of its own, with the sizes the program measures text in and how a cut in the middle of a rune changes
  them. Also the few characters beyond ASCII that several packages print.
\<close>

definition ellipsis :: string where "ellipsis = [CHR 0xE2, CHR 0x80, CHR 0xA6]"

definition middot :: string where "middot = [CHR 0x20, CHR 0xC2, CHR 0xB7, CHR 0x20]"

definition newline :: string where "newline = [CHR 0x0A]"

subsection \<open>UTF-8\<close>

definition in_range :: "nat \<Rightarrow> nat \<Rightarrow> char \<Rightarrow> bool" where
  "in_range lo hi c \<longleftrightarrow> lo \<le> byte c \<and> byte c \<le> hi"

abbreviation continuation :: "char \<Rightarrow> bool" where "continuation \<equiv> in_range 128 191"

definition pair_rune :: "char \<Rightarrow> char \<Rightarrow> bool" where
  "pair_rune c d \<longleftrightarrow> in_range 194 223 c \<and> continuation d"

definition triple_rune :: "char \<Rightarrow> char \<Rightarrow> char \<Rightarrow> bool" where
  "triple_rune c d e \<longleftrightarrow> in_range 224 239 c \<and>
     in_range (if byte c = 224 then 160 else 128) (if byte c = 237 then 159 else 191) d \<and> continuation e"

definition quad_rune :: "char \<Rightarrow> char \<Rightarrow> char \<Rightarrow> char \<Rightarrow> bool" where
  "quad_rune c d e f \<longleftrightarrow> in_range 240 244 c \<and>
     in_range (if byte c = 240 then 144 else 128) (if byte c = 244 then 143 else 191) d \<and> continuation e \<and> continuation f"

fun rune_len :: "string \<Rightarrow> nat" where
  "rune_len (c # d # e # f # cs) =
     (if pair_rune c d then 2 else if triple_rune c d e then 3 else if quad_rune c d e f then 4 else 1)"
| "rune_len [c, d, e] = (if pair_rune c d then 2 else if triple_rune c d e then 3 else 1)"
| "rune_len [c, d] = (if pair_rune c d then 2 else 1)"
| "rune_len _ = 1"

lemma rune_len_pos: "0 < rune_len s"
  by (induction s rule: rune_len.induct) auto

function runes :: "string \<Rightarrow> string list" where
  "runes s = (if s = [] then [] else take (rune_len s) s # runes (drop (rune_len s) s))"
  by pat_completeness auto
termination
  by (relation "measure length") (auto simp: rune_len_pos diff_less)

declare runes.simps [simp del]

definition utf16Len :: "string \<Rightarrow> nat" where
  "utf16Len s = sum_list (map (\<lambda>r. if length r = 4 then 2 else 1) (runes s))"

definition RuneCount :: "string \<Rightarrow> nat" where
  "RuneCount s = length (runes s)"

text \<open>A rune written back: an invalid byte becomes the replacement character.\<close>

definition rune_text :: "string \<Rightarrow> string" where
  "rune_text r = (case r of [c] \<Rightarrow> if 128 \<le> byte c then [CHR 0xEF, CHR 0xBF, CHR 0xBD] else r | _ \<Rightarrow> r)"

subsection \<open>Cutting text\<close>

lemma pair_rune_tail: "pair_rune c d \<Longrightarrow> continuation d"
  by (simp add: pair_rune_def)

lemma triple_rune_tail: "triple_rune c d e \<Longrightarrow> continuation d \<and> continuation e"
  by (auto simp: triple_rune_def in_range_def split: if_splits)

lemma quad_rune_tail: "quad_rune c d e f \<Longrightarrow> continuation d \<and> continuation e \<and> continuation f"
  by (auto simp: quad_rune_def in_range_def split: if_splits)

lemma continuation_starts_nothing:
  assumes "continuation c"
  shows "\<not> pair_rune c d" and "\<not> triple_rune c d e" and "\<not> quad_rune c d e f"
  using assms by (simp_all add: pair_rune_def triple_rune_def quad_rune_def in_range_def)

lemma rune_len_continuation: "continuation c \<Longrightarrow> rune_len (c # s) = 1"
  by (cases "c # s" rule: rune_len.cases) (auto simp: continuation_starts_nothing)

lemma rune_len_cut:
  "a \<noteq> [] \<Longrightarrow> rune_len (a @ b) \<le> length a \<Longrightarrow> rune_len a = rune_len (a @ b)"
  by (cases a rule: rune_len.cases; cases b rule: rune_len.cases) (simp_all split: if_splits)

lemma rune_len_torn:
  "a \<noteq> [] \<Longrightarrow> length a < rune_len (a @ b) \<Longrightarrow>
   rune_len a = 1 \<and> list_all continuation (tl (take (rune_len (a @ b)) (a @ b)))"
  by (cases a rule: rune_len.cases; cases b rule: rune_len.cases)
    (simp_all split: if_splits add: pair_rune_tail triple_rune_tail quad_rune_tail)

lemma runes_Nil [simp]: "runes [] = []"
  by (simp add: runes.simps)

lemma runes_step: "s \<noteq> [] \<Longrightarrow> runes s = take (rune_len s) s # runes (drop (rune_len s) s)"
  by (subst runes.simps) simp

lemma runes_continuation:
  "list_all continuation (take k s) \<Longrightarrow> runes s = map (\<lambda>c. [c]) (take k s) @ runes (drop k s)"
proof (induction k arbitrary: s)
  case (Suc k)
  show ?case
  proof (cases s)
    case (Cons c t)
    then have "continuation c" "list_all continuation (take k t)" using Suc.prems by auto
    then show ?thesis using Cons Suc.IH[of t] runes_step[of s] rune_len_continuation[of c t] by simp
  qed simp
qed simp

lemma runes_torn:
  assumes "a \<noteq> []" "length a < rune_len (a @ b)"
  shows "runes a = map (\<lambda>c. [c]) a" and
    "runes (a @ b) = take (rune_len (a @ b)) (a @ b) # runes (drop (rune_len (a @ b) - length a) b)" and
    "runes b = map (\<lambda>c. [c]) (take (rune_len (a @ b) - length a) b) @ runes (drop (rune_len (a @ b) - length a) b)"
proof -
  let ?n = "rune_len (a @ b)"
  obtain c t where a: "a = c # t" using assms(1) by (cases a) auto
  have all: "rune_len a = 1" "list_all continuation (tl (take ?n (a @ b)))" using rune_len_torn[OF assms] by auto
  have len: "length t \<le> ?n - 1" using assms(2) a by simp
  have split: "tl (take ?n (a @ b)) = t @ take (?n - length a) b" using assms(2) a by (cases ?n) auto
  have ct: "list_all continuation t" "list_all continuation (take (?n - length a) b)" using all(2) split by auto
  show "runes a = map (\<lambda>c. [c]) a"
    using runes_step[OF assms(1)] all(1) a runes_continuation[of "length t" t] ct(1) by simp
  show "runes b = map (\<lambda>c. [c]) (take (?n - length a) b) @ runes (drop (?n - length a) b)"
    by (rule runes_continuation[OF ct(2)])
  show "runes (a @ b) = take ?n (a @ b) # runes (drop (?n - length a) b)"
    using runes_step[of "a @ b"] assms by simp
qed

lemma runes_weight_append:
  fixes w :: "string \<Rightarrow> nat"
  assumes le: "\<And>r. r \<noteq> [] \<Longrightarrow> w r \<le> length r" and one: "\<And>c. w [c] = 1"
  shows "sum_list (map w (runes (a @ b))) \<le> sum_list (map w (runes a)) + sum_list (map w (runes b))"
proof (induction a rule: length_induct)
  case (1 a)
  show ?case
  proof (cases "a = [] \<or> length a < rune_len (a @ b)")
    case False
    then have ne: "a \<noteq> []" and cut: "rune_len (a @ b) \<le> length a" by auto
    note n = rune_len_cut[OF ne cut]
    have "sum_list (map w (runes (drop (rune_len a) a @ b))) \<le>
        sum_list (map w (runes (drop (rune_len a) a))) + sum_list (map w (runes b))"
      using 1 ne by (simp add: rune_len_pos)
    then show ?thesis using ne cut n runes_step[of a] runes_step[of "a @ b"] by simp
  next
    case True
    show ?thesis
    proof (cases "a = []")
      case False
      let ?n = "rune_len (a @ b)"
      have torn: "a \<noteq> []" "length a < ?n" using True False by auto
      have singles: "sum_list (map w (map (\<lambda>c. [c]) xs)) = length xs" for xs
        by (induction xs) (auto simp: one)
      have "w (take ?n (a @ b)) \<le> length a + length (take (?n - length a) b)"
        using le[of "take ?n (a @ b)"] torn by simp
      then show ?thesis
        unfolding runes_torn[OF torn] by (simp add: singles del: map_map)
    qed simp
  qed
qed

end
