(* ===== verification/SetaHttpPost.thy ===== *)
theory SetaHttpPost
  imports SetaNetip SetaRunes
begin

text \<open>
  Package internal/notify, http.go: posting to a notification endpoint with retries, and the check
  of the address a connection goes to. The n-th request, the random jitter, the n-th sleep and
  whether the context has ended after the n-th request are the parameters of the loop; the
  transport itself is not modelled. Durations are nanoseconds.
\<close>

definition second :: int where "second = 1000000000"
definition backoffBase :: int where "backoffBase = second"
definition backoffCap :: int where "backoffCap = 30 * second"
definition maxRetryAfter :: int where "maxRetryAfter = 5 * 60 * second"

subsection \<open>Replies\<close>

datatype 'x post_error =
    StatusError nat string
  | RetryAfterError string int
  | NetworkError 'x

definition StatusTooManyRequests :: nat where "StatusTooManyRequests = 429"

text \<open>The status of an error that is a reply; \<open>RetryAfterError\<close> wraps a status 429.\<close>

definition status_of :: "'x post_error \<Rightarrow> nat option" where
  "status_of e = (case e of StatusError n _ \<Rightarrow> Some n | RetryAfterError _ _ \<Rightarrow> Some StatusTooManyRequests
     | NetworkError _ \<Rightarrow> None)"

definition StatusError_text :: "nat \<Rightarrow> string \<Rightarrow> string" where
  "StatusError_text status body =
     (if body = [] then ''HTTP '' @ nat_digits status else ''HTTP '' @ nat_digits status @ '': '' @ body)"

definition snippet :: "string \<Rightarrow> string" where
  "snippet body =
     (let s = join '' '' (SetaPrelude.fields body) in if 200 < length s then take 200 s @ ellipsis else s)"

text \<open>What \<open>h.once\<close> makes of a reply; \<open>delay\<close> is parseRetryAfter of its header and body.\<close>

definition reply_result :: "nat \<Rightarrow> string \<Rightarrow> int \<Rightarrow> 'x post_error + string" where
  "reply_result status data delay =
     (if status div 100 = 2 then Inr data
      else if status = StatusTooManyRequests then Inl (RetryAfterError (snippet data) delay)
      else Inl (StatusError status (snippet data)))"

definition retryAfter :: "'x post_error \<Rightarrow> int" where
  "retryAfter e = (case e of RetryAfterError _ after \<Rightarrow> if 0 < after then after else backoffCap | _ \<Rightarrow> backoffCap)"

text \<open>
  \<open>rnd ceiling\<close> is rand.Int64N: a number from 0 to below the ceiling; it panics (None) when the ceiling is not
  positive. The shift is one of 64 bits, so it overflows.
\<close>

definition shl64 :: "int \<Rightarrow> nat \<Rightarrow> int" where
  "shl64 x n = signed_take_bit 63 (x * 2 ^ n)"

definition backoff :: "(int \<Rightarrow> int) \<Rightarrow> nat \<Rightarrow> int option" where
  "backoff rnd attempt =
     (let ceiling = min backoffCap (shl64 backoffBase (attempt - 1)) in
      if ceiling \<le> 0 then None else Some (rnd ceiling + 1))"

subsection \<open>The retry loop\<close>

datatype 'x post_failure =
    RateLimitedFor int "'x post_error"
  | Interrupted "'x post_error" 'x
  | Rejected "'x post_error"
  | GaveUp nat "'x post_error"
  | BackoffPanic

text \<open>The wait before a further attempt: the backoff is computed first, and replaced after a rate limit.\<close>

definition next_wait :: "(int \<Rightarrow> int) \<Rightarrow> nat \<Rightarrow> 'x post_error \<Rightarrow> int option" where
  "next_wait rnd attempt e =
     map_option (\<lambda>wait. if status_of e = Some StatusTooManyRequests then retryAfter e else wait) (backoff rnd attempt)"

definition too_long :: "'x post_error \<Rightarrow> int \<Rightarrow> bool" where
  "too_long e wait \<longleftrightarrow> status_of e = Some StatusTooManyRequests \<and> maxRetryAfter < wait"

definition no_retry :: "'x post_error \<Rightarrow> bool" where
  "no_retry e = (case status_of e of None \<Rightarrow> False | Some n \<Rightarrow> n \<noteq> StatusTooManyRequests \<and> n < 500)"

text \<open>
  The loop of \<open>Post\<close> from an attempt on, with the attempts left and the last error. The result
  comes with the number of requests made and the waits in between.
\<close>

fun post_loop ::
  "(nat \<Rightarrow> 'x post_error + string) \<Rightarrow> (nat \<Rightarrow> int \<Rightarrow> int) \<Rightarrow> (nat \<Rightarrow> int \<Rightarrow> 'x option) \<Rightarrow> (nat \<Rightarrow> bool) \<Rightarrow>
   nat \<Rightarrow> nat \<Rightarrow> 'x post_error option \<Rightarrow> ('x post_failure + string) \<times> nat \<times> int list" where
  "post_loop once rnd sleep ended attempt 0 prev =
     (Inl (GaveUp attempt (case prev of Some e \<Rightarrow> e | None \<Rightarrow> StatusError 0 [])), attempt, [])"
| "post_loop once rnd sleep ended attempt (Suc left) prev =
     (let request = (\<lambda>waits. case once attempt of
              Inr body \<Rightarrow> (Inr body, Suc attempt, waits)
            | Inl e \<Rightarrow>
                if no_retry e then (Inl (Rejected e), Suc attempt, waits)
                else if ended attempt then (Inl (Rejected e), Suc attempt, waits)
                else case post_loop once rnd sleep ended (Suc attempt) left (Some e) of
                    (r, n, ws) \<Rightarrow> (r, n, waits @ ws))
      in case prev of
           None \<Rightarrow> request []
         | Some e \<Rightarrow>
           (case next_wait (rnd attempt) attempt e of
              None \<Rightarrow> (Inl BackoffPanic, attempt, [])
            | Some wait \<Rightarrow>
                if too_long e wait then (Inl (RateLimitedFor wait e), attempt, [])
                else case sleep attempt wait of
                    Some x \<Rightarrow> (Inl (Interrupted e x), attempt, [wait])
                  | None \<Rightarrow> request [wait]))"

definition cmpOrInt :: "int \<Rightarrow> int \<Rightarrow> int" where
  "cmpOrInt v def = (if v \<le> 0 then def else v)"

definition Post ::
  "int \<Rightarrow> (nat \<Rightarrow> 'x post_error + string) \<Rightarrow> (nat \<Rightarrow> int \<Rightarrow> int) \<Rightarrow> (nat \<Rightarrow> int \<Rightarrow> 'x option) \<Rightarrow> (nat \<Rightarrow> bool) \<Rightarrow>
   ('x post_failure + string) \<times> nat \<times> int list" where
  "Post max_attempts once rnd sleep ended = post_loop once rnd sleep ended 0 (nat (cmpOrInt max_attempts 5)) None"

subsection \<open>Addresses a webhook may reach\<close>

definition cgnat :: prefix where
  "cgnat = \<lparr>px_Addr = V4 [100, 64, 0, 0], px_Bits = 10\<rparr>"

definition publicAddr :: "addr \<Rightarrow> bool" where
  "publicAddr a0 = (let a = unmap a0 in is_global_unicast a \<and> \<not> is_private a \<and> \<not> prefix_Contains cgnat a)"

text \<open>The dialer's Control function with block_private_ips: the refusal names the host.\<close>

definition dial_control :: "string \<Rightarrow> string option" where
  "dial_control address =
     (let host = (case split_host_port address of Some (h, _) \<Rightarrow> h | None \<Rightarrow> []) in
      case ParseAddr host of
        None \<Rightarrow> Some host
      | Some a \<Rightarrow> if \<not> publicAddr a then Some host else None)"

subsection \<open>The retry policy\<close>

definition retryable :: "'x post_error \<Rightarrow> bool" where
  "retryable e \<longleftrightarrow> \<not> no_retry e"

text \<open>The shift overflows from the 35th attempt on; up to the 34th it is exact.\<close>

lemma shl64_small: "n \<le> 33 \<Longrightarrow> 0 < shl64 backoffBase n"
proof -
  assume n: "n \<le> 33"
  have "(2 :: int) ^ n \<le> 2 ^ 33" using n by (intro power_increasing) simp_all
  then have "backoffBase * 2 ^ n < 2 ^ 63" by (simp add: backoffBase_def second_def)
  then have "signed_take_bit 63 (backoffBase * 2 ^ n) = backoffBase * 2 ^ n"
    by (intro signed_take_bit_int_eq_self) (simp_all add: backoffBase_def second_def order_trans [of _ 0])
  then show ?thesis by (simp add: shl64_def backoffBase_def second_def)
qed

lemma shl64_34: "shl64 backoffBase 34 < 0"
  by code_simp

lemma backoff_range:
  assumes "\<And>c. 0 < c \<Longrightarrow> 0 \<le> rnd c \<and> rnd c < c" and "backoff rnd attempt = Some w"
  shows "0 < w \<and> w \<le> backoffCap"
proof -
  let ?c = "min backoffCap (shl64 backoffBase (attempt - 1))"
  have "0 < ?c" "w = rnd ?c + 1" using assms(2) by (auto simp: backoff_def Let_def split: if_splits)
  then show ?thesis using assms(1) [of ?c] by auto
qed

lemma backoff_panics:
  "attempt \<le> 34 \<Longrightarrow> backoff rnd attempt \<noteq> None"
  "backoff rnd 35 = None"
proof -
  show "backoff rnd attempt \<noteq> None" if "attempt \<le> 34"
  proof -
    have "attempt - 1 \<le> 33" using that by simp
    from shl64_small [OF this] show ?thesis
      by (auto simp: backoff_def Let_def backoffCap_def second_def min_def split: if_splits)
  qed
qed (use shl64_34 in \<open>simp add: backoff_def Let_def\<close>)

lemma next_wait_range:
  assumes "\<And>c. 0 < c \<Longrightarrow> 0 \<le> rnd c \<and> rnd c < c" and "next_wait rnd attempt e = Some w" and "\<not> too_long e w"
  shows "0 < w \<and> w \<le> maxRetryAfter"
proof -
  have "backoffCap \<le> maxRetryAfter" "0 < backoffCap"
    by (simp_all add: backoffCap_def maxRetryAfter_def second_def)
  then show ?thesis
    using backoff_range [OF assms(1), of attempt] assms(2,3)
    by (fastforce simp: next_wait_def too_long_def retryAfter_def split: post_error.splits if_splits)
qed

definition post_ok ::
  "(nat \<Rightarrow> 'x post_error + string) \<Rightarrow> nat \<Rightarrow> nat \<Rightarrow> ('x post_failure + string) \<times> nat \<times> int list \<Rightarrow> bool" where
  "post_ok once attempt cap res =
     (case res of (r, n, waits) \<Rightarrow>
        attempt \<le> n \<and> n \<le> cap \<and> (\<forall>w\<in>set waits. 0 < w \<and> w \<le> maxRetryAfter) \<and>
        (\<forall>i. attempt \<le> i \<and> i + 1 < n \<longrightarrow> (\<exists>e. once i = Inl e \<and> retryable e)) \<and>
        (case r of
           Inr body \<Rightarrow> attempt < n \<and> once (n - 1) = Inr body
         | Inl (GaveUp k e) \<Rightarrow> k = cap \<and> n = cap
         | Inl (Rejected e) \<Rightarrow> attempt < n \<and> once (n - 1) = Inl e
         | Inl (RateLimitedFor w e) \<Rightarrow> n < cap \<and> maxRetryAfter < w
         | Inl (Interrupted e x) \<Rightarrow> n < cap
         | Inl BackoffPanic \<Rightarrow> 35 \<le> n \<and> n < cap))"

lemma post_ok_request:
  assumes "once attempt = Inl e" "retryable e" "post_ok once (Suc attempt) cap (r, n, ws)"
    and "\<forall>w\<in>set waits. 0 < w \<and> w \<le> maxRetryAfter"
  shows "post_ok once attempt cap (r, n, waits @ ws)"
proof -
  have "\<exists>e. once i = Inl e \<and> retryable e" if "attempt \<le> i" "i + 1 < n" for i
    using assms(1-3) that by (cases "i = attempt") (auto simp: post_ok_def)
  then show ?thesis using assms(3,4) by (auto simp: post_ok_def split: sum.splits post_failure.splits)
qed

lemma post_loop_ok:
  assumes "\<And>a c. 0 < c \<Longrightarrow> 0 \<le> rnd a c \<and> rnd a c < c"
  shows "post_ok once attempt (attempt + left) (post_loop once rnd sleep ended attempt left prev)"
proof (induction left arbitrary: attempt prev)
  case 0
  show ?case by (auto simp: post_ok_def)
next
  case (Suc left)
  define request where "request = (\<lambda>waits. case once attempt of
              Inr body \<Rightarrow> (Inr body, Suc attempt, waits)
            | Inl e \<Rightarrow>
                if no_retry e then (Inl (Rejected e), Suc attempt, waits)
                else if ended attempt then (Inl (Rejected e), Suc attempt, waits)
                else case post_loop once rnd sleep ended (Suc attempt) left (Some e) of
                    (r, n, ws) \<Rightarrow> (r, n, waits @ ws))"
  have R: "post_ok once attempt (attempt + Suc left) (request waits)"
    if w: "\<forall>w\<in>set waits. 0 < w \<and> w \<le> maxRetryAfter" for waits
  proof (cases "once attempt")
    case (Inr body)
    then show ?thesis using w by (auto simp: request_def post_ok_def)
  next
    case (Inl e)
    obtain r n ws where p: "post_loop once rnd sleep ended (Suc attempt) left (Some e) = (r, n, ws)"
      by (metis prod_cases3)
    have IH: "post_ok once (Suc attempt) (attempt + Suc left) (r, n, ws)"
      using Suc.IH [of "Suc attempt" "Some e"] p by simp
    show ?thesis
    proof (cases "no_retry e \<or> ended attempt")
      case True
      then have "request waits = (Inl (Rejected e), Suc attempt, waits)" using Inl by (auto simp: request_def)
      then show ?thesis using w Inl by (auto simp: post_ok_def)
    next
      case False
      then have "request waits = (r, n, waits @ ws)" using Inl p by (simp add: request_def)
      then show ?thesis using post_ok_request [OF Inl _ IH w] False by (simp add: retryable_def)
    qed
  qed
  show ?case
  proof (cases prev)
    case None
    then show ?thesis using R [of "[]"] by (simp add: request_def Let_def)
  next
    case (Some e)
    have E: "post_loop once rnd sleep ended attempt (Suc left) prev =
        (case next_wait (rnd attempt) attempt e of
           None \<Rightarrow> (Inl BackoffPanic, attempt, [])
         | Some wait \<Rightarrow>
             if too_long e wait then (Inl (RateLimitedFor wait e), attempt, [])
             else case sleep attempt wait of Some x \<Rightarrow> (Inl (Interrupted e x), attempt, [wait]) | None \<Rightarrow> request [wait])"
      using Some by (simp only: post_loop.simps Let_def request_def option.case)
    show ?thesis
    proof (cases "next_wait (rnd attempt) attempt e")
      case None
      then have "35 \<le> attempt" using backoff_panics(1) [of attempt "rnd attempt"] by (fastforce simp: next_wait_def)
      then show ?thesis unfolding E using None by (auto simp: post_ok_def)
    next
      case w: (Some wait)
      show ?thesis
      proof (cases "too_long e wait")
        case True
        then show ?thesis unfolding E using w by (auto simp: post_ok_def too_long_def)
      next
        case False
        then have "0 < wait \<and> wait \<le> maxRetryAfter"
          using next_wait_range [OF assms w] by simp
        then show ?thesis using False w R [of "[wait]"] unfolding E
          by (cases "sleep attempt wait") (auto simp: post_ok_def)
      qed
    qed
  qed
qed

text \<open>The attempt after the 35th request never begins: its backoff panics.\<close>

lemma post_loop_max:
  assumes "prev \<noteq> None \<or> attempt = 0" and "attempt \<le> 35"
  shows "fst (snd (post_loop once rnd sleep ended attempt left prev)) \<le> 35"
  using assms
proof (induction left arbitrary: attempt prev)
  case (Suc left)
  have rest: "fst (snd (post_loop once rnd sleep ended (Suc attempt) left (Some e))) \<le> 35" if "attempt < 35" for e
    using Suc.IH [of "Some e" "Suc attempt"] that by simp
  show ?case
  proof (cases "attempt = 35")
    case True
    then obtain e where "prev = Some e" using Suc.prems by auto
    then show ?thesis using True backoff_panics(2) by (simp add: next_wait_def)
  next
    case False
    then show ?thesis
      using Suc.prems rest by (auto simp: Let_def case_prod_unfold split: option.splits sum.splits)
  qed
qed simp

text \<open>
  C19 Posting always ends, after at most the configured number of requests (five by default) and never more than 35. A
  request is repeated only after a network error, a rate limit or a server error; every wait is
  positive and at most five minutes; the body returned is that of the last request; and an error
  that is not about waiting or the number of attempts is the last request's own. The program panics only
  where more than 35 attempts are configured, exactly before the 36th: the backoff of that attempt overflows.
\<close>

theorem Post_policy:
  assumes "\<And>a c. 0 < c \<Longrightarrow> 0 \<le> rnd a c \<and> rnd a c < c"
  shows "case Post k once rnd sleep ended of (r, n, waits) \<Rightarrow>
    n \<le> nat (cmpOrInt k 5) \<and> n \<le> 35 \<and> (\<forall>w\<in>set waits. 0 < w \<and> w \<le> maxRetryAfter) \<and>
    (\<forall>i. i + 1 < n \<longrightarrow> (\<exists>e. once i = Inl e \<and> retryable e)) \<and>
    (case r of
       Inr body \<Rightarrow> 0 < n \<and> once (n - 1) = Inr body
     | Inl (GaveUp m e) \<Rightarrow> m = nat (cmpOrInt k 5) \<and> n = nat (cmpOrInt k 5)
     | Inl (Rejected e) \<Rightarrow> 0 < n \<and> once (n - 1) = Inl e
     | Inl (RateLimitedFor w e) \<Rightarrow> n < nat (cmpOrInt k 5) \<and> maxRetryAfter < w
     | Inl (Interrupted e x) \<Rightarrow> n < nat (cmpOrInt k 5)
     | Inl BackoffPanic \<Rightarrow> n = 35 \<and> 35 < k)"
proof -
  obtain r n waits where p: "post_loop once rnd sleep ended 0 (nat (cmpOrInt k 5)) None = (r, n, waits)"
    by (metis prod_cases3)
  have "post_ok once 0 (nat (cmpOrInt k 5)) (r, n, waits)"
    using post_loop_ok [where rnd = rnd and once = once and attempt = 0 and left = "nat (cmpOrInt k 5)" and sleep = sleep
        and ended = ended and prev = None, OF assms] by (simp add: p)
  moreover have "n \<le> 35"
    using post_loop_max [of None 0 once rnd sleep ended "nat (cmpOrInt k 5)"] by (simp add: p)
  ultimately show ?thesis
    unfolding Post_def p post_ok_def
    by (auto simp: cmpOrInt_def split: sum.splits post_failure.splits if_splits)
qed

theorem Post_policy_witness:
  "\<exists>waits. Post 0 (\<lambda>i. if i < 2 then Inl (StatusError 503 []) else Inr ''ok'') (\<lambda>_ _. 0) (\<lambda>_ _. None :: unit option) (\<lambda>_. False) =
     (Inr ''ok'', 3, waits) \<and> (\<forall>w\<in>set waits. 0 < w \<and> w \<le> maxRetryAfter)"
proof -
  let ?p = "Post 0 (\<lambda>i. if i < 2 then Inl (StatusError 503 []) else Inr ''ok'') (\<lambda>_ _. 0) (\<lambda>_ _. None :: unit option) (\<lambda>_. False)"
  have "backoff (\<lambda>_. 0) 1 = Some 1" "backoff (\<lambda>_. 0) (Suc 1) = Some 1"
    by (simp_all add: backoff_def Let_def shl64_def backoffCap_def backoffBase_def second_def signed_take_bit_int_eq_self)
  then have "?p = (Inr ''ok'', 3, [1, 1])"
    by (simp add: Post_def cmpOrInt_def eval_nat_numeral no_retry_def status_of_def StatusTooManyRequests_def
        next_wait_def too_long_def)
  then show ?thesis
    using Post_policy [of "\<lambda>_ _. 0" 0 "\<lambda>i. if i < 2 then Inl (StatusError 503 []) else Inr ''ok''" "\<lambda>_ _. None :: unit option" "\<lambda>_. False"]
    by simp
qed

end
