(* ===== verification/SetaNotifyText.thy ===== *)
theory SetaNotifyText
  imports SetaNotify SetaHttpPost SetaRunes
begin

text \<open>
  Package internal/notify, render.go and the texts of the notifiers. Text is UTF-8 in bytes, cut
  into runes by SetaRunes.
  html.EscapeString and strings.Replacer act byte by byte on the patterns used here. The JSON
  bodies are records of what goes into them.
\<close>

subsection \<open>Pieces of text\<close>

definition truncateText :: "string \<Rightarrow> nat \<Rightarrow> string" where
  "truncateText s n =
     (let r = runes s in if length r \<le> n then s else concat (map rune_text (take (n - 1) r)) @ ellipsis)"

definition kind_emoji :: "kind \<Rightarrow> string" where
  "kind_emoji k = (case k of
      New \<Rightarrow> [CHR 0xF0, CHR 0x9F, CHR 0x94, CHR 0xB4]
    | Regressed \<Rightarrow> [CHR 0xF0, CHR 0x9F, CHR 0x9F, CHR 0xA0]
    | Resolved \<Rightarrow> [CHR 0xE2, CHR 0x9C, CHR 0x85]
    | Persisting \<Rightarrow> [CHR 0xE2, CHR 0x9A, CHR 0xAA])"

definition kind_label :: "kind \<Rightarrow> string" where
  "kind_label k = (case k of New \<Rightarrow> ''NEW'' | Regressed \<Rightarrow> ''REGRESSED'' | Resolved \<Rightarrow> ''RESOLVED'' | Persisting \<Rightarrow> ''STILL OPEN'')"

definition plural :: "int \<Rightarrow> string \<Rightarrow> string" where
  "plural n noun = (if n = 1 then ''1 '' @ noun else itoa n @ '' '' @ noun @ ''s'')"

definition headline :: "message \<Rightarrow> string" where
  "headline m =
     (case ms_Event m of
        EventTest \<Rightarrow> ''test message''
      | EventHeartbeat \<Rightarrow> ''all clear''
      | EventDigest \<Rightarrow>
          join middot (concat (map (\<lambda>k. let n = length (filter (\<lambda>c. c_Kind c = k) (ms_Changes m)) in
              if 0 < n then [nat_digits n @ '' '' @ to_lower (kind_label k)] else [])
            [New, Regressed, Resolved, Persisting])))"

definition bodyText :: "message \<Rightarrow> string" where
  "bodyText m =
     (if ms_Event m = EventTest then ''Notifications to '' @ go_quote (ms_Notifier m) @ '' work.''
      else ''No changes to report. Watching '' @ plural (int (length (ms_Targets m))) ''domain'' @ ''; '' @
        plural (ms_Open m) ''open finding'' @ ''.'')"

definition footerText :: "message \<Rightarrow> string" where
  "footerText m =
     join middot ([plural (ms_Open m) ''open finding''] @
       (if 0 < ms_Errors m then [plural (ms_Errors m) ''check error''] else []) @ [''run '' @ itoa (ms_RunID m)])"

definition evidenceLines :: "change \<Rightarrow> nat \<Rightarrow> string list" where
  "evidenceLines c n =
     map (\<lambda>k. k @ '': '' @ truncateText (the (f_Evidence (c_Finding c) k)) 200)
       (take n (sorted_keys (f_Evidence (c_Finding c))))"

definition shows_details :: "change \<Rightarrow> bool" where
  "shows_details c \<longleftrightarrow> c_Kind c = New \<or> c_Kind c = Regressed"

subsection \<open>Packing\<close>

record block =
  bk_group :: string
  bk_text :: string

definition block_text :: "(string \<Rightarrow> string) \<Rightarrow> string \<Rightarrow> block \<Rightarrow> string" where
  "block_text heading grp b = (if bk_group b \<noteq> grp then heading (bk_group b) @ bk_text b else bk_text b)"

text \<open>The loop of \<open>pack\<close>: the chunks so far, the chunk being written, the current group.\<close>

fun pack_loop ::
  "(string \<Rightarrow> string) \<Rightarrow> int \<Rightarrow> (string \<Rightarrow> nat) \<Rightarrow> block list \<Rightarrow> string list \<Rightarrow> string \<Rightarrow> string \<Rightarrow> string list \<times> string" where
  "pack_loop heading budget sz [] chunks b grp = (chunks, b)"
| "pack_loop heading budget sz (bl # bls) chunks b grp =
     (let text = block_text heading grp bl in
      if b \<noteq> [] \<and> budget < int (sz b + sz text)
      then pack_loop heading budget sz bls (chunks @ [b]) (heading (bk_group bl) @ bk_text bl) (bk_group bl)
      else pack_loop heading budget sz bls chunks (b @ text) (bk_group bl))"

definition pack :: "block list \<Rightarrow> (string \<Rightarrow> string) \<Rightarrow> int \<Rightarrow> (string \<Rightarrow> nat) \<Rightarrow> string list" where
  "pack blocks heading budget sz =
     (case pack_loop heading budget sz blocks [] [] [] of (chunks, b) \<Rightarrow>
      if b \<noteq> [] \<or> chunks = [] then chunks @ [b] else chunks)"

definition partLabel :: "nat \<Rightarrow> nat \<Rightarrow> string" where
  "partLabel i n = (if n = 1 then [] else '' ('' @ nat_digits (i + 1) @ ''/'' @ nat_digits n @ '')'')"

definition partReserve :: nat where "partReserve = 8"

subsection \<open>Telegram\<close>

definition telegramLimit :: int where "telegramLimit = 4000"

definition html_char :: "char \<Rightarrow> string" where
  "html_char c =
     (if c = CHR ''&'' then ''&amp;'' else if c = CHR ''<'' then ''&lt;'' else if c = CHR ''>'' then ''&gt;''
      else if c = CHR 0x22 then ''&#34;'' else if c = CHR 0x27 then ''&#39;'' else [c])"

definition html_escape :: "string \<Rightarrow> string" where
  "html_escape s = concat (map html_char s)"

definition telegram_block :: "change \<Rightarrow> block" where
  "telegram_block c =
     (let f = c_Finding c; esc = html_escape in
      \<lparr>bk_group = f_Target f,
       bk_text = kind_emoji (c_Kind c) @ '' <b>'' @ kind_label (c_Kind c) @ ''</b>'' @ middot @
         to_upper (severity_String (f_Severity f)) @ middot @ esc (truncateText (f_Title f) 200) @
         (if f_Subject f \<noteq> [] then '' ('' @ esc (truncateText (f_Subject f) 100) @ '')'' else []) @
         newline @ ''<code>'' @ esc (f_CheckID f) @ ''</code>'' @ newline @
         (if shows_details c then
            concat (map (\<lambda>e. esc e @ newline) (evidenceLines c 2)) @
            (if f_Remediation f \<noteq> [] then ''<i>Fix:</i> '' @ esc (truncateText (f_Remediation f) 300) @ newline else [])
          else [])\<rparr>)"

definition telegramTexts :: "message \<Rightarrow> string list" where
  "telegramTexts m =
     (let header = ''<b>Seta</b>'' @ middot @ html_escape (headline m) in
      if ms_Event m \<noteq> EventDigest then [header @ newline @ html_escape (bodyText m)]
      else
        let heading = (\<lambda>target. newline @ ''<b>'' @ html_escape target @ ''</b>'' @ newline);
            footer = newline @ ''<i>'' @ html_escape (footerText m) @ ''</i>'';
            chunks = pack (map telegram_block (ms_Changes m)) heading
              (telegramLimit - int (utf16Len (header @ footer)) - int partReserve) utf16Len
        in map (\<lambda>(i, c). header @ partLabel i (length chunks) @ newline @ c @ footer) (enumerate 0 chunks))"

subsection \<open>Slack\<close>

definition slackSection :: int where "slackSection = 2900"

definition slackBlocks :: nat where "slackBlocks = 40"

definition slackEscape :: "string \<Rightarrow> string" where
  "slackEscape s = concat (map (\<lambda>c. if c = CHR ''&'' then ''&amp;'' else if c = CHR ''<'' then ''&lt;''
     else if c = CHR ''>'' then ''&gt;'' else [c]) s)"

definition slack_block :: "change \<Rightarrow> block" where
  "slack_block c =
     (let f = c_Finding c; esc = slackEscape; tick = [CHR 0x60] in
      \<lparr>bk_group = f_Target f,
       bk_text = kind_emoji (c_Kind c) @ '' *'' @ kind_label (c_Kind c) @ ''*'' @ middot @
         to_upper (severity_String (f_Severity f)) @ middot @ esc (truncateText (f_Title f) 200) @
         (if f_Subject f \<noteq> [] then '' ('' @ esc (truncateText (f_Subject f) 100) @ '')'' else []) @
         newline @ tick @ f_CheckID f @ tick @ newline @
         (if shows_details c then
            concat (map (\<lambda>e. esc e @ newline) (evidenceLines c 2)) @
            (if f_Remediation f \<noteq> [] then ''_Fix:_ '' @ esc (truncateText (f_Remediation f) 300) @ newline else [])
          else [])\<rparr>)"

text \<open>A Slack message: the fallback text, the sections, and the footer unless it is a notice.\<close>

record slack_message =
  sm_text :: string
  sm_sections :: "string list"
  sm_footer :: "string option"

fun groups_of :: "nat \<Rightarrow> 'a list \<Rightarrow> 'a list list" where
  "groups_of n [] = []"
| "groups_of n (x # xs) = (if n = 0 then [x # xs] else take n (x # xs) # groups_of n (drop (n - 1) xs))"

definition slackMessages :: "message \<Rightarrow> slack_message list" where
  "slackMessages m =
     (let title = ''*Seta*'' @ middot @ slackEscape (headline m) in
      if ms_Event m \<noteq> EventDigest then
        [\<lparr>sm_text = ''Seta'' @ middot @ headline m, sm_sections = [title @ newline @ slackEscape (bodyText m)], sm_footer = None\<rparr>]
      else
        let heading = (\<lambda>target. newline @ ''*'' @ slackEscape target @ ''*'' @ newline);
            sections = pack (map slack_block (ms_Changes m)) heading slackSection RuneCount;
            parts = groups_of slackBlocks sections
        in map (\<lambda>(i, secs). let label = partLabel i (length parts) in
              \<lparr>sm_text = ''Seta'' @ middot @ headline m @ label,
               sm_sections = (title @ label) # map (\<lambda>s. trim_prefix s newline) secs,
               sm_footer = Some (slackEscape (footerText m))\<rparr>) (enumerate 0 parts))"

subsection \<open>Discord\<close>

definition discordDescription :: int where "discordDescription = 3800"

definition discordEmbeds :: nat where "discordEmbeds = 10"

definition discordMessage :: nat where "discordMessage = 5800"

definition discord_char :: "char \<Rightarrow> string" where
  "discord_char c =
     (if c = CHR ''@'' then [c, CHR 0xE2, CHR 0x80, CHR 0x8B]
      else if c = char_of (92 :: nat) \<or> c \<in> set ''*_~|>#[]()'' \<or> c = CHR 0x60 then [char_of (92 :: nat), c]
      else [c])"

definition discordEscape :: "string \<Rightarrow> string" where
  "discordEscape s = concat (map discord_char s)"

record discord_embed =
  em_Title :: string
  em_Description :: string
  em_Color :: int
  em_Footer :: "string option"
  em_Timestamp :: string

definition discordColor :: "kind \<Rightarrow> int" where
  "discordColor k = (case k of New \<Rightarrow> 0xE74C3C | Regressed \<Rightarrow> 0xE67E22 | Resolved \<Rightarrow> 0x2ECC71 | Persisting \<Rightarrow> 0x95A5A6)"

definition embed_size :: "discord_embed \<Rightarrow> nat" where
  "embed_size e = utf16Len (em_Title e) + utf16Len (em_Description e) +
     (case em_Footer e of Some t \<Rightarrow> utf16Len t | None \<Rightarrow> 0)"

text \<open>The colour of the gravest kind among the changes.\<close>

definition digest_color :: "change list \<Rightarrow> int" where
  "digest_color cs =
     foldl (\<lambda>col k. if list_ex (\<lambda>c. c_Kind c = k) cs then discordColor k else col) (discordColor Persisting)
       [Persisting, Resolved, Regressed, New]"

definition discord_block :: "change \<Rightarrow> block" where
  "discord_block c =
     (let f = c_Finding c; esc = discordEscape; tick = [CHR 0x60] in
      \<lparr>bk_group = f_Target f,
       bk_text = kind_emoji (c_Kind c) @ '' **'' @ kind_label (c_Kind c) @ ''**'' @ middot @
         to_upper (severity_String (f_Severity f)) @ middot @ esc (truncateText (f_Title f) 200) @
         (if f_Subject f \<noteq> [] then '' ('' @ esc (truncateText (f_Subject f) 100) @ '')'' else []) @
         newline @ tick @ f_CheckID f @ tick @ newline @
         (if shows_details c then
            concat (map (\<lambda>e. esc e @ newline) (evidenceLines c 2)) @
            (if f_Remediation f \<noteq> [] then ''*Fix:* '' @ esc (truncateText (f_Remediation f) 300) @ newline else [])
          else [])\<rparr>)"

definition discordEmbedsFor :: "(int \<Rightarrow> string) \<Rightarrow> message \<Rightarrow> discord_embed list" where
  "discordEmbedsFor stamp m =
     (let title = ''Seta'' @ middot @ headline m; ts = stamp (ms_Started m) in
      if ms_Event m \<noteq> EventDigest then
        [\<lparr>em_Title = title, em_Description = discordEscape (bodyText m), em_Color = 0x3498DB, em_Footer = None, em_Timestamp = ts\<rparr>]
      else
        let heading = (\<lambda>target. newline @ ''**'' @ discordEscape target @ ''**'' @ newline);
            parts = pack (map discord_block (ms_Changes m)) heading discordDescription utf16Len
        in map (\<lambda>(i, p). \<lparr>em_Title = title @ partLabel i (length parts), em_Description = trim_prefix p newline,
             em_Color = digest_color (ms_Changes m), em_Footer = Some (footerText m), em_Timestamp = ts\<rparr>) (enumerate 0 parts))"

fun discord_loop ::
  "discord_embed list \<Rightarrow> discord_embed list list \<Rightarrow> discord_embed list \<Rightarrow> nat \<Rightarrow> discord_embed list list" where
  "discord_loop [] out cur sz = out @ [cur]"
| "discord_loop (e # es) out cur sz =
     (if cur \<noteq> [] \<and> (length cur = discordEmbeds \<or> discordMessage < sz + embed_size e)
      then discord_loop es (out @ [cur]) [e] (embed_size e)
      else discord_loop es out (cur @ [e]) (sz + embed_size e))"

definition discordMessages :: "discord_embed list \<Rightarrow> discord_embed list list" where
  "discordMessages embeds = discord_loop embeds [] [] 0"

subsection \<open>Email and webhook\<close>

fun email_changes :: "string \<Rightarrow> change list \<Rightarrow> string" where
  "email_changes grp [] = []"
| "email_changes grp (c # cs) =
     (let f = c_Finding c in
      (if f_Target f \<noteq> grp then newline @ f_Target f @ newline else []) @
      newline @ ''  '' @ kind_label (c_Kind c) @ middot @ to_upper (severity_String (f_Severity f)) @ middot @ f_Title f @
      (if f_Subject f \<noteq> [] then '' ('' @ f_Subject f @ '')'' else []) @
      newline @ ''    '' @ f_CheckID f @ newline @
      (if shows_details c then
         concat (map (\<lambda>e. ''    '' @ e @ newline) (evidenceLines c 5)) @
         (if f_Remediation f \<noteq> [] then ''    Fix: '' @ f_Remediation f @ newline else [])
       else []) @
      email_changes (f_Target f) cs)"

definition emailText :: "message \<Rightarrow> string" where
  "emailText m =
     ''Seta'' @ middot @ headline m @ newline @
     (if ms_Event m \<noteq> EventDigest then newline @ bodyText m @ newline
      else email_changes [] (ms_Changes m) @ newline @ ''-- '' @ newline @ footerText m @ newline)"

definition email_subject :: "message \<Rightarrow> string" where
  "email_subject m =
     ''Seta: '' @ headline m @
     (if card ((\<lambda>c. f_Target (c_Finding c)) ` set (ms_Changes m)) = 1
      then '' on '' @ f_Target (c_Finding (hd (ms_Changes m))) else [])"

text \<open>
  \<open>Email.message\<close>: the headers and the body. \<open>mime_q\<close> is mime.QEncoding, \<open>qp\<close> quotedprintable, addresses
  are given as their String() forms and \<open>from_addr\<close> is the bare sender address.
\<close>

definition header_line :: "string \<Rightarrow> string \<Rightarrow> string" where
  "header_line k v = k @ '': '' @ v @ [CHR 0x0D, CHR 0x0A]"

definition crlf_lines :: "string \<Rightarrow> string" where
  "crlf_lines s = concat (map (\<lambda>c. if c = CHR 0x0A then [CHR 0x0D, c] else [c]) s)"

definition after_at :: "string \<Rightarrow> string" where
  "after_at s = (case dropWhile (\<lambda>c. c \<noteq> CHR ''@'') s of [] \<Rightarrow> [] | _ # t \<Rightarrow> t)"

definition email_message ::
  "(string \<Rightarrow> string) \<Rightarrow> (string \<Rightarrow> string) \<Rightarrow> string \<Rightarrow> string \<Rightarrow> string list \<Rightarrow> string \<Rightarrow> string \<Rightarrow> message \<Rightarrow> string" where
  "email_message mime_q qp from_text from_addr tos date rand_id m =
     header_line ''From'' from_text @ header_line ''To'' (join '', '' tos) @
     header_line ''Subject'' (mime_q (email_subject m)) @ header_line ''Date'' date @
     header_line ''Message-ID'' (''<'' @ hex_encode rand_id @ ''@'' @ after_at from_addr @ ''>'') @
     header_line ''MIME-Version'' ''1.0'' @ header_line ''Content-Type'' ''text/plain; charset=utf-8'' @
     header_line ''Content-Transfer-Encoding'' ''quoted-printable'' @
     header_line ''Auto-Submitted'' ''auto-generated'' @ header_line ''X-Seta-Event'' (event_String (ms_Event m)) @
     [CHR 0x0D, CHR 0x0A] @ qp (crlf_lines (emailText m))"

text \<open>\<open>Email.Send\<close>: at most three attempts, none after a permanent error or the context's end.\<close>

definition emailAttempts :: nat where "emailAttempts = 3"

datatype 'x email_failure = EmailFailed 'x | EmailInterrupted 'x 'x | EmailGaveUp 'x

fun email_loop ::
  "(nat \<Rightarrow> 'x option) \<Rightarrow> ('x \<Rightarrow> bool) \<Rightarrow> (nat \<Rightarrow> 'x option) \<Rightarrow> (nat \<Rightarrow> bool) \<Rightarrow> nat \<Rightarrow> nat \<Rightarrow> 'x option \<Rightarrow> 'x email_failure option" where
  "email_loop send permanent sleep ended attempt 0 err = map_option EmailGaveUp err"
| "email_loop send permanent sleep ended attempt (Suc left) err =
     (case (case err of None \<Rightarrow> None | Some e \<Rightarrow> if 0 < attempt then map_option (EmailInterrupted e) (sleep attempt) else None) of
        Some stopped \<Rightarrow> Some stopped
      | None \<Rightarrow>
        (case send attempt of
           None \<Rightarrow> None
         | Some e \<Rightarrow>
             if permanent e \<or> ended attempt then Some (EmailFailed e)
             else email_loop send permanent sleep ended (Suc attempt) left (Some e)))"

definition Email_Send ::
  "(nat \<Rightarrow> 'x option) \<Rightarrow> ('x \<Rightarrow> bool) \<Rightarrow> (nat \<Rightarrow> 'x option) \<Rightarrow> (nat \<Rightarrow> bool) \<Rightarrow> 'x email_failure option" where
  "Email_Send send permanent sleep ended = email_loop send permanent sleep ended 0 emailAttempts None"

record webhook_change =
  wc_Kind :: string
  wc_Fingerprint :: string
  wc_Finding :: finding
  wc_Evidence :: evidence
  wc_References :: "string list"
  wc_FirstSeen :: int

record webhook_run =
  wr_ID :: int
  wr_StartedAt :: int
  wr_DurationMS :: int
  wr_Targets :: "string list"
  wr_OpenFindings :: int
  wr_CheckErrors :: int

record webhook_payload =
  wp_Schema :: int
  wp_Event :: string
  wp_Run :: "webhook_run option"
  wp_Changes :: "webhook_change list"

definition webhook_change_of :: "(string \<Rightarrow> string) \<Rightarrow> change \<Rightarrow> webhook_change" where
  "webhook_change_of sha c =
     (let f = c_Finding c in
      \<lparr>wc_Kind = kind_String (c_Kind c), wc_Fingerprint = finding_Fingerprint sha f, wc_Finding = f,
       wc_Evidence = f_Evidence f, wc_References = (case f_References f of None \<Rightarrow> [] | Some rs \<Rightarrow> rs),
       wc_FirstSeen = c_FirstSeen c\<rparr>)"

definition webhook_payload_of :: "(string \<Rightarrow> string) \<Rightarrow> message \<Rightarrow> webhook_payload" where
  "webhook_payload_of sha m =
     \<lparr>wp_Schema = 1, wp_Event = event_String (ms_Event m),
      wp_Run = (if ms_Event m \<noteq> EventTest then
          Some \<lparr>wr_ID = ms_RunID m, wr_StartedAt = ms_Started m, wr_DurationMS = milliseconds (ms_Duration m),
            wr_Targets = ms_Targets m, wr_OpenFindings = ms_Open m, wr_CheckErrors = ms_Errors m\<rparr>
        else None),
      wp_Changes = map (webhook_change_of sha) (ms_Changes m)\<rparr>"

text \<open>\<open>hmac\<close> is HMAC-SHA256.\<close>

definition webhook_Sign :: "(string \<Rightarrow> string \<Rightarrow> string) \<Rightarrow> string \<Rightarrow> string \<Rightarrow> string" where
  "webhook_Sign hmac secret body = ''sha256='' @ hex_encode (hmac secret body)"

subsection \<open>What packing promises\<close>

text \<open>A chunk is the text of a run of blocks, with a heading wherever the group changes.\<close>

fun chunk_text :: "(string \<Rightarrow> string) \<Rightarrow> string \<Rightarrow> block list \<Rightarrow> string" where
  "chunk_text heading grp [] = []"
| "chunk_text heading grp (b # bs) = block_text heading grp b @ chunk_text heading (bk_group b) bs"

definition group_after :: "block list \<Rightarrow> string" where
  "group_after bs = (if bs = [] then [] else bk_group (last bs))"

text \<open>The runs the loop cuts the blocks into.\<close>

fun pack_groups ::
  "(string \<Rightarrow> string) \<Rightarrow> int \<Rightarrow> (string \<Rightarrow> nat) \<Rightarrow> block list \<Rightarrow> block list \<Rightarrow> block list list" where
  "pack_groups heading budget sz cur [] = [cur]"
| "pack_groups heading budget sz cur (bl # bls) =
     (if cur \<noteq> [] \<and> budget < int (sz (chunk_text heading [] cur) + sz (block_text heading (group_after cur) bl))
      then cur # pack_groups heading budget sz [bl] bls
      else pack_groups heading budget sz (cur @ [bl]) bls)"

definition proper_block :: "block \<Rightarrow> bool" where
  "proper_block b \<longleftrightarrow> bk_group b \<noteq> [] \<and> bk_text b \<noteq> []"

lemma chunk_text_snoc:
  "chunk_text heading g (bs @ [b]) =
     chunk_text heading g bs @ block_text heading (if bs = [] then g else bk_group (last bs)) b"
  by (induction bs arbitrary: g) auto

lemma chunk_text_extend:
  "chunk_text heading [] (bs @ [b]) = chunk_text heading [] bs @ block_text heading (group_after bs) b"
  by (simp add: chunk_text_snoc group_after_def)

lemma chunk_text_first: "bk_group b \<noteq> [] \<Longrightarrow> chunk_text heading [] [b] = heading (bk_group b) @ bk_text b"
  by (simp add: block_text_def)

lemma chunk_text_nonempty: "bs \<noteq> [] \<Longrightarrow> proper_block (hd bs) \<Longrightarrow> chunk_text heading g bs \<noteq> []"
  by (cases bs) (auto simp: block_text_def proper_block_def)

lemma pack_groups_nonempty [simp]: "pack_groups heading budget sz cur bls \<noteq> []"
  by (induction bls arbitrary: cur) auto

lemma pack_groups_concat: "concat (pack_groups heading budget sz cur bls) = cur @ bls"
  by (induction bls arbitrary: cur) auto

lemma pack_groups_hd: "cur \<noteq> [] \<Longrightarrow> hd (pack_groups heading budget sz cur bls) \<noteq> [] \<and> hd (hd (pack_groups heading budget sz cur bls)) = hd cur"
  by (induction bls arbitrary: cur) auto

lemma pack_groups_proper: "cur \<noteq> [] \<or> bls \<noteq> [] \<Longrightarrow> [] \<notin> set (pack_groups heading budget sz cur bls)"
  by (induction bls arbitrary: cur) auto

lemma pack_groups_maximal:
  "successively (\<lambda>g h. budget < int (sz (chunk_text heading [] g) + sz (block_text heading (group_after g) (hd h))))
     (pack_groups heading budget sz cur bls)"
  by (induction bls arbitrary: cur) (auto simp: successively_Cons pack_groups_hd)

lemma pack_loop_groups:
  assumes "list_all proper_block bls" and "cur \<noteq> [] \<Longrightarrow> proper_block (hd cur)"
  shows "pack_loop heading budget sz bls chunks (chunk_text heading [] cur) (group_after cur) =
    (chunks @ map (chunk_text heading []) (butlast (pack_groups heading budget sz cur bls)),
     chunk_text heading [] (last (pack_groups heading budget sz cur bls)))"
  using assms
proof (induction bls arbitrary: cur chunks)
  case Nil
  then show ?case by simp
next
  case (Cons bl bls)
  have p: "proper_block bl" "list_all proper_block bls" using Cons.prems by auto
  have ne: "(chunk_text heading [] cur \<noteq> []) = (cur \<noteq> [])"
    using chunk_text_nonempty[OF _ Cons.prems(2)] by (cases cur) auto
  show ?case
  proof (cases "cur \<noteq> [] \<and> budget < int (sz (chunk_text heading [] cur) + sz (block_text heading (group_after cur) bl))")
    case True
    have first: "heading (bk_group bl) @ bk_text bl = chunk_text heading [] [bl]"
      using p(1) by (simp add: chunk_text_first proper_block_def del: chunk_text.simps)
    have g: "bk_group bl = group_after [bl]" by (simp add: group_after_def)
    show ?thesis
      using True ne Cons.IH[of "[bl]" "chunks @ [chunk_text heading [] cur]"] p
      by (simp add: Let_def first g[symmetric] del: chunk_text.simps)
  next
    case False
    have g: "group_after (cur @ [bl]) = bk_group bl" by (simp add: group_after_def)
    have h: "cur @ [bl] \<noteq> [] \<Longrightarrow> proper_block (hd (cur @ [bl]))" using Cons.prems p by (cases cur) auto
    show ?thesis
      using False ne Cons.IH[of "cur @ [bl]" chunks, OF p(2) h]
      by (auto simp add: Let_def chunk_text_extend g simp del: chunk_text.simps)
  qed
qed

lemma pack_eq_groups:
  assumes "list_all proper_block blocks"
  shows "pack blocks heading budget sz = map (chunk_text heading []) (pack_groups heading budget sz [] blocks)"
proof -
  let ?G = "pack_groups heading budget sz [] blocks"
  have loop: "pack_loop heading budget sz blocks [] [] [] =
      (map (chunk_text heading []) (butlast ?G), chunk_text heading [] (last ?G))"
    using pack_loop_groups[OF assms, of "[]" heading budget sz "[]"] by (simp add: group_after_def)
  have split: "map (chunk_text heading []) ?G = map (chunk_text heading []) (butlast ?G) @ [chunk_text heading [] (last ?G)]"
    by (metis append_butlast_last_id list.simps(8) list.simps(9) map_append pack_groups_nonempty)
  have "chunk_text heading [] (last ?G) \<noteq> [] \<or> butlast ?G = []"
  proof (cases "blocks = []")
    case False
    then have "last ?G \<noteq> []" using pack_groups_proper[of "[]" blocks] by (metis last_in_set pack_groups_nonempty)
    moreover have "set (last ?G) \<subseteq> set blocks"
      using pack_groups_concat[of heading budget sz "[]" blocks]
      by (metis Sup_upper append_Nil image_eqI last_in_set pack_groups_nonempty set_concat)
    ultimately have "proper_block (hd (last ?G))" using assms by (metis hd_in_set list_all_iff subsetD)
    then show ?thesis using chunk_text_nonempty \<open>last ?G \<noteq> []\<close> by blast
  qed simp
  then show ?thesis by (auto simp: pack_def loop split)
qed

text \<open>The interface of the sizes a platform counts in.\<close>

locale text_measure =
  fixes sz :: "string \<Rightarrow> nat"
  assumes subadditive: "sz (a @ b) \<le> sz a + sz b"
begin

lemma pack_groups_fit:
  "1 < length cur \<longrightarrow> int (sz (chunk_text heading [] cur)) \<le> budget \<Longrightarrow>
   g \<in> set (pack_groups heading budget sz cur bls) \<Longrightarrow> 1 < length g \<Longrightarrow> int (sz (chunk_text heading [] g)) \<le> budget"
proof (induction bls arbitrary: cur)
  case Nil
  then show ?case by simp
next
  case (Cons bl bls)
  show ?case
  proof (cases "cur \<noteq> [] \<and> budget < int (sz (chunk_text heading [] cur) + sz (block_text heading (group_after cur) bl))")
    case True
    then show ?thesis using Cons.IH[of "[bl]"] Cons.prems by auto
  next
    case False
    have "cur \<noteq> [] \<longrightarrow> int (sz (chunk_text heading [] (cur @ [bl]))) \<le> budget"
      using False subadditive[of "chunk_text heading [] cur" "block_text heading (group_after cur) bl"]
      by (auto simp: chunk_text_extend)
    then have "1 < length (cur @ [bl]) \<longrightarrow> int (sz (chunk_text heading [] (cur @ [bl]))) \<le> budget" by auto
    moreover have "g \<in> set (pack_groups heading budget sz (cur @ [bl]) bls)"
      using Cons.prems(2) False by (metis pack_groups.simps(2))
    ultimately show ?thesis using Cons.IH[of "cur @ [bl]"] Cons.prems(3) by blast
  qed
qed

lemma pack_chunks:
  assumes "list_all proper_block blocks"
  shows "\<exists>gs. concat gs = blocks \<and> (blocks \<noteq> [] \<longrightarrow> [] \<notin> set gs) \<and>
     pack blocks heading budget sz = map (chunk_text heading []) gs \<and>
     (\<forall>g \<in> set gs. 1 < length g \<longrightarrow> int (sz (chunk_text heading [] g)) \<le> budget) \<and>
     successively (\<lambda>g h. budget < int (sz (chunk_text heading [] g) + sz (block_text heading (group_after g) (hd h)))) gs"
proof (intro exI conjI)
  let ?gs = "pack_groups heading budget sz [] blocks"
  show "concat ?gs = blocks" using pack_groups_concat[of heading budget sz "[]" blocks] by simp
  show "blocks \<noteq> [] \<longrightarrow> [] \<notin> set ?gs" using pack_groups_proper by blast
  show "pack blocks heading budget sz = map (chunk_text heading []) ?gs" by (rule pack_eq_groups[OF assms])
  show "\<forall>g \<in> set ?gs. 1 < length g \<longrightarrow> int (sz (chunk_text heading [] g)) \<le> budget"
    using pack_groups_fit[of "[]" heading budget _ blocks] by simp
  show "successively (\<lambda>g h. budget < int (sz (chunk_text heading [] g) + sz (block_text heading (group_after g) (hd h)))) ?gs"
    by (rule pack_groups_maximal)
qed

end

lemma utf16Len_append: "utf16Len (a @ b) \<le> utf16Len a + utf16Len b"
  unfolding utf16Len_def by (rule runes_weight_append) (auto simp: Suc_le_eq)

lemma RuneCount_append: "RuneCount (a @ b) \<le> RuneCount a + RuneCount b"
  using runes_weight_append[of "\<lambda>_. 1" a b]
  by (simp add: RuneCount_def Suc_le_eq sum_list_triv)

interpretation utf16_units: text_measure utf16Len
  by unfold_locales (rule utf16Len_append)

interpretation code_points: text_measure RuneCount
  by unfold_locales (rule RuneCount_append)

text \<open>
  C20 Telegram counts UTF-16 units and Slack code points: with either size, \<open>pack\<close> cuts the rendered
  changes into consecutive runs, none empty, each written with the heading of every target it starts or
  changes to; a chunk of more than one change is within the budget, and a chunk was only closed because
  the next change would not have fitted.
\<close>

theorem pack_spec:
  assumes "list_all proper_block blocks" and "sz = utf16Len \<or> sz = RuneCount"
  shows "\<exists>gs. concat gs = blocks \<and> (blocks \<noteq> [] \<longrightarrow> [] \<notin> set gs) \<and>
     pack blocks heading budget sz = map (chunk_text heading []) gs \<and>
     (\<forall>g \<in> set gs. 1 < length g \<longrightarrow> int (sz (chunk_text heading [] g)) \<le> budget) \<and>
     successively (\<lambda>g h. budget < int (sz (chunk_text heading [] g) + sz (block_text heading (group_after g) (hd h)))) gs"
  using assms utf16_units.pack_chunks[of blocks heading budget] code_points.pack_chunks[of blocks heading budget]
  by blast

lemma pack_spec_witness:
  "\<exists>gs. concat gs = [\<lparr>bk_group = ''a'', bk_text = ''xx''\<rparr>, \<lparr>bk_group = ''a'', bk_text = ''yy''\<rparr>] \<and>
     ([\<lparr>bk_group = ''a'', bk_text = ''xx''\<rparr>, \<lparr>bk_group = ''a'', bk_text = ''yy''\<rparr>] \<noteq> [] \<longrightarrow> [] \<notin> set gs) \<and>
     pack [\<lparr>bk_group = ''a'', bk_text = ''xx''\<rparr>, \<lparr>bk_group = ''a'', bk_text = ''yy''\<rparr>] (\<lambda>g. g) 4 RuneCount =
       map (chunk_text (\<lambda>g. g) []) gs \<and>
     (\<forall>g \<in> set gs. 1 < length g \<longrightarrow> int (RuneCount (chunk_text (\<lambda>g. g) [] g)) \<le> 4) \<and>
     successively (\<lambda>g h. 4 < int (RuneCount (chunk_text (\<lambda>g. g) [] g) +
       RuneCount (block_text (\<lambda>g. g) (group_after g) (hd h)))) gs"
  by (rule pack_spec) (simp_all add: proper_block_def)

end
