(* ===== verification/SetaCli.thy ===== *)
theory SetaCli
  imports SetaBaseline SetaConfig SetaDnsx
begin

text \<open>
  Package internal/cli: which checks a command runs on which target (scan.go, run.go), through
  which resolver (resolver.go), and the exit code it ends with (output.go). Flag parsing, files,
  the terminal and the building of a resolver are parameters. The output of the commands to
  stderr is left out, except for the notes that go into the report.
\<close>

subsection \<open>Exit codes\<close>

definition ExitOK :: nat where "ExitOK = 0"
definition ExitFindings :: nat where "ExitFindings = 1"
definition ExitUsage :: nat where "ExitUsage = 2"
definition ExitCheckErrors :: nat where "ExitCheckErrors = 3"

datatype usage_reason =
    BadTarget domain_error
  | BadSelection reg_error
  | OnlyActive "string list"
  | NoChecks
  | NoJobs
  | UnknownFormat string
  | BadReport string
  | BadFailOn string
  | EmptyResolver
  | CannotBuild client_error
  | NoWorkingResolver
  | PromptFailed
  | UnreliableResolver
  | ScanAborted
  | NoEncryptedResolver

datatype 'e exit_error =
    UsageErr usage_reason
  | FindingsErr nat severity
  | ChecksErr nat
  | ContextErr 'e

text \<open>\<open>App.Run\<close>: an error that is not an exitError ends with \<open>ExitUsage\<close> as well.\<close>

definition exit_code :: "'e exit_error option \<Rightarrow> nat" where
  "exit_code r = (case r of
      None \<Rightarrow> ExitOK
    | Some (FindingsErr _ _) \<Rightarrow> ExitFindings
    | Some (ChecksErr _) \<Rightarrow> ExitCheckErrors
    | Some (UsageErr _) \<Rightarrow> ExitUsage
    | Some (ContextErr _) \<Rightarrow> ExitUsage)"

definition count_noun :: "int \<Rightarrow> string \<Rightarrow> string" where
  "count_noun n noun = (if n = 1 then ''1 '' @ noun else itoa n @ '' '' @ noun @ ''s'')"

subsection \<open>Scanning domains given as arguments\<close>

definition domain_target :: "string \<Rightarrow> target" where
  "domain_target name =
     \<lparr>t_Name = name,
      t_Email = \<lparr>e_DKIMSelectors = [], e_SelectorsGuessed = False, e_ExpectedMX = [], e_DNSBLs = [], e_SpamhausDQSKey = []\<rparr>,
      t_Plugins = (\<lambda>_. None), t_Hosts = None, t_URLs = []\<rparr>"

fun parse_targets :: "(string \<Rightarrow> string option) \<Rightarrow> string list \<Rightarrow> string list \<Rightarrow> domain_error + target list" where
  "parse_targets idna seen [] = Inr []"
| "parse_targets idna seen (arg # args) =
     (case ParseDomain idna arg of
        Inl e \<Rightarrow> Inl e
      | Inr name \<Rightarrow>
          if name \<in> set seen then parse_targets idna seen args
          else map_sum id (\<lambda>ts. domain_target name # ts) (parse_targets idna (name # seen) args))"

definition parseTargets :: "(string \<Rightarrow> string option) \<Rightarrow> string list \<Rightarrow> domain_error + target list" where
  "parseTargets idna args = parse_targets idna [] args"

text \<open>The loop over the selected checks: those to run, and how many active ones were left out.\<close>

fun drop_active :: "bool \<Rightarrow> 'r check list \<Rightarrow> 'r check list \<times> nat" where
  "drop_active active [] = ([], 0)"
| "drop_active active (c # cs) =
     (case drop_active active cs of (keep, skipped) \<Rightarrow>
        if m_Mode (c_Meta c) = Active \<and> \<not> active then (keep, Suc skipped) else (c # keep, skipped))"

definition selectChecks :: "'r registry \<Rightarrow> string list \<Rightarrow> bool \<Rightarrow> usage_reason + 'r check list \<times> nat" where
  "selectChecks reg only active =
     (case Select reg only of
        Inl e \<Rightarrow> Inl (BadSelection e)
      | Inr selected \<Rightarrow>
        (case drop_active active selected of (checks, skipped) \<Rightarrow>
         if checks \<noteq> [] then Inr (checks, skipped)
         else if 0 < skipped then Inl (OnlyActive only)
         else Inl NoChecks))"

text \<open>The jobs of \<open>runScan\<close>: every check on every target.\<close>

definition scan_options :: "string list \<Rightarrow> string \<Rightarrow> target \<Rightarrow> target" where
  "scan_options selectors key t =
     t\<lparr>t_Email := \<lparr>e_DKIMSelectors = selectors, e_SelectorsGuessed = False, e_ExpectedMX = [], e_DNSBLs = [],
        e_SpamhausDQSKey = key\<rparr>\<rparr>"

definition scan_jobs ::
  "(string \<Rightarrow> string option) \<Rightarrow> 'r registry \<Rightarrow> string list \<Rightarrow> string list \<Rightarrow> bool \<Rightarrow> string list \<Rightarrow> string \<Rightarrow>
   usage_reason + job list \<times> nat" where
  "scan_jobs idna reg args only active selectors key =
     (case parseTargets idna args of
        Inl e \<Rightarrow> Inl (BadTarget e)
      | Inr targets \<Rightarrow>
        (case selectChecks reg only active of
           Inl e \<Rightarrow> Inl e
         | Inr (checks, skipped) \<Rightarrow>
             Inr (map (\<lambda>t. \<lparr>j_Target = scan_options selectors key t, j_Checks = map c_Meta checks\<rparr>) targets, skipped)))"

subsection \<open>Running a configuration\<close>

definition zero_host :: host where
  "zero_host = \<lparr>h_Name = [], h_Port = 0, h_Explicit = False\<rparr>"

text \<open>\<open>json\<close> is the JSON text of a plugin's merged settings; \<open>key\<close> the Spamhaus key of the environment.\<close>

definition targetOf ::
  "(string \<Rightarrow> string option) \<Rightarrow> ('j plugin_config \<Rightarrow> string) \<Rightarrow> string \<Rightarrow> 'j config \<Rightarrow> 'j cfg_target \<Rightarrow> target" where
  "targetOf idna json key cfg t =
     \<lparr>t_Name = ct_Domain t,
      t_Email = \<lparr>e_DKIMSelectors = cm_DKIMSelectors (ct_Email t), e_SelectorsGuessed = False,
        e_ExpectedMX = cm_ExpectedMX (ct_Email t), e_DNSBLs = cm_DNSBLs (ct_Email t), e_SpamhausDQSKey = key\<rparr>,
      t_Plugins = map_option json \<circ> PluginConfig cfg t,
      t_Hosts = (if ct_Hosts t = [] then None
        else Some (map (\<lambda>h. case ParseHost idna h of Inr x \<Rightarrow> x | Inl _ \<Rightarrow> zero_host) (ct_Hosts t))),
      t_URLs = ct_URLs t\<rparr>"

text \<open>The IDs \<open>--only\<close> allows: None when the flag is not given.\<close>

definition only_ids :: "'r registry \<Rightarrow> string list option \<Rightarrow> usage_reason + string list option" where
  "only_ids reg only =
     (case only of
        None \<Rightarrow> Inr None
      | Some ps \<Rightarrow>
        (case Select reg ps of Inl e \<Rightarrow> Inl (BadSelection e) | Inr cs \<Rightarrow> Inr (Some (map check_ID cs))))"

definition allowed :: "string list option \<Rightarrow> 'r check \<Rightarrow> bool" where
  "allowed only c = (case only of None \<Rightarrow> True | Some ids \<Rightarrow> check_ID c \<in> set ids)"

text \<open>The checks of one target. A check that \<open>--only\<close> rules out does not count as skipped.\<close>

definition plan_checks ::
  "'r registry \<Rightarrow> 'j config \<Rightarrow> bool \<Rightarrow> string list option \<Rightarrow> 'j cfg_target \<Rightarrow> usage_reason + 'r check list \<times> nat" where
  "plan_checks reg cfg act only t =
     (case Select reg (case CheckPatterns cfg t of Some ps \<Rightarrow> ps | None \<Rightarrow> []) of
        Inl e \<Rightarrow> Inl (BadSelection e)
      | Inr selected \<Rightarrow> Inr (drop_active (act \<or> ActiveFor cfg t) (filter (allowed only) selected)))"

record 'r plan =
  pl_jobs :: "(target \<times> 'r check list) list"
  pl_empty :: "string list"
  pl_skipped :: nat

text \<open>\<open>pl_empty\<close>: the domains whose note says that no checks are selected.\<close>

fun plan_targets ::
  "'r registry \<Rightarrow> 'j config \<Rightarrow> bool \<Rightarrow> string list option \<Rightarrow> ('j cfg_target \<Rightarrow> target) \<Rightarrow> 'j cfg_target list \<Rightarrow>
   usage_reason + 'r plan" where
  "plan_targets reg cfg act only mk [] = Inr \<lparr>pl_jobs = [], pl_empty = [], pl_skipped = 0\<rparr>"
| "plan_targets reg cfg act only mk (t # ts) =
     (case plan_checks reg cfg act only t of
        Inl e \<Rightarrow> Inl e
      | Inr (checks, skipped) \<Rightarrow>
        (case plan_targets reg cfg act only mk ts of
           Inl e \<Rightarrow> Inl e
         | Inr p \<Rightarrow>
             Inr \<lparr>pl_jobs = (if checks = [] then pl_jobs p else (mk t, checks) # pl_jobs p),
                  pl_empty = (if checks = [] then ct_Domain t # pl_empty p else pl_empty p),
                  pl_skipped = skipped + pl_skipped p\<rparr>))"

definition planConfig ::
  "'r registry \<Rightarrow> 'j config \<Rightarrow> bool \<Rightarrow> string list option \<Rightarrow> ('j cfg_target \<Rightarrow> target) \<Rightarrow> usage_reason + 'r plan" where
  "planConfig reg cfg act only mk =
     (case only_ids reg only of
        Inl e \<Rightarrow> Inl e
      | Inr ids \<Rightarrow>
        (case plan_targets reg cfg act ids mk (cf_Targets cfg) of
           Inl e \<Rightarrow> Inl e
         | Inr p \<Rightarrow> if pl_jobs p = [] then Inl NoJobs else Inr p))"

definition plan_notes :: "'r plan \<Rightarrow> string list" where
  "plan_notes p =
     map (\<lambda>d. d @ '': no checks selected.'') (pl_empty p) @
     (if 0 < pl_skipped p
      then [count_noun (int (pl_skipped p)) ''active check'' @
            '' not run; set active: true on a target or pass --active.'']
      else [])"

subsection \<open>The resolver\<close>

definition FallbackServers :: "string list" where
  "FallbackServers = [''1.1.1.1:53'', ''9.9.9.9:53'']"

text \<open>\<open>system\<close>: what dnsx.SystemServers returns, None for an error.\<close>

fun expandResolverSpecs :: "string list option \<Rightarrow> string list \<Rightarrow> usage_reason + string list" where
  "expandResolverSpecs system [] = Inr []"
| "expandResolverSpecs system (v0 # vs) =
     (let v = trim_space v0;
          these = (if v = ''system'' then Inr (case system of Some servers \<Rightarrow> servers | None \<Rightarrow> FallbackServers)
            else case Presets v of
                Some servers \<Rightarrow> Inr servers
              | None \<Rightarrow> if v = [] then Inl EmptyResolver else Inr [v])
      in case these of
           Inl e \<Rightarrow> Inl e
         | Inr servers \<Rightarrow> map_sum id (\<lambda>rest. servers @ rest) (expandResolverSpecs system vs))"

definition allEncrypted :: "(string \<Rightarrow> url option) \<Rightarrow> string list \<Rightarrow> bool" where
  "allEncrypted parse_url specs =
     list_all (\<lambda>s. case ParseServer parse_url s of Inl _ \<Rightarrow> False | Inr srv \<Rightarrow> Encrypted (sv_Transport srv)) specs"

text \<open>What came of the question on the terminal.\<close>

datatype answer = NobodyThere | EndOfInput | AnswerFailed | AnswerLine string

definition says_yes :: "bool \<Rightarrow> string \<Rightarrow> bool" where
  "says_yes def line =
     (let l = to_lower (trim_space line) in if l = [] then def else l = ''y'' \<or> l = ''yes'')"

text \<open>
  The outside of \<open>setupResolver\<close>: how a resolver is built from server specs, what it answers, and
  the error of the context, first as the probe sees it and then after the probe.
\<close>

record ('res, 'e) resolver_env =
  re_system :: "string list option"
  re_url :: "string \<Rightarrow> url option"
  re_build :: "string list \<Rightarrow> client_error + 'res"
  re_lookup :: "'res \<Rightarrow> string \<Rightarrow> nat \<Rightarrow> 'e + response"
  re_ctx :: "'res \<Rightarrow> 'e option"
  re_ctx_after :: "'res \<Rightarrow> 'e option"
  re_answer :: answer

definition probe_resolver :: "('res, 'e) resolver_env \<Rightarrow> 'res \<Rightarrow> 'e probe_result" where
  "probe_resolver env r = Probe (re_ctx env r) (re_lookup env r)"

definition encryptedChoices :: "string list" where
  "encryptedChoices = [''doh'', ''dot'']"

fun try_choices :: "('res, 'e) resolver_env \<Rightarrow> string list \<Rightarrow> 'e exit_error + 'res" where
  "try_choices env [] = Inl (UsageErr NoEncryptedResolver)"
| "try_choices env (c # cs) =
     (case re_build env (the (Presets c)) of
        Inl e \<Rightarrow> Inl (UsageErr (CannotBuild e))
      | Inr r \<Rightarrow>
        if probe_resolver env r \<noteq> ProbeOk then
          (case re_ctx_after env r of Some e \<Rightarrow> Inl (ContextErr e) | None \<Rightarrow> try_choices env cs)
        else Inr r)"

definition ask_encrypted :: "('res, 'e) resolver_env \<Rightarrow> 'e exit_error + 'res" where
  "ask_encrypted env =
     (case re_answer env of
        AnswerFailed \<Rightarrow> Inl (UsageErr PromptFailed)
      | NobodyThere \<Rightarrow> Inl (UsageErr UnreliableResolver)
      | EndOfInput \<Rightarrow> Inl (UsageErr ScanAborted)
      | AnswerLine l \<Rightarrow>
          if \<not> says_yes True l then Inl (UsageErr ScanAborted) else try_choices env encryptedChoices)"

definition setupResolver :: "('res, 'e) resolver_env \<Rightarrow> string list \<Rightarrow> bool \<Rightarrow> 'e exit_error + 'res" where
  "setupResolver env specs0 skip =
     (case expandResolverSpecs (re_system env) specs0 of
        Inl e \<Rightarrow> Inl (UsageErr e)
      | Inr specs \<Rightarrow>
        (case re_build env specs of
           Inl e \<Rightarrow> Inl (UsageErr (CannotBuild e))
         | Inr r \<Rightarrow>
             if skip then Inr r
             else if probe_resolver env r = ProbeOk then Inr r
             else case re_ctx_after env r of
                 Some e \<Rightarrow> Inl (ContextErr e)
               | None \<Rightarrow>
                   if allEncrypted (re_url env) specs then Inl (UsageErr NoWorkingResolver)
                   else ask_encrypted env))"

subsection \<open>Reports and the exit code\<close>

definition formats :: "string list" where
  "formats = [''table'', ''json'', ''sarif'', ''markdown'']"

definition report_arg :: "string \<Rightarrow> usage_reason + string \<times> string" where
  "report_arg r =
     (case cut CHR ''='' r of
        (format, path, ok) \<Rightarrow>
          if \<not> ok \<or> path = [] \<or> format \<notin> set formats then Inl (BadReport r) else Inr (format, path))"

text \<open>The checks of the flags in \<open>openSession\<close>: the severity of \<open>--fail-on\<close> and the extra reports.\<close>

definition session_flags ::
  "string \<Rightarrow> string list \<Rightarrow> string \<Rightarrow> usage_reason + severity \<times> (string \<times> string) list" where
  "session_flags format reports failOn =
     (if format \<notin> set formats then Inl (UnknownFormat format)
      else case try_map report_arg reports of
          Inl e \<Rightarrow> Inl e
        | Inr extra \<Rightarrow>
            if failOn = ''none'' then Inr (SeverityUnset, extra)
            else case ParseSeverity failOn of
                Inl e \<Rightarrow> Inl (BadFailOn e)
              | Inr sev \<Rightarrow> Inr (sev, extra))"

definition canonicalID :: "'r registry \<Rightarrow> string \<Rightarrow> string" where
  "canonicalID reg i = (case registry_Lookup reg i of Some c \<Rightarrow> check_ID c | None \<Rightarrow> i)"

definition baseline_note :: "int \<Rightarrow> string list" where
  "baseline_note gone =
     (if gone = 1 then [''1 finding in the baseline no longer occurs; regenerate it with 'seta baseline'.'']
      else if 1 < gone then
        [itoa gone @ '' findings in the baseline no longer occur; regenerate it with 'seta baseline'.'']
      else [])"

definition exit_outcome :: "severity \<Rightarrow> bool \<Rightarrow> 'e result \<Rightarrow> 'e exit_error option" where
  "exit_outcome failOn strict res =
     (let n = length (filter (\<lambda>f. failOn \<le> f_Severity f) (r_Findings res)) in
      if failOn \<noteq> SeverityUnset \<and> 0 < n then Some (FindingsErr n failOn)
      else if strict \<and> r_Errors res \<noteq> [] then Some (ChecksErr (length (r_Errors res)))
      else None)"

text \<open>\<open>finish\<close>: the result as it is reported, its notes, and the error that becomes the exit code.\<close>

definition finish ::
  "(string \<Rightarrow> string) \<Rightarrow> 'r registry \<Rightarrow> severity \<Rightarrow> bool \<Rightarrow> baseline_file option \<Rightarrow> 'e result \<Rightarrow> string list \<Rightarrow>
   'e result \<times> string list \<times> 'e exit_error option" where
  "finish sha reg failOn strict base res notes =
     (case base of
        None \<Rightarrow> (res, notes, exit_outcome failOn strict res)
      | Some f \<Rightarrow>
        (case baseline_Apply sha (canonicalID reg) f res of
           (gone, res') \<Rightarrow> (res', notes @ baseline_note gone, exit_outcome failOn strict res')))"

subsection \<open>What runs on which target\<close>

text \<open>A list of patterns picks a check: some pattern includes it, or none is given, and none excludes it.\<close>

definition picks :: "'r registry \<Rightarrow> string list \<Rightarrow> 'r check \<Rightarrow> bool" where
  "picks reg ps c \<longleftrightarrow> (included ps = {} \<or> (\<exists>p\<in>included ps. registry_matches reg p (check_ID c))) \<and>
     \<not> (\<exists>q\<in>excluded ps. registry_matches reg q (check_ID c))"

definition patterns_of :: "'j config \<Rightarrow> 'j cfg_target \<Rightarrow> string list" where
  "patterns_of cfg t = (case CheckPatterns cfg t of Some ps \<Rightarrow> ps | None \<Rightarrow> [])"

definition wanted ::
  "'r registry \<Rightarrow> 'j config \<Rightarrow> bool \<Rightarrow> string list option \<Rightarrow> 'j cfg_target \<Rightarrow> 'r check \<Rightarrow> bool" where
  "wanted reg cfg act only t c \<longleftrightarrow> picks reg (patterns_of cfg t) c \<and>
     (case only of None \<Rightarrow> True | Some ps \<Rightarrow> picks reg ps c) \<and>
     (m_Mode (c_Meta c) = Active \<longrightarrow> act \<or> ActiveFor cfg t)"

lemma drop_active_filter:
  "fst (drop_active active cs) = filter (\<lambda>c. m_Mode (c_Meta c) = Active \<longrightarrow> active) cs"
  by (induction cs) (auto split: prod.splits)

lemma drop_active_count:
  "snd (drop_active active cs) = length (filter (\<lambda>c. m_Mode (c_Meta c) = Active \<and> \<not> active) cs)"
  by (induction cs) (auto split: prod.splits)

lemma Select_picks:
  assumes "registry_ok reg" "Select reg ps = Inr cs"
  shows "sorted_wrt (\<lambda>a b. check_ID a < check_ID b) cs" "set cs = {c \<in> registered reg. picks reg ps c}"
  using Select_result[OF assms(1), of ps] assms(2) by (auto simp: picks_def)

lemma registered_by_ID:
  "registry_ok reg \<Longrightarrow> c \<in> registered reg \<Longrightarrow> d \<in> registered reg \<Longrightarrow> check_ID c = check_ID d \<Longrightarrow> c = d"
  by (metis eq_key_imp_eq_value registered_iff registry_ok_def)

lemma allowed_iff:
  assumes "registry_ok reg" "only_ids reg only = Inr ids" "c \<in> registered reg"
  shows "allowed ids c \<longleftrightarrow> (case only of None \<Rightarrow> True | Some ps \<Rightarrow> picks reg ps c)"
proof (cases only)
  case None
  then show ?thesis using assms(2) by (simp add: only_ids_def allowed_def)
next
  case (Some ps)
  then obtain cs where cs: "Select reg ps = Inr cs" "ids = Some (map check_ID cs)"
    using assms(2) by (auto simp: only_ids_def split: sum.splits)
  have "check_ID c \<in> check_ID ` set cs \<longleftrightarrow> c \<in> set cs"
    using registered_by_ID[OF assms(1) assms(3)] Select_picks(2)[OF assms(1) cs(1)] by auto
  then show ?thesis using Some cs Select_picks(2)[OF assms(1) cs(1)] assms(3) by (simp add: allowed_def)
qed

lemma plan_checks_wanted:
  assumes "registry_ok reg" "only_ids reg only = Inr ids" "plan_checks reg cfg act ids t = Inr (cs, k)"
  shows "sorted_wrt (\<lambda>a b. check_ID a < check_ID b) cs \<and> set cs = {c \<in> registered reg. wanted reg cfg act only t c}"
proof -
  obtain sel where sel: "Select reg (patterns_of cfg t) = Inr sel"
    and d: "drop_active (act \<or> ActiveFor cfg t) (filter (allowed ids) sel) = (cs, k)"
    using assms(3) by (auto simp: plan_checks_def patterns_of_def split: sum.splits)
  have cs: "cs = filter (\<lambda>c. m_Mode (c_Meta c) = Active \<longrightarrow> act \<or> ActiveFor cfg t) (filter (allowed ids) sel)"
    using drop_active_filter[of "act \<or> ActiveFor cfg t" "filter (allowed ids) sel"] d by simp
  note P = Select_picks[OF assms(1) sel]
  show ?thesis
    using P allowed_iff[OF assms(1,2)] by (auto simp: cs wanted_def intro: sorted_wrt_filter)
qed

lemma plan_targets_jobs:
  "plan_targets reg cfg act ids mk ts = Inr p \<Longrightarrow>
   pl_jobs p = filter (\<lambda>j. snd j \<noteq> [])
     (map (\<lambda>t. (mk t, case plan_checks reg cfg act ids t of Inr (cs, _) \<Rightarrow> cs | Inl _ \<Rightarrow> [])) ts) \<and>
   (\<forall>t\<in>set ts. \<exists>cs k. plan_checks reg cfg act ids t = Inr (cs, k))"
  by (induction ts arbitrary: p) (auto split: sum.splits prod.splits)

lemma plan_targets_error:
  "plan_targets reg cfg act ids mk ts = Inl e \<Longrightarrow> \<exists>ps e'. Select reg ps = Inl e' \<and> e = BadSelection e'"
  by (induction ts arbitrary: e) (auto simp: plan_checks_def split: sum.splits prod.splits)

text \<open>
  C21 What a configuration run does to a target: every planned job holds exactly the registered checks
  its patterns pick, that \<open>--only\<close> picks as well when it is given, and that do not probe the domain's
  servers unless the flag or the configuration of this target says so; each check once, in the order
  of the IDs; targets in their order, and none without a check. Planning fails only for a pattern that
  cannot be used or because no check is left on any target.
\<close>

theorem planConfig_spec:
  assumes "registry_ok reg"
  shows "case planConfig reg cfg act only mk of
      Inr p \<Rightarrow> pl_jobs p \<noteq> [] \<and>
        (\<exists>chosen. (\<forall>t\<in>set (cf_Targets cfg). sorted_wrt (\<lambda>a b. check_ID a < check_ID b) (chosen t) \<and>
             set (chosen t) = {c \<in> registered reg. wanted reg cfg act only t c}) \<and>
           pl_jobs p = filter (\<lambda>j. snd j \<noteq> []) (map (\<lambda>t. (mk t, chosen t)) (cf_Targets cfg)))
    | Inl NoJobs \<Rightarrow> \<forall>t\<in>set (cf_Targets cfg). \<forall>c\<in>registered reg. \<not> wanted reg cfg act only t c
    | Inl e \<Rightarrow> \<exists>ps e'. Select reg ps = Inl e' \<and> e = BadSelection e'"
proof (cases "only_ids reg only")
  case (Inl e)
  then show ?thesis by (auto simp: planConfig_def only_ids_def split: option.splits sum.splits)
next
  case (Inr ids)
  show ?thesis
  proof (cases "plan_targets reg cfg act ids mk (cf_Targets cfg)")
    case (Inl e)
    have "\<exists>ps e'. Select reg ps = Inl e' \<and> e = BadSelection e'"
      by (rule plan_targets_error[OF Inl])
    then show ?thesis using Inl Inr by (auto simp: planConfig_def)
  next
    case (Inr p)
    define chosen where "chosen t = (case plan_checks reg cfg act ids t of Inr (cs, _) \<Rightarrow> cs | Inl _ \<Rightarrow> [])" for t
    have jobs: "pl_jobs p = filter (\<lambda>j. snd j \<noteq> []) (map (\<lambda>t. (mk t, chosen t)) (cf_Targets cfg))"
      and ok: "\<forall>t\<in>set (cf_Targets cfg). \<exists>cs k. plan_checks reg cfg act ids t = Inr (cs, k)"
      using plan_targets_jobs[OF Inr] by (simp_all add: chosen_def)
    have ch: "sorted_wrt (\<lambda>a b. check_ID a < check_ID b) (chosen t) \<and>
        set (chosen t) = {c \<in> registered reg. wanted reg cfg act only t c}" if "t \<in> set (cf_Targets cfg)" for t
      using ok that plan_checks_wanted[OF assms \<open>only_ids reg only = Inr ids\<close>, of cfg act t]
      by (auto simp: chosen_def)
    show ?thesis
    proof (cases "pl_jobs p = []")
      case True
      then have "\<forall>t\<in>set (cf_Targets cfg). chosen t = []" using jobs by (auto simp: filter_empty_conv)
      then have "\<forall>t\<in>set (cf_Targets cfg). \<forall>c\<in>registered reg. \<not> wanted reg cfg act only t c"
        using ch by fastforce
      then show ?thesis using True Inr \<open>only_ids reg only = Inr ids\<close> by (simp add: planConfig_def)
    next
      case False
      then show ?thesis using ch jobs Inr \<open>only_ids reg only = Inr ids\<close> by (auto simp: planConfig_def)
    qed
  qed
qed

subsection \<open>No scan through a resolver that failed the check\<close>

lemma try_choices_ok:
  "try_choices env cs = Inr r \<Longrightarrow>
   probe_resolver env r = ProbeOk \<and> (\<exists>c\<in>set cs. re_build env (the (Presets c)) = Inr r)"
  by (induction cs) (auto split: sum.splits if_splits option.splits)

lemma ask_encrypted_ok:
  "ask_encrypted env = Inr r \<Longrightarrow> \<exists>l. re_answer env = AnswerLine l \<and> says_yes True l \<and> try_choices env encryptedChoices = Inr r"
  by (auto simp: ask_encrypted_def split: answer.splits if_splits)

text \<open>
  A scan goes through a resolver only when that resolver passed the probe, or the user asked not to
  probe. It is the resolver of the flags, or one of the encrypted presets after a person agreed.
\<close>

lemma setupResolver_trusted:
  assumes "setupResolver env specs skip = Inr r"
  shows "(skip \<or> probe_resolver env r = ProbeOk) \<and>
    ((\<exists>servers. expandResolverSpecs (re_system env) specs = Inr servers \<and> re_build env servers = Inr r) \<or>
     (\<exists>l. re_answer env = AnswerLine l \<and> says_yes True l \<and>
        (\<exists>c\<in>{''doh'', ''dot''}. re_build env (the (Presets c)) = Inr r)))"
proof -
  obtain servers r0 where b: "expandResolverSpecs (re_system env) specs = Inr servers" "re_build env servers = Inr r0"
    using assms by (auto simp: setupResolver_def split: sum.splits)
  show ?thesis
  proof (cases "skip \<or> probe_resolver env r0 = ProbeOk")
    case True
    then have "r = r0" using assms b by (auto simp: setupResolver_def split: if_splits)
    then show ?thesis using True b by blast
  next
    case False
    then have "ask_encrypted env = Inr r"
      using assms b by (auto simp: setupResolver_def split: if_splits option.splits)
    from ask_encrypted_ok[OF this] obtain l where
      l: "re_answer env = AnswerLine l" "says_yes True l" "try_choices env encryptedChoices = Inr r" by blast
    then show ?thesis using try_choices_ok[OF l(3)] by (auto simp: encryptedChoices_def)
  qed
qed

definition demo_resolver :: "answer \<Rightarrow> (nat, unit) resolver_env" where
  "demo_resolver a = \<lparr>re_system = None, re_url = (\<lambda>_. None), re_build = (\<lambda>s. Inr (length s)),
     re_lookup = (\<lambda>_ _ _. Inl ()), re_ctx = (\<lambda>_. None), re_ctx_after = (\<lambda>_. None), re_answer = a\<rparr>"

lemma setupResolver_trusted_witness:
  "setupResolver (demo_resolver NobodyThere) [''9.9.9.9''] True = Inr 1 \<and>
   (True \<or> probe_resolver (demo_resolver NobodyThere) 1 = ProbeOk)"
proof -
  have "trim_space ''9.9.9.9'' = ''9.9.9.9''" by code_simp
  then have "expandResolverSpecs None [''9.9.9.9''] = Inr [''9.9.9.9'']"
    by (simp add: Presets_def)
  then have "setupResolver (demo_resolver NobodyThere) [''9.9.9.9''] True = Inr 1"
    by (simp add: setupResolver_def demo_resolver_def del: expandResolverSpecs.simps)
  then show ?thesis using setupResolver_trusted[of "demo_resolver NobodyThere" "[''9.9.9.9'']" True 1] by simp
qed

subsection \<open>The exit code\<close>

text \<open>Findings at or above the limit win over check errors; without either the command succeeds.\<close>

lemma exit_code_of_outcome:
  "exit_code (exit_outcome failOn strict res) =
     (if failOn \<noteq> SeverityUnset \<and> (\<exists>f\<in>set (r_Findings res). failOn \<le> f_Severity f) then ExitFindings
      else if strict \<and> r_Errors res \<noteq> [] then ExitCheckErrors else ExitOK)"
  by (auto simp: exit_outcome_def exit_code_def Let_def filter_empty_conv)

lemma exit_ok_iff:
  "exit_code (snd (snd (finish sha reg failOn strict None res notes))) = ExitOK \<longleftrightarrow>
     (failOn \<noteq> SeverityUnset \<longrightarrow> (\<forall>f\<in>set (r_Findings res). f_Severity f < failOn)) \<and>
     (strict \<longrightarrow> r_Errors res = [])"
  by (simp add: finish_def exit_code_of_outcome ExitOK_def ExitFindings_def ExitCheckErrors_def linorder_not_le[symmetric])

text \<open>The hypothesis of the planning theorem, on a registry with two checks.\<close>

lemma planConfig_spec_witness:
  "case planConfig demo_registry (bare_config [bare_target ''example.com''] []) False None (\<lambda>t. domain_target (ct_Domain t)) of
      Inr p \<Rightarrow> pl_jobs p \<noteq> []
    | Inl NoJobs \<Rightarrow> \<not> wanted demo_registry (bare_config [bare_target ''example.com''] []) False None (bare_target ''example.com'')
        (demo_check ''a.b.c'' [''a.b.old''])
    | Inl e \<Rightarrow> \<exists>ps e'. Select demo_registry ps = Inl e' \<and> e = BadSelection e'"
proof -
  let ?c = "bare_config [bare_target ''example.com''] []"
  have "demo_check ''a.b.c'' [''a.b.old''] \<in> registered demo_registry"
    unfolding registered_iff[OF demo_registry_ok]
    by (simp add: demo_registry_def demo_check_def demo_meta_def)
  moreover have "cf_Targets ?c = [bare_target ''example.com'']" by (simp add: bare_config_def)
  ultimately show ?thesis
    using planConfig_spec[OF demo_registry_ok, of ?c False None "\<lambda>t. domain_target (ct_Domain t)"]
    by (simp split: sum.splits usage_reason.splits)
qed

end
