(* ===== verification/SetaDaemon.thy ===== *)
theory SetaDaemon
  imports SetaNotify SetaCli
begin

text \<open>
  Package internal/daemon and the run function of internal/cli/daemon.go. A run is composed of the
  parts modelled elsewhere: the probe, the configuration's Apply, the store's Record, the
  dispatcher and Prune. The scheduler is a transition system over a clock that may advance at any
  moment; \<open>nxt\<close> is cron's Schedule.Next. Times are nanoseconds; \<open>zero_time\<close> is Go's zero time,
  which Next returns when a schedule never fires.
\<close>

subsection \<open>One run\<close>

record summary =
  sm_RunID :: int
  sm_Started :: int
  sm_Duration :: int
  sm_DurationMS :: int
  sm_New :: nat
  sm_Regressed :: nat
  sm_Resolved :: nat
  sm_Open :: int
  sm_CheckErrors :: nat
  sm_NotifyFailures :: "string list"

definition count_kind :: "kind \<Rightarrow> change list \<Rightarrow> nat" where
  "count_kind k cs = length (filter (\<lambda>c. \<not> c_Suppressed c \<and> c_Kind c = k) cs)"

definition summary_of :: "'e diff \<Rightarrow> (string \<rightharpoonup> string) \<Rightarrow> summary" where
  "summary_of d failures =
     \<lparr>sm_RunID = d_RunID d, sm_Started = d_Started d, sm_Duration = d_Duration d, sm_DurationMS = 0,
      sm_New = count_kind New (d_Changes d), sm_Regressed = count_kind Regressed (d_Changes d),
      sm_Resolved = count_kind Resolved (d_Changes d), sm_Open = d_Open d,
      sm_CheckErrors = length (d_Errors d), sm_NotifyFailures = sorted_keys failures\<rparr>"

datatype ('p, 'x) run_failure = ProbeFailed "'p probe_result" | RunCanceled | RecordFailed 'x

text \<open>What the daemon was started with.\<close>

record ('j, 'r, 'a, 'x) daemon_app =
  da_cfg :: "'j config"
  da_skip :: bool
  da_reg :: "'r registry"
  da_channels :: "'a channel list"
  da_env :: "(store, 'x) environment"
  da_send :: "'a transport_config \<Rightarrow> SetaNotify.message \<Rightarrow> 'x option"
  da_text :: "'x deliver_error \<Rightarrow> string"

text \<open>
  What happens during a run: the probe's verdict, the engine's result, whether the context has
  ended by then, the clock when the suppressions are applied and when old runs are pruned, and the
  failures of the two database transactions, which are rolled back.
\<close>

record ('p, 'e, 'x) run_input =
  ri_probe :: "'p probe_result"
  ri_result :: "'e result"
  ri_canceled :: bool
  ri_now :: int
  ri_prune_now :: int
  ri_record_fails :: "'x option"
  ri_prune_fails :: bool

definition record_options :: "('j, 'r, 'a, 'x) daemon_app \<Rightarrow> options" where
  "record_options app =
     \<lparr>o_ResolveAfter = cs_ResolveAfter (cf_State (da_cfg app)), o_Canonical = Some (canonicalID (da_reg app))\<rparr>"

definition prune_cutoff :: "('j, 'r, 'a, 'x) daemon_app \<Rightarrow> int \<Rightarrow> int" where
  "prune_cutoff app now = now - cs_Retention (cf_State (da_cfg app))"

definition daemon_run ::
  "('j, 'r, 'a, 'x) daemon_app \<Rightarrow> ('p, 'e, 'x) run_input \<Rightarrow> store \<Rightarrow> (('p, 'x) run_failure + summary) \<times> store" where
  "daemon_run app inp s =
     (if \<not> da_skip app \<and> ri_probe inp \<noteq> ProbeOk then (Inl (ProbeFailed (ri_probe inp)), s)
      else if ri_canceled inp then (Inl RunCanceled, s)
      else
        let res = snd (config_Apply (da_cfg app) (ri_result inp) (ri_now inp)) in
        case ri_record_fails inp of
          Some e \<Rightarrow> (Inl (RecordFailed e), s)
        | None \<Rightarrow>
          (case Record (env_sha (da_env app)) (record_options app) res s of
             (diff, s1) \<Rightarrow>
             (case Dispatch (da_env app) (da_send app) (da_text app) (da_channels app) diff s1 of
                (failures, s2) \<Rightarrow>
                  (Inr (summary_of diff failures),
                   if ri_prune_fails inp then s2 else snd (Prune (prune_cutoff app (ri_prune_now inp)) s2)))))"

subsection \<open>The health of the daemon\<close>

definition zero_time :: int where "zero_time = - 62135596800000000000"

definition minute :: int where "minute = 60000000000"

definition shutdownGrace :: int where "shutdownGrace = minute"

record daemon =
  dm_started :: int
  dm_running :: bool
  dm_next :: int
  dm_lastStarted :: int
  dm_last :: "summary option"
  dm_lastErr :: string

definition daemon0 :: daemon where
  "daemon0 = \<lparr>dm_started = zero_time, dm_running = False, dm_next = zero_time, dm_lastStarted = zero_time,
     dm_last = None, dm_lastErr = []\<rparr>"

text \<open>The part of \<open>runOnce\<close> after the run: an error keeps the last successful summary.\<close>

definition end_run :: "string + summary \<Rightarrow> daemon \<Rightarrow> daemon" where
  "end_run r d =
     (case r of
        Inl err \<Rightarrow> d\<lparr>dm_running := False, dm_lastErr := err\<rparr>
      | Inr smry \<Rightarrow>
          d\<lparr>dm_running := False, dm_lastErr := [],
            dm_last := Some (smry\<lparr>sm_DurationMS := milliseconds (sm_Duration smry)\<rparr>)\<rparr>)"

definition begin_run :: "int \<Rightarrow> daemon \<Rightarrow> daemon" where
  "begin_run now d = d\<lparr>dm_running := True, dm_lastStarted := now\<rparr>"

definition staleAfter :: "int \<Rightarrow> int" where
  "staleAfter setting = (if 0 < setting then setting else 60 * minute)"

definition StatusOK :: nat where "StatusOK = 200"

definition StatusServiceUnavailable :: nat where "StatusServiceUnavailable = 503"

definition healthz :: "int \<Rightarrow> int \<Rightarrow> daemon \<Rightarrow> string \<times> nat" where
  "healthz setting now d =
     (if dm_next d \<noteq> zero_time \<and> dm_next d + staleAfter setting < now then (''stale'', StatusServiceUnavailable)
      else if dm_lastErr d \<noteq> [] then (''failing'', StatusServiceUnavailable)
      else if dm_last d = None then (''starting'', StatusOK)
      else (''ok'', StatusOK))"

subsection \<open>The scheduler\<close>

datatype serve_point = Fresh | LoopTop | Sleeping int | Checking | InRun | AfterRun | Stopped

text \<open>\<open>sv_log\<close> lists, latest first, the scheduled time, the start and the end of each finished run.\<close>

record serve =
  sv_point :: serve_point
  sv_clock :: int
  sv_next :: int
  sv_cancelled :: bool
  sv_daemon :: daemon
  sv_log :: "(int \<times> int \<times> int) list"

inductive serve_step :: "(int \<Rightarrow> int) \<Rightarrow> serve \<Rightarrow> serve \<Rightarrow> bool"
  for nxt
where
  tick: "0 \<le> n \<Longrightarrow> serve_step nxt s (s\<lparr>sv_clock := sv_clock s + n\<rparr>)"
| cancel: "serve_step nxt s (s\<lparr>sv_cancelled := True\<rparr>)"
| begin_serve: "sv_point s = Fresh \<Longrightarrow>
     serve_step nxt s (s\<lparr>sv_point := LoopTop, sv_next := sv_clock s,
       sv_daemon := (sv_daemon s)\<lparr>dm_started := sv_clock s\<rparr>\<rparr>)"
| loop_wait: "sv_point s = LoopTop \<Longrightarrow> sv_clock s < sv_next s \<Longrightarrow>
     serve_step nxt s (s\<lparr>sv_point := Sleeping (sv_next s), sv_daemon := (sv_daemon s)\<lparr>dm_next := sv_next s\<rparr>\<rparr>)"
| loop_due: "sv_point s = LoopTop \<Longrightarrow> sv_next s \<le> sv_clock s \<Longrightarrow>
     serve_step nxt s (s\<lparr>sv_point := Checking, sv_daemon := (sv_daemon s)\<lparr>dm_next := sv_next s\<rparr>\<rparr>)"
| timer: "sv_point s = Sleeping due \<Longrightarrow> due \<le> sv_clock s \<Longrightarrow> serve_step nxt s (s\<lparr>sv_point := Checking\<rparr>)"
| sleep_cancelled: "sv_point s = Sleeping due \<Longrightarrow> sv_cancelled s \<Longrightarrow> serve_step nxt s (s\<lparr>sv_point := Stopped\<rparr>)"
| check_cancelled: "sv_point s = Checking \<Longrightarrow> sv_cancelled s \<Longrightarrow> serve_step nxt s (s\<lparr>sv_point := Stopped\<rparr>)"
| start_run: "sv_point s = Checking \<Longrightarrow> \<not> sv_cancelled s \<Longrightarrow>
     serve_step nxt s (s\<lparr>sv_point := InRun, sv_daemon := begin_run (sv_clock s) (sv_daemon s)\<rparr>)"
| finish_run: "sv_point s = InRun \<Longrightarrow>
     serve_step nxt s (s\<lparr>sv_point := AfterRun, sv_daemon := end_run r (sv_daemon s),
       sv_log := (sv_next s, dm_lastStarted (sv_daemon s), sv_clock s) # sv_log s\<rparr>)"
| after_cancelled: "sv_point s = AfterRun \<Longrightarrow> sv_cancelled s \<Longrightarrow> serve_step nxt s (s\<lparr>sv_point := Stopped\<rparr>)"
| schedule: "sv_point s = AfterRun \<Longrightarrow> \<not> sv_cancelled s \<Longrightarrow>
     serve_step nxt s (s\<lparr>sv_point := LoopTop, sv_next := nxt (sv_clock s)\<rparr>)"

definition serve_start :: "int \<Rightarrow> serve" where
  "serve_start now = \<lparr>sv_point = Fresh, sv_clock = now, sv_next = zero_time, sv_cancelled = False,
     sv_daemon = daemon0, sv_log = []\<rparr>"

abbreviation serve_reach :: "(int \<Rightarrow> int) \<Rightarrow> int \<Rightarrow> serve \<Rightarrow> bool" where
  "serve_reach nxt start s \<equiv> (serve_step nxt)\<^sup>*\<^sup>* (serve_start start) s"

text \<open>The number of scheduled times in the open interval, at most 1000, as it is logged.\<close>

fun count_between :: "(int \<Rightarrow> int) \<Rightarrow> int \<Rightarrow> int \<Rightarrow> nat \<Rightarrow> nat" where
  "count_between nxt t until 0 = 0"
| "count_between nxt t until (Suc left) =
     (if t < until then Suc (count_between nxt (nxt t) until left) else 0)"

definition countBetween :: "(int \<Rightarrow> int) \<Rightarrow> int \<Rightarrow> int \<Rightarrow> nat" where
  "countBetween nxt from until = count_between nxt (nxt from) until 1000"

subsection \<open>A run and the history it leaves\<close>

lemma mark_sent_findings:
  assumes "env_kv env = store_kv bad"
  shows "s_findings (snd (mark_sent env name p s)) = s_findings s"
  using assms by (auto simp: mark_sent_def store_kv_def store_Set_def store_Delete_def split: option.splits)

lemma keep_pending_findings:
  assumes "env_kv env = store_kv bad"
  shows "s_findings (snd (keep_pending env name cs e s)) = s_findings s"
  using assms by (auto simp: keep_pending_def store_kv_def store_Set_def split: option.splits)

lemma deliver_findings:
  assumes "env_kv env = store_kv bad"
  shows "s_findings (fst (snd (deliver env send name rule diff s))) = s_findings s"
  unfolding deliver_def Let_def
  using mark_sent_findings[OF assms, of name] keep_pending_findings[OF assms, of name]
  by (auto split: sum.split option.split prod.split simp: prod_eq_iff)

lemma Dispatch_findings:
  assumes "env_kv env = store_kv bad"
  shows "s_findings (snd (Dispatch env send text chs diff s)) = s_findings s"
proof (induction chs arbitrary: s)
  case (Cons ch chs)
  then show ?case
    using deliver_findings[OF assms, of "send (ch_Notifier ch)" "ch_Name ch" "ch_Rule ch" diff s]
    by (simp add: case_prod_unfold)
qed simp

text \<open>What pruning leaves of the history of a finding.\<close>

definition forget :: "int \<Rightarrow> row option \<Rightarrow> row option" where
  "forget cutoff known =
     (case known of
        None \<Rightarrow> None
      | Some rw \<Rightarrow>
          if \<not> rw_open rw \<and> (case rw_resolvedAt rw of None \<Rightarrow> False | Some t \<Rightarrow> t < unix_milli cutoff) then None
          else Some rw)"

lemma map_of_filter_distinct:
  "distinct (map fst kvs) \<Longrightarrow>
   map_of (filter (\<lambda>(k, v). P v) kvs) k = (case map_of kvs k of None \<Rightarrow> None | Some v \<Rightarrow> if P v then Some v else None)"
  by (induction kvs) (auto simp: map_of_eq_None_iff split: option.splits dest: map_of_SomeD)

lemma Prune_history:
  assumes "distinct (map fst (s_findings s))"
  shows "history (snd (Prune cutoff s)) fp = forget cutoff (history s fp)"
proof -
  have "s_findings (snd (Prune cutoff s)) = filter (\<lambda>(k, r). \<not> (\<not> db_open r \<and>
      (case db_resolved_at r of None \<Rightarrow> False | Some t \<Rightarrow> t < unix_milli cutoff))) (s_findings s)"
    by (simp add: Prune_def Let_def)
  then show ?thesis
    using assms by (auto simp: history_def map_of_filter_distinct forget_def row_of_db_def split: option.splits)
qed

definition expected_history ::
  "('j, 'r, 'a, 'x) daemon_app \<Rightarrow> ('p, 'e, 'x) run_input \<Rightarrow> store \<Rightarrow> string \<Rightarrow> row option" where
  "expected_history app inp s fp =
     (let res = snd (config_Apply (da_cfg app) (ri_result inp) (ri_now inp));
          tracked = map_option clean (fst (track (max (cs_ResolveAfter (cf_State (da_cfg app))) 1) fp
            (unix_milli (r_Started res + r_Duration res)) (history s fp)
            (observation (env_sha (da_env app)) res (history s fp) fp)))
      in if ri_prune_fails inp then tracked else forget (prune_cutoff app (ri_prune_now inp)) tracked)"

text \<open>
  C22 A run of the daemon either records what it saw or leaves the database, the history and the
  undelivered notifications included, as it was. It records only when the resolver passed the probe
  (or probing is off) and the run was not cut short, and then the history of every finding is the
  tracking specification applied to what the suppressions left of the engine's result, less what is
  due for pruning; whatever the notifiers do, and in whatever way they or their bookkeeping fail, they
  do not touch it.
\<close>

theorem daemon_run_history:
  assumes "env_kv (da_env app) = store_kv bad"
    and "recordable (env_sha (da_env app)) (record_options app) (snd (config_Apply (da_cfg app) (ri_result inp) (ri_now inp))) s"
  shows "case daemon_run app inp s of
      (Inl e, s') \<Rightarrow> s' = s
    | (Inr smry, s') \<Rightarrow> (da_skip app \<or> ri_probe inp = ProbeOk) \<and> \<not> ri_canceled inp \<and>
        (\<forall>fp. history s' fp = expected_history app inp s fp)"
proof (cases "(\<not> da_skip app \<and> ri_probe inp \<noteq> ProbeOk) \<or> ri_canceled inp \<or> ri_record_fails inp \<noteq> None")
  case True
  then show ?thesis by (auto simp: daemon_run_def Let_def)
next
  case False
  define res where "res = snd (config_Apply (da_cfg app) (ri_result inp) (ri_now inp))"
  obtain diff s1 where R: "Record (env_sha (da_env app)) (record_options app) res s = (diff, s1)" by fastforce
  obtain failures s2 where D: "Dispatch (da_env app) (da_send app) (da_text app) (da_channels app) diff s1 = (failures, s2)"
    by fastforce
  have f: "s_findings s2 = s_findings s1"
    using Dispatch_findings[OF assms(1), of "da_send app" "da_text app" "da_channels app" diff s1] D by simp
  then have h: "history s2 fp = history s1 fp" for fp by (simp add: history_def)
  have ra: "max (o_ResolveAfter (record_options app)) 1 = max (cs_ResolveAfter (cf_State (da_cfg app))) 1"
    by (simp add: record_options_def)
  have t: "history s1 fp = map_option clean (fst (track (max (cs_ResolveAfter (cf_State (da_cfg app))) 1) fp
      (unix_milli (r_Started res + r_Duration res)) (history s fp)
      (observation (env_sha (da_env app)) res (history s fp) fp)))"
    and d: "distinct (map fst (s_findings s1))" for fp
    using Record_tracks[OF assms(2)[folded res_def], of fp] R by (simp_all add: Let_def case_prod_unfold ra)
  have run: "daemon_run app inp s = (Inr (summary_of diff failures),
      if ri_prune_fails inp then s2 else snd (Prune (prune_cutoff app (ri_prune_now inp)) s2))"
    using False R D by (auto simp: daemon_run_def Let_def res_def)
  have "history (if ri_prune_fails inp then s2 else snd (Prune (prune_cutoff app (ri_prune_now inp)) s2)) fp =
      expected_history app inp s fp" for fp
    using Prune_history[of s2 "prune_cutoff app (ri_prune_now inp)" fp] d f h t[of fp]
    by (simp add: expected_history_def Let_def res_def)
  then show ?thesis using run False by auto
qed

subsection \<open>The schedule\<close>

text \<open>
  The invariant: what the daemon shows is what the loop does, and the log is in order. \<open>after\<close> is
  the end of the last run, if there is one.
\<close>

definition log_ok :: "(int \<times> int \<times> int) list \<Rightarrow> bool" where
  "log_ok log \<longleftrightarrow> (\<forall>(due, start, stop) \<in> set log. due \<le> start \<and> start \<le> stop) \<and>
     successively (\<lambda>(due, _, _) (_, _, stop). stop < due) log"

definition follows_log :: "int \<Rightarrow> (int \<times> int \<times> int) list \<Rightarrow> bool" where
  "follows_log t log \<longleftrightarrow> (case log of [] \<Rightarrow> True | (_, _, stop) # _ \<Rightarrow> stop < t)"

definition ended_by :: "int \<Rightarrow> (int \<times> int \<times> int) list \<Rightarrow> bool" where
  "ended_by t log \<longleftrightarrow> (case log of [] \<Rightarrow> True | (_, _, stop) # _ \<Rightarrow> stop \<le> t)"

definition serve_ok :: "serve \<Rightarrow> bool" where
  "serve_ok s \<longleftrightarrow> log_ok (sv_log s) \<and> ended_by (sv_clock s) (sv_log s) \<and>
     (dm_running (sv_daemon s) \<longleftrightarrow> sv_point s = InRun) \<and>
     (case sv_point s of
        Fresh \<Rightarrow> sv_log s = []
      | LoopTop \<Rightarrow> follows_log (sv_next s) (sv_log s)
      | Sleeping due \<Rightarrow> due = sv_next s \<and> follows_log (sv_next s) (sv_log s)
      | Checking \<Rightarrow> sv_next s \<le> sv_clock s \<and> follows_log (sv_next s) (sv_log s)
      | InRun \<Rightarrow> sv_next s \<le> dm_lastStarted (sv_daemon s) \<and> dm_lastStarted (sv_daemon s) \<le> sv_clock s \<and>
          follows_log (sv_next s) (sv_log s)
      | _ \<Rightarrow> True)"

lemma end_run_running [simp]: "dm_running (end_run r d) = False"
  by (simp add: end_run_def split: sum.split)

lemma log_ok_Cons:
  "log_ok ((due, start, stop) # log) \<longleftrightarrow> due \<le> start \<and> start \<le> stop \<and> follows_log due log \<and> log_ok log"
  by (cases log) (auto simp: log_ok_def follows_log_def)

lemma ended_follows: "ended_by t log \<Longrightarrow> t < u \<Longrightarrow> follows_log u log"
  by (auto simp: ended_by_def follows_log_def split: list.splits)

lemma ended_mono: "ended_by t log \<Longrightarrow> t \<le> u \<Longrightarrow> ended_by u log"
  by (auto simp: ended_by_def split: list.splits)

lemma serve_step_ok:
  assumes "\<And>t. t < nxt t" and "serve_step nxt s s'" and "serve_ok s"
  shows "serve_ok s'"
  using assms(2,3)
proof (induction rule: serve_step.induct)
  case (tick n s)
  then show ?case
    by (cases "sv_point s") (auto simp: serve_ok_def ended_mono[of "sv_clock s"])
next
  case (begin_serve s)
  then show ?case by (simp add: serve_ok_def follows_log_def ended_by_def log_ok_def)
next
  case (finish_run s r)
  then show ?case by (auto simp: serve_ok_def log_ok_Cons ended_by_def)
next
  case (schedule s)
  then show ?case
    using assms(1)[of "sv_clock s"] ended_follows[of "sv_clock s" "sv_log s"] by (auto simp: serve_ok_def)
next
  case (start_run s)
  then show ?case by (auto simp: serve_ok_def begin_run_def)
qed (auto simp: serve_ok_def split: serve_point.splits)

lemma serve_reach_ok:
  assumes "\<And>t. t < nxt t" and "serve_reach nxt start s"
  shows "serve_ok s"
  using assms(2)
proof (induction rule: rtranclp_induct)
  case base
  show ?case by (simp add: serve_ok_def serve_start_def log_ok_def ended_by_def daemon0_def)
next
  case (step s s')
  then show ?case using serve_step_ok[OF assms(1)] by blast
qed

text \<open>
  C23 Runs never overlap and never start early: with a schedule that always has a later time, each
  finished run started at or after its scheduled time and ended before the time the next one was
  scheduled for, and the health page says that a run is going on exactly while one is.
\<close>

theorem serve_keeps_schedule:
  assumes "\<forall>t. t < nxt t" and "serve_reach nxt start s"
  shows "(\<forall>(due, began, ended) \<in> set (sv_log s). due \<le> began \<and> began \<le> ended) \<and>
    successively (\<lambda>(due, _, _) (_, _, ended). ended < due) (sv_log s) \<and>
    (dm_running (sv_daemon s) \<longleftrightarrow> sv_point s = InRun)"
  using serve_reach_ok[of nxt start s] assms by (simp add: serve_ok_def log_ok_def)

text \<open>
  A schedule that never fires is accepted by the configuration, and cron's Next then returns the
  zero time: the daemon does not wait at all but runs again and again, and its health page cannot
  call it stale.
\<close>

lemma unsatisfiable_schedule_never_waits:
  assumes "\<forall>t. nxt t = zero_time" and "zero_time < start" and "serve_reach nxt start s"
  shows "sv_point s \<noteq> Sleeping due \<and>
    (sv_log s \<noteq> [] \<and> sv_point s = InRun \<longrightarrow> fst (healthz setting now (sv_daemon s)) \<noteq> ''stale'')"
proof -
  have "zero_time < sv_clock s \<and> (\<forall>due. sv_point s \<noteq> Sleeping due) \<and>
      (sv_point s = LoopTop \<longrightarrow> sv_next s \<le> sv_clock s \<and> (sv_log s \<noteq> [] \<longrightarrow> sv_next s = zero_time)) \<and>
      (sv_point s = Fresh \<longrightarrow> sv_log s = []) \<and>
      (sv_point s \<in> {Checking, InRun} \<and> sv_log s \<noteq> [] \<longrightarrow> dm_next (sv_daemon s) = zero_time)"
    using assms(3)
  proof (induction rule: rtranclp_induct)
    case base
    show ?case using assms(2) by (simp add: serve_start_def)
  next
    case (step s s')
    show ?case using step(2,3) assms(1) by (cases rule: serve_step.cases) (auto simp: begin_run_def)
  qed
  then show ?thesis by (simp add: healthz_def)
qed

subsection \<open>The hypotheses can hold\<close>

lemma first_run:
  "\<exists>s. serve_reach nxt start s \<and> sv_point s = AfterRun \<and> length (sv_log s) = 1"
proof -
  let ?s0 = "serve_start start"
  let ?s1 = "?s0\<lparr>sv_point := LoopTop, sv_next := start, sv_daemon := daemon0\<lparr>dm_started := start\<rparr>\<rparr>"
  let ?s2 = "?s1\<lparr>sv_point := Checking, sv_daemon := (sv_daemon ?s1)\<lparr>dm_next := start\<rparr>\<rparr>"
  let ?s3 = "?s2\<lparr>sv_point := InRun, sv_daemon := begin_run start (sv_daemon ?s2)\<rparr>"
  let ?s4 = "?s3\<lparr>sv_point := AfterRun, sv_daemon := end_run (Inl ''failed'') (sv_daemon ?s3), sv_log := [(start, start, start)]\<rparr>"
  have "serve_step nxt ?s0 ?s1" using serve_step.begin_serve[of ?s0 nxt] by (simp add: serve_start_def)
  moreover have "serve_step nxt ?s1 ?s2" using serve_step.loop_due[of ?s1 nxt] by (simp add: serve_start_def)
  moreover have "serve_step nxt ?s2 ?s3" using serve_step.start_run[of ?s2 nxt] by (simp add: serve_start_def)
  moreover have "serve_step nxt ?s3 ?s4"
    using serve_step.finish_run[of ?s3 nxt "Inl ''failed''"] by (simp add: serve_start_def begin_run_def)
  ultimately have "serve_reach nxt start ?s4" by (meson converse_rtranclp_into_rtranclp r_into_rtranclp)
  then show ?thesis by (intro exI[of _ ?s4]) simp
qed

lemma serve_keeps_schedule_witness:
  "\<exists>s. serve_reach (\<lambda>t. t + 10) 0 s \<and> length (sv_log s) = 1 \<and> \<not> dm_running (sv_daemon s)"
proof -
  obtain s where s: "serve_reach (\<lambda>t. t + 10) 0 s" "sv_point s = AfterRun" "length (sv_log s) = 1"
    using first_run by blast
  then show ?thesis using serve_keeps_schedule[of "\<lambda>t. t + 10" 0 s] by auto
qed

lemma unsatisfiable_schedule_never_waits_witness:
  "\<exists>s. serve_reach (\<lambda>_. zero_time) 0 s \<and> length (sv_log s) = 1 \<and> sv_point s \<noteq> Sleeping 5"
proof -
  obtain s where s: "serve_reach (\<lambda>_. zero_time) 0 s" "sv_point s = AfterRun" "length (sv_log s) = 1"
    using first_run by blast
  moreover have "zero_time < 0" by (simp add: zero_time_def)
  ultimately show ?thesis using unsatisfiable_schedule_never_waits[of "\<lambda>_. zero_time" 0 s 5] by auto
qed

definition demo_app :: "(unit, unit, unit, unit) daemon_app" where
  "demo_app = \<lparr>da_cfg = bare_config [] [], da_skip = True, da_reg = demo_registry, da_channels = [],
     da_env = demo_env, da_send = (\<lambda>_ _. None), da_text = (\<lambda>_. [])\<rparr>"

definition demo_input :: "(unit, unit, unit) run_input" where
  "demo_input = \<lparr>ri_probe = ProbeOk, ri_result = demo_result [demo_finding], ri_canceled = False, ri_now = 0,
     ri_prune_now = 0, ri_record_fails = None, ri_prune_fails = False\<rparr>"

lemma daemon_run_history_witness:
  "case daemon_run demo_app demo_input empty_store of
      (Inl e, s') \<Rightarrow> s' = empty_store
    | (Inr smry, s') \<Rightarrow> history s' (finding_Fingerprint (\<lambda>_. []) demo_finding) \<noteq> None"
proof -
  have res: "snd (config_Apply (da_cfg demo_app) (ri_result demo_input) (ri_now demo_input)) = demo_result [demo_finding]"
    by (simp add: demo_app_def demo_input_def config_Apply_def bare_config_def demo_result_def firstMatch_def)
  have kv: "env_kv (da_env demo_app) = store_kv (\<lambda>_. None)" by (simp add: demo_app_def demo_env_def)
  have sha: "env_sha (da_env demo_app) = (\<lambda>_. [])" by (simp add: demo_app_def demo_env_def)
  have rec: "recordable (env_sha (da_env demo_app)) (record_options demo_app)
      (snd (config_Apply (da_cfg demo_app) (ri_result demo_input) (ri_now demo_input))) empty_store"
    unfolding res sha
    by (simp add: recordable_def stored_ok_def triples_def empty_store_def demo_result_def demo_finding_def
        current_findings_def severity_Valid_def severity_defs)
  have "expected_history demo_app demo_input empty_store (finding_Fingerprint (\<lambda>_. []) demo_finding) \<noteq> None"
    unfolding expected_history_def Let_def res sha
    by (simp add: track_def observation_def current_findings_def demo_result_def demo_input_def forget_def
        clean_def Let_def split: option.splits)
  then show ?thesis
    using daemon_run_history[OF kv rec] by (auto split: prod.splits sum.splits)
qed

end
