(* ===== verification/SetaTags.thy ===== *)
theory SetaTags
  imports SetaPrelude
begin

text \<open>
  The text formats of the email module: tag lists (checks/email/internal/tags), DMARC, DKIM and
  MTA-STS records and policies (internal/dmarc, internal/dkim, internal/mtasts) and TLS-RPT records
  (tlsrpt.go). \<open>mail\<close> is net/mail's ParseAddress, giving the display name and the address; \<open>b64\<close> and
  \<open>rsa_bits\<close> stand for the decoding of base64 and of an RSA public key.
\<close>

subsection \<open>Tag lists\<close>

type_synonym tag = "string \<times> string"

datatype tag_error = EmptyTag | NoEquals string | BadTagName string | DuplicateTag string

definition is_letter :: "char \<Rightarrow> bool" where
  "is_letter c \<longleftrightarrow> is_lower c \<or> is_upper c"

definition validName :: "string \<Rightarrow> bool" where
  "validName s \<longleftrightarrow> (case s of [] \<Rightarrow> False
     | c # cs \<Rightarrow> is_letter c \<and> list_all (\<lambda>c. is_letter c \<or> is_digit c \<or> c = CHR ''_'') cs)"

text \<open>One part, not blank, between semicolons.\<close>

definition tag_of :: "bool \<Rightarrow> string \<Rightarrow> tag_error + tag" where
  "tag_of lower part =
     (case cut CHR ''='' part of
        (name0, val, ok) \<Rightarrow>
          let name = trim_space name0 in
          if \<not> ok then Inl (NoEquals part)
          else if \<not> validName name then Inl (BadTagName name)
          else Inr (if lower then to_lower name else name, trim_space val))"

fun parse_tags :: "bool \<Rightarrow> string set \<Rightarrow> string list \<Rightarrow> tag_error + tag list" where
  "parse_tags lower seen [] = Inr []"
| "parse_tags lower seen (p # ps) =
     (if trim_space p = [] then (if ps = [] then Inr [] else Inl EmptyTag)
      else case tag_of lower (trim_space p) of
          Inl e \<Rightarrow> Inl e
        | Inr (name, val) \<Rightarrow>
            if name \<in> seen then Inl (DuplicateTag name)
            else (case parse_tags lower (insert name seen) ps of
                Inl e \<Rightarrow> Inl e
              | Inr ts \<Rightarrow> Inr ((name, val) # ts)))"

definition tags_Parse :: "string \<Rightarrow> bool \<Rightarrow> tag_error + tag list" where
  "tags_Parse s lower = parse_tags lower {} (split_on CHR '';'' s)"

definition tags_Get :: "tag list \<Rightarrow> string \<Rightarrow> string option" where
  "tags_Get l name = map_of l name"

lemma parse_tags_Cons:
  assumes "parse_tags lower seen (p # ps) = Inr (t # us)"
  shows "tag_of lower (trim_space p) = Inr t \<and> fst t \<notin> seen \<and> parse_tags lower (insert (fst t) seen) ps = Inr us"
  using assms by (auto split: if_splits sum.splits)

lemma parse_tags_distinct:
  "parse_tags lower seen ps = Inr ts \<Longrightarrow> distinct (map fst ts) \<and> fst ` set ts \<inter> seen = {}"
proof (induction ps arbitrary: seen ts)
  case (Cons p ps)
  show ?case
  proof (cases ts)
    case (Cons t us)
    note P = parse_tags_Cons[OF Cons.prems[unfolded Cons]]
    then show ?thesis using Cons.IH[of "insert (fst t) seen" us] Cons by auto
  qed simp
qed simp

subsection \<open>The version tag\<close>

text \<open>\<open>IsDMARC\<close>, \<open>IsTXT\<close> and \<open>isTLSRPT\<close> look at the text before the first semicolon.\<close>

definition version_tag :: "string \<Rightarrow> string option" where
  "version_tag txt =
     (case cut CHR '';'' txt of (first_part, _, _) \<Rightarrow>
      case cut CHR ''='' first_part of (name, val, ok) \<Rightarrow>
        if ok \<and> trim_space name = ''v'' then Some (trim_space val) else None)"

definition IsDMARC :: "string \<Rightarrow> bool" where
  "IsDMARC txt \<longleftrightarrow> (case version_tag txt of None \<Rightarrow> False | Some v \<Rightarrow> equal_fold v ''DMARC1'')"

definition IsTXT :: "string \<Rightarrow> bool" where
  "IsTXT txt \<longleftrightarrow> version_tag txt = Some ''STSv1''"

definition isTLSRPT :: "string \<Rightarrow> bool" where
  "isTLSRPT txt \<longleftrightarrow> version_tag txt = Some ''TLSRPTv1''"

subsection \<open>DMARC\<close>

datatype policy = PolicyNone | Quarantine | Reject

record dmarc_uri =
  ur_Raw :: string
  ur_Scheme :: string
  ur_Address :: string
  ur_Domain :: string

text \<open>\<open>dr_P\<close> and \<open>dr_SP\<close> are None where the code has the empty string.\<close>

record dmarc_record =
  dr_Raw :: string
  dr_P :: "policy option"
  dr_ImplicitP :: bool
  dr_SP :: "policy option"
  dr_Pct :: int
  dr_RUA :: "dmarc_uri list"
  dr_RUF :: "dmarc_uri list"
  dr_ADKIM :: string
  dr_ASPF :: string

datatype dmarc_error =
    NotDMARC
  | DMARCTags tag_error
  | BadPolicy string string
  | BadPct string
  | NotURI string
  | BadSizeLimit string
  | BadMailto string
  | BadAlignment string string
  | BadFailureOptions string
  | BadInterval string
  | RepeatedVersion
  | MissingPolicy

definition parsePolicy :: "string \<Rightarrow> policy option" where
  "parsePolicy v =
     (let p = to_lower v in
      if p = ''none'' then Some PolicyNone
      else if p = ''quarantine'' then Some Quarantine
      else if p = ''reject'' then Some Reject else None)"

definition validSize :: "string \<Rightarrow> bool" where
  "validSize s = (parse_uint 64 (trim_right_by (\<lambda>c. c \<in> set ''kmgt'') (to_lower s)) \<noteq> None)"

text \<open>The address of a mailto: URI and the limit after an exclamation mark.\<close>

definition parse_mailto ::
  "(string \<Rightarrow> (string \<times> string) option) \<Rightarrow> string \<Rightarrow> string \<Rightarrow> dmarc_error + string" where
  "parse_mailto mail raw rest =
     (case (case last_index_byte CHR ''!'' rest of
              None \<Rightarrow> Inr rest
            | Some i \<Rightarrow> if validSize (drop (i + 1) rest) then Inr (take i rest) else Inl (BadSizeLimit raw)) of
        Inl e \<Rightarrow> Inl e
      | Inr addr \<Rightarrow>
        (case mail addr of
           None \<Rightarrow> Inl (BadMailto raw)
         | Some (name, address) \<Rightarrow> if name \<noteq> [] then Inl (BadMailto raw) else Inr address))"

definition uri_domain :: "string \<Rightarrow> string" where
  "uri_domain address = (case cut CHR ''@'' address of (_, domn, _) \<Rightarrow> to_lower (trim_suffix domn ''.''))"

definition parse_uri ::
  "(string \<Rightarrow> (string \<times> string) option) \<Rightarrow> string \<Rightarrow> dmarc_error + dmarc_uri" where
  "parse_uri mail raw0 =
     (let raw = trim_space raw0 in
      case cut CHR '':'' raw of
        (scheme, rest, ok) \<Rightarrow>
          if \<not> ok \<or> scheme = [] \<or> rest = [] then Inl (NotURI raw)
          else if to_lower scheme = ''mailto'' then
            map_sum id (\<lambda>a. \<lparr>ur_Raw = raw, ur_Scheme = ''mailto'', ur_Address = a, ur_Domain = uri_domain a\<rparr>)
              (parse_mailto mail raw rest)
          else Inr \<lparr>ur_Raw = raw, ur_Scheme = to_lower scheme, ur_Address = [], ur_Domain = []\<rparr>)"

definition parseURIs :: "(string \<Rightarrow> (string \<times> string) option) \<Rightarrow> string \<Rightarrow> dmarc_error + dmarc_uri list" where
  "parseURIs mail v = try_map (parse_uri mail) (split_on CHR '','' v)"

text \<open>One round of the loop over the tags.\<close>

definition dmarc_tag ::
  "(string \<Rightarrow> (string \<times> string) option) \<Rightarrow> tag \<Rightarrow> dmarc_record \<Rightarrow> dmarc_error + dmarc_record" where
  "dmarc_tag mail t r =
     (let name = fst t; v = snd t in
      if name = ''p'' then
        (case parsePolicy v of None \<Rightarrow> Inl (BadPolicy name v) | Some p \<Rightarrow> Inr (r\<lparr>dr_P := Some p\<rparr>))
      else if name = ''sp'' then
        (case parsePolicy v of None \<Rightarrow> Inl (BadPolicy name v) | Some p \<Rightarrow> Inr (r\<lparr>dr_SP := Some p\<rparr>))
      else if name = ''pct'' then
        (case atoi v of
           None \<Rightarrow> Inl (BadPct v)
         | Some n \<Rightarrow> if n < 0 \<or> 100 < n then Inl (BadPct v) else Inr (r\<lparr>dr_Pct := n\<rparr>))
      else if name = ''rua'' then map_sum id (\<lambda>us. r\<lparr>dr_RUA := us\<rparr>) (parseURIs mail v)
      else if name = ''ruf'' then map_sum id (\<lambda>us. r\<lparr>dr_RUF := us\<rparr>) (parseURIs mail v)
      else if name = ''adkim'' then
        (if v \<noteq> ''r'' \<and> v \<noteq> ''s'' then Inl (BadAlignment name v) else Inr (r\<lparr>dr_ADKIM := v\<rparr>))
      else if name = ''aspf'' then
        (if v \<noteq> ''r'' \<and> v \<noteq> ''s'' then Inl (BadAlignment name v) else Inr (r\<lparr>dr_ASPF := v\<rparr>))
      else if name = ''fo'' then
        (if list_all (\<lambda>p. trim_space p \<in> {''0'', ''1'', ''d'', ''s''}) (split_on CHR '':'' v) then Inr r
         else Inl (BadFailureOptions v))
      else if name = ''ri'' then (if parse_uint 32 v = None then Inl (BadInterval v) else Inr r)
      else if name = ''v'' then Inl RepeatedVersion
      else Inr r)"

fun dmarc_tags ::
  "(string \<Rightarrow> (string \<times> string) option) \<Rightarrow> tag list \<Rightarrow> dmarc_record \<Rightarrow> dmarc_error + dmarc_record" where
  "dmarc_tags mail [] r = Inr r"
| "dmarc_tags mail (t # ts) r = (case dmarc_tag mail t r of Inl e \<Rightarrow> Inl e | Inr r' \<Rightarrow> dmarc_tags mail ts r')"

definition dmarc_record0 :: "string \<Rightarrow> dmarc_record" where
  "dmarc_record0 txt = \<lparr>dr_Raw = txt, dr_P = None, dr_ImplicitP = False, dr_SP = None, dr_Pct = 100,
     dr_RUA = [], dr_RUF = [], dr_ADKIM = ''r'', dr_ASPF = ''r''\<rparr>"

definition dmarc_Parse :: "(string \<Rightarrow> (string \<times> string) option) \<Rightarrow> string \<Rightarrow> dmarc_error + dmarc_record" where
  "dmarc_Parse mail txt =
     (if \<not> IsDMARC txt then Inl NotDMARC
      else case tags_Parse txt True of
          Inl e \<Rightarrow> Inl (DMARCTags e)
        | Inr list \<Rightarrow>
          (case dmarc_tags mail (tl list) (dmarc_record0 txt) of
             Inl e \<Rightarrow> Inl e
           | Inr r \<Rightarrow>
               if dr_P r = None then
                 (if dr_RUA r = [] then Inl MissingPolicy
                  else Inr (r\<lparr>dr_P := Some PolicyNone, dr_ImplicitP := True\<rparr>))
               else Inr r))"

subsection \<open>DKIM\<close>

record dkim_key =
  dk_Type :: string
  dk_Revoked :: bool
  dk_Bits :: nat
  dk_Testing :: bool

datatype 'x dkim_error =
    DKIMTags tag_error
  | BadVersion
  | MissingKey
  | BadBase64
  | BadRSA 'x
  | BadEd25519Size nat
  | UnknownKeyType string

definition IsKey :: "string \<Rightarrow> bool" where
  "IsKey txt =
     (case tags_Parse txt False of
        Inl _ \<Rightarrow> has_prefix (trim_space txt) ''v=DKIM1''
      | Inr list \<Rightarrow> tags_Get list ''p'' \<noteq> None)"

definition version_misplaced :: "tag list \<Rightarrow> bool" where
  "version_misplaced list \<longleftrightarrow> list_ex (\<lambda>(i, t). fst t = ''v'' \<and> (i \<noteq> (0 :: nat) \<or> snd t \<noteq> ''DKIM1'')) (enumerate 0 list)"

definition remove_blanks :: "string \<Rightarrow> string" where
  "remove_blanks s = filter (\<lambda>c. byte c \<notin> {32, 9, 13, 10}) s"

definition dkim_Parse ::
  "(string \<Rightarrow> string option) \<Rightarrow> (string \<Rightarrow> 'x + nat) \<Rightarrow> string \<Rightarrow> 'x dkim_error + dkim_key" where
  "dkim_Parse b64 rsa_bits txt =
     (case tags_Parse txt False of
        Inl e \<Rightarrow> Inl (DKIMTags e)
      | Inr list \<Rightarrow>
        if version_misplaced list then Inl BadVersion
        else
          let k = \<lparr>dk_Type = (case tags_Get list ''k'' of Some v \<Rightarrow> v | None \<Rightarrow> ''rsa''), dk_Revoked = False, dk_Bits = 0,
                dk_Testing = (case tags_Get list ''t'' of None \<Rightarrow> False
                  | Some v \<Rightarrow> list_ex (\<lambda>f. trim_space f = ''y'') (split_on CHR '':'' v))\<rparr>
          in case tags_Get list ''p'' of
               None \<Rightarrow> Inl MissingKey
             | Some p0 \<Rightarrow>
               let p = remove_blanks p0 in
               if p = [] then Inr (k\<lparr>dk_Revoked := True\<rparr>)
               else case b64 p of
                   None \<Rightarrow> Inl BadBase64
                 | Some der \<Rightarrow>
                     if dk_Type k = ''rsa'' then
                       (case rsa_bits der of Inl e \<Rightarrow> Inl (BadRSA e) | Inr n \<Rightarrow> Inr (k\<lparr>dk_Bits := n\<rparr>))
                     else if dk_Type k = ''ed25519'' then
                       (if length der \<noteq> 32 then Inl (BadEd25519Size (length der)) else Inr (k\<lparr>dk_Bits := 256\<rparr>))
                     else Inl (UnknownKeyType (dk_Type k)))"

subsection \<open>MTA-STS\<close>

definition MaxPolicySize :: nat where "MaxPolicySize = 64 * 1024"

datatype sts_error =
    STSTags tag_error
  | STSVersion
  | MissingID
  | BadID string
  | NotKeyValue string
  | DuplicateField string
  | BadField string string
  | MissingField string
  | MissingMX

definition alnum :: "string \<Rightarrow> bool" where
  "alnum s \<longleftrightarrow> list_all (\<lambda>c. is_letter c \<or> is_digit c) s"

definition ParseTXT :: "string \<Rightarrow> sts_error + string" where
  "ParseTXT txt =
     (case tags_Parse txt False of
        Inl e \<Rightarrow> Inl (STSTags e)
      | Inr list \<Rightarrow>
        if list = [] \<or> hd list \<noteq> (''v'', ''STSv1'') then Inl STSVersion
        else case tags_Get list ''id'' of
            None \<Rightarrow> Inl MissingID
          | Some i \<Rightarrow> if length i < 1 \<or> 32 < length i \<or> \<not> alnum i then Inl (BadID i) else Inr i)"

record sts_policy =
  sp_Mode :: string
  sp_MaxAge :: int
  sp_MX :: "string list"

definition pattern_label :: "string \<Rightarrow> bool" where
  "pattern_label l \<longleftrightarrow> l \<noteq> [] \<and> hd l \<noteq> CHR ''-'' \<and> last l \<noteq> CHR ''-'' \<and>
     list_all (\<lambda>c. is_letter c \<or> is_digit c \<or> c = CHR ''-'' \<or> c = CHR ''_'') l"

definition validPattern :: "string \<Rightarrow> bool" where
  "validPattern p0 =
     (let p = trim_prefix (trim_suffix p0 ''.'') ''*.'' in
      CHR ''.'' \<in> set p \<and> list_all pattern_label (split_on CHR ''.'' p))"

definition policy_field :: "string \<Rightarrow> string \<Rightarrow> sts_policy \<Rightarrow> sts_error + sts_policy" where
  "policy_field key v p =
     (if key = ''version'' then (if v \<noteq> ''STSv1'' then Inl (BadField key v) else Inr p)
      else if key = ''mode'' then
        (if v \<noteq> ''enforce'' \<and> v \<noteq> ''testing'' \<and> v \<noteq> ''none'' then Inl (BadField key v) else Inr (p\<lparr>sp_Mode := v\<rparr>))
      else if key = ''max_age'' then
        (case atoi v of
           None \<Rightarrow> Inl (BadField key v)
         | Some n \<Rightarrow>
             if n < 0 \<or> 31557600 < n \<or> 10 < length v then Inl (BadField key v) else Inr (p\<lparr>sp_MaxAge := n\<rparr>))
      else if key = ''mx'' then
        (if \<not> validPattern v then Inl (BadField key v)
         else Inr (p\<lparr>sp_MX := sp_MX p @ [to_lower (trim_suffix v ''.'')]\<rparr>))
      else Inr p)"

fun policy_lines :: "string list \<Rightarrow> string set \<Rightarrow> sts_policy \<Rightarrow> sts_error + string set \<times> sts_policy" where
  "policy_lines [] seen p = Inr (seen, p)"
| "policy_lines (l0 # ls) seen p =
     (let line = trim_right_by (\<lambda>c. c = CHR 0x0D) l0 in
      if trim_space line = [] then policy_lines ls seen p
      else case cut CHR '':'' line of
        (key0, v0, ok) \<Rightarrow>
          let key = trim_space key0; v = trim_space v0 in
          if \<not> ok then Inl (NotKeyValue line)
          else if key \<noteq> ''mx'' \<and> key \<in> seen then Inl (DuplicateField key)
          else case policy_field key v p of
              Inl e \<Rightarrow> Inl e
            | Inr p' \<Rightarrow> policy_lines ls (insert key seen) p')"

definition ParsePolicy :: "string \<Rightarrow> sts_error + sts_policy" where
  "ParsePolicy body =
     (case policy_lines (split_on CHR 0x0A body) {} \<lparr>sp_Mode = [], sp_MaxAge = 0, sp_MX = []\<rparr> of
        Inl e \<Rightarrow> Inl e
      | Inr (seen, p) \<Rightarrow>
        (case find (\<lambda>k. k \<notin> seen) [''version'', ''mode'', ''max_age''] of
           Some k \<Rightarrow> Inl (MissingField k)
         | None \<Rightarrow> if sp_Mode p \<noteq> ''none'' \<and> sp_MX p = [] then Inl MissingMX else Inr p))"

definition mx_Match :: "string \<Rightarrow> string \<Rightarrow> bool" where
  "mx_Match pattern host0 =
     (let host = to_lower (trim_suffix host0 ''.'') in
      case cut_prefix pattern ''*.'' of
        Some suffix \<Rightarrow> (case cut CHR ''.'' host of (label, rest, found) \<Rightarrow> found \<and> label \<noteq> [] \<and> rest = suffix)
      | None \<Rightarrow> host = pattern)"

subsection \<open>TLS-RPT\<close>

datatype tlsrpt_error = RPTTags tag_error | MissingRUA | BadDestination string

definition parseTLSRPT :: "string \<Rightarrow> tlsrpt_error option" where
  "parseTLSRPT txt =
     (case tags_Parse txt False of
        Inl e \<Rightarrow> Some (RPTTags e)
      | Inr list \<Rightarrow>
        (case tags_Get list ''rua'' of
           None \<Rightarrow> Some MissingRUA
         | Some rua \<Rightarrow>
             if rua = [] then Some MissingRUA
             else map_option BadDestination
               (find (\<lambda>u. \<not> has_prefix u ''mailto:'' \<and> \<not> has_prefix u ''https://'')
                 (map trim_space (split_on CHR '','' rua)))))"

subsection \<open>Every field of a DMARC record is its own tag\<close>

lemma dmarc_tag_effect:
  assumes "dmarc_tag mail t r = Inr r1"
  shows "dr_P r1 = (if fst t = ''p'' then parsePolicy (snd t) else dr_P r)"
    and "dr_SP r1 = (if fst t = ''sp'' then parsePolicy (snd t) else dr_SP r)"
    and "dr_Pct r1 = (if fst t = ''pct'' then the (atoi (snd t)) else dr_Pct r)"
    and "Inr (dr_RUA r1) = (if fst t = ''rua'' then parseURIs mail (snd t) else Inr (dr_RUA r))"
    and "Inr (dr_RUF r1) = (if fst t = ''ruf'' then parseURIs mail (snd t) else Inr (dr_RUF r))"
    and "dr_ImplicitP r1 = dr_ImplicitP r"
    and "fst t \<in> {''p'', ''sp''} \<Longrightarrow> parsePolicy (snd t) \<noteq> None"
    and "fst t = ''pct'' \<Longrightarrow> 0 \<le> dr_Pct r1 \<and> dr_Pct r1 \<le> 100"
  using assms
  by (cases "parseURIs mail (snd t)"; auto simp: dmarc_tag_def Let_def split: if_splits option.splits)+

lemma dmarc_tags_Cons:
  assumes "dmarc_tags mail (t # ts) r = Inr r'"
  obtains r1 where "dmarc_tag mail t r = Inr r1" "dmarc_tags mail ts r1 = Inr r'"
  using assms by (auto split: sum.splits)

lemma field_of_tags:
  assumes step: "\<And>t r r1. dmarc_tag mail t r = Inr r1 \<Longrightarrow> fld r1 = (if fst t = n then g (snd t) else fld r)"
  shows "dmarc_tags mail ts r = Inr r' \<Longrightarrow> distinct (map fst ts) \<Longrightarrow>
    fld r' = (case map_of ts n of None \<Rightarrow> fld r | Some v \<Rightarrow> g v)"
proof (induction ts arbitrary: r)
  case (Cons t ts)
  from Cons.prems(1) obtain r1 where r1: "dmarc_tag mail t r = Inr r1" "dmarc_tags mail ts r1 = Inr r'"
    by (rule dmarc_tags_Cons)
  have "fst t = n \<Longrightarrow> map_of ts n = None" using Cons.prems(2) by (auto simp: map_of_eq_None_iff)
  then show ?case
    using Cons.IH[OF r1(2)] Cons.prems(2) step[OF r1(1)] by (cases t) (auto split: option.splits)
qed simp

lemma implicit_kept: "dmarc_tags mail ts r = Inr r' \<Longrightarrow> dr_ImplicitP r' = dr_ImplicitP r"
proof (induction ts arbitrary: r)
  case (Cons t ts)
  from Cons.prems obtain r1 where r1: "dmarc_tag mail t r = Inr r1" "dmarc_tags mail ts r1 = Inr r'"
    by (rule dmarc_tags_Cons)
  then show ?case using Cons.IH[OF r1(2)] dmarc_tag_effect(6)[OF r1(1)] by simp
qed simp

lemma tags_valid:
  "dmarc_tags mail ts r = Inr r' \<Longrightarrow> (n, v) \<in> set ts \<Longrightarrow> n \<in> {''p'', ''sp''} \<Longrightarrow> parsePolicy v \<noteq> None"
proof (induction ts arbitrary: r)
  case (Cons t ts)
  from Cons.prems(1) obtain r1 where r1: "dmarc_tag mail t r = Inr r1" "dmarc_tags mail ts r1 = Inr r'"
    by (rule dmarc_tags_Cons)
  show ?case
  proof (cases "t = (n, v)")
    case True
    then show ?thesis using dmarc_tag_effect(7)[OF r1(1)] Cons.prems(3) by simp
  next
    case False
    then show ?thesis using Cons.IH[OF r1(2)] Cons.prems(2,3) by auto
  qed
qed simp

lemma pct_range:
  "dmarc_tags mail ts r = Inr r' \<Longrightarrow> 0 \<le> dr_Pct r \<and> dr_Pct r \<le> 100 \<Longrightarrow> 0 \<le> dr_Pct r' \<and> dr_Pct r' \<le> 100"
proof (induction ts arbitrary: r)
  case (Cons t ts)
  from Cons.prems(1) obtain r1 where r1: "dmarc_tag mail t r = Inr r1" "dmarc_tags mail ts r1 = Inr r'"
    by (rule dmarc_tags_Cons)
  have "0 \<le> dr_Pct r1 \<and> dr_Pct r1 \<le> 100"
    using dmarc_tag_effect(3,8)[OF r1(1)] Cons.prems(2) by (cases "fst t = ''pct''") auto
  then show ?case by (rule Cons.IH[OF r1(2)])
qed simp

text \<open>
  An accepted DMARC record says what its tags say, in whatever order they come: the policies are
  those of the p and sp tags, the report addresses those of rua and ruf, the percentage lies in 0 to
  100 and is 100 by default; only a record that has a report address may lack p, and is then taken for
  p=none.
\<close>

lemma dmarc_Parse_fields:
  assumes "dmarc_Parse mail txt = Inr r"
  shows "\<exists>list. tags_Parse txt True = Inr list \<and>
    (case tags_Get (tl list) ''p'' of
       Some v \<Rightarrow> dr_P r = parsePolicy v \<and> \<not> dr_ImplicitP r
     | None \<Rightarrow> dr_P r = Some PolicyNone \<and> dr_ImplicitP r \<and> dr_RUA r \<noteq> []) \<and>
    dr_P r \<noteq> None \<and>
    dr_SP r = (case tags_Get (tl list) ''sp'' of None \<Rightarrow> None | Some v \<Rightarrow> parsePolicy v) \<and>
    (tags_Get (tl list) ''pct'' = None \<longrightarrow> dr_Pct r = 100) \<and> 0 \<le> dr_Pct r \<and> dr_Pct r \<le> 100 \<and>
    Inr (dr_RUA r) = (case tags_Get (tl list) ''rua'' of None \<Rightarrow> Inr [] | Some v \<Rightarrow> parseURIs mail v) \<and>
    Inr (dr_RUF r) = (case tags_Get (tl list) ''ruf'' of None \<Rightarrow> Inr [] | Some v \<Rightarrow> parseURIs mail v)"
proof -
  obtain list where l: "tags_Parse txt True = Inr list"
    using assms by (auto simp: dmarc_Parse_def split: if_splits sum.splits)
  obtain r1 where t: "dmarc_tags mail (tl list) (dmarc_record0 txt) = Inr r1"
    using assms l by (auto simp: dmarc_Parse_def split: if_splits sum.splits)
  have r: "r = (if dr_P r1 = None then r1\<lparr>dr_P := Some PolicyNone, dr_ImplicitP := True\<rparr> else r1)"
    and u: "dr_P r1 = None \<Longrightarrow> dr_RUA r1 \<noteq> []"
    using assms l t by (auto simp: dmarc_Parse_def split: if_splits)
  have d: "distinct (map fst (tl list))"
    using parse_tags_distinct l by (metis distinct_tl map_tl tags_Parse_def)
  note F = field_of_tags[where mail = mail, OF _ t d]
  have P: "dr_P r1 = (case map_of (tl list) ''p'' of None \<Rightarrow> None | Some v \<Rightarrow> parsePolicy v)"
    using F[of dr_P "''p''" parsePolicy] dmarc_tag_effect(1) by (simp add: dmarc_record0_def cong: option.case_cong)
  have SP: "dr_SP r1 = (case map_of (tl list) ''sp'' of None \<Rightarrow> None | Some v \<Rightarrow> parsePolicy v)"
    using F[of dr_SP "''sp''" parsePolicy] dmarc_tag_effect(2) by (simp add: dmarc_record0_def cong: option.case_cong)
  have Pct: "dr_Pct r1 = (case map_of (tl list) ''pct'' of None \<Rightarrow> 100 | Some v \<Rightarrow> the (atoi v))"
    using F[of dr_Pct "''pct''" "\<lambda>v. the (atoi v)"] dmarc_tag_effect(3) by (simp add: dmarc_record0_def cong: option.case_cong)
  have A: "Inr (dr_RUA r1) = (case map_of (tl list) ''rua'' of None \<Rightarrow> Inr [] | Some v \<Rightarrow> parseURIs mail v)"
    using F[of "\<lambda>r. Inr (dr_RUA r)" "''rua''" "parseURIs mail"] dmarc_tag_effect(4) by (simp add: dmarc_record0_def cong: option.case_cong)
  have B: "Inr (dr_RUF r1) = (case map_of (tl list) ''ruf'' of None \<Rightarrow> Inr [] | Some v \<Rightarrow> parseURIs mail v)"
    using F[of "\<lambda>r. Inr (dr_RUF r)" "''ruf''" "parseURIs mail"] dmarc_tag_effect(5) by (simp add: dmarc_record0_def cong: option.case_cong)
  have I: "\<not> dr_ImplicitP r1" using implicit_kept[OF t] by (simp add: dmarc_record0_def cong: option.case_cong)
  have V: "map_of (tl list) ''p'' = Some v \<Longrightarrow> parsePolicy v \<noteq> None" for v
    using tags_valid[OF t] map_of_SomeD by fastforce
  have R: "0 \<le> dr_Pct r1 \<and> dr_Pct r1 \<le> 100" by (rule pct_range[OF t]) (simp add: dmarc_record0_def)
  show ?thesis
  proof (cases "dr_P r1 = None")
    case True
    then have "map_of (tl list) ''p'' = None" using P V by (auto split: option.splits)
    then show ?thesis using l SP Pct A B R u True unfolding r tags_Get_def by (intro exI[of _ list]) auto
  next
    case False
    then obtain v where "map_of (tl list) ''p'' = Some v" using P by (cases "map_of (tl list) ''p''") auto
    then show ?thesis using l P SP Pct A B I R False unfolding r tags_Get_def by (intro exI[of _ list]) auto
  qed
qed

lemma dmarc_Parse_fields_witness:
  "\<exists>r. dmarc_Parse (\<lambda>_. None) ''v=DMARC1; sp=reject; p=none'' = Inr r \<and> dr_P r = Some PolicyNone \<and> dr_SP r = Some Reject"
proof -
  have "\<not> is_err (dmarc_Parse (\<lambda>_. None) ''v=DMARC1; sp=reject; p=none'')" by code_simp
  then obtain r where r: "dmarc_Parse (\<lambda>_. None) ''v=DMARC1; sp=reject; p=none'' = Inr r"
    by (cases "dmarc_Parse (\<lambda>_. None) ''v=DMARC1; sp=reject; p=none''") (auto simp: is_err_def)
  have "tags_Parse ''v=DMARC1; sp=reject; p=none'' True = Inr [(''v'', ''DMARC1''), (''sp'', ''reject''), (''p'', ''none'')]"
    by code_simp
  moreover have "parsePolicy ''none'' = Some PolicyNone" "parsePolicy ''reject'' = Some Reject" by code_simp+
  ultimately show ?thesis using dmarc_Parse_fields[OF r] r by (auto simp: tags_Get_def)
qed

subsection \<open>Patterns for MX hosts\<close>

text \<open>A star stands for exactly one label, on the left.\<close>

lemma mx_Match_star:
  "mx_Match (''*.'' @ suffix) host \<longleftrightarrow>
     (\<exists>label. label \<noteq> [] \<and> CHR ''.'' \<notin> set label \<and> to_lower (trim_suffix host ''.'') = label @ ''.'' @ suffix)"
proof -
  define h where "h = to_lower (trim_suffix host ''.'')"
  have p: "cut_prefix (''*.'' @ suffix) ''*.'' = Some suffix" by (simp add: cut_prefix_Some)
  have "mx_Match (''*.'' @ suffix) host \<longleftrightarrow>
      (case cut CHR ''.'' h of (label, rest, found) \<Rightarrow> found \<and> label \<noteq> [] \<and> rest = suffix)"
    unfolding mx_Match_def Let_def p by (simp add: h_def)
  also have "\<dots> \<longleftrightarrow> (\<exists>label. label \<noteq> [] \<and> CHR ''.'' \<notin> set label \<and> h = label @ CHR ''.'' # suffix)"
    using cut_True[of "CHR ''.''" h] cut_append[of "CHR ''.''" _ suffix] by (auto split: prod.split)
  finally show ?thesis by (simp add: h_def)
qed

text \<open>A size limit may carry several units, although the comment speaks of one.\<close>

lemma validSize_units: "validSize ''10kmg''"
proof -
  have "trim_right_by (\<lambda>c. c \<in> set ''kmgt'') (to_lower ''10kmg'') = ''10''" by code_simp
  moreover have "list_all is_digit ''10''" "digits_value ''10'' = 10" by code_simp+
  ultimately show ?thesis unfolding validSize_def parse_uint_def by simp
qed

end
