(* ===== verification/SetaEmail.thy ===== *)
theory SetaEmail
  imports SetaTags SetaSpfEval SetaNetx SetaEngine
begin

text \<open>
  Package checks/email: what each check makes of what it looked up. Memoisation shares results and
  is left out here (see SetaMemo); lookups, the fetch of an MTA-STS policy, SMTP sessions, the public
  suffix list, the clock and the texts of errors are the parameters of \<open>email_env\<close>. The texts of
  titles are kept, those of the metadata are not.
\<close>

subsection \<open>The outside\<close>

record policy_reply =
  py_Status :: nat
  py_Location :: string
  py_ContentType :: string
  py_Body :: string

record smtp_probe =
  pr_Host :: string
  pr_STARTTLS :: bool
  pr_TLSErr :: "string option"
  pr_Chain :: "cert list"
  pr_Verify :: "string option"
  pr_Version :: string

datatype smtp_error = ConnectErr string | SessionErr string

record 'e email_env =
  ee_lookup :: "string \<Rightarrow> nat \<Rightarrow> 'e + response"
  ee_etld1 :: "string \<Rightarrow> string option"
  ee_mail :: "string \<Rightarrow> (string \<times> string) option"
  ee_fqdn :: "string \<Rightarrow> string"
  ee_reverse :: "addr \<Rightarrow> string option"
  ee_b64 :: "string \<Rightarrow> string option"
  ee_rsa :: "string \<Rightarrow> string + nat"
  ee_get :: "string \<Rightarrow> (bool \<times> string) + policy_reply"
  ee_smtp :: "string \<Rightarrow> smtp_error + smtp_probe"
  ee_now :: int
  ee_time_text :: "int \<Rightarrow> string"
  ee_dmarc_text :: "dmarc_error \<Rightarrow> string"
  ee_spf_text :: "spf_error \<Rightarrow> string"
  ee_problem_text :: "problem_msg \<Rightarrow> string"
  ee_dkim_text :: "string dkim_error \<Rightarrow> string"
  ee_sts_text :: "sts_error \<Rightarrow> string"
  ee_rpt_text :: "tlsrpt_error \<Rightarrow> string"
  ee_error_text :: "'e \<Rightarrow> string"

text \<open>
  The errors of a check. \<open>Crash\<close> is a panic in a goroutine that \<open>forEach\<close> started: no recover is in
  reach of it, so it ends the program.
\<close>

datatype 'e email_error =
    LookupErr 'e
  | NXDomainErr string
  | HiddenQueryErr string
  | NotAReturnCode string addr
  | QueryRefused string addr
  | ListNotWorking string
  | ReverseErr addr
  | FetchErr string
  | NoPort25 smtp_error
  | SMTPErr smtp_error
  | Crash

text \<open>\<open>forEach\<close>: the error of the lowest index, unless a call crashed.\<close>

definition for_each :: "('a \<Rightarrow> 'e email_error + 'b) \<Rightarrow> 'a list \<Rightarrow> 'e email_error + 'b list" where
  "for_each f xs = (if list_ex (\<lambda>x. case f x of Inl Crash \<Rightarrow> True | _ \<Rightarrow> False) xs then Inl Crash else try_map f xs)"

definition looked_up :: "'e email_env \<Rightarrow> string \<Rightarrow> nat \<Rightarrow> 'e email_error + response" where
  "looked_up env name t = map_sum LookupErr id (ee_lookup env name t)"

subsection \<open>MX records\<close>

record mx_info =
  mi_Hosts :: "string list"
  mi_Null :: bool

definition ReceivesMail :: "mx_info \<Rightarrow> bool" where
  "ReceivesMail m \<longleftrightarrow> \<not> mi_Null m \<and> mi_Hosts m \<noteq> []"

definition compare_mx :: "nat \<times> string \<Rightarrow> nat \<times> string \<Rightarrow> int" where
  "compare_mx a b = cmp_or [int_compare (int (fst a)) (int (fst b)), str_compare (snd a) (snd b)]"

fun add_hosts :: "string list \<Rightarrow> string list \<Rightarrow> string list" where
  "add_hosts hosts [] = hosts"
| "add_hosts hosts (m # ms) =
     (let host = to_lower (trim_suffix m ''.'') in
      add_hosts (if host \<noteq> [] \<and> host \<notin> set hosts then hosts @ [host] else hosts) ms)"

definition loadMX :: "'e email_env \<Rightarrow> string \<Rightarrow> 'e email_error + mx_info" where
  "loadMX env domain =
     (case looked_up env domain TypeMX of
        Inl e \<Rightarrow> Inl e
      | Inr resp \<Rightarrow>
          if NXDomain resp then Inl (NXDomainErr domain)
          else
            let mxs = sort_func compare_mx (resp_MX resp) in
            Inr \<lparr>mi_Hosts = add_hosts [] (map snd mxs), mi_Null = (length mxs = 1 \<and> snd (hd mxs) = ''.'')\<rparr>)"

definition orgDomain :: "'e email_env \<Rightarrow> string \<Rightarrow> string" where
  "orgDomain env name =
     (case ee_etld1 env (trim_suffix (to_lower name) ''.'') of Some d \<Rightarrow> d | None \<Rightarrow> name)"

definition txtRecords :: "'e email_env \<Rightarrow> string \<Rightarrow> (string \<Rightarrow> bool) \<Rightarrow> 'e email_error + string list" where
  "txtRecords env name keep = map_sum id (\<lambda>resp. filter keep (resp_TXT resp)) (looked_up env name TypeTXT)"

text \<open>The addresses of each MX host, none for an IP literal or a host without addresses.\<close>

definition host_addrs :: "'e email_env \<Rightarrow> string \<Rightarrow> 'e email_error + addr list" where
  "host_addrs env host =
     (if ParseAddr host \<noteq> None then Inr []
      else case LookupAddrs (ee_lookup env) host of
          Inl (ErrNoAddress _) \<Rightarrow> Inr []
        | Inl (AddrLookup e) \<Rightarrow> Inl (LookupErr e)
        | Inr addrs \<Rightarrow> Inr addrs)"

definition mxAddrs :: "'e email_env \<Rightarrow> string list \<Rightarrow> 'e email_error + addr list list" where
  "mxAddrs env hosts = for_each (host_addrs env) hosts"

definition implicitMX :: "'e email_env \<Rightarrow> string \<Rightarrow> string" where
  "implicitMX env name =
     (case LookupAddrs (ee_lookup env) name of
        Inl (ErrNoAddress _) \<Rightarrow> ''none: mail to this domain is undeliverable''
      | Inl (AddrLookup e) \<Rightarrow> ''unknown ('' @ ee_error_text env e @ '')''
      | Inr addrs \<Rightarrow> comma (map addr_String addrs))"

text \<open>A check that starts from the MX records; the last argument is the rest of it.\<close>

definition with_mx ::
  "'e email_env \<Rightarrow> target \<Rightarrow> (mx_info \<Rightarrow> 'e email_error + finding list) \<Rightarrow> 'e email_error + finding list" where
  "with_mx env t k = (case loadMX env (t_Name t) of Inl e \<Rightarrow> Inl e | Inr mx \<Rightarrow> k mx)"

definition with_mail ::
  "'e email_env \<Rightarrow> target \<Rightarrow> (mx_info \<Rightarrow> 'e email_error + finding list) \<Rightarrow> 'e email_error + finding list" where
  "with_mail env t k = with_mx env t (\<lambda>mx. if \<not> ReceivesMail mx then Inr [] else k mx)"

definition mx_missing :: "'e email_env \<Rightarrow> target \<Rightarrow> 'e email_error + finding list" where
  "mx_missing env t = with_mx env t (\<lambda>mx.
     if mi_Null mx \<or> mi_Hosts mx \<noteq> [] then Inr []
     else Inr [finding_with [] [] [''mx_records'' \<mapsto> ''none'', ''implicit_mx'' \<mapsto> implicitMX env (t_Name t)]])"

definition unresolvable :: "string \<times> addr list \<Rightarrow> finding list" where
  "unresolvable x =
     (case x of (host, addrs) \<Rightarrow>
      if ParseAddr host \<noteq> None then [finding_with host ''MX record points at an IP address'' [''mx'' \<mapsto> host]]
      else if addrs = [] then [finding_with host [] [''mx'' \<mapsto> host, ''addresses'' \<mapsto> ''none'']]
      else [])"

definition mx_unresolvable :: "'e email_env \<Rightarrow> target \<Rightarrow> 'e email_error + finding list" where
  "mx_unresolvable env t = with_mail env t (\<lambda>mx.
     map_sum id (\<lambda>addrs. concat (map unresolvable (zip (mi_Hosts mx) addrs))) (mxAddrs env (mi_Hosts mx)))"

definition mx_unexpected :: "'e email_env \<Rightarrow> target \<Rightarrow> 'e email_error + finding list" where
  "mx_unexpected env t =
     (let want = e_ExpectedMX (t_Email t) in
      if want = [] then Inr []
      else with_mx env t (\<lambda>mx.
        let actual = (if mi_Null mx then ''null MX (the domain receives no mail)''
              else if mi_Hosts mx \<noteq> [] then comma (mi_Hosts mx) else ''none'');
            ev = (\<lambda>k v. [k \<mapsto> v, ''expected'' \<mapsto> comma want, ''actual'' \<mapsto> actual])
        in Inr (map (\<lambda>h. finding_with h ''Unexpected MX host'' (ev ''mx'' h))
                  (filter (\<lambda>h. \<not> list_ex (\<lambda>p. mx_Match p h) want) (mi_Hosts mx)) @
                map (\<lambda>p. finding_with p ''Expected MX host missing'' (ev ''missing'' p))
                  (filter (\<lambda>p. \<not> list_ex (mx_Match p) (mi_Hosts mx)) want))))"

text \<open>\<open>confirmed\<close>: None when a PTR name resolves back to the address, otherwise what is wrong.\<close>

fun resolves_back :: "'e email_env \<Rightarrow> addr \<Rightarrow> string list \<Rightarrow> 'e email_error + bool" where
  "resolves_back env a [] = Inr False"
| "resolves_back env a (n # ns) =
     (case LookupAddrs (ee_lookup env) n of
        Inl (AddrLookup e) \<Rightarrow> Inl (LookupErr e)
      | Inl (ErrNoAddress _) \<Rightarrow> resolves_back env a ns
      | Inr back \<Rightarrow> if a \<in> set back then Inr True else resolves_back env a ns)"

definition ptr_names :: "response \<Rightarrow> string list" where
  "ptr_names resp = concat (map (\<lambda>x. case rr_Data x of PTR_data p \<Rightarrow> [trim_suffix p ''.''] | _ \<Rightarrow> []) (Records resp))"

definition confirmed :: "'e email_env \<Rightarrow> addr \<Rightarrow> 'e email_error + string option" where
  "confirmed env a =
     (case ee_reverse env a of
        None \<Rightarrow> Inl (ReverseErr a)
      | Some rev_name \<Rightarrow>
        (case looked_up env rev_name TypePTR of
           Inl e \<Rightarrow> Inl e
         | Inr resp \<Rightarrow>
             if ptr_names resp = [] then Inr (Some ''no PTR record'')
             else map_sum id (\<lambda>ok. if ok then None
                 else Some (''PTR '' @ comma (ptr_names resp) @ '' does not resolve back''))
               (resolves_back env a (ptr_names resp))))"

definition fcrdns_findings :: "string list \<Rightarrow> (nat \<times> addr) list \<Rightarrow> string option list \<Rightarrow> finding list" where
  "fcrdns_findings hosts probes results =
     concat (map (\<lambda>(h, host).
       let bad = concat (map (\<lambda>((i, a), r). case r of Some d \<Rightarrow> if i = h then [addr_String a @ '' ('' @ d @ '')''] else [] | None \<Rightarrow> [])
             (zip probes results))
       in if bad \<noteq> [] then [finding_with host [] [''addresses'' \<mapsto> join ''; '' bad]] else []) (enumerate 0 hosts))"

definition mx_fcrdns :: "'e email_env \<Rightarrow> target \<Rightarrow> 'e email_error + finding list" where
  "mx_fcrdns env t = with_mail env t (\<lambda>mx.
     case mxAddrs env (mi_Hosts mx) of
       Inl e \<Rightarrow> Inl e
     | Inr addrs \<Rightarrow>
       let probes = concat (map (\<lambda>(h, as). map (\<lambda>a. (h, a)) as) (enumerate 0 addrs)) in
       map_sum id (fcrdns_findings (mi_Hosts mx) probes) (for_each (\<lambda>(h, a). confirmed env a) probes))"

end
