(* ===== verification/SetaEmailAuth.thy ===== *)
theory SetaEmailAuth
  imports SetaEmail
begin

text \<open>
  Package checks/email, spf.go, dmarc.go and dkim.go: the checks of sender authentication. A check
  is the loading of its information followed by what it reports on it.
\<close>

subsection \<open>SPF\<close>

record spf_info =
  si_Records :: "string list"
  si_Rec :: "(spf_error + spf_record) option"
  si_Eval :: "evaluation option"

definition loadSPF :: "'e email_env \<Rightarrow> string \<Rightarrow> 'e email_error + spf_info" where
  "loadSPF env domain =
     (case loadMX env domain of
        Inl e \<Rightarrow> Inl e
      | Inr _ \<Rightarrow>
        (case Fetch (ee_lookup env) domain of
           Inl e \<Rightarrow> Inl (LookupErr e)
         | Inr (records, _) \<Rightarrow>
             if length records \<noteq> 1 then Inr \<lparr>si_Records = records, si_Rec = None, si_Eval = None\<rparr>
             else
               (case spf_Parse (hd records) of
                  Inl e \<Rightarrow> Inr \<lparr>si_Records = records, si_Rec = Some (Inl e), si_Eval = None\<rparr>
                | Inr rec \<Rightarrow>
                  (case Evaluate (ee_fqdn env) (ee_lookup env) domain rec of
                     Inl e \<Rightarrow> Inl (LookupErr e)
                   | Inr ev \<Rightarrow> Inr \<lparr>si_Records = records, si_Rec = Some (Inr rec), si_Eval = Some ev\<rparr>))))"

definition with_spf ::
  "'e email_env \<Rightarrow> target \<Rightarrow> (spf_info \<Rightarrow> finding list) \<Rightarrow> 'e email_error + finding list" where
  "with_spf env t judge = map_sum id judge (loadSPF env (t_Name t))"

definition spf_missing :: "spf_info \<Rightarrow> finding list" where
  "spf_missing info = (if si_Records info \<noteq> [] then [] else [finding0])"

definition spf_multiple :: "spf_info \<Rightarrow> finding list" where
  "spf_multiple info =
     (if length (si_Records info) < 2 then []
      else [finding_with [] (nat_digits (length (si_Records info)) @ '' SPF records published'')
              [''records'' \<mapsto> bars (si_Records info)]])"

text \<open>The problems of an evaluation, one finding for each place, in the order of first mention.\<close>

definition places :: "(string \<times> problem_msg) list \<Rightarrow> string list" where
  "places ps = rev (remdups (rev (map fst ps)))"

definition problem_finding :: "(problem_msg \<Rightarrow> string) \<Rightarrow> (string \<times> problem_msg) list \<Rightarrow> string \<Rightarrow> finding" where
  "problem_finding show_problem ps where =
     finding_with where
       (if where \<noteq> [] then ''SPF '' @ where @ '' cannot be evaluated'' else ''SPF record cannot be evaluated'')
       [''error'' \<mapsto> join ''; '' (map (show_problem \<circ> snd) (filter (\<lambda>p. fst p = where) ps))]"

definition spf_syntax :: "'e email_env \<Rightarrow> spf_info \<Rightarrow> finding list" where
  "spf_syntax env info =
     (case si_Rec info of
        Some (Inl e) \<Rightarrow> [finding_with [] [] [''record'' \<mapsto> hd (si_Records info), ''error'' \<mapsto> ee_spf_text env e]]
      | _ \<Rightarrow>
        (case si_Eval info of
           None \<Rightarrow> []
         | Some ev \<Rightarrow> map (problem_finding (ee_problem_text env) (ev_Problems ev)) (places (ev_Problems ev))))"

definition MaxVoidLookups :: nat where "MaxVoidLookups = 2"

text \<open>The costliest terms first; the sort is stable.\<close>

definition compare_cost :: "string \<times> nat \<Rightarrow> string \<times> nat \<Rightarrow> int" where
  "compare_cost a b = int_compare (int (snd b)) (int (snd a))"

definition spf_lookup_limit :: "spf_info \<Rightarrow> finding list" where
  "spf_lookup_limit info =
     (case si_Eval info of
        None \<Rightarrow> []
      | Some ev \<Rightarrow>
          if ev_Lookups ev \<le> MaxLookups then []
          else
            let breakdown = map (\<lambda>(term, n). term @ ''='' @ nat_digits n) (sort_func compare_cost (ev_Cost ev));
                e = [''lookups'' \<mapsto> nat_digits (ev_Lookups ev), ''breakdown'' \<mapsto> comma breakdown]
            in [finding_with [] (''SPF needs '' @ nat_digits (ev_Lookups ev) @ '' DNS lookups (limit is '' @ nat_digits MaxLookups @ '')'')
                  (if ev_Incomplete ev then e(''note'' \<mapsto> ''evaluation stopped early; the real count is higher'') else e)])"

definition spf_void_lookups :: "spf_info \<Rightarrow> finding list" where
  "spf_void_lookups info =
     (case si_Eval info of
        None \<Rightarrow> []
      | Some ev \<Rightarrow>
          if ev_VoidLookups ev \<le> MaxVoidLookups then []
          else [finding_with []
              (''SPF makes '' @ nat_digits (ev_VoidLookups ev) @ '' void lookups (limit is '' @ nat_digits MaxVoidLookups @ '')'')
              [''void_lookups'' \<mapsto> nat_digits (ev_VoidLookups ev), ''terms'' \<mapsto> comma (ev_Voids ev)]])"

text \<open>What is said of the "all" that applies, and of the includes that match every sender.\<close>

definition all_findings :: "string \<Rightarrow> spf_record \<Rightarrow> evaluation \<Rightarrow> finding list" where
  "all_findings record_text rec ev =
     (let neutral = [''record'' \<mapsto> record_text, ''effect'' \<mapsto> ''unlisted senders get a neutral result''] in
      case ev_Effective ev of
        None \<Rightarrow>
          if sr_Redirect rec = []
          then [(finding_with [] ''SPF record has no \"all\" mechanism'' neutral)\<lparr>f_Severity := SeverityLow\<rparr>] else []
      | Some m \<Rightarrow>
          if m_Qualifier m = Pass then [finding_with [] ''SPF record ends in +all'' [''record'' \<mapsto> record_text]]
          else if m_Qualifier m = Neutral
            then [(finding_with [] ''SPF record ends in ?all'' neutral)\<lparr>f_Severity := SeverityLow\<rparr>]
          else [])"

definition permissive_finding :: "string \<Rightarrow> finding" where
  "permissive_finding via =
     finding_with via (''SPF '' @ via @ '' authorizes any sender'')
       [''reason'' \<mapsto> ''the included record ends in +all, so the include matches every sender'']"

definition spf_permissive_all :: "spf_info \<Rightarrow> finding list" where
  "spf_permissive_all info =
     (case (si_Rec info, si_Eval info) of
        (Some (Inr rec), Some ev) \<Rightarrow>
          all_findings (hd (si_Records info)) rec ev @ map permissive_finding (ev_PermissiveIncludes ev)
      | _ \<Rightarrow> [])"

text \<open>\<open>sendsNoMail\<close>: the record is exactly "v=spf1 -all".\<close>

definition no_mail_record :: "spf_record \<Rightarrow> bool" where
  "no_mail_record rec \<longleftrightarrow> sr_Redirect rec = [] \<and>
     (case sr_Mechanisms rec of [m] \<Rightarrow> m_Kind m = ''all'' \<and> m_Qualifier m = Fail | _ \<Rightarrow> False)"

definition sendsNoMail :: "'e email_env \<Rightarrow> string \<Rightarrow> 'e email_error + bool" where
  "sendsNoMail env domain =
     map_sum id (\<lambda>info. case si_Rec info of Some (Inr rec) \<Rightarrow> no_mail_record rec | _ \<Rightarrow> False) (loadSPF env domain)"

subsection \<open>DMARC\<close>

record dmarc_info =
  di_Domain :: string
  di_Inherited :: bool
  di_Records :: "string list"
  di_Rec :: "(dmarc_error + dmarc_record) option"

text \<open>The record of the domain, or of its organizational domain when it has none of its own.\<close>

definition loadDMARC :: "'e email_env \<Rightarrow> string \<Rightarrow> 'e email_error + dmarc_info" where
  "loadDMARC env domain =
     (let finish = (\<lambda>d inherited records. Inr \<lparr>di_Domain = d, di_Inherited = inherited, di_Records = records,
            di_Rec = (if length records = 1 then Some (dmarc_Parse (ee_mail env) (hd records)) else None)\<rparr>)
      in case loadMX env domain of
           Inl e \<Rightarrow> Inl e
         | Inr _ \<Rightarrow>
           (case txtRecords env (''_dmarc.'' @ domain) IsDMARC of
              Inl e \<Rightarrow> Inl e
            | Inr records \<Rightarrow>
                let org = orgDomain env domain in
                if records = [] \<and> org \<noteq> domain then
                  (case txtRecords env (''_dmarc.'' @ org) IsDMARC of
                     Inl e \<Rightarrow> Inl e
                   | Inr records' \<Rightarrow> finish org (records' \<noteq> []) records')
                else finish domain False records))"

definition with_dmarc ::
  "'e email_env \<Rightarrow> target \<Rightarrow> (dmarc_info \<Rightarrow> 'e email_error + finding list) \<Rightarrow> 'e email_error + finding list" where
  "with_dmarc env t k = (case loadDMARC env (t_Name t) of Inl e \<Rightarrow> Inl e | Inr info \<Rightarrow> k info)"

definition dmarc_evidence :: "dmarc_info \<Rightarrow> evidence" where
  "dmarc_evidence d =
     (if di_Inherited d then [''record'' \<mapsto> hd (di_Records d), ''inherited_from'' \<mapsto> ''_dmarc.'' @ di_Domain d]
      else [''record'' \<mapsto> hd (di_Records d)])"

text \<open>The policy for the target itself.\<close>

definition effective_policy :: "dmarc_info \<Rightarrow> dmarc_record \<Rightarrow> policy option" where
  "effective_policy d r = (if di_Inherited d \<and> dr_SP r \<noteq> None then dr_SP r else dr_P r)"

definition parsed :: "dmarc_info \<Rightarrow> dmarc_record option" where
  "parsed d = (case di_Rec d of Some (Inr r) \<Rightarrow> Some r | _ \<Rightarrow> None)"

definition dmarc_missing :: "string \<Rightarrow> dmarc_info \<Rightarrow> finding list" where
  "dmarc_missing domain info =
     (if di_Records info \<noteq> [] then [] else [finding_with [] [] [''queried'' \<mapsto> ''_dmarc.'' @ domain]])"

definition dmarc_syntax :: "'e email_env \<Rightarrow> dmarc_info \<Rightarrow> finding list" where
  "dmarc_syntax env info =
     (if 1 < length (di_Records info) then
        [finding_with [] (nat_digits (length (di_Records info)) @ '' DMARC records published at _dmarc.'' @ di_Domain info)
           [''records'' \<mapsto> bars (di_Records info)]]
      else case di_Rec info of
          Some (Inl e) \<Rightarrow> [finding_with [] [] ((dmarc_evidence info)(''error'' \<mapsto> ee_dmarc_text env e))]
        | _ \<Rightarrow> [])"

definition dmarc_policy_none :: "dmarc_info \<Rightarrow> finding list" where
  "dmarc_policy_none info =
     (case parsed info of
        None \<Rightarrow> []
      | Some r \<Rightarrow>
          if effective_policy info r = Some PolicyNone then
            [finding_with [] [] (if dr_ImplicitP r
               then (dmarc_evidence info)(''note'' \<mapsto> ''no p= tag; treated as none because rua= is set'')
               else dmarc_evidence info)]
          else if \<not> di_Inherited info \<and> dr_SP r = Some PolicyNone then
            [finding_with ''subdomains'' ''DMARC subdomain policy is sp=none'' (dmarc_evidence info)]
          else [])"

definition dmarc_no_reporting :: "dmarc_info \<Rightarrow> finding list" where
  "dmarc_no_reporting info =
     (case parsed info of
        None \<Rightarrow> []
      | Some r \<Rightarrow> if dr_RUA r \<noteq> [] then [] else [finding_with [] [] (dmarc_evidence info)])"

fun add_dests :: "'e email_env \<Rightarrow> string \<Rightarrow> string list \<Rightarrow> dmarc_uri list \<Rightarrow> string list" where
  "add_dests env own dests [] = dests"
| "add_dests env own dests (u # us) =
     add_dests env own
       (if ur_Domain u \<noteq> [] \<and> orgDomain env (ur_Domain u) \<noteq> own \<and> ur_Domain u \<notin> set dests
        then dests @ [ur_Domain u] else dests) us"

text \<open>The authorization records of the destinations, one after the other.\<close>

fun unauthorized :: "'e email_env \<Rightarrow> dmarc_info \<Rightarrow> string list \<Rightarrow> 'e email_error + finding list" where
  "unauthorized env info [] = Inr []"
| "unauthorized env info (dest # dests) =
     (let name = di_Domain info @ ''._report._dmarc.'' @ dest in
      case txtRecords env name IsDMARC of
        Inl e \<Rightarrow> Inl e
      | Inr auth \<Rightarrow>
          map_sum id (\<lambda>fs. if auth = []
              then finding_with dest (''DMARC reports to '' @ dest @ '' are not authorized'')
                     [''queried'' \<mapsto> name, ''record'' \<mapsto> hd (di_Records info)] # fs
              else fs)
            (unauthorized env info dests))"

definition dmarc_external_auth :: "'e email_env \<Rightarrow> dmarc_info \<Rightarrow> 'e email_error + finding list" where
  "dmarc_external_auth env info =
     (case parsed info of
        None \<Rightarrow> Inr []
      | Some r \<Rightarrow> unauthorized env info (add_dests env (orgDomain env (di_Domain info)) [] (dr_RUA r @ dr_RUF r)))"

subsection \<open>DKIM\<close>

definition CommonSelectors :: "string list" where
  "CommonSelectors = [''google'', ''selector1'', ''selector2'', ''default'', ''k1'', ''s1'', ''mail'']"

record dkim_selector =
  ds_Name :: string
  ds_Records :: "string list"
  ds_Key :: "(string dkim_error + dkim_key) option"

definition usable_key :: "dkim_selector \<Rightarrow> dkim_key option" where
  "usable_key s = (case ds_Key s of Some (Inr k) \<Rightarrow> if dk_Revoked k then None else Some k | _ \<Rightarrow> None)"

definition load_selector :: "'e email_env \<Rightarrow> string \<Rightarrow> string \<Rightarrow> 'e email_error + dkim_selector" where
  "load_selector env domain name =
     map_sum id (\<lambda>records. \<lparr>ds_Name = name, ds_Records = records,
         ds_Key = (if records = [] then None else Some (dkim_Parse (ee_b64 env) (ee_rsa env) (hd records)))\<rparr>)
       (txtRecords env (name @ ''._domainkey.'' @ domain) IsKey)"

definition loadDKIM :: "'e email_env \<Rightarrow> target \<Rightarrow> 'e email_error + dkim_selector list \<times> bool" where
  "loadDKIM env t =
     (case loadMX env (t_Name t) of
        Inl e \<Rightarrow> Inl e
      | Inr _ \<Rightarrow>
        let names = e_DKIMSelectors (t_Email t) in
        map_sum id (\<lambda>ss. (ss, names = [] \<or> e_SelectorsGuessed (t_Email t)))
          (for_each (load_selector env (t_Name t)) (if names = [] then CommonSelectors else names)))"

definition selector_finding :: "'e email_env \<Rightarrow> string \<Rightarrow> dkim_selector \<Rightarrow> finding list" where
  "selector_finding env domain s =
     (let mk = (\<lambda>title e. [finding_with (''selector:'' @ ds_Name s) title
            (e(''queried'' \<mapsto> ds_Name s @ ''._domainkey.'' @ domain))])
      in if ds_Records s = [] then mk (''No DKIM key for selector '' @ ds_Name s) Map.empty
         else case ds_Key s of
             Some (Inl e) \<Rightarrow> mk (''DKIM key for selector '' @ ds_Name s @ '' is invalid'') [''error'' \<mapsto> ee_dkim_text env e]
           | Some (Inr k) \<Rightarrow>
               if dk_Revoked k then mk (''DKIM key for selector '' @ ds_Name s @ '' is revoked (empty p=)'') Map.empty
               else []
           | None \<Rightarrow> [])"

definition guessed_finding :: "dkim_selector list \<Rightarrow> finding" where
  "guessed_finding ss =
     (finding_with ''common-selectors'' ''No DKIM key found at common selectors (DKIM may still be set up)''
        [''selectors_tried'' \<mapsto> comma (map ds_Name ss)])
       \<lparr>f_Severity := SeverityInfo,
        f_Remediation := ''Configure your real DKIM selectors so Seta can check them. They appear in the '' @
          ''s= tag of the DKIM-Signature header of mail you send.''\<rparr>"

definition dkim_missing :: "'e email_env \<Rightarrow> target \<Rightarrow> 'e email_error + finding list" where
  "dkim_missing env t =
     (case loadDKIM env t of
        Inl e \<Rightarrow> Inl e
      | Inr (ss, guessed) \<Rightarrow>
          if guessed then
            (case sendsNoMail env (t_Name t) of
               Inl e \<Rightarrow> Inl e
             | Inr quiet \<Rightarrow>
                 if quiet \<or> list_ex (\<lambda>s. usable_key s \<noteq> None) ss then Inr [] else Inr [guessed_finding ss])
          else Inr (concat (map (selector_finding env (t_Name t)) ss)))"

definition weak_finding :: "dkim_selector \<Rightarrow> finding list" where
  "weak_finding s =
     (case usable_key s of
        None \<Rightarrow> []
      | Some k \<Rightarrow>
          if dk_Type k \<noteq> ''rsa'' \<or> 2048 \<le> dk_Bits k then []
          else
            let f = finding_with (''selector:'' @ ds_Name s)
                  (''DKIM key for selector '' @ ds_Name s @ '' is '' @ nat_digits (dk_Bits k) @ ''-bit RSA'')
                  [''bits'' \<mapsto> nat_digits (dk_Bits k)]
            in [if dk_Bits k < 1024 then f\<lparr>f_Severity := SeverityCritical\<rparr> else f])"

definition dkim_weak_key :: "'e email_env \<Rightarrow> target \<Rightarrow> 'e email_error + finding list" where
  "dkim_weak_key env t = map_sum id (\<lambda>(ss, _). concat (map weak_finding ss)) (loadDKIM env t)"

end
