(* ===== verification/SetaEmailMail.thy ===== *)
theory SetaEmailMail
  imports SetaEmailAuth
begin

text \<open>
  Package checks/email, mtasts.go, tlsrpt.go, dnsbl.go and starttls.go: the checks of the servers
  that receive mail, and what holds of all checks of the module.
\<close>

subsection \<open>MTA-STS\<close>

definition fetchPolicy :: "policy_reply \<Rightarrow> string + string" where
  "fetchPolicy p =
     (if 300 \<le> py_Status p \<and> py_Status p < 400 then
        Inl (''HTTP '' @ nat_digits (py_Status p) @ '' redirect to '' @ go_quote (py_Location p) @
             ''; senders must not follow redirects'')
      else if py_Status p \<noteq> 200 then Inl (''HTTP '' @ nat_digits (py_Status p))
      else if \<not> has_prefix (to_lower (py_ContentType p)) ''text/plain'' then
        Inl (''served as '' @ go_quote (py_ContentType p) @ ''; the policy must be text/plain'')
      else if MaxPolicySize < length (py_Body p) then
        Inl (''policy is larger than '' @ nat_digits MaxPolicySize @ '' bytes'')
      else Inr (py_Body p))"

text \<open>\<open>ts_Problem\<close> is RecordErr; \<open>ts_Policy\<close> holds PolicyErr or the policy once it was fetched.\<close>

record mtasts_info =
  ts_Records :: "string list"
  ts_Problem :: "string option"
  ts_URL :: string
  ts_Policy :: "(string + sts_policy) option"

definition policy_url :: "string \<Rightarrow> string" where
  "policy_url domain = ''https://mta-sts.'' @ domain @ ''/.well-known/mta-sts.txt''"

definition fetched_policy :: "'e email_env \<Rightarrow> string \<Rightarrow> 'e email_error + string + sts_policy" where
  "fetched_policy env url =
     (case ee_get env url of
        Inl (transient, msg) \<Rightarrow> if transient then Inl (FetchErr url) else Inr (Inl msg)
      | Inr reply \<Rightarrow>
        (case fetchPolicy reply of
           Inl msg \<Rightarrow> Inr (Inl msg)
         | Inr body \<Rightarrow> Inr (map_sum (ee_sts_text env) id (ParsePolicy body))))"

definition loadMTASTS :: "'e email_env \<Rightarrow> string \<Rightarrow> 'e email_error + mtasts_info" where
  "loadMTASTS env domain =
     (case txtRecords env (''_mta-sts.'' @ domain) IsTXT of
        Inl e \<Rightarrow> Inl e
      | Inr records \<Rightarrow>
        let info = \<lparr>ts_Records = records, ts_Problem = None, ts_URL = [], ts_Policy = None\<rparr> in
        if records = [] then Inr info
        else if 1 < length records then
          Inr (info\<lparr>ts_Problem := Some (nat_digits (length records) @ '' records published; senders ignore all of them'')\<rparr>)
        else case ParseTXT (hd records) of
            Inl e \<Rightarrow> Inr (info\<lparr>ts_Problem := Some (ee_sts_text env e)\<rparr>)
          | Inr _ \<Rightarrow>
              map_sum id (\<lambda>p. info\<lparr>ts_URL := policy_url domain, ts_Policy := Some p\<rparr>)
                (fetched_policy env (policy_url domain)))"

definition with_sts ::
  "'e email_env \<Rightarrow> target \<Rightarrow> (mx_info \<Rightarrow> mtasts_info \<Rightarrow> finding list) \<Rightarrow> 'e email_error + finding list" where
  "with_sts env t judge = with_mail env t (\<lambda>mx. map_sum id (judge mx) (loadMTASTS env (t_Name t)))"

definition mtasts_missing :: "string \<Rightarrow> mtasts_info \<Rightarrow> finding list" where
  "mtasts_missing domain info =
     (if ts_Records info \<noteq> [] then [] else [finding_with [] [] [''queried'' \<mapsto> ''_mta-sts.'' @ domain]])"

definition uncovered :: "sts_policy \<Rightarrow> string \<Rightarrow> finding list" where
  "uncovered p host =
     (if list_ex (\<lambda>pat. mx_Match pat host) (sp_MX p) then []
      else
        let f = finding_with (''mx:'' @ host) (''MX host '' @ host @ '' is not covered by the MTA-STS policy'')
              [''policy_mx'' \<mapsto> comma (sp_MX p), ''mode'' \<mapsto> sp_Mode p]
        in [if sp_Mode p = ''enforce''
            then f\<lparr>f_Severity := SeverityHigh,
              f_Evidence := (f_Evidence f)(''effect'' \<mapsto> ''senders enforcing MTA-STS will not deliver to this host'')\<rparr>
            else f])"

definition mtasts_invalid :: "mx_info \<Rightarrow> mtasts_info \<Rightarrow> finding list" where
  "mtasts_invalid mx info =
     (if ts_Records info = [] then []
      else case ts_Problem info of
          Some e \<Rightarrow> [finding_with ''record'' ''MTA-STS TXT record is invalid''
              [''records'' \<mapsto> bars (ts_Records info), ''error'' \<mapsto> e]]
        | None \<Rightarrow>
          (case ts_Policy info of
             Some (Inl e) \<Rightarrow> [finding_with ''policy'' ''MTA-STS policy is invalid or unreachable''
                 [''url'' \<mapsto> ts_URL info, ''error'' \<mapsto> e]]
           | Some (Inr p) \<Rightarrow>
               if sp_Mode p = ''none'' then [] else concat (map (uncovered p) (mi_Hosts mx))
           | None \<Rightarrow> []))"

definition mtasts_testing :: "mtasts_info \<Rightarrow> finding list" where
  "mtasts_testing info =
     (case ts_Policy info of
        Some (Inr p) \<Rightarrow> if sp_Mode p = ''testing'' then [finding_with [] [] [''url'' \<mapsto> ts_URL info]] else []
      | _ \<Rightarrow> [])"

subsection \<open>TLS-RPT\<close>

definition tlsrpt_findings :: "'e email_env \<Rightarrow> string \<Rightarrow> string list \<Rightarrow> finding list" where
  "tlsrpt_findings env name records =
     (case records of
        [] \<Rightarrow> [finding_with [] [] [''queried'' \<mapsto> name]]
      | [r] \<Rightarrow>
        (case parseTLSRPT r of
           None \<Rightarrow> []
         | Some e \<Rightarrow> [finding_with [] ''TLS-RPT record is invalid'' [''record'' \<mapsto> r, ''error'' \<mapsto> ee_rpt_text env e]])
      | _ \<Rightarrow> [finding_with [] (nat_digits (length records) @ '' TLS-RPT records published; senders ignore all of them'')
               [''records'' \<mapsto> bars records]])"

definition tlsrpt_missing :: "'e email_env \<Rightarrow> target \<Rightarrow> 'e email_error + finding list" where
  "tlsrpt_missing env t = with_mail env t (\<lambda>_.
     let name = ''_smtp._tls.'' @ t_Name t in map_sum id (tlsrpt_findings env name) (txtRecords env name isTLSRPT))"

subsection \<open>Blocklists\<close>

definition DefaultDNSBLs :: "string list" where
  "DefaultDNSBLs = [''bl.spamcop.net'', ''psbl.surriel.com'']"

definition dqs_suffix :: string where "dqs_suffix = ''.zen.dq.spamhaus.net''"

definition dnsblZones :: "target \<Rightarrow> string list" where
  "dnsblZones t =
     (let zones = (if e_DNSBLs (t_Email t) = [] then DefaultDNSBLs else e_DNSBLs (t_Email t));
          key = e_SpamhausDQSKey (t_Email t)
      in if key \<noteq> [] then zones @ [key @ dqs_suffix] else zones)"

definition displayZone :: "string \<Rightarrow> string" where
  "displayZone zone = (if has_suffix zone dqs_suffix then ''zen.spamhaus.org (DQS)'' else zone)"

text \<open>\<open>As4\<close>: None for an IPv6 address, on which it panics.\<close>

definition as4 :: "addr \<Rightarrow> nat list option" where
  "as4 a = (case unmap a of V4 b \<Rightarrow> Some b | V6 _ _ \<Rightarrow> None)"

definition reverseV4 :: "nat list \<Rightarrow> string" where
  "reverseV4 b = join ''.'' (map nat_digits (rev b))"

text \<open>The return codes in an answer. The bytes are taken before it is asked whether there are four.\<close>

fun return_codes :: "string \<Rightarrow> addr list \<Rightarrow> 'e email_error + string list" where
  "return_codes zone [] = Inr []"
| "return_codes zone (a # as) =
     (case as4 a of
        None \<Rightarrow> Inl Crash
      | Some b \<Rightarrow>
          if \<not> is4 a \<or> b ! 0 \<noteq> 127 then Inl (NotAReturnCode zone a)
          else if b ! 1 = 255 \<and> b ! 2 = 255 then Inl (QueryRefused zone a)
          else map_sum id (\<lambda>cs. addr_String a # cs) (return_codes zone as))"

definition dnsblQuery :: "'e email_env \<Rightarrow> string \<Rightarrow> nat list \<Rightarrow> 'e email_error + string list" where
  "dnsblQuery env zone b =
     (case ee_lookup env (reverseV4 b @ ''.'' @ zone) TypeA of
        Inl e \<Rightarrow> if displayZone zone \<noteq> zone then Inl (HiddenQueryErr (displayZone zone)) else Inl (LookupErr e)
      | Inr resp \<Rightarrow> return_codes (displayZone zone) (resp_Addrs resp))"

definition checkList :: "'e email_env \<Rightarrow> string \<Rightarrow> 'e email_error + unit" where
  "checkList env zone =
     (case dnsblQuery env zone [127, 0, 0, 2] of
        Inl e \<Rightarrow> Inl e
      | Inr listed \<Rightarrow>
          if listed = [] then Inl (ListNotWorking (displayZone zone))
          else case dnsblQuery env zone [127, 0, 0, 1] of
              Inl e \<Rightarrow> Inl e
            | Inr bogus \<Rightarrow> if bogus \<noteq> [] then Inl (ListNotWorking (displayZone zone)) else Inr ())"

text \<open>The IPv4 addresses of the MX hosts, each with the first host that has it.\<close>

fun add_ips :: "(addr \<times> string) list \<Rightarrow> (addr \<times> string) list \<Rightarrow> (addr \<times> string) list" where
  "add_ips ips [] = ips"
| "add_ips ips (x # xs) = add_ips (if is4 (fst x) \<and> fst x \<notin> fst ` set ips then ips @ [x] else ips) xs"

definition mail_ips :: "string list \<Rightarrow> addr list list \<Rightarrow> (addr \<times> string) list" where
  "mail_ips hosts addrs = add_ips [] (concat (map (\<lambda>(h, as). map (\<lambda>a. (a, h)) as) (zip hosts addrs)))"

definition listing :: "(string \<times> addr \<times> string) \<times> string list \<Rightarrow> finding list" where
  "listing x =
     (case x of ((zone, ip, host), codes) \<Rightarrow>
      if codes = [] then []
      else [finding_with (displayZone zone @ '':'' @ addr_String ip)
              (addr_String ip @ '' ('' @ host @ '') is listed on '' @ displayZone zone)
              [''address'' \<mapsto> addr_String ip, ''mx'' \<mapsto> host, ''codes'' \<mapsto> comma codes]])"

text \<open>Every zone with every address, in the order of the index \<open>i\<close> of the code.\<close>

definition zone_ips :: "string list \<Rightarrow> (addr \<times> string) list \<Rightarrow> (string \<times> addr \<times> string) list" where
  "zone_ips zones ips = concat (map (\<lambda>z. map (\<lambda>(a, h). (z, a, h)) ips) zones)"

definition dnsbl_listed :: "'e email_env \<Rightarrow> target \<Rightarrow> 'e email_error + finding list" where
  "dnsbl_listed env t = with_mail env t (\<lambda>mx.
     case mxAddrs env (mi_Hosts mx) of
       Inl e \<Rightarrow> Inl e
     | Inr addrs \<Rightarrow>
       let ips = mail_ips (mi_Hosts mx) addrs; zones = dnsblZones t; queries = zone_ips zones ips in
       case for_each (checkList env) zones of
         Inl e \<Rightarrow> Inl e
       | Inr _ \<Rightarrow>
           map_sum id (\<lambda>codes. concat (map listing (zip queries codes)))
             (for_each (\<lambda>(z, a, h). dnsblQuery env z (addr_bytes a)) queries))"

subsection \<open>STARTTLS\<close>

text \<open>\<open>probeAll\<close>: the probes of every MX host; an unreachable host fails the check.\<close>

definition probeAll :: "'e email_env \<Rightarrow> mx_info \<Rightarrow> 'e email_error + smtp_probe list" where
  "probeAll env mx =
     (let rs = map (ee_smtp env) (mi_Hosts mx) in
      if list_all (\<lambda>r. case r of Inl (ConnectErr _) \<Rightarrow> True | _ \<Rightarrow> False) rs
      then (case hd rs of Inl e \<Rightarrow> Inl (NoPort25 e) | Inr _ \<Rightarrow> Inr [])
      else map_sum SMTPErr id (try_map (\<lambda>r. r) rs))"

definition starttlsCheck ::
  "(smtp_probe \<Rightarrow> finding option) \<Rightarrow> 'e email_env \<Rightarrow> target \<Rightarrow> 'e email_error + finding list" where
  "starttlsCheck judge env t = with_mail env t (\<lambda>mx.
     map_sum id (\<lambda>ps. concat (map (\<lambda>p. case judge p of None \<Rightarrow> [] | Some f \<Rightarrow> [f\<lparr>f_Subject := pr_Host p\<rparr>]) ps))
       (probeAll env mx))"

definition certEvidence :: "'e email_env \<Rightarrow> smtp_probe \<Rightarrow> evidence" where
  "certEvidence env p =
     (case pr_Chain p of
        [] \<Rightarrow> [''tls_version'' \<mapsto> pr_Version p]
      | leaf # _ \<Rightarrow> [''tls_version'' \<mapsto> pr_Version p, ''subject'' \<mapsto> ct_CommonName leaf,
          ''names'' \<mapsto> comma (ct_DNSNames leaf), ''issuer'' \<mapsto> ct_Issuer leaf,
          ''not_after'' \<mapsto> ee_time_text env (ct_NotAfter leaf)])"

definition starttls_unsupported :: "smtp_probe \<Rightarrow> finding option" where
  "starttls_unsupported p =
     (if \<not> pr_STARTTLS p then Some (finding_with [] [] [''ehlo'' \<mapsto> ''STARTTLS not advertised''])
      else case pr_TLSErr p of
          Some e \<Rightarrow> Some (finding_with [] ''MX host advertises STARTTLS but TLS fails'' [''error'' \<mapsto> e])
        | None \<Rightarrow> None)"

definition starttls_cert_invalid :: "'e email_env \<Rightarrow> smtp_probe \<Rightarrow> finding option" where
  "starttls_cert_invalid env p =
     (if pr_Chain p = [] then None
      else case pr_Verify p of
          None \<Rightarrow> None
        | Some e \<Rightarrow> Some (finding_with [] [] ((certEvidence env p)(''error'' \<mapsto> e))))"

definition days_text :: "int \<Rightarrow> string" where
  "days_text n = (if n = 1 then ''1 day'' else itoa n @ '' days'')"

definition starttls_cert_expiring :: "'e email_env \<Rightarrow> smtp_probe \<Rightarrow> finding option" where
  "starttls_cert_expiring env p =
     (case pr_Chain p of
        [] \<Rightarrow> None
      | leaf # _ \<Rightarrow>
          if pr_Verify p \<noteq> None then None
          else
            let left = ct_NotAfter leaf - ee_now env in
            if 21 * day < left then None
            else
              let f = finding_with [] (''MX host TLS certificate expires in '' @ days_text (days_left left)) (certEvidence env p)
              in Some (if left \<le> 7 * day then f\<lparr>f_Severity := SeverityHigh\<rparr> else f))"

subsection \<open>The checks of the module\<close>

definition email_checks :: "'e email_env \<Rightarrow> (string \<times> (target \<Rightarrow> 'e email_error + finding list)) list" where
  "email_checks env =
     [(''email.mx.missing'', mx_missing env),
      (''email.mx.unresolvable'', mx_unresolvable env),
      (''email.mx.unexpected'', mx_unexpected env),
      (''email.mx.fcrdns'', mx_fcrdns env),
      (''email.spf.missing'', \<lambda>t. with_spf env t spf_missing),
      (''email.spf.multiple'', \<lambda>t. with_spf env t spf_multiple),
      (''email.spf.syntax'', \<lambda>t. with_spf env t (spf_syntax env)),
      (''email.spf.lookup_limit'', \<lambda>t. with_spf env t spf_lookup_limit),
      (''email.spf.void_lookups'', \<lambda>t. with_spf env t spf_void_lookups),
      (''email.spf.permissive_all'', \<lambda>t. with_spf env t spf_permissive_all),
      (''email.dmarc.missing'', \<lambda>t. with_dmarc env t (\<lambda>i. Inr (dmarc_missing (t_Name t) i))),
      (''email.dmarc.syntax'', \<lambda>t. with_dmarc env t (\<lambda>i. Inr (dmarc_syntax env i))),
      (''email.dmarc.policy_none'', \<lambda>t. with_dmarc env t (\<lambda>i. Inr (dmarc_policy_none i))),
      (''email.dmarc.no_reporting'', \<lambda>t. with_dmarc env t (\<lambda>i. Inr (dmarc_no_reporting i))),
      (''email.dmarc.external_auth'', \<lambda>t. with_dmarc env t (dmarc_external_auth env)),
      (''email.dkim.missing'', dkim_missing env),
      (''email.dkim.weak_key'', dkim_weak_key env),
      (''email.mtasts.missing'', \<lambda>t. with_sts env t (\<lambda>_. mtasts_missing (t_Name t))),
      (''email.mtasts.invalid'', \<lambda>t. with_sts env t mtasts_invalid),
      (''email.mtasts.testing'', \<lambda>t. with_sts env t (\<lambda>_. mtasts_testing)),
      (''email.tlsrpt.missing'', tlsrpt_missing env),
      (''email.dnsbl.listed'', dnsbl_listed env),
      (''email.starttls.unsupported'', starttlsCheck starttls_unsupported env),
      (''email.starttls.cert_invalid'', starttlsCheck (starttls_cert_invalid env) env),
      (''email.starttls.cert_expiring'', starttlsCheck (starttls_cert_expiring env) env)]"

end
