(* ===== verification/SetaEmailSpec.thy ===== *)
theory SetaEmailSpec
  imports SetaEmailMail
begin

text \<open>
  What the email checks report, and what the engine makes of it: domains that do not exist, answers
  of a blocklist that end the program, and findings with the same subject.
\<close>

subsection \<open>Concrete environments\<close>

definition demo_email :: "(string \<Rightarrow> nat \<Rightarrow> unit + response) \<Rightarrow> unit email_env" where
  "demo_email r = \<lparr>ee_lookup = r, ee_etld1 = (\<lambda>_. None), ee_mail = (\<lambda>_. None), ee_fqdn = (\<lambda>s. s),
     ee_reverse = (\<lambda>_. None), ee_b64 = (\<lambda>_. None), ee_rsa = (\<lambda>_. Inl []), ee_get = (\<lambda>_. Inl (False, [])),
     ee_smtp = (\<lambda>h. Inl (ConnectErr h)), ee_now = 0, ee_time_text = (\<lambda>_. []), ee_dmarc_text = (\<lambda>_. []),
     ee_spf_text = (\<lambda>_. []), ee_problem_text = (\<lambda>_. []), ee_dkim_text = (\<lambda>_. []), ee_sts_text = (\<lambda>_. []),
     ee_rpt_text = (\<lambda>_. []), ee_error_text = (\<lambda>_. [])\<rparr>"

definition no_such_name :: "string \<Rightarrow> nat \<Rightarrow> unit + response" where
  "no_such_name name t = Inr \<lparr>rp_Name = name, rp_Type = t, rp_Rcode = 3, rp_Answer = []\<rparr>"

subsection \<open>A nonexistent domain has no findings\<close>

text \<open>
  C24 Every check of the module looks at the MX records first, so that a domain that does not exist is
  an error of the check and never a finding; only the comparison with an empty list of expected MX
  hosts says nothing at all.
\<close>

theorem nonexistent_domain_no_findings:
  assumes "ee_lookup env (t_Name t) TypeMX = Inr resp" and "NXDomain resp"
  shows "list_all (\<lambda>(i, run). run t = Inl (NXDomainErr (t_Name t)) \<or>
      (i = ''email.mx.unexpected'' \<and> e_ExpectedMX (t_Email t) = [] \<and> run t = Inr [])) (email_checks env)"
proof -
  have m: "loadMX env (t_Name t) = Inl (NXDomainErr (t_Name t))"
    using assms by (simp add: loadMX_def looked_up_def)
  have w: "with_mx env t k = Inl (NXDomainErr (t_Name t))" "with_mail env t k = Inl (NXDomainErr (t_Name t))" for k
    by (simp_all add: with_mx_def with_mail_def m)
  have s: "with_spf env t j = Inl (NXDomainErr (t_Name t))" for j by (simp add: with_spf_def loadSPF_def m)
  have d: "with_dmarc env t k = Inl (NXDomainErr (t_Name t))" for k by (simp add: with_dmarc_def loadDMARC_def Let_def m)
  have k: "loadDKIM env t = Inl (NXDomainErr (t_Name t))" by (simp add: loadDKIM_def m)
  show ?thesis
    by (simp add: email_checks_def w s d k with_sts_def mx_missing_def mx_unresolvable_def mx_unexpected_def Let_def
        mx_fcrdns_def dkim_missing_def dkim_weak_key_def tlsrpt_missing_def dnsbl_listed_def starttlsCheck_def)
qed

theorem nonexistent_domain_no_findings_witness:
  "list_all (\<lambda>(i, run). run (target_named ''a.test'') = Inl (NXDomainErr ''a.test'') \<or>
      (i = ''email.mx.unexpected'' \<and> e_ExpectedMX (t_Email (target_named ''a.test'')) = [] \<and>
       run (target_named ''a.test'') = Inr [])) (email_checks (demo_email no_such_name))"
  using nonexistent_domain_no_findings
    [of "demo_email no_such_name" "target_named ''a.test''" "\<lparr>rp_Name = ''a.test'', rp_Type = TypeMX, rp_Rcode = 3, rp_Answer = []\<rparr>"]
  by (simp add: demo_email_def no_such_name_def target_named_def NXDomain_def RcodeNameError_def)

subsection \<open>Blocklist answers that crash the program\<close>

definition good_code :: "addr \<Rightarrow> bool" where
  "good_code a \<longleftrightarrow> (\<exists>b. as4 a = Some b \<and> is4 a \<and> b ! 0 = 127 \<and> \<not> (b ! 1 = 255 \<and> b ! 2 = 255))"

declare map_sum_Inl_iff [simp]

lemma return_codes_bad:
  "\<not> good_code a \<Longrightarrow> return_codes zone (a # as) = Inl Crash \<longleftrightarrow> as4 a = None"
  by (cases "as4 a") (auto simp: good_code_def)

lemma return_codes_good:
  assumes "good_code a"
  shows "return_codes zone (a # as) = (Inl Crash :: 'e email_error + string list) \<longleftrightarrow>
    return_codes zone as = (Inl Crash :: 'e email_error + string list)"
proof -
  obtain b where b: "as4 a = Some b" "is4 a" "b ! 0 = 127" and m: "(b ! 1 = 255 \<and> b ! 2 = 255) = False"
    using assms by (auto simp: good_code_def)
  show ?thesis by (simp only: return_codes.simps b m option.case if_False simp_thms map_sum_Inl_iff)
qed

lemma good_code_as4: "good_code a \<Longrightarrow> as4 a \<noteq> None"
  by (auto simp: good_code_def)

lemma return_codes_crash:
  "return_codes zone as = Inl Crash \<longleftrightarrow>
     (\<exists>before a after. as = before @ a # after \<and> as4 a = None \<and> list_all good_code before)"
proof (induction as)
  case (Cons a as)
  have split: "(\<exists>before x after. a # as = before @ x # after \<and> P x \<and> list_all good_code before) \<longleftrightarrow>
      P a \<or> good_code a \<and> (\<exists>before x after. as = before @ x # after \<and> P x \<and> list_all good_code before)" for P
  proof
    assume "\<exists>before x after. a # as = before @ x # after \<and> P x \<and> list_all good_code before"
    then obtain before x after where b: "a # as = before @ x # after" "P x" "list_all good_code before" by blast
    then show "P a \<or> good_code a \<and> (\<exists>before x after. as = before @ x # after \<and> P x \<and> list_all good_code before)"
      by (cases before) auto
  next
    assume "P a \<or> good_code a \<and> (\<exists>before x after. as = before @ x # after \<and> P x \<and> list_all good_code before)"
    then show "\<exists>before x after. a # as = before @ x # after \<and> P x \<and> list_all good_code before"
    proof
      assume "P a"
      then have "a # as = [] @ a # as \<and> P a \<and> list_all good_code []" by simp
      then show ?thesis by blast
    next
      assume "good_code a \<and> (\<exists>before x after. as = before @ x # after \<and> P x \<and> list_all good_code before)"
      then obtain before x after where
        "a # as = (a # before) @ x # after \<and> P x \<and> list_all good_code (a # before)" by auto
      then show ?thesis by blast
    qed
  qed
  show ?case
  proof (cases "good_code a")
    case True
    then show ?thesis
      unfolding split return_codes_good [OF True] Cons.IH using good_code_as4 [OF True] True by blast
  next
    case False
    then show ?thesis unfolding split return_codes_bad [OF False] by simp
  qed
qed simp

text \<open>
  C25 A blocklist, or whoever answers for it, can end the program: an answer to the query for an IPv4
  record that holds an IPv6 address, after good return codes only, makes \<open>As4\<close> panic in a goroutine
  before the test that was meant to reject such an address.
\<close>

theorem dnsblQuery_crash_iff:
  "dnsblQuery env zone b = Inl Crash \<longleftrightarrow>
     (\<exists>resp before a after. ee_lookup env (reverseV4 b @ ''.'' @ zone) TypeA = Inr resp \<and>
        resp_Addrs resp = before @ a # after \<and> as4 a = None \<and> list_all good_code before)"
  by (auto simp: dnsblQuery_def return_codes_crash split: sum.split)

text \<open>The crash of one query is the crash of the check.\<close>

lemma for_each_crash: "x \<in> set xs \<Longrightarrow> f x = Inl Crash \<Longrightarrow> for_each f xs = Inl Crash"
  by (force simp: for_each_def list_ex_iff)

lemma dnsbl_listed_crash:
  assumes "loadMX env (t_Name t) = Inr mx" "ReceivesMail mx" "mxAddrs env (mi_Hosts mx) = Inr addrs"
    and "zone \<in> set (dnsblZones t)" "dnsblQuery env zone [127, 0, 0, 2] = Inl Crash"
  shows "dnsbl_listed env t = Inl Crash"
proof -
  have "for_each (checkList env) (dnsblZones t) = Inl Crash"
    by (rule for_each_crash[OF assms(4)]) (simp add: checkList_def assms(5))
  then show ?thesis using assms by (simp add: dnsbl_listed_def with_mail_def with_mx_def Let_def)
qed

subsection \<open>Findings and the engine\<close>

text \<open>
  The worst finding of the SPF checks is lost when it is found twice: where two includes lead to the
  same record that ends in +all, the check reports the same subject twice and the engine rejects all
  its findings.
\<close>

lemma repeated_permissive_include_rejected:
  assumes "loadSPF env (t_Name t) = Inr info" and "si_Eval info = Some ev" and "\<not> distinct (ev_PermissiveIncludes ev)"
  shows "\<exists>fs e. with_spf env t spf_permissive_all = Inr fs \<and> fs \<noteq> [] \<and> normalize m t fs = Inl e"
proof -
  obtain rec where r: "si_Rec info = Some (Inr rec)"
    using assms(1,2) by (auto simp: loadSPF_def split: sum.splits if_splits prod.splits)
  have f: "spf_permissive_all info =
      all_findings (hd (si_Records info)) rec ev @ map permissive_finding (ev_PermissiveIncludes ev)"
    by (simp add: spf_permissive_all_def r assms(2))
  have s: "map f_Subject (map permissive_finding vs) = vs" for vs
    by (simp add: permissive_finding_def finding_with_def o_def)
  have "\<not> distinct (map f_Subject (spf_permissive_all info))" 
    using assms(3) unfolding f map_append s by simp
  moreover have "spf_permissive_all info \<noteq> []" using assms(3) by (auto simp: f)
  ultimately show ?thesis using normalize_rejects assms(1) by (auto simp: with_spf_def)
qed

text \<open>A domain whose record includes the same permissive record twice.\<close>

definition twice_included :: "string \<Rightarrow> nat \<Rightarrow> unit + response" where
  "twice_included name t = Inr \<lparr>rp_Name = name, rp_Type = t, rp_Rcode = 0, rp_Answer =
     (if t \<noteq> TypeTXT then []
      else if name = ''a.test'' then [\<lparr>rr_Name = name, rr_Rrtype = t, rr_Data = TXT_data [''v=spf1 include:b.test include:b.test -all'']\<rparr>]
      else [\<lparr>rr_Name = name, rr_Rrtype = t, rr_Data = TXT_data [''v=spf1 +all'']\<rparr>])\<rparr>"

lemma twice_included_spf:
  "(case loadSPF (demo_email twice_included) ''a.test'' of
      Inr info \<Rightarrow> (case si_Eval info of Some ev \<Rightarrow> ev_PermissiveIncludes ev = [''include:b.test'', ''include:b.test''] | None \<Rightarrow> False)
    | Inl _ \<Rightarrow> False)"
  by code_simp

lemma repeated_permissive_include_rejected_witness:
  "\<exists>fs e. with_spf (demo_email twice_included) (target_named ''a.test'') spf_permissive_all = Inr fs \<and> fs \<noteq> [] \<and>
     normalize (demo_meta ''email.spf.permissive_all'' []) (target_named ''a.test'') fs = Inl e"
proof -
  have *: "t_Name (target_named ''a.test'') = ''a.test''" by (simp add: target_named_def)
  obtain info ev where "loadSPF (demo_email twice_included) (t_Name (target_named ''a.test'')) = Inr info" "si_Eval info = Some ev"
      "\<not> distinct (ev_PermissiveIncludes ev)"
    using twice_included_spf unfolding * by (auto split: sum.splits option.splits)
  then show ?thesis by (rule repeated_permissive_include_rejected)
qed

end
