(* ===== verification/SetaDnssec.thy ===== *)
theory SetaDnssec
  imports SetaDnsx SetaEngine
begin

text \<open>
  Package checks/dns, dnssec.go: what a zone and its parent publish, and whether a validating
  resolver can build a chain of trust from it. The cryptography of miekg/dns (key tags, digests,
  the verification of a signature, its validity period) and its tables of names are the parameters of
  \<open>dns_crypto\<close>.
\<close>

record dnskey =
  ky_Flags :: nat
  ky_Protocol :: nat
  ky_Algorithm :: nat
  ky_PublicKey :: string

record ds =
  dl_KeyTag :: nat
  dl_Algorithm :: nat
  dl_DigestType :: nat
  dl_Digest :: string

record rrsig =
  sg_Algorithm :: nat
  sg_KeyTag :: nat
  sg_Signer :: string
  sg_Inception :: nat
  sg_Expiration :: nat
  sg_Labels :: nat
  sg_OrigTtl :: nat
  sg_Signature :: string

datatype sig_check = SigValid | SigUnsupported | SigWrong string

record dns_crypto =
  cy_KeyTag :: "dnskey \<Rightarrow> nat"
  cy_ToDS :: "dnskey \<Rightarrow> nat \<Rightarrow> string option"
  cy_Verify :: "rrsig \<Rightarrow> dnskey \<Rightarrow> rr list \<Rightarrow> sig_check"
  cy_ValidityPeriod :: "rrsig \<Rightarrow> int \<Rightarrow> bool"
  cy_TimeToString :: "nat \<Rightarrow> string"
  cy_AlgorithmToString :: "nat \<Rightarrow> string"
  cy_HashToString :: "nat \<Rightarrow> string"

record dnssec_state =
  st_apex :: bool
  st_ds :: "ds list"
  st_keys :: "(dnskey \<times> rr) list"
  st_keySigs :: "rrsig list"
  st_soaSigs :: "rrsig list"
  st_soa :: "rr list"

datatype 'e dnssec_error = DNSSECLookup 'e | NoDNSSECQueries | SignaturesStripped

subsection \<open>Loading\<close>

definition ds_of :: "rr \<Rightarrow> ds list" where
  "ds_of x = (case rr_Data x of
     DS_data tag alg typ dig \<Rightarrow> [\<lparr>dl_KeyTag = tag, dl_Algorithm = alg, dl_DigestType = typ, dl_Digest = dig\<rparr>] | _ \<Rightarrow> [])"

definition key_of :: "rr \<Rightarrow> (dnskey \<times> rr) list" where
  "key_of x = (case rr_Data x of
     DNSKEY_data flags proto alg key \<Rightarrow>
       [(\<lparr>ky_Flags = flags, ky_Protocol = proto, ky_Algorithm = alg, ky_PublicKey = key\<rparr>, x)] | _ \<Rightarrow> [])"

definition sig_of :: "rr \<Rightarrow> rrsig list" where
  "sig_of x = (case rr_Data x of
     RRSIG_data covered alg tag signer inception expiration labels ttl signature \<Rightarrow>
       [\<lparr>sg_Algorithm = alg, sg_KeyTag = tag, sg_Signer = signer, sg_Inception = inception,
          sg_Expiration = expiration, sg_Labels = labels, sg_OrigTtl = ttl, sg_Signature = signature\<rparr>]
     | _ \<Rightarrow> [])"

text \<open>\<open>secure\<close> is LookupDNSSEC, None for a resolver without it.\<close>

definition loadDNSSEC ::
  "(string \<Rightarrow> string) \<Rightarrow> (string \<Rightarrow> nat \<Rightarrow> 'e + response) option \<Rightarrow> string \<Rightarrow> 'e dnssec_error + dnssec_state" where
  "loadDNSSEC fqdn secure zone =
     (case secure of
        None \<Rightarrow> Inl NoDNSSECQueries
      | Some look \<Rightarrow>
        (case look zone TypeSOA of
           Inl e \<Rightarrow> Inl (DNSSECLookup e)
         | Inr soa \<Rightarrow>
           let st = \<lparr>st_apex = list_ex (\<lambda>x. equal_fold (rr_Name x) (CanonicalName fqdn zone)) (Records soa),
                 st_ds = [], st_keys = [], st_keySigs = [],
                 st_soaSigs = concat (map sig_of (RRSIGs soa)), st_soa = Records soa\<rparr>
           in if \<not> st_apex st then Inr st
              else
                (case look zone TypeDS of
                   Inl e \<Rightarrow> Inl (DNSSECLookup e)
                 | Inr ds \<Rightarrow>
                   (case look zone TypeDNSKEY of
                      Inl e \<Rightarrow> Inl (DNSSECLookup e)
                    | Inr keys \<Rightarrow>
                        Inr (st\<lparr>st_ds := concat (map ds_of (Records ds)),
                                st_keys := concat (map key_of (Records keys)),
                                st_keySigs := concat (map sig_of (RRSIGs keys))\<rparr>)))))"

subsection \<open>Verifying a set of records\<close>

definition key_matches :: "dns_crypto \<Rightarrow> rrsig \<Rightarrow> dnskey \<Rightarrow> bool" where
  "key_matches cy sig k \<longleftrightarrow> cy_KeyTag cy k = sg_KeyTag sig \<and> ky_Algorithm k = sg_Algorithm sig"

text \<open>
  The two nested loops of \<open>verifySet\<close> as one over the pairs: None when a signature is good, otherwise
  the problems, and whether no pair was decided.
\<close>

fun try_pairs ::
  "dns_crypto \<Rightarrow> int \<Rightarrow> rr list \<Rightarrow> string list \<Rightarrow> bool \<Rightarrow> (rrsig \<times> dnskey) list \<Rightarrow> (string list \<times> bool) option" where
  "try_pairs cy now rrset problems unsupported [] = Some (problems, unsupported)"
| "try_pairs cy now rrset problems unsupported ((sig, k) # ps) =
     (if \<not> key_matches cy sig k then try_pairs cy now rrset problems unsupported ps
      else case cy_Verify cy sig k rrset of
          SigUnsupported \<Rightarrow> try_pairs cy now rrset problems unsupported ps
        | SigWrong e \<Rightarrow>
            try_pairs cy now rrset
              (problems @ [''signature by key '' @ nat_digits (sg_KeyTag sig) @ '' doesn't verify: '' @ e]) False ps
        | SigValid \<Rightarrow>
            if cy_ValidityPeriod cy sig now then None
            else try_pairs cy now rrset
              (problems @ [''signature by key '' @ nat_digits (sg_KeyTag sig) @ '' is valid from '' @
                 cy_TimeToString cy (sg_Inception sig) @ '' to '' @ cy_TimeToString cy (sg_Expiration sig)]) False ps)"

definition sigTags :: "rrsig list \<Rightarrow> string" where
  "sigTags sigs = comma (map (\<lambda>s. nat_digits (sg_KeyTag s)) sigs)"

datatype set_verdict = Verified | Unsupported | Broken string

definition sig_pairs :: "rrsig list \<Rightarrow> dnskey list \<Rightarrow> (rrsig \<times> dnskey) list" where
  "sig_pairs sigs keys = concat (map (\<lambda>s. map (Pair s) keys) sigs)"

definition verifySet :: "dns_crypto \<Rightarrow> rrsig list \<Rightarrow> dnskey list \<Rightarrow> rr list \<Rightarrow> int \<Rightarrow> set_verdict" where
  "verifySet cy sigs keys rrset now =
     (if sigs = [] then Broken ''no signatures''
      else case try_pairs cy now rrset [] True (sig_pairs sigs keys) of
          None \<Rightarrow> Verified
        | Some (problems, unsupported) \<Rightarrow>
            if unsupported \<and> problems = [] then
              if list_ex (\<lambda>s. list_ex (\<lambda>k. cy_KeyTag cy k = sg_KeyTag s) keys) sigs then Unsupported
              else Broken (''no DNSKEY matches the signatures' key tags '' @ sigTags sigs)
            else Broken (join ''; '' problems))"

subsection \<open>Validation\<close>

definition ds_matches :: "dns_crypto \<Rightarrow> ds \<Rightarrow> dnskey \<Rightarrow> bool" where
  "ds_matches cy d k \<longleftrightarrow> cy_KeyTag cy k = dl_KeyTag d \<and> ky_Algorithm k = dl_Algorithm d"

definition anchors_of :: "dns_crypto \<Rightarrow> ds list \<Rightarrow> dnskey list \<Rightarrow> dnskey list" where
  "anchors_of cy dss keys = concat (map (\<lambda>d. filter (\<lambda>k. ds_matches cy d k \<and>
     (case cy_ToDS cy k (dl_DigestType d) of Some dig \<Rightarrow> equal_fold dig (dl_Digest d) | None \<Rightarrow> False)) keys) dss)"

definition unknown_digest :: "dns_crypto \<Rightarrow> ds list \<Rightarrow> dnskey list \<Rightarrow> bool" where
  "unknown_digest cy dss keys \<longleftrightarrow>
     list_ex (\<lambda>d. list_ex (\<lambda>k. ds_matches cy d k \<and> cy_ToDS cy k (dl_DigestType d) = None) keys) dss"

definition validate_soa :: "dns_crypto \<Rightarrow> int \<Rightarrow> dnssec_state \<Rightarrow> string option" where
  "validate_soa cy now st =
     (case verifySet cy (st_soaSigs st) (map fst (st_keys st)) (st_soa st) now of
        Broken e \<Rightarrow> Some (''SOA: '' @ e) | _ \<Rightarrow> None)"

definition validate_dnssec :: "dns_crypto \<Rightarrow> int \<Rightarrow> dnssec_state \<Rightarrow> 'e dnssec_error + string option" where
  "validate_dnssec cy now st =
     (let keys = map fst (st_keys st); anchors = anchors_of cy (st_ds st) keys in
      if keys = [] then Inr (Some ''the parent zone publishes DS records but the zone has no DNSKEY records'')
      else if st_keySigs st = [] \<and> st_soaSigs st = [] then Inl SignaturesStripped
      else if anchors = [] then
        Inr (if unknown_digest cy (st_ds st) keys then None
             else Some (''no DNSKEY matches the parent's DS records (key tags '' @
               comma (map (\<lambda>d. nat_digits (dl_KeyTag d)) (st_ds st)) @
               ''): a key rollover or DNS provider change left a stale DS''))
      else
        (case verifySet cy (st_keySigs st) anchors (map snd (st_keys st)) now of
           Unsupported \<Rightarrow> Inr None
         | Broken e \<Rightarrow> Inr (Some (''DNSKEY set: '' @ e))
         | Verified \<Rightarrow> Inr (validate_soa cy now st)))"

subsection \<open>The checks\<close>

definition dnssec_missing :: "dnssec_state \<Rightarrow> finding list" where
  "dnssec_missing st =
     (if \<not> st_apex st \<or> st_ds st \<noteq> [] then []
      else [finding_with [] [] (if st_keys st \<noteq> []
        then [''ds'' \<mapsto> ''none'', ''dnskey'' \<mapsto> nat_digits (length (st_keys st)) @
                '' keys published, but not delegated from the parent zone'']
        else [''ds'' \<mapsto> ''none''])])"

definition dnssec_invalid :: "dns_crypto \<Rightarrow> int \<Rightarrow> dnssec_state \<Rightarrow> 'e dnssec_error + finding list" where
  "dnssec_invalid cy now st =
     (if \<not> st_apex st \<or> st_ds st = [] then Inr []
      else map_sum id (\<lambda>p. case p of None \<Rightarrow> [] | Some problem \<Rightarrow> [finding_with [] [] [''problem'' \<mapsto> problem]])
        (validate_dnssec cy now st))"

text \<open>The numbers of the algorithms and digests RFC 8624 deprecates.\<close>

definition weakAlgorithms :: "nat list" where "weakAlgorithms = [1, 3, 5, 6, 7, 12]"

definition weakDigests :: "nat list" where "weakDigests = [1, 3]"

definition weak_parts :: "dns_crypto \<Rightarrow> dnssec_state \<Rightarrow> string list" where
  "weak_parts cy st =
     map (\<lambda>k. ''DNSKEY '' @ nat_digits (cy_KeyTag cy k) @ '': '' @ cy_AlgorithmToString cy (ky_Algorithm k))
       (filter (\<lambda>k. ky_Algorithm k \<in> set weakAlgorithms) (map fst (st_keys st))) @
     map (\<lambda>d. ''DS '' @ nat_digits (dl_KeyTag d) @ '': '' @ cy_HashToString cy (dl_DigestType d) @ '' digest'')
       (filter (\<lambda>d. dl_DigestType d \<in> set weakDigests) (st_ds st))"

definition dnssec_weak :: "dns_crypto \<Rightarrow> dnssec_state \<Rightarrow> finding list" where
  "dnssec_weak cy st =
     (if \<not> st_apex st \<or> st_ds st = [] \<or> weak_parts cy st = [] then []
      else [finding_with [] [] [''weak'' \<mapsto> join ''; '' (sorted_unique (weak_parts cy st))]])"

subsection \<open>What the verdicts mean\<close>

text \<open>What a validating resolver needs: a good signature of the keys by a key the parent vouches for, and one of the SOA record by any key.\<close>

definition good_pair :: "dns_crypto \<Rightarrow> int \<Rightarrow> rr list \<Rightarrow> rrsig \<Rightarrow> dnskey \<Rightarrow> bool" where
  "good_pair cy now rrset sig k \<longleftrightarrow>
     key_matches cy sig k \<and> cy_Verify cy sig k rrset = SigValid \<and> cy_ValidityPeriod cy sig now"

definition signed_by :: "dns_crypto \<Rightarrow> int \<Rightarrow> rr list \<Rightarrow> rrsig list \<Rightarrow> dnskey list \<Rightarrow> bool" where
  "signed_by cy now rrset sigs keys \<longleftrightarrow> (\<exists>sig \<in> set sigs. \<exists>k \<in> set keys. good_pair cy now rrset sig k)"

definition chain_of_trust :: "dns_crypto \<Rightarrow> int \<Rightarrow> dnssec_state \<Rightarrow> bool" where
  "chain_of_trust cy now st \<longleftrightarrow>
     signed_by cy now (map snd (st_keys st)) (st_keySigs st) (anchors_of cy (st_ds st) (map fst (st_keys st))) \<and>
     signed_by cy now (st_soa st) (st_soaSigs st) (map fst (st_keys st))"

text \<open>No signature could be decided, but a key has the tag of one of them.\<close>

definition undecided :: "dns_crypto \<Rightarrow> rr list \<Rightarrow> rrsig list \<Rightarrow> dnskey list \<Rightarrow> bool" where
  "undecided cy rrset sigs keys \<longleftrightarrow>
     (\<exists>sig \<in> set sigs. \<exists>k \<in> set keys. cy_KeyTag cy k = sg_KeyTag sig) \<and>
     (\<forall>sig \<in> set sigs. \<forall>k \<in> set keys. key_matches cy sig k \<longrightarrow> cy_Verify cy sig k rrset = SigUnsupported)"

lemma set_sig_pairs: "(s, k) \<in> set (sig_pairs sigs keys) \<longleftrightarrow> s \<in> set sigs \<and> k \<in> set keys"
  by (auto simp: sig_pairs_def)

lemma try_pairs_None:
  "try_pairs cy now rrset problems unsupported ps = None \<longleftrightarrow> (\<exists>(s, k) \<in> set ps. good_pair cy now rrset s k)"
  by (induction cy now rrset problems unsupported ps rule: try_pairs.induct)
    (auto simp: good_pair_def split: sig_check.splits)

lemma try_pairs_Some:
  assumes "try_pairs cy now rrset problems unsupported ps = Some (problems', unsupported')"
  shows "unsupported' \<and> problems' = [] \<longleftrightarrow> unsupported \<and> problems = [] \<and>
    (\<forall>(s, k) \<in> set ps. key_matches cy s k \<longrightarrow> cy_Verify cy s k rrset = SigUnsupported)"
  using assms
  by (induction cy now rrset problems unsupported ps rule: try_pairs.induct)
    (auto split: sig_check.splits if_splits)

lemma verifySet_verdict:
  "(case verifySet cy sigs keys rrset now of
      Verified \<Rightarrow> signed_by cy now rrset sigs keys
    | Unsupported \<Rightarrow> undecided cy rrset sigs keys
    | Broken _ \<Rightarrow> \<not> signed_by cy now rrset sigs keys \<and> \<not> undecided cy rrset sigs keys)"
proof (cases "try_pairs cy now rrset [] True (sig_pairs sigs keys)")
  case None
  then have "signed_by cy now rrset sigs keys"
    unfolding try_pairs_None signed_by_def using set_sig_pairs by blast
  moreover from this have "sigs \<noteq> []" by (auto simp: signed_by_def)
  ultimately show ?thesis using None by (simp add: verifySet_def)
next
  case (Some r)
  then obtain problems unsupported where r: "try_pairs cy now rrset [] True (sig_pairs sigs keys) = Some (problems, unsupported)"
    by (cases r) auto
  have "\<not> (\<exists>(s, k) \<in> set (sig_pairs sigs keys). good_pair cy now rrset s k)"
    using r try_pairs_None by (metis option.distinct(1))
  then have "\<not> signed_by cy now rrset sigs keys" by (auto simp: signed_by_def set_sig_pairs)
  moreover have "undecided cy rrset sigs keys \<longleftrightarrow>
      list_ex (\<lambda>s. list_ex (\<lambda>k. cy_KeyTag cy k = sg_KeyTag s) keys) sigs \<and> unsupported \<and> problems = []"
    using try_pairs_Some [OF r] by (auto simp: undecided_def list_ex_iff set_sig_pairs)
  ultimately show ?thesis using r by (auto simp: verifySet_def list_ex_iff)
qed

text \<open>
  C26 The critical finding about DNSSEC is never wrong: a problem is reported only when no chain of
  trust from the parent's DS records to the zone's SOA record exists. When nothing is
  reported, there is such a chain, or the outcome rests on a digest or an algorithm that cannot be
  checked; and signatures count as stripped only when the zone has keys but no signature at all.
\<close>

theorem validate_dnssec_verdict:
  "case (validate_dnssec cy now st :: 'e dnssec_error + string option) of
     Inl e \<Rightarrow> e = SignaturesStripped \<and> st_keys st \<noteq> [] \<and> st_keySigs st = [] \<and> st_soaSigs st = []
   | Inr (Some p) \<Rightarrow> p \<noteq> [] \<and> \<not> chain_of_trust cy now st
   | Inr None \<Rightarrow> chain_of_trust cy now st \<or> unknown_digest cy (st_ds st) (map fst (st_keys st)) \<or>
       undecided cy (map snd (st_keys st)) (st_keySigs st) (anchors_of cy (st_ds st) (map fst (st_keys st))) \<or>
       undecided cy (st_soa st) (st_soaSigs st) (map fst (st_keys st))"
proof -
  let ?keys = "map fst (st_keys st)"
  let ?anchors = "anchors_of cy (st_ds st) ?keys"
  have no_keys: "?anchors = []" if "?keys = []" using that by (simp add: anchors_of_def)
  have no_anchor: "\<not> chain_of_trust cy now st" if "?anchors = []"
    using that by (simp add: chain_of_trust_def signed_by_def)
  note k = verifySet_verdict [where cy = cy and sigs = "st_keySigs st" and keys = ?anchors and rrset = "map snd (st_keys st)" and now = now]
  note s = verifySet_verdict [where cy = cy and sigs = "st_soaSigs st" and keys = ?keys and rrset = "st_soa st" and now = now]
  show ?thesis
  proof (cases "?keys = [] \<or> st_keySigs st = [] \<and> st_soaSigs st = [] \<or> ?anchors = []")
    case True
    then show ?thesis using no_keys no_anchor by (auto simp: validate_dnssec_def Let_def)
  next
    case False
    then have *: "(validate_dnssec cy now st :: 'e dnssec_error + string option) =
        (case verifySet cy (st_keySigs st) ?anchors (map snd (st_keys st)) now of
           Unsupported \<Rightarrow> Inr None
         | Broken e \<Rightarrow> Inr (Some (''DNSKEY set: '' @ e))
         | Verified \<Rightarrow> Inr (validate_soa cy now st))"
      by (auto simp: validate_dnssec_def Let_def)
    show ?thesis unfolding * using k s
      by (auto simp: validate_soa_def chain_of_trust_def split: set_verdict.splits)
  qed
qed

end
