(* ===== verification/SetaDnsChecks.thy ===== *)
theory SetaDnsChecks
  imports SetaDnssec
begin

text \<open>
  Package checks/dns, dns.go, caa.go and nameserver.go. The public suffix list, the TCP and UDP
  conversations with a nameserver and IDNA are parameters. A record of a type holds the data of that
  type, as miekg/dns builds it.
\<close>

subsection \<open>Zones\<close>

definition isApex :: "(string \<Rightarrow> string) \<Rightarrow> (string \<Rightarrow> nat \<Rightarrow> 'e + response) \<Rightarrow> string \<Rightarrow> 'e + bool" where
  "isApex fqdn lookup name =
     map_sum id (\<lambda>resp. list_ex (\<lambda>x. equal_fold (rr_Name x) (CanonicalName fqdn name)) (Records resp))
       (lookup name TypeSOA)"

definition ns_names :: "response \<Rightarrow> string list" where
  "ns_names resp = concat (map (\<lambda>x. case rr_Data x of NS_data n \<Rightarrow> [trim_suffix (to_lower n) ''.''] | _ \<Rightarrow> []) (Records resp))"

definition nameservers :: "(string \<Rightarrow> nat \<Rightarrow> 'e + response) \<Rightarrow> string \<Rightarrow> 'e + string list" where
  "nameservers lookup zone = map_sum id (\<lambda>resp. sorted_unique (ns_names resp)) (lookup zone TypeNS)"

subsection \<open>CAA\<close>

type_synonym caa = "nat \<times> string \<times> string"

definition caa_of :: "rr \<Rightarrow> caa list" where
  "caa_of x = (case rr_Data x of CAA_data flag tag val \<Rightarrow> [(flag, tag, val)] | _ \<Rightarrow> [])"

lemma cut_rest_shorter: "n \<noteq> [] \<Longrightarrow> length (fst (snd (cut c n))) < length n"
proof (induction c n rule: cut.induct)
  case (2 sep c cs)
  then show ?case by (cases "cs = []") (auto simp: case_prod_unfold less_SucI)
qed simp

lemma cut_rest_suffix: "\<exists>p. n = p @ fst (snd (cut c n))"
proof (induction n)
  case (Cons d n)
  then obtain p where p: "n = p @ fst (snd (cut c n))" by blast
  show ?case
  proof (cases "d = c")
    case True
    then have "d # n = [d] @ fst (snd (cut c (d # n)))" by simp
    then show ?thesis by blast
  next
    case False
    then have "fst (snd (cut c (d # n))) = fst (snd (cut c n))" by (simp add: case_prod_unfold)
    then have "d # n = (d # p) @ fst (snd (cut c (d # n)))" using p by simp
    then show ?thesis by blast
  qed
qed simp

text \<open>The loop of \<open>relevantCAA\<close> from the name \<open>n\<close> up; the result is the owner and its records.\<close>

function climb_caa ::
  "(string \<Rightarrow> nat \<Rightarrow> 'e + response) \<Rightarrow> string \<Rightarrow> string \<Rightarrow> 'e + string \<times> caa list" where
  "climb_caa lookup suffix n =
     (if n = suffix \<or> n = [] then Inr ([], [])
      else case lookup n TypeCAA of
          Inl e \<Rightarrow> Inl e
        | Inr resp \<Rightarrow>
            let recs = concat (map caa_of (Records resp)) in
            if recs \<noteq> [] then Inr (n, recs) else climb_caa lookup suffix (fst (snd (cut CHR ''.'' n))))"
  by pat_completeness auto

termination
  by (relation "measure (\<lambda>(_, _, n). length n)") (auto simp: cut_rest_shorter)

definition relevantCAA ::
  "(string \<Rightarrow> string) \<Rightarrow> (string \<Rightarrow> nat \<Rightarrow> 'e + response) \<Rightarrow> string \<Rightarrow> 'e + string \<times> caa list" where
  "relevantCAA public_suffix lookup name = climb_caa lookup (public_suffix name) name"

definition knownCAATags :: "string list" where
  "knownCAATags = [''issue'', ''issuewild'', ''iodef'', ''issuemail'', ''contactemail'', ''contactphone'']"

definition is_ca_name :: "(string \<Rightarrow> string option) \<Rightarrow> string \<Rightarrow> bool" where
  "is_ca_name idna issuer \<longleftrightarrow> \<not> is_err (ParseDomain idna issuer) \<and>
     CHR '' '' \<notin> set issuer \<and> CHR 0x09 \<notin> set issuer"

definition caaProblem :: "(string \<Rightarrow> string option) \<Rightarrow> caa \<Rightarrow> string" where
  "caaProblem idna r = (case r of (flag, tag0, val) \<Rightarrow>
     let tag = to_lower tag0 in
     if tag \<notin> set knownCAATags then
       (if bit flag 7 then ''unknown tag '' @ go_quote tag0 @ '' is marked critical, so every CA must refuse to issue'' else [])
     else if tag \<noteq> ''issue'' \<and> tag \<noteq> ''issuewild'' then []
     else
       let issuer = trim_space (fst (cut CHR '';'' val)) in
       if issuer = [] then []
       else if \<not> is_ca_name idna issuer
         then tag @ '' value '' @ go_quote val @ '' is not a CA domain name, so no CA matches it''
       else [])"

definition caa_missing :: "string \<times> caa list \<Rightarrow> finding list" where
  "caa_missing x = (if snd x \<noteq> [] then [] else [finding_with [] [] [''caa'' \<mapsto> ''none'']])"

definition caa_subject :: "caa \<Rightarrow> string" where
  "caa_subject r = (case r of (flag, tag, val) \<Rightarrow> nat_digits flag @ '' '' @ tag @ '' '' @ go_quote val)"

definition caa_invalid :: "(string \<Rightarrow> string option) \<Rightarrow> string \<times> caa list \<Rightarrow> finding list" where
  "caa_invalid idna x =
     concat (map (\<lambda>r. if caaProblem idna r \<noteq> []
         then [finding_with (caa_subject r) [] [''owner'' \<mapsto> fst x, ''problem'' \<mapsto> caaProblem idna r]] else []) (snd x))"

subsection \<open>Nameservers\<close>

datatype ('e, 'n) ns_error = NSLookup 'e | NSJoined "'n list"

definition collect_ns :: "('n + finding option) list \<Rightarrow> ('e, 'n) ns_error + finding list" where
  "collect_ns rs =
     (let errs = concat (map (\<lambda>r. case r of Inl e \<Rightarrow> [e] | Inr _ \<Rightarrow> []) rs) in
      if errs \<noteq> [] then Inl (NSJoined errs)
      else Inr (concat (map (\<lambda>r. case r of Inr (Some f) \<Rightarrow> [f] | _ \<Rightarrow> []) rs)))"

definition eachNameserver ::
  "(string \<Rightarrow> string) \<Rightarrow> (string \<Rightarrow> nat \<Rightarrow> 'e + response) \<Rightarrow> target \<Rightarrow> (string \<Rightarrow> 'n + finding option) \<Rightarrow>
   ('e, 'n) ns_error + finding list" where
  "eachNameserver fqdn lookup t fn =
     (case isApex fqdn lookup (t_Name t) of
        Inl e \<Rightarrow> Inl (NSLookup e)
      | Inr apex \<Rightarrow>
          if \<not> apex then Inr []
          else case nameservers lookup (t_Name t) of
              Inl e \<Rightarrow> Inl (NSLookup e)
            | Inr nss \<Rightarrow> collect_ns (map fn nss))"

text \<open>
  The first message of a zone transfer: None when the channel closed without one, otherwise whether it is an
  error and how many records it holds. \<open>axfr\<close> is the connection and the request.
\<close>

definition axfr_finding :: "(string \<Rightarrow> 'n + (bool \<times> nat) option) \<Rightarrow> string \<Rightarrow> 'n + finding option" where
  "axfr_finding axfr ns =
     map_sum id (\<lambda>first. case first of
         None \<Rightarrow> None
       | Some (failed, n) \<Rightarrow>
           if failed \<or> n = 0 then None
           else Some (finding_with ns [] [''records_in_first_message'' \<mapsto> nat_digits n])) (axfr ns)"

record ns_reply =
  nr_RecursionAvailable :: bool
  nr_Rcode :: nat
  nr_Authoritative :: bool
  nr_Answers :: nat

definition open_resolver_finding :: "(string \<Rightarrow> 'n + ns_reply) \<Rightarrow> string \<Rightarrow> 'n + finding option" where
  "open_resolver_finding ask ns =
     map_sum id (\<lambda>r.
         if \<not> nr_RecursionAvailable r \<or> nr_Rcode r \<noteq> RcodeSuccess \<or> nr_Authoritative r \<or> nr_Answers r = 0 then None
         else Some (finding_with ns [] [''query'' \<mapsto> ''. NS (recursion desired)'', ''answers'' \<mapsto> nat_digits (nr_Answers r)]))
       (ask ns)"

subsection \<open>Facts\<close>

lemma climb_caa_owner:
  assumes "climb_caa lookup suffix n = Inr (owner, recs)" "recs \<noteq> []"
  shows "(\<exists>p. n = p @ owner) \<and> owner \<noteq> suffix \<and> (\<exists>resp. lookup owner TypeCAA = Inr resp \<and> recs = concat (map caa_of (Records resp)))"
  using assms
proof (induction lookup suffix n rule: climb_caa.induct)
  case (1 lookup suffix n)
  show ?case
  proof (cases "n = suffix \<or> n = []")
    case True
    then show ?thesis using "1.prems" by simp
  next
    case False
    obtain resp where r: "lookup n TypeCAA = Inr resp"
      using "1.prems"(1) False by (subst (asm) climb_caa.simps) (auto split: sum.splits)
    show ?thesis
    proof (cases "concat (map caa_of (Records resp)) = []")
      case True
      then have "climb_caa lookup suffix (fst (snd (cut CHR ''.'' n))) = Inr (owner, recs)"
        using "1.prems"(1) False r by (subst (asm) climb_caa.simps) (simp del: concat_eq_Nil_conv climb_caa.simps)
      then have "(\<exists>p. fst (snd (cut CHR ''.'' n)) = p @ owner) \<and> owner \<noteq> suffix \<and>
          (\<exists>resp. lookup owner TypeCAA = Inr resp \<and> recs = concat (map caa_of (Records resp)))"
        using "1.IH" [OF False r refl] True "1.prems"(2) by simp
      then show ?thesis using cut_rest_suffix [of n "CHR ''.''"] by (metis append_assoc)
    next
      case ne: False
      then have "owner = n" "recs = concat (map caa_of (Records resp))"
        using "1.prems"(1) False r by (subst (asm) climb_caa.simps, simp del: concat_eq_Nil_conv climb_caa.simps)+
      then show ?thesis using False r by auto
    qed
  qed
qed

end
