(* ===== verification/SetaWeb.thy ===== *)
theory SetaWeb
  imports SetaNetx SetaEngine
begin

text \<open>
  Package checks/internal/web: the hosts and pages of a target, connecting to them, and fetching a
  page with its redirects. Parameters of \<open>web_env\<close>: net/url (\<open>we_parse\<close>, and \<open>we_resolve\<close> for a
  reference against a base), IDNA, the resolver, a connection to an address (netx.Dial), a TLS
  handshake on it, an HTTP exchange on it, X.509 verification, and whether the check's context has
  ended once one of them failed. The memo shares results by the keys given here: web_TLS and
  web_Get are what a computation gives, TLS_all and TLS_checks run handshakes through the memo. Each request
  dials; that a kept-alive connection saves the dialling is left out.
\<close>

subsection \<open>The outside\<close>

record page_url =
  pu_Scheme :: string
  pu_Host :: string
  pu_Hostname :: string
  pu_Port :: string
  pu_Path :: string
  pu_String :: string

datatype 'e dial_fault = NoAddress | Refused | DialDNS 'e | DialOther string

record tls_config =
  tc_MinVersion :: nat
  tc_MaxVersion :: "nat option"
  tc_CipherSuites :: "nat list option"

record tls_state =
  ts_Version :: nat
  ts_CipherSuite :: nat
  ts_PeerCertificates :: "cert list"

record raw_response =
  rw_Status :: nat
  rw_Header :: "string \<Rightarrow> string"
  rw_Body :: string
  rw_TLS :: bool

record 'e web_env =
  we_lookup :: "string \<Rightarrow> nat \<Rightarrow> 'e + response"
  we_idna :: "string \<Rightarrow> string option"
  we_parse :: "string \<Rightarrow> page_url option"
  we_resolve :: "string \<Rightarrow> string \<Rightarrow> page_url option"
  we_dial :: "string \<Rightarrow> 'e dial_fault option"
  we_handshake :: "host \<Rightarrow> tls_config \<Rightarrow> string + tls_state"
  we_exchange :: "string \<Rightarrow> string + raw_response"
  we_verify :: "cert list \<Rightarrow> string option"
  we_ended :: bool
  we_now :: int

datatype 'e web_error =
    Absent
  | WildcardLookup 'e
  | NoRecords string
  | ContextEnded
  | DialLookupError 'e
  | ConnectError string "'e dial_fault"
  | HandshakeError host string
  | BadPageURL string
  | GetError string "'e web_error"
  | ExchangeError string
  | TooManyRedirects string

subsection \<open>Hosts and pages\<close>

text \<open>The loop over the URLs with the hosts seen so far.\<close>

fun add_url_hosts :: "'e web_env \<Rightarrow> host list \<Rightarrow> string list \<Rightarrow> host list" where
  "add_url_hosts env hosts [] = hosts"
| "add_url_hosts env hosts (raw # raws) =
     add_url_hosts env
       (case we_parse env raw of
          None \<Rightarrow> hosts
        | Some u \<Rightarrow>
            if pu_Scheme u \<noteq> ''https'' then hosts
            else case ParseHost (we_idna env) (pu_Host u) of
                Inl _ \<Rightarrow> hosts
              | Inr h \<Rightarrow> if host_String h \<in> host_String ` set hosts then hosts else hosts @ [h]) raws"

definition TLSHosts :: "'e web_env \<Rightarrow> target \<Rightarrow> host list" where
  "TLSHosts env t = add_url_hosts env (WebHosts t) (t_URLs t)"

type_synonym page_ref = "string \<times> host"

definition zero_host :: host where "zero_host = \<lparr>h_Name = [], h_Port = 0, h_Explicit = False\<rparr>"

text \<open>None is the nil dereference for a URL that does not parse; loading a configuration rejects those.\<close>

definition url_page :: "'e web_env \<Rightarrow> string \<Rightarrow> page_ref option" where
  "url_page env raw =
     map_option (\<lambda>u.
       let h = (case ParseHost (we_idna env) (pu_Host u) of Inl _ \<Rightarrow> zero_host | Inr h \<Rightarrow> h)
       in (raw, if pu_Scheme u = ''http'' \<and> pu_Port u = [] then h\<lparr>h_Port := 80\<rparr> else h)) (we_parse env raw)"

definition Pages :: "'e web_env \<Rightarrow> target \<Rightarrow> page_ref option list" where
  "Pages env t =
     (if t_URLs t = [] then map (\<lambda>h. Some (''https://'' @ host_String h @ ''/'', h)) (WebHosts t)
      else map (url_page env) (t_URLs t))"

subsection \<open>Connecting\<close>

definition wildcardProbe :: string where "wildcardProbe = ''seta-wildcard-probe-q7x2''"

definition wildcardArtifact :: "'e web_env \<Rightarrow> string \<Rightarrow> 'e web_error + bool" where
  "wildcardArtifact env name =
     (case cut_prefix name ''www.'' of
        None \<Rightarrow> Inr False
      | Some parent \<Rightarrow>
        (case LookupAddrs (we_lookup env) (wildcardProbe @ ''.'' @ parent) of
           Inl (ErrNoAddress _) \<Rightarrow> Inr False
         | Inl (AddrLookup e) \<Rightarrow> Inl (WildcardLookup e)
         | Inr probe \<Rightarrow>
           (case LookupAddrs (we_lookup env) name of
              Inl _ \<Rightarrow> Inr False
            | Inr addrs \<Rightarrow> Inr (sort_func addr_compare probe = sort_func addr_compare addrs))))"

definition connect :: "'e web_env \<Rightarrow> host \<Rightarrow> int \<Rightarrow> 'e web_error option" where
  "connect env h port =
     (let addr = join_host_port (h_Name h) (itoa port) in
      case we_dial env addr of
        None \<Rightarrow> None
      | Some f \<Rightarrow> Some (
          if \<not> h_Explicit h \<and> (f = NoAddress \<or> f = Refused) then Absent
          else if f = NoAddress then NoRecords (h_Name h)
          else if we_ended env then ContextEnded
          else case f of DialDNS e \<Rightarrow> DialLookupError e | _ \<Rightarrow> ConnectError addr f))"

definition web_Dial :: "'e web_env \<Rightarrow> host \<Rightarrow> int \<Rightarrow> 'e web_error option" where
  "web_Dial env h port =
     (if h_Explicit h then connect env h port
      else case wildcardArtifact env (h_Name h) of
          Inl e \<Rightarrow> Some e
        | Inr wild \<Rightarrow> if wild then Some Absent else connect env h port)"

definition Connect :: "'e web_env \<Rightarrow> host \<Rightarrow> tls_config \<Rightarrow> 'e web_error + tls_state" where
  "Connect env h cfg =
     (case web_Dial env h (h_Port h) of
        Some e \<Rightarrow> Inl e
      | None \<Rightarrow>
        (case we_handshake env h cfg of
           Inl e \<Rightarrow> Inl (if we_ended env then ContextEnded else HandshakeError h e)
         | Inr st \<Rightarrow> Inr st))"

definition VersionTLS10 :: nat where "VersionTLS10 = 0x301"

definition VersionTLS11 :: nat where "VersionTLS11 = 0x302"

definition VersionTLS12 :: nat where "VersionTLS12 = 0x303"

record handshake =
  hs_Host :: host
  hs_Version :: nat
  hs_Cipher :: nat
  hs_Chain :: "cert list"

definition web_TLS :: "'e web_env \<Rightarrow> host \<Rightarrow> 'e web_error + handshake" where
  "web_TLS env h =
     map_sum id (\<lambda>st. \<lparr>hs_Host = h, hs_Version = ts_Version st, hs_Cipher = ts_CipherSuite st,
         hs_Chain = ts_PeerCertificates st\<rparr>)
       (Connect env h \<lparr>tc_MinVersion = VersionTLS10, tc_MaxVersion = None, tc_CipherSuites = None\<rparr>)"

definition web_Verify :: "'e web_env \<Rightarrow> cert list \<Rightarrow> string option" where
  "web_Verify env chain = (if chain = [] then Some ''server sent no certificate'' else we_verify env chain)"

text \<open>\<open>Each\<close>: the results in order, without the absent items; any other error ends it.\<close>

fun web_Each :: "('i \<Rightarrow> 'e web_error + 'a) \<Rightarrow> 'i list \<Rightarrow> 'e web_error + 'a list" where
  "web_Each fn [] = Inr []"
| "web_Each fn (i # is) =
     (case fn i of
        Inr r \<Rightarrow> map_sum id (\<lambda>rs. r # rs) (web_Each fn is)
      | Inl Absent \<Rightarrow> web_Each fn is
      | Inl e \<Rightarrow> Inl e)"

subsection \<open>Fetching\<close>

record web_response =
  ws_URL :: string
  ws_Redirects :: "string list"
  ws_Status :: nat
  ws_Header :: "string \<Rightarrow> string"
  ws_Body :: string
  ws_TLS :: bool

definition maxRedirects :: nat where "maxRedirects = 10"

definition maxBody :: nat where "maxBody = 262144"

definition Location :: "'e web_env \<Rightarrow> web_response \<Rightarrow> page_url option" where
  "Location env r =
     (let loc = ws_Header r ''Location'' in
      if ws_Status r < 300 \<or> 399 < ws_Status r \<or> loc = [] then None
      else case we_resolve env (ws_URL r) loc of
          None \<Rightarrow> None
        | Some next \<Rightarrow> if pu_Scheme next \<noteq> ''http'' \<and> pu_Scheme next \<noteq> ''https'' then None else Some next)"

text \<open>The host a request connects to: the one it was made for, or an explicit one of another name.\<close>

definition hostFromContext :: "host \<Rightarrow> string \<Rightarrow> host" where
  "hostFromContext h name =
     (if h_Name h = name then h else \<lparr>h_Name = name, h_Port = 0, h_Explicit = True\<rparr>)"

definition url_port :: "page_url \<Rightarrow> int" where
  "url_port u =
     (case atoi (pu_Port u) of Some n \<Rightarrow> n
      | None \<Rightarrow> if pu_Scheme u = ''https'' then 443 else if pu_Port u = [] then 80 else 0)"

definition http_get :: "'e web_env \<Rightarrow> host \<Rightarrow> string \<Rightarrow> 'e web_error + raw_response" where
  "http_get env h raw =
     (case we_parse env raw of
        None \<Rightarrow> Inl (BadPageURL raw)
      | Some u \<Rightarrow>
        (case web_Dial env (hostFromContext h (pu_Hostname u)) (url_port u) of
           Some Absent \<Rightarrow> Inl Absent
         | Some e \<Rightarrow> Inl (GetError raw e)
         | None \<Rightarrow>
           (case we_exchange env raw of
              Inl e \<Rightarrow> Inl (GetError raw (ExchangeError e))
            | Inr r \<Rightarrow> Inr (r\<lparr>rw_Body := take maxBody (rw_Body r)\<rparr>))))"

definition response_of :: "string \<Rightarrow> string list \<Rightarrow> raw_response \<Rightarrow> web_response" where
  "response_of url redirects r =
     \<lparr>ws_URL = url, ws_Redirects = redirects, ws_Status = rw_Status r, ws_Header = rw_Header r,
      ws_Body = rw_Body r, ws_TLS = rw_TLS r\<rparr>"

text \<open>The loop of \<open>Get\<close>; the number says how many redirects are left of \<open>maxRedirects\<close>.\<close>

fun get_loop ::
  "'e web_env \<Rightarrow> (page_url \<Rightarrow> bool) \<Rightarrow> string \<Rightarrow> nat \<Rightarrow> host \<Rightarrow> string \<Rightarrow> string list \<Rightarrow> 'e web_error + web_response" where
  "get_loop env follow raw left h url redirects =
     (case http_get env h url of
        Inl e \<Rightarrow> Inl e
      | Inr r \<Rightarrow>
        let resp = response_of url redirects r in
        case Location env resp of
          None \<Rightarrow> Inr resp
        | Some next \<Rightarrow>
            if \<not> follow next then Inr resp
            else case left of
                0 \<Rightarrow> Inl (TooManyRedirects raw)
              | Suc n \<Rightarrow>
                  get_loop env follow raw n \<lparr>h_Name = pu_Hostname next, h_Port = 0, h_Explicit = True\<rparr>
                    (pu_String next) (redirects @ [url]))"

declare get_loop.simps [simp del]

text \<open>\<open>follow\<close> is None for Go's nil, which follows nothing.\<close>

definition web_Get ::
  "'e web_env \<Rightarrow> host \<Rightarrow> string \<Rightarrow> (page_url \<Rightarrow> bool) option \<Rightarrow> 'e web_error + web_response" where
  "web_Get env h raw follow =
     get_loop env (case follow of None \<Rightarrow> (\<lambda>_. False) | Some f \<Rightarrow> f) raw maxRedirects h raw []"

text \<open>The key under which the memo of a run keeps the result of \<open>Get\<close>.\<close>

definition get_key :: "string \<Rightarrow> string \<Rightarrow> string" where
  "get_key raw name = ''web.get:'' @ raw @ '':'' @ name"

definition tls_key :: "host \<Rightarrow> string" where
  "tls_key h = ''web.tls:'' @ host_String h"

text \<open>\<open>errors.AsType\<close> for a \<open>ConnectError\<close>, through the errors that wrap it.\<close>

fun is_connect_error :: "'e web_error \<Rightarrow> bool" where
  "is_connect_error (ConnectError _ _) = True"
| "is_connect_error (GetError _ e) = is_connect_error e"
| "is_connect_error _ = False"

fun is_handshake_error :: "'e web_error \<Rightarrow> bool" where
  "is_handshake_error (HandshakeError _ _) = True"
| "is_handshake_error (GetError _ e) = is_handshake_error e"
| "is_handshake_error _ = False"

subsection \<open>Absent hosts\<close>

lemma connect_absent: "connect env h port = Some Absent \<Longrightarrow> \<not> h_Explicit h"
  by (auto simp: connect_def Let_def split: option.splits if_splits dial_fault.splits)

lemma wildcardArtifact_error: "wildcardArtifact env name = Inl e \<Longrightarrow> e \<noteq> Absent"
  by (auto simp: wildcardArtifact_def split: option.splits sum.splits addr_error.splits)

lemma Dial_absent: "web_Dial env h port = Some Absent \<Longrightarrow> \<not> h_Explicit h"
  using connect_absent by (auto simp: web_Dial_def split: if_splits)

lemma Connect_absent: "Connect env h cfg = Inl Absent \<Longrightarrow> \<not> h_Explicit h"
  using Dial_absent by (auto simp: Connect_def split: option.splits sum.splits if_splits)

lemma TLS_absent: "web_TLS env h = Inl Absent \<Longrightarrow> \<not> h_Explicit h"
  using Connect_absent by (auto simp: web_TLS_def map_sum_Inl_iff)

lemma http_get_absent: "http_get env h url = Inl Absent \<Longrightarrow> \<not> h_Explicit h"
  by (auto simp: http_get_def hostFromContext_def split: option.splits sum.splits web_error.splits if_splits
      dest: Dial_absent)

lemma get_loop_absent: "get_loop env follow raw left h url redirects = Inl Absent \<Longrightarrow> \<not> h_Explicit h"
proof (induction left arbitrary: h url redirects)
  case 0
  then show ?case
    by (subst (asm) get_loop.simps)
      (auto simp: Let_def split: sum.splits option.splits if_splits dest: http_get_absent)
next
  case (Suc n)
  show ?case
  proof (cases "http_get env h url")
    case (Inl e)
    then have "e = Absent" using Suc.prems by (subst (asm) get_loop.simps) simp
    then show ?thesis using Inl http_get_absent by blast
  next
    case (Inr r)
    note step = Suc.prems [unfolded get_loop.simps [of env follow raw "Suc n"] Inr]
    obtain nxt :: page_url where "get_loop env follow raw n \<lparr>h_Name = pu_Hostname nxt, h_Port = 0, h_Explicit = True\<rparr>
        (pu_String nxt) (redirects @ [url]) = Inl Absent"
      using step by (auto simp: Let_def split: option.splits if_splits)
    then show ?thesis using Suc.IH by fastforce
  qed
qed

lemma Get_absent: "web_Get env h raw follow = Inl Absent \<Longrightarrow> \<not> h_Explicit h"
  by (auto simp: web_Get_def dest: get_loop_absent)

text \<open>
  What \<open>Each\<close> relies on: only an implicit host is reported absent. Then no explicit host drops out
  of a list of results.
\<close>

locale host_probe =
  fixes probe :: "'i \<Rightarrow> 'e web_error + 'a"
    and host_of :: "'i \<Rightarrow> host"
  assumes absent_implicit: "probe i = Inl Absent \<Longrightarrow> \<not> h_Explicit (host_of i)"
begin

lemma Each_explicit:
  assumes "web_Each probe is = Inr rs" "i \<in> set is" "h_Explicit (host_of i)"
  shows "\<exists>r \<in> set rs. probe i = Inr r"
  using assms
proof (induction "is" arbitrary: rs)
  case (Cons j js)
  show ?case
  proof (cases "probe j")
    case (Inr r)
    then obtain rs' where rs: "web_Each probe js = Inr rs'" "rs = r # rs'"
      using Cons.prems(1) by (auto simp: map_sum_Inr_iff)
    then show ?thesis using Cons Inr by auto
  next
    case (Inl e)
    then have "e = Absent" "web_Each probe js = Inr rs"
      using Cons.prems(1) by (auto split: web_error.splits)
    then show ?thesis using Cons Inl absent_implicit by auto
  qed
qed simp

lemma Each_error:
  assumes "web_Each probe is = Inl e"
  shows "\<exists>i \<in> set is. probe i = Inl e \<and> e \<noteq> Absent"
  using assms
proof (induction "is")
  case (Cons j js)
  then show ?case by (cases "probe j") (auto simp: map_sum_Inl_iff split: web_error.splits)
qed simp

lemma Each_results: "web_Each probe is = Inr rs \<Longrightarrow> r \<in> set rs \<Longrightarrow> \<exists>i \<in> set is. probe i = Inr r"
proof (induction "is" arbitrary: rs)
  case (Cons j js)
  then show ?case by (cases "probe j") (fastforce simp: map_sum_Inr_iff split: web_error.splits)+
qed simp

end

interpretation handshake_probe: host_probe "web_TLS env" "\<lambda>h. h" for env
  by unfold_locales (rule TLS_absent)

interpretation page_probe: host_probe "\<lambda>(h, raw). web_Get env h raw follow" fst for env follow
  by unfold_locales (auto dest: Get_absent)

lemma TLS_host: "web_TLS env h = Inr r \<Longrightarrow> hs_Host r = h"
  by (auto simp: web_TLS_def map_sum_Inr_iff)

subsection \<open>Handshakes shared through the memo\<close>

text \<open>
  \<open>core.Memoize\<close> as its callers see it, one after the other (SetaMemo: a key is computed by one caller at a time, and
  an error is not kept when the caller's context ended).
\<close>

definition Memoize ::
  "bool \<Rightarrow> string \<Rightarrow> 'e web_error + 'a \<Rightarrow> (string \<rightharpoonup> 'e web_error + 'a) \<Rightarrow> ('e web_error + 'a) \<times> (string \<rightharpoonup> 'e web_error + 'a)" where
  "Memoize ended key outcome memo =
     (case memo key of
        Some kept \<Rightarrow> (kept, memo)
      | None \<Rightarrow> (outcome, if isl outcome \<and> ended then memo else memo(key \<mapsto> outcome)))"

type_synonym 'e tls_memo = "string \<rightharpoonup> 'e web_error + handshake"

fun TLS_all :: "'e web_env \<Rightarrow> host list \<Rightarrow> 'e tls_memo \<Rightarrow> ('e web_error + handshake) list \<times> 'e tls_memo" where
  "TLS_all env [] memo = ([], memo)"
| "TLS_all env (h # hs) memo =
     (case Memoize (we_ended env) (tls_key h) (web_TLS env h) memo of
        (r, memo1) \<Rightarrow> case TLS_all env hs memo1 of (rs, memo2) \<Rightarrow> (r # rs, memo2))"

text \<open>
  The checks of a run that handshake with the hosts of their targets, in the order they ask; each has its own
  environment, and they share the memo.
\<close>

fun TLS_checks ::
  "('e web_env \<times> target) list \<Rightarrow> 'e tls_memo \<Rightarrow> ('e web_error + handshake list) list" where
  "TLS_checks [] memo = []"
| "TLS_checks ((env, t) # checks) memo =
     (case TLS_all env (TLSHosts env t) memo of (rs, memo') \<Rightarrow> web_Each id rs # TLS_checks checks memo')"

text \<open>A host the user named for a target: in its list of hosts, or in one of its https URLs.\<close>

definition names_host :: "'e web_env \<Rightarrow> target \<Rightarrow> host \<Rightarrow> bool" where
  "names_host env t h \<longleftrightarrow> (\<exists>hs. t_Hosts t = Some hs \<and> h \<in> set hs) \<or>
     (\<exists>raw\<in>set (t_URLs t). \<exists>u. we_parse env raw = Some u \<and> pu_Scheme u = ''https'' \<and>
        ParseHost (we_idna env) (pu_Host u) = Inr h)"

lemma add_url_hosts_keeps: "h \<in> set hosts \<Longrightarrow> h \<in> set (add_url_hosts env hosts raws)"
  by (induction raws arbitrary: hosts) (auto simp: Let_def split: option.splits sum.splits)

lemma add_url_hosts_adds:
  assumes "raw \<in> set raws" "we_parse env raw = Some u" "pu_Scheme u = ''https''" "ParseHost (we_idna env) (pu_Host u) = Inr h"
  shows "host_String h \<in> host_String ` set (add_url_hosts env hosts raws)"
  using assms(1)
proof (induction raws arbitrary: hosts)
  case (Cons r raws)
  show ?case
  proof (cases "raw = r")
    case True
    then show ?thesis
      using assms(2-) add_url_hosts_keeps by (fastforce split: if_splits)
  next
    case False
    then show ?thesis using Cons by simp
  qed
qed simp

lemma names_host_asked: "names_host env t h \<Longrightarrow> host_String h \<in> host_String ` set (TLSHosts env t)"
  using add_url_hosts_keeps [of h "WebHosts t" env "t_URLs t"] add_url_hosts_adds [of _ "t_URLs t" env _ h "WebHosts t"]
  by (auto simp: names_host_def TLSHosts_def WebHosts_def)

text \<open>What the memo holds was computed for a host asked before, under the same name and port.\<close>

definition memo_from :: "('e web_env \<times> host) set \<Rightarrow> 'e tls_memo \<Rightarrow> bool" where
  "memo_from asked memo \<longleftrightarrow> (\<forall>key r. memo key = Some r \<longrightarrow> (\<exists>(env, h)\<in>asked. key = tls_key h \<and> r = web_TLS env h))"

lemma tls_key_inj [simp]: "tls_key h = tls_key h' \<longleftrightarrow> host_String h = host_String h'"
  by (simp add: tls_key_def)

lemma Memoize_from:
  assumes "memo_from asked memo" and "Memoize (we_ended env) (tls_key h) (web_TLS env h) memo = (r, memo')"
  shows "memo_from (insert (env, h) asked) memo' \<and>
    (\<exists>(env', h')\<in>insert (env, h) asked. host_String h' = host_String h \<and> r = web_TLS env' h')"
  using assms by (fastforce simp: Memoize_def memo_from_def split: option.splits if_splits)

lemma TLS_all_from:
  assumes "memo_from asked memo" and "TLS_all env hs memo = (rs, memo')"
  shows "memo_from (asked \<union> Pair env ` set hs) memo' \<and>
    list_all2 (\<lambda>h r. \<exists>(env', h')\<in>asked \<union> Pair env ` set hs. host_String h' = host_String h \<and> r = web_TLS env' h') hs rs"
  using assms
proof (induction hs arbitrary: asked memo rs)
  case (Cons h hs)
  obtain r memo1 where r: "Memoize (we_ended env) (tls_key h) (web_TLS env h) memo = (r, memo1)" by fastforce
  obtain rs' where rs: "TLS_all env hs memo1 = (rs', memo')" "rs = r # rs'"
    using Cons.prems(2) r by (auto split: prod.splits)
  note M = Memoize_from [OF Cons.prems(1) r]
  have sets: "insert (env, h) asked \<union> Pair env ` set hs = asked \<union> Pair env ` set (h # hs)" by auto
  show ?case
    using Cons.IH [OF conjunct1 [OF M] rs(1)] M unfolding sets rs(2) by auto
qed simp

lemma list_all2_ex: "list_all2 P xs ys \<Longrightarrow> x \<in> set xs \<Longrightarrow> \<exists>y. y \<in> set ys \<and> P x y"
  by (induction rule: list_all2_induct) auto

text \<open>\<open>Each\<close> keeps a result of every item but the absent ones.\<close>

lemma Each_keeps:
  assumes "web_Each id rs = Inr out" "r \<in> set rs"
  shows "r = Inl Absent \<or> (\<exists>x\<in>set out. r = Inr x)"
  using assms
proof (induction rs arbitrary: out)
  case (Cons r' rs)
  then show ?case by (cases r') (auto simp: map_sum_Inr_iff split: web_error.splits)
qed simp

lemma TLS_checks_named:
  assumes "memo_from asked memo" and "i < length checks" and "checks ! i = (env, t)"
    and "TLS_checks checks memo ! i = Inr out" and "names_host env t h"
  shows "host_String h \<in> host_String ` hs_Host ` set out \<or>
    (\<exists>(env', h')\<in>asked \<union> {(e, h'). \<exists>t'. (e, t') \<in> set (take (Suc i) checks) \<and> h' \<in> set (TLSHosts e t')}.
       host_String h' = host_String h \<and> web_TLS env' h' = Inl Absent)"
  using assms
proof (induction i arbitrary: asked memo checks)
  case 0
  then obtain rest where c: "checks = (env, t) # rest" by (cases checks) auto
  obtain rs memo' where rs: "TLS_all env (TLSHosts env t) memo = (rs, memo')" by fastforce
  have out: "web_Each id rs = Inr out" using 0 by (simp add: c rs)
  obtain h0 where h0: "h0 \<in> set (TLSHosts env t)" "host_String h0 = host_String h"
    using names_host_asked [OF 0(5)] by auto
  from conjunct2 [OF TLS_all_from [OF 0(1) rs]] h0(1)
  have "\<exists>r. r \<in> set rs \<and> (\<exists>(env', h')\<in>asked \<union> Pair env ` set (TLSHosts env t). host_String h' = host_String h0 \<and> r = web_TLS env' h')"
    by (rule list_all2_ex)
  then obtain r where r: "r \<in> set rs" "\<exists>(env', h')\<in>asked \<union> Pair env ` set (TLSHosts env t). host_String h' = host_String h0 \<and> r = web_TLS env' h'" by blast
  then obtain env' h' where e: "(env', h') \<in> asked \<union> Pair env ` set (TLSHosts env t)" "host_String h' = host_String h" "r = web_TLS env' h'"
    using h0(2) by auto
  from Each_keeps [OF out r(1)] show ?case
  proof
    assume "r = Inl Absent"
    then show ?thesis using e by (auto simp: c)
  next
    assume "\<exists>x\<in>set out. r = Inr x"
    then obtain x where "x \<in> set out" "r = Inr x" by blast
    then have "host_String h = host_String (hs_Host x)" using e TLS_host [of env' h' x] by simp
    then show ?thesis using \<open>x \<in> set out\<close> by blast
  qed
next
  case (Suc i)
  obtain env0 t0 rest where c: "checks = (env0, t0) # rest" using Suc.prems(2) by (cases checks) auto
  obtain rs memo' where rs: "TLS_all env0 (TLSHosts env0 t0) memo = (rs, memo')" by fastforce
  have "TLS_checks rest memo' ! i = Inr out" "rest ! i = (env, t)" "i < length rest"
    using Suc.prems by (simp_all add: c rs)
  from Suc.IH [OF conjunct1 [OF TLS_all_from [OF Suc.prems(1) rs]] this(3,2,1) Suc.prems(5)]
  show ?case by (auto simp: c)
qed

text \<open>
  C27 A host the user named is examined, or the check fails, unless the run also asked for a host nobody named: when
  a check that handshakes with the hosts of its target succeeds, each host the user named for the target is among
  its results, or a default host of the same name and port, of this target or one asked before, was found absent.
  The handshakes are those of a whole run, shared through its memo. (The exception is real: a named host is
  then skipped, see \<open>named_host_skipped\<close>.)
\<close>

theorem explicit_hosts_examined:
  assumes "i < length checks" and "checks ! i = (env, t)" and "TLS_checks checks Map.empty ! i = Inr out"
    and "names_host env t h"
  shows "host_String h \<in> host_String ` hs_Host ` set out \<or>
    (\<exists>(env', t')\<in>set (take (Suc i) checks). \<exists>h'\<in>set (TLSHosts env' t').
       \<not> h_Explicit h' \<and> host_String h' = host_String h \<and> web_TLS env' h' = Inl Absent)"
proof -
  have "memo_from {} (Map.empty :: 'a tls_memo)" by (simp add: memo_from_def)
  from TLS_checks_named [OF this assms] TLS_absent show ?thesis by fastforce
qed

subsection \<open>Redirects\<close>

text \<open>Fetching \<open>u\<close> answered with a redirect to \<open>v\<close> that may be followed.\<close>

definition hop :: "'e web_env \<Rightarrow> (page_url \<Rightarrow> bool) \<Rightarrow> string \<Rightarrow> string \<Rightarrow> bool" where
  "hop env follow u v \<longleftrightarrow> (\<exists>h r next. http_get env h u = Inr r \<and>
     Location env (response_of u [] r) = Some next \<and> follow next \<and> pu_String next = v)"

lemma Location_redirects: "Location env (response_of u reds r) = Location env (response_of u [] r)"
  by (simp add: Location_def response_of_def Let_def)

lemma get_loop_chain:
  assumes "get_loop env follow raw left h url redirects = Inr resp"
  shows "\<exists>hops. ws_Redirects resp = redirects @ hops \<and> length hops \<le> left \<and>
    successively (hop env follow) (hops @ [ws_URL resp]) \<and> hd (hops @ [ws_URL resp]) = url \<and>
    (\<forall>next. Location env resp = Some next \<longrightarrow> \<not> follow next)"
  using assms
proof (induction left arbitrary: h url redirects)
  case 0
  then show ?case
    by (subst (asm) get_loop.simps) (auto simp: Let_def response_of_def split: sum.splits option.splits if_splits)
next
  case (Suc n)
  obtain r where r: "http_get env h url = Inr r"
    using Suc.prems by (subst (asm) get_loop.simps) (auto split: sum.splits)
  let ?resp = "response_of url redirects r"
  show ?case
  proof (cases "\<exists>next. Location env ?resp = Some next \<and> follow next")
    case False
    then have "resp = ?resp" using Suc.prems r
      by (subst (asm) get_loop.simps) (auto simp: Let_def split: option.splits if_splits)
    then show ?thesis using False by (auto simp: response_of_def)
  next
    case True
    then obtain nxt where nxt: "Location env ?resp = Some nxt" "follow nxt" by blast
    have "get_loop env follow raw n \<lparr>h_Name = pu_Hostname nxt, h_Port = 0, h_Explicit = True\<rparr>
        (pu_String nxt) (redirects @ [url]) = Inr resp"
      using Suc.prems r nxt by (subst (asm) get_loop.simps) (simp add: Let_def)
    from Suc.IH [OF this] obtain hops where hops: "ws_Redirects resp = (redirects @ [url]) @ hops" "length hops \<le> n"
      "successively (hop env follow) (hops @ [ws_URL resp])" "hd (hops @ [ws_URL resp]) = pu_String nxt"
      "\<forall>next. Location env resp = Some next \<longrightarrow> \<not> follow next" by blast
    have "hop env follow url (pu_String nxt)"
      using r nxt unfolding hop_def Location_redirects [of env url redirects] by blast
    then have "successively (hop env follow) ((url # hops) @ [ws_URL resp])"
      using hops(3,4) by (cases "hops @ [ws_URL resp]") auto
    then show ?thesis using hops by (intro exI [of _ "url # hops"]) auto
  qed
qed

text \<open>
  C28 Fetching a page ends and stays on the permitted path: a result lists at most ten redirects, which
  lead from the requested URL to the final one, each to a place the caller allowed; and the
  response is one that does not redirect to an allowed place.
\<close>

theorem Get_follows_permitted:
  assumes "web_Get env h raw (Some follow) = Inr resp"
  shows "length (ws_Redirects resp) \<le> 10 \<and> hd (ws_Redirects resp @ [ws_URL resp]) = raw \<and>
    successively (hop env follow) (ws_Redirects resp @ [ws_URL resp]) \<and>
    (\<forall>next. Location env resp = Some next \<longrightarrow> \<not> follow next)"
  using get_loop_chain [of env follow raw maxRedirects h raw "[]" resp] assms
  by (auto simp: web_Get_def maxRedirects_def)

text \<open>
  The memo does not tell an implicit host from an explicit one: the key of a fetch names the URL
  only, but when the host refuses the connection its outcome is "absent" for the one and an error for
  the other. Whichever check asks first decides what the other is told, so an unreachable host that
  the user named can be skipped.
\<close>

lemma Get_outcome_not_in_key:
  assumes "we_parse env raw = Some u" and "we_dial env (join_host_port (pu_Hostname u) (itoa (url_port u))) = Some Refused"
    and "\<not> we_ended env" and "wildcardArtifact env (pu_Hostname u) = Inr False"
  shows "web_Get env \<lparr>h_Name = pu_Hostname u, h_Port = p, h_Explicit = False\<rparr> raw follow = Inl Absent \<and>
    web_Get env \<lparr>h_Name = pu_Hostname u, h_Port = p, h_Explicit = True\<rparr> raw follow =
      Inl (GetError raw (ConnectError (join_host_port (pu_Hostname u) (itoa (url_port u))) Refused))"
  using assms
  by (simp add: web_Get_def get_loop.simps http_get_def hostFromContext_def web_Dial_def connect_def)

subsection \<open>A concrete environment\<close>

definition page_at :: "string \<Rightarrow> page_url" where
  "page_at name = \<lparr>pu_Scheme = ''https'', pu_Host = name, pu_Hostname = name, pu_Port = [], pu_Path = ''/'',
     pu_String = ''https://'' @ name @ ''/''\<rparr>"

definition demo_parse :: "string \<Rightarrow> page_url option" where
  "demo_parse s =
     (case cut_prefix s ''https://'' of Some rest \<Rightarrow> Some (page_at (fst (cut CHR ''/'' rest))) | None \<Rightarrow> None)"

text \<open>a.test redirects to b.test, which answers; every host completes a handshake.\<close>

definition demo_web :: "unit dial_fault option \<Rightarrow> unit web_env" where
  "demo_web fault = \<lparr>we_lookup = (\<lambda>name t. Inr \<lparr>rp_Name = name, rp_Type = t, rp_Rcode = 0, rp_Answer = []\<rparr>),
     we_idna = (\<lambda>_. None), we_parse = demo_parse, we_resolve = (\<lambda>_ loc. demo_parse loc), we_dial = (\<lambda>_. fault),
     we_handshake = (\<lambda>_ _. Inr \<lparr>ts_Version = 0x304, ts_CipherSuite = 0x1301, ts_PeerCertificates = []\<rparr>),
     we_exchange = (\<lambda>raw. Inr (if raw = ''https://a.test/''
       then \<lparr>rw_Status = 301, rw_Header = (\<lambda>k. if k = ''Location'' then ''https://b.test/'' else []), rw_Body = [], rw_TLS = True\<rparr>
       else \<lparr>rw_Status = 200, rw_Header = (\<lambda>_. []), rw_Body = ''hello'', rw_TLS = True\<rparr>)),
     we_verify = (\<lambda>_. None), we_ended = False, we_now = 0\<rparr>"

definition named_host :: "string \<Rightarrow> host" where
  "named_host name = \<lparr>h_Name = name, h_Port = 443, h_Explicit = True\<rparr>"

lemma demo_parse_names:
  "demo_parse ''https://a.test/'' = Some (page_at ''a.test'')" "demo_parse ''https://b.test/'' = Some (page_at ''b.test'')"
  by code_simp+

lemma demo_get:
  assumes "h_Explicit h" and "demo_parse raw = Some u" and "we_exchange (demo_web None) raw = Inr r" and "rw_Body r \<in> {[], ''hello''}"
  shows "http_get (demo_web None) h raw = Inr r"
proof -
  have "connect (demo_web None) h' p = None" for h' p by (simp add: connect_def demo_web_def)
  moreover have "h_Explicit (hostFromContext h n)" for n using assms(1) by (simp add: hostFromContext_def)
  moreover have "r\<lparr>rw_Body := take maxBody (rw_Body r)\<rparr> = r" using assms(4) by (auto simp: maxBody_def)
  moreover have "we_parse (demo_web None) raw = Some u" using assms(2) by (simp add: demo_web_def)
  ultimately show ?thesis using assms(3) by (simp add: http_get_def web_Dial_def)
qed

theorem Get_follows_permitted_witness:
  "\<exists>resp. web_Get (demo_web None) (named_host ''a.test'') ''https://a.test/'' (Some (\<lambda>_. True)) = Inr resp \<and>
     ws_Redirects resp = [''https://a.test/''] \<and>
     successively (hop (demo_web None) (\<lambda>_. True)) (ws_Redirects resp @ [ws_URL resp])"
proof -
  let ?env = "demo_web None"
  have a: "http_get ?env (named_host ''a.test'') ''https://a.test/'' = Inr \<lparr>rw_Status = 301,
      rw_Header = (\<lambda>k. if k = ''Location'' then ''https://b.test/'' else []), rw_Body = [], rw_TLS = True\<rparr>"
    by (rule demo_get [OF _ demo_parse_names(1)]) (simp_all add: named_host_def demo_web_def)
  have b: "http_get ?env \<lparr>h_Name = n, h_Port = 0, h_Explicit = True\<rparr> ''https://b.test/'' =
      Inr \<lparr>rw_Status = 200, rw_Header = (\<lambda>_. []), rw_Body = ''hello'', rw_TLS = True\<rparr>" for n
    by (rule demo_get [OF _ demo_parse_names(2)]) (simp_all add: demo_web_def)
  have l: "we_resolve ?env u v = demo_parse v" for u v by (simp add: demo_web_def)
  have "\<exists>resp. web_Get ?env (named_host ''a.test'') ''https://a.test/'' (Some (\<lambda>_. True)) = Inr resp \<and>
      ws_Redirects resp = [''https://a.test/'']"
    by (simp add: web_Get_def maxRedirects_def get_loop.simps a b l Location_def response_of_def Let_def
        demo_parse_names page_at_def numeral_eq_Suc)
  then obtain resp where r: "web_Get (demo_web None) (named_host ''a.test'') ''https://a.test/'' (Some (\<lambda>_. True)) = Inr resp"
    and "ws_Redirects resp = [''https://a.test/'']" by blast
  then show ?thesis using Get_follows_permitted [OF r] by blast
qed

lemma Get_outcome_not_in_key_witness:
  "web_Get (demo_web (Some Refused)) \<lparr>h_Name = ''a.test'', h_Port = 443, h_Explicit = False\<rparr> ''https://a.test/'' None = Inl Absent \<and>
   web_Get (demo_web (Some Refused)) \<lparr>h_Name = ''a.test'', h_Port = 443, h_Explicit = True\<rparr> ''https://a.test/'' None =
     Inl (GetError ''https://a.test/'' (ConnectError ''a.test:443'' Refused))"
proof -
  have "we_parse (demo_web (Some Refused)) ''https://a.test/'' = Some (page_at ''a.test'')"
    by (simp add: demo_web_def demo_parse_names)
  moreover have "cut_prefix ''a.test'' ''www.'' = None" by code_simp
  then have "wildcardArtifact (demo_web (Some Refused)) (pu_Hostname (page_at ''a.test'')) = Inr False"
    by (simp add: wildcardArtifact_def page_at_def)
  moreover have "url_port (page_at ''a.test'') = 443" by code_simp
  moreover have "join_host_port ''a.test'' (itoa 443) = ''a.test:443''" by code_simp
  ultimately have *: "join_host_port (pu_Hostname (page_at ''a.test'')) (itoa (url_port (page_at ''a.test''))) = ''a.test:443''"
      and **: "we_parse (demo_web (Some Refused)) ''https://a.test/'' = Some (page_at ''a.test'')"
      and ***: "wildcardArtifact (demo_web (Some Refused)) (pu_Hostname (page_at ''a.test'')) = Inr False"
    by (simp_all add: page_at_def)
  have "we_dial (demo_web (Some Refused)) a = Some Refused" "\<not> we_ended (demo_web (Some Refused))" for a
    by (simp_all add: demo_web_def)
  moreover have "pu_Hostname (page_at ''a.test'') = ''a.test''" by (simp add: page_at_def)
  ultimately show ?thesis
    using Get_outcome_not_in_key [OF ** _ _ ***, where p = 443 and follow = None] * by simp
qed

definition demo_target :: "host list option \<Rightarrow> string list \<Rightarrow> target" where
  "demo_target hosts urls = (target_named ''a.test'')\<lparr>t_Hosts := hosts, t_URLs := urls\<rparr>"

lemma TLSHosts_demo [simp]:
  "TLSHosts (demo_web f) (demo_target (Some hs) []) = hs"
  "TLSHosts (demo_web f) (demo_target None []) =
     [\<lparr>h_Name = ''a.test'', h_Port = 443, h_Explicit = False\<rparr>, \<lparr>h_Name = ''www.a.test'', h_Port = 443, h_Explicit = False\<rparr>]"
  by (simp_all add: TLSHosts_def WebHosts_def demo_target_def target_named_def)

text \<open>
  A refused connection: the host is skipped although the user named it, because another target of the run, or an
  earlier check of it, asked for it as a default.
\<close>

lemma named_host_skipped:
  "TLS_checks [(demo_web (Some Refused), demo_target None []), (demo_web (Some Refused), demo_target (Some [named_host ''a.test'']) [])]
     Map.empty = [Inr [], Inr []]"
  "TLS_checks [(demo_web (Some Refused), demo_target (Some [named_host ''a.test'']) [])] Map.empty =
     [Inl (ConnectError ''a.test:443'' Refused)]"
proof -
  have "cut_prefix ''a.test'' ''www.'' = None" "cut_prefix ''www.a.test'' ''www.'' = Some ''a.test''"
    "join_host_port ''a.test'' (itoa 443) = ''a.test:443''" by code_simp+
  moreover have "ParseAddr (wildcardProbe @ ''.'' @ ''a.test'') = None" by code_simp
  then have "LookupAddrs (we_lookup (demo_web (Some Refused))) (wildcardProbe @ ''.'' @ ''a.test'') =
      Inl (ErrNoAddress (wildcardProbe @ ''.'' @ ''a.test''))"
    by (simp add: demo_web_def LookupAddrs_def resp_Addrs_def)
  ultimately have "web_TLS (demo_web (Some Refused)) \<lparr>h_Name = n, h_Port = 443, h_Explicit = False\<rparr> = Inl Absent"
    if "n \<in> {''a.test'', ''www.a.test''}" for n
    using that by (auto simp: web_TLS_def Connect_def web_Dial_def wildcardArtifact_def connect_def) (simp_all add: demo_web_def)
  moreover have "web_TLS (demo_web (Some Refused)) (named_host ''a.test'') = Inl (ConnectError ''a.test:443'' Refused)"
    using \<open>join_host_port ''a.test'' (itoa 443) = ''a.test:443''\<close>
    by (simp add: web_TLS_def Connect_def web_Dial_def connect_def named_host_def demo_web_def)
  moreover have "tls_key (named_host ''a.test'') = tls_key \<lparr>h_Name = ''a.test'', h_Port = 443, h_Explicit = False\<rparr>"
    by (simp add: named_host_def host_String_def)
  moreover have "\<not> we_ended (demo_web (Some Refused))" by (simp add: demo_web_def)
  ultimately show
    "TLS_checks [(demo_web (Some Refused), demo_target None []), (demo_web (Some Refused), demo_target (Some [named_host ''a.test'']) [])]
       Map.empty = [Inr [], Inr []]"
    "TLS_checks [(demo_web (Some Refused), demo_target (Some [named_host ''a.test'']) [])] Map.empty =
       [Inl (ConnectError ''a.test:443'' Refused)]"
    by (simp_all add: Memoize_def)
qed

theorem explicit_hosts_examined_witness:
  "\<exists>out. TLS_checks [(demo_web None, demo_target (Some [named_host ''a.test'']) [])] Map.empty = [Inr out] \<and>
     host_String (named_host ''a.test'') \<in> host_String ` hs_Host ` set out"
proof -
  let ?checks = "[(demo_web None, demo_target (Some [named_host ''a.test'']) [])]"
  obtain hs where hs: "web_TLS (demo_web None) (named_host ''a.test'') = Inr hs"
    by (simp add: web_TLS_def Connect_def web_Dial_def connect_def demo_web_def named_host_def)
  then have out: "TLS_checks ?checks Map.empty = [Inr [hs]]"
    by (simp add: Memoize_def)
  have "names_host (demo_web None) (demo_target (Some [named_host ''a.test'']) []) (named_host ''a.test'')"
    by (simp add: names_host_def demo_target_def)
  from explicit_hosts_examined [of 0 ?checks "demo_web None" _ "[hs]", OF _ _ _ this]
  have "host_String (named_host ''a.test'') \<in> host_String ` hs_Host ` set [hs]"
    using out by (simp add: named_host_def)
  then show ?thesis using out by blast
qed

end
