(* ===== verification/SetaTakeover.thy ===== *)
theory SetaTakeover
  imports SetaWeb
begin

text \<open>
  Package checks/dns, takeover.go: names that resolve through a CNAME to a resource nobody owns. The
  regular expression of the S3 endpoints is written out. The memo is left out (see SetaMemo).
\<close>

subsection \<open>Services\<close>

record service =
  sv_name :: string
  sv_suffixes :: "string list"
  sv_nxdomain :: bool
  sv_body :: string
  sv_s3 :: bool

definition by_nxdomain :: "string \<Rightarrow> string list \<Rightarrow> service" where
  "by_nxdomain n ss = \<lparr>sv_name = n, sv_suffixes = ss, sv_nxdomain = True, sv_body = [], sv_s3 = False\<rparr>"

definition by_body :: "string \<Rightarrow> string \<Rightarrow> string \<Rightarrow> service" where
  "by_body n s b = \<lparr>sv_name = n, sv_suffixes = [s], sv_nxdomain = False, sv_body = b, sv_s3 = False\<rparr>"

definition services :: "service list" where
  "services =
    [by_nxdomain ''Microsoft Azure''
       [''cloudapp.net'', ''cloudapp.azure.com'', ''azurewebsites.net'', ''blob.core.windows.net'', ''azure-api.net'',
        ''azurehdinsight.net'', ''azureedge.net'', ''azurecontainer.io'', ''database.windows.net'', ''azuredatalakestore.net'',
        ''search.windows.net'', ''azurecr.io'', ''redis.cache.windows.net'', ''servicebus.windows.net'', ''trafficmanager.net''],
     by_nxdomain ''AWS Elastic Beanstalk'' [''elasticbeanstalk.com''],
     \<lparr>sv_name = ''AWS S3'', sv_suffixes = [], sv_nxdomain = False, sv_body = ''NoSuchBucket'', sv_s3 = True\<rparr>,
     by_body ''GitHub Pages'' ''github.io'' ''There isn't a GitHub Pages site here.'',
     by_body ''Bitbucket'' ''bitbucket.io'' ''Repository not found'',
     by_body ''Ghost'' ''ghost.io'' ''Failed to resolve DNS path for this host'',
     by_body ''Pantheon'' ''pantheonsite.io'' ''The gods are wise, but do not know of the site which you seek.'',
     by_body ''Surge.sh'' ''surge.sh'' ''project not found'',
     by_body ''ReadMe'' ''readme.io'' ''Project doesnt exist... yet!'',
     by_body ''Help Scout'' ''helpscoutdocs.com'' ''No settings were found for this company:'',
     by_body ''Helpjuice'' ''helpjuice.com'' ''We could not find what you're looking for.'',
     by_body ''WordPress.com'' ''wordpress.com'' ''Do you want to register'',
     by_body ''Kinsta'' ''kinsta.cloud'' ''No Site For Domain'',
     by_body ''JetBrains YouTrack'' ''myjetbrains.com'' ''is not a registered InCloud YouTrack'',
     by_body ''Uberflip'' ''read.uberflip.com'' ''The URL you've accessed does not provide a hub.'',
     by_body ''Agile CRM'' ''agilecrm.com'' ''Sorry, this page is no longer available.'',
     by_body ''Ngrok'' ''ngrok.io'' ''ngrok.io not found'']"

text \<open>What may stand between ".s3" (or ".s3-website") and ".amazonaws.com": a separator and a word, or nothing.\<close>

definition s3_word :: "string \<Rightarrow> bool" where
  "s3_word w \<longleftrightarrow> w = [] \<or>
     (hd w \<in> set ''.-'' \<and> tl w \<noteq> [] \<and> list_all (\<lambda>c. is_lower c \<or> is_digit c \<or> c = CHR ''-'') (tl w))"

definition s3_tail :: "string \<Rightarrow> bool" where
  "s3_tail r \<longleftrightarrow> has_prefix r ''.s3'' \<and>
     (s3_word (drop 3 r) \<or> has_prefix (drop 3 r) ''-website'' \<and> s3_word (drop 11 r))"

definition suffixes_of :: "string \<Rightarrow> string list" where
  "suffixes_of s = map (\<lambda>i. drop i s) [0..<length s + 1]"

definition s3_pattern :: "string \<Rightarrow> bool" where
  "s3_pattern target \<longleftrightarrow> has_suffix target ''.amazonaws.com'' \<and>
     list_ex s3_tail (suffixes_of (trim_suffix target ''.amazonaws.com''))"

definition in_zone :: "string \<Rightarrow> string \<Rightarrow> bool" where
  "in_zone target suffix \<longleftrightarrow> target = suffix \<or> has_suffix target (''.'' @ suffix)"

definition matches_service :: "string \<Rightarrow> service \<Rightarrow> bool" where
  "matches_service target s \<longleftrightarrow> sv_s3 s \<and> s3_pattern target \<or> list_ex (in_zone target) (sv_suffixes s)"

definition matchService :: "string \<Rightarrow> service option" where
  "matchService target = List.find (matches_service target) services"

subsection \<open>Chains\<close>

record cname_chain =
  cc_name :: string
  cc_targets :: "string list"
  cc_dangling :: bool

definition arrow :: string where "arrow = [CHR '' '', CHR 0xE2, CHR 0x86, CHR 0x92, CHR '' '']"

definition chain_String :: "cname_chain \<Rightarrow> string" where
  "chain_String c = join arrow (cc_name c # cc_targets c)"

definition takeoverNames :: "'e web_env \<Rightarrow> target \<Rightarrow> string list" where
  "takeoverNames env t =
     sorted_unique (t_Name t # map h_Name (TLSHosts env t) @
       concat (map (\<lambda>p. case p of Some (_, h) \<Rightarrow> [h_Name h] | None \<Rightarrow> []) (Pages env t)))"

definition cname_targets :: "response \<Rightarrow> string list" where
  "cname_targets resp =
     concat (map (\<lambda>x. case rr_Data x of CNAME_data c \<Rightarrow> [trim_suffix (to_lower c) ''.''] | _ \<Rightarrow> []) (rp_Answer resp))"

definition chain_of :: "'e web_env \<Rightarrow> string \<Rightarrow> 'e + cname_chain list" where
  "chain_of env name =
     map_sum id (\<lambda>resp. if cname_targets resp = [] then []
         else [\<lparr>cc_name = name, cc_targets = cname_targets resp, cc_dangling = NXDomain resp\<rparr>])
       (we_lookup env name TypeA)"

definition chains :: "'e web_env \<Rightarrow> target \<Rightarrow> 'e + cname_chain list" where
  "chains env t = map_sum id concat (try_map (chain_of env) (takeoverNames env t))"

subsection \<open>The checks\<close>

text \<open>The service of the first target that has one, and why the resource can be claimed (empty: it cannot).\<close>

definition chain_service :: "cname_chain \<Rightarrow> service option" where
  "chain_service c = (case List.find (\<lambda>t. matchService t \<noteq> None) (cc_targets c) of
     None \<Rightarrow> None | Some t \<Rightarrow> matchService t)"

definition claimable :: "'e web_env \<Rightarrow> cname_chain \<Rightarrow> 'e web_error + (service \<times> string) option" where
  "claimable env c =
     (case chain_service c of
        None \<Rightarrow> Inr None
      | Some svc \<Rightarrow>
          if sv_nxdomain svc then
            Inr (Some (svc, if cc_dangling c then ''CNAME target '' @ List.last (cc_targets c) @ '' does not exist'' else []))
          else if cc_dangling c then Inr (Some (svc, []))
          else
            (case web_Get env \<lparr>h_Name = cc_name c, h_Port = 80, h_Explicit = False\<rparr> (''http://'' @ cc_name c @ ''/'') None of
               Inl e \<Rightarrow> if e = Absent \<or> is_connect_error e then Inr (Some (svc, [])) else Inl e
             | Inr resp \<Rightarrow>
                 Inr (Some (svc, if contains_sub (ws_Body resp) (sv_body svc)
                   then ''page says \"'' @ sv_body svc @ [CHR 0x22] else []))))"

datatype 'e takeover_error = ChainLookup 'e | ChainPage "'e web_error"

definition takeover_finding :: "cname_chain \<Rightarrow> (service \<times> string) option \<Rightarrow> finding list" where
  "takeover_finding c r =
     (case r of
        None \<Rightarrow> []
      | Some (svc, why) \<Rightarrow>
          if why = [] then []
          else [finding_with (cc_name c) [] [''cname'' \<mapsto> chain_String c, ''service'' \<mapsto> sv_name svc, ''fingerprint'' \<mapsto> why]])"

definition takeover_of :: "'e web_env \<Rightarrow> cname_chain \<Rightarrow> 'e web_error + finding list" where
  "takeover_of env c = (case claimable env c of Inl e \<Rightarrow> Inl e | Inr r \<Rightarrow> Inr (takeover_finding c r))"

definition takeover_possible :: "'e web_env \<Rightarrow> target \<Rightarrow> 'e takeover_error + finding list" where
  "takeover_possible env t =
     (case chains env t of
        Inl e \<Rightarrow> Inl (ChainLookup e)
      | Inr cs \<Rightarrow> map_sum ChainPage concat (try_map (takeover_of env) cs))"

definition is_claimed_elsewhere :: "'e web_env \<Rightarrow> cname_chain \<Rightarrow> bool" where
  "is_claimed_elsewhere env c = (case claimable env c of Inr (Some (svc, why)) \<Rightarrow> why \<noteq> [] | _ \<Rightarrow> False)"

definition cname_dangling :: "'e web_env \<Rightarrow> target \<Rightarrow> 'e takeover_error + finding list" where
  "cname_dangling env t =
     (case chains env t of
        Inl e \<Rightarrow> Inl (ChainLookup e)
      | Inr cs \<Rightarrow> Inr (map (\<lambda>c. finding_with (cc_name c) [] [''cname'' \<mapsto> chain_String c])
          (filter (\<lambda>c. cc_dangling c \<and> \<not> is_claimed_elsewhere env c) cs)))"

subsection \<open>What the two checks report together\<close>

lemma chain_of_Inr:
  "chain_of env n = Inr cs \<Longrightarrow> c \<in> set cs \<Longrightarrow> cc_name c = n \<and> cc_targets c \<noteq> [] \<and>
    (\<exists>resp. we_lookup env n TypeA = Inr resp \<and> cc_dangling c = NXDomain resp)"
  by (auto simp: chain_of_def map_sum_Inr_iff split: if_splits)

lemma chain_names_distinct:
  "try_map (chain_of env) ns = Inr css \<Longrightarrow> distinct ns \<Longrightarrow>
    distinct (map cc_name (concat css)) \<and> cc_name ` set (concat css) \<subseteq> set ns"
proof (induction ns arbitrary: css)
  case (Cons n ns)
  then obtain cs css' where c: "chain_of env n = Inr cs" "try_map (chain_of env) ns = Inr css'" "css = cs # css'"
    by (auto split: sum.splits)
  have "map cc_name cs = [] \<or> map cc_name cs = [n]"
    using c(1) by (auto simp: chain_of_def map_sum_Inr_iff split: if_splits)
  then show ?case using Cons.IH [OF c(2)] Cons.prems(2) c(3) by fastforce
qed simp

lemma chains_distinct: "chains env t = Inr cs \<Longrightarrow> distinct (map cc_name cs)"
  using chain_names_distinct [OF _ distinct_sorted_unique]
  by (fastforce simp: chains_def takeoverNames_def map_sum_Inr_iff)

lemma takeover_of_subjects:
  "takeover_of env c = Inr fs \<Longrightarrow> map f_Subject fs = (if is_claimed_elsewhere env c then [cc_name c] else [])"
  by (auto simp: takeover_of_def is_claimed_elsewhere_def takeover_finding_def finding_with_def
      split: sum.splits option.splits prod.splits)

lemma takeover_subjects:
  "try_map (takeover_of env) cs = Inr fss \<Longrightarrow>
   map f_Subject (concat fss) = map cc_name (filter (is_claimed_elsewhere env) cs)"
proof (induction cs arbitrary: fss)
  case (Cons c cs)
  then show ?case by (cases "takeover_of env c") (auto split: sum.splits dest: takeover_of_subjects)
qed simp

text \<open>
  C29 A name whose CNAME target is gone is reported once: when both checks succeed, the names the
  takeover check reports are those whose resource can be claimed, the names the dangling check reports are
  the other chains whose target does not exist, no name occurs twice in either, and none in both. Each
  finding is about a chain the resolver returned.
\<close>

theorem takeover_and_dangling:
  assumes "takeover_possible env t = Inr fs" and "cname_dangling env t = Inr gs"
  shows "\<exists>cs. chains env t = Inr cs \<and>
    map f_Subject fs = map cc_name (filter (is_claimed_elsewhere env) cs) \<and>
    map f_Subject gs = map cc_name (filter (\<lambda>c. cc_dangling c \<and> \<not> is_claimed_elsewhere env c) cs) \<and>
    distinct (map f_Subject fs @ map f_Subject gs)"
proof -
  obtain cs where cs: "chains env t = Inr cs" using assms(1) by (auto simp: takeover_possible_def split: sum.splits)
  obtain fss where "try_map (takeover_of env) cs = Inr fss" "fs = concat fss"
    using assms(1) cs by (cases "try_map (takeover_of env) cs") (auto simp: takeover_possible_def)
  then have f: "map f_Subject fs = map cc_name (filter (is_claimed_elsewhere env) cs)"
    by (simp add: takeover_subjects)
  have g: "map f_Subject gs = map cc_name (filter (\<lambda>c. cc_dangling c \<and> \<not> is_claimed_elsewhere env c) cs)"
    using assms(2) cs by (auto simp: cname_dangling_def finding_with_def o_def)
  have d: "distinct (map cc_name cs)" by (rule chains_distinct [OF cs])
  have "inj_on cc_name (set cs)" using d by (simp add: distinct_map)
  then have "distinct (map f_Subject fs @ map f_Subject gs)"
    unfolding f g using d by (auto simp: distinct_map inj_on_def)
  then show ?thesis using cs f g by blast
qed

text \<open>www.a.test points at an app that was deleted, old.a.test elsewhere.\<close>

definition demo_cname :: "string \<Rightarrow> nat \<Rightarrow> unit + response" where
  "demo_cname name t = Inr \<lparr>rp_Name = name, rp_Type = t, rp_Rcode = (if name = ''a.test'' then 0 else 3), rp_Answer =
     (if name = ''www.a.test'' then [\<lparr>rr_Name = name, rr_Rrtype = 5, rr_Data = CNAME_data ''shop.AzureWebsites.net.''\<rparr>] else [])\<rparr>"

theorem takeover_and_dangling_witness:
  "\<exists>fs gs. takeover_possible (demo_web None\<lparr>we_lookup := demo_cname\<rparr>) (target_named ''a.test'') = Inr fs \<and>
     cname_dangling (demo_web None\<lparr>we_lookup := demo_cname\<rparr>) (target_named ''a.test'') = Inr gs \<and>
     map f_Subject fs = [''www.a.test''] \<and> distinct (map f_Subject fs @ map f_Subject gs)"
proof -
  have "(case takeover_possible (demo_web None\<lparr>we_lookup := demo_cname\<rparr>) (target_named ''a.test'') of
      Inr fs \<Rightarrow> map f_Subject fs = [''www.a.test''] | Inl _ \<Rightarrow> False)"
    "(case cname_dangling (demo_web None\<lparr>we_lookup := demo_cname\<rparr>) (target_named ''a.test'') of Inr gs \<Rightarrow> True | Inl _ \<Rightarrow> False)"
    by code_simp+
  then obtain fs gs where t: "takeover_possible (demo_web None\<lparr>we_lookup := demo_cname\<rparr>) (target_named ''a.test'') = Inr fs"
      "cname_dangling (demo_web None\<lparr>we_lookup := demo_cname\<rparr>) (target_named ''a.test'') = Inr gs"
      and m: "map f_Subject fs = [''www.a.test'']"
    by (auto split: sum.splits)
  have "distinct (map f_Subject fs @ map f_Subject gs)"
    using takeover_and_dangling [OF t] by (elim exE conjE)
  with t m show ?thesis by (intro exI conjI)
qed

end
