(* ===== verification/SetaTls.thy ===== *)
theory SetaTls
  imports SetaWeb
begin

text \<open>
  Package checks/tls: certificates, protocol versions and cipher suites of a target's hosts. What
  crypto/tls and crypto/x509 know (names of versions and suites, the list of suites, the match of a
  host name) and the text of a time are the parameters of \<open>tls_lib\<close>. The loop that offers the weak suites
  is a \<open>partial_function\<close>: that it returns rests on the server picking a suite of the offer, which
  crypto/tls enforces.
\<close>

record tls_lib =
  tl_VersionName :: "nat \<Rightarrow> string"
  tl_SuiteName :: "nat \<Rightarrow> string"
  tl_CipherSuites :: "(nat \<times> nat list) list"
  tl_InsecureSuites :: "(nat \<times> nat list) list"
  tl_VerifyHostname :: "cert \<Rightarrow> string \<Rightarrow> bool"
  tl_TimeText :: "int \<Rightarrow> string"

definition VersionTLS13 :: nat where "VersionTLS13 = 0x304"

definition expiringDays :: int where "expiringDays = 21"

definition urgentDays :: int where "urgentDays = 7"

definition handshakes :: "'e web_env \<Rightarrow> target \<Rightarrow> 'e web_error + handshake list" where
  "handshakes env t = web_Each (web_TLS env) (TLSHosts env t)"

definition with_handshakes ::
  "'e web_env \<Rightarrow> target \<Rightarrow> (handshake \<Rightarrow> finding list) \<Rightarrow> 'e web_error + finding list" where
  "with_handshakes env t judge = map_sum id (\<lambda>hs. concat (map judge hs)) (handshakes env t)"

definition cert_evidence :: "tls_lib \<Rightarrow> cert \<Rightarrow> evidence" where
  "cert_evidence lib c =
     [''subject'' \<mapsto> ct_CommonName c, ''issuer'' \<mapsto> ct_Issuer c, ''not_after'' \<mapsto> tl_TimeText lib (ct_NotAfter c)]"

subsection \<open>Certificates\<close>

definition cert_invalid :: "'e web_env \<Rightarrow> tls_lib \<Rightarrow> handshake \<Rightarrow> finding list" where
  "cert_invalid env lib h =
     (case web_Verify env (hs_Chain h) of
        None \<Rightarrow> []
      | Some e \<Rightarrow>
        (case hs_Chain h of
           [] \<Rightarrow> [finding_with (host_String (hs_Host h)) [] [''error'' \<mapsto> e]]
         | leaf # _ \<Rightarrow>
             let f = finding_with (host_String (hs_Host h)) [] ((cert_evidence lib leaf)(''error'' \<mapsto> e))
             in [if \<not> we_now env < ct_NotAfter leaf
                 then f\<lparr>f_Severity := SeverityCritical, f_Title := ''Certificate has expired''\<rparr> else f]))"

definition hostname_mismatch :: "tls_lib \<Rightarrow> handshake \<Rightarrow> finding list" where
  "hostname_mismatch lib h =
     (case hs_Chain h of
        [] \<Rightarrow> []
      | leaf # _ \<Rightarrow>
          if tl_VerifyHostname lib leaf (h_Name (hs_Host h)) then []
          else [finding_with (host_String (hs_Host h)) [] [''certificate_names'' \<mapsto>
                  comma (if ct_DNSNames leaf = [] then [ct_CommonName leaf] else ct_DNSNames leaf)]])"

definition cert_expiring :: "'e web_env \<Rightarrow> tls_lib \<Rightarrow> handshake \<Rightarrow> finding list" where
  "cert_expiring env lib h =
     (case hs_Chain h of
        [] \<Rightarrow> []
      | leaf # _ \<Rightarrow>
          let left = ct_NotAfter leaf - we_now env in
          if left \<le> 0 \<or> expiringDays * day < left then []
          else
            let f = finding_with (host_String (hs_Host h)) []
                  ((cert_evidence lib leaf)(''days_left'' \<mapsto> itoa (days_left left)))
            in [if left \<le> urgentDays * day then f\<lparr>f_Severity := SeverityHigh\<rparr> else f])"

subsection \<open>Protocol versions\<close>

definition no_modern :: "tls_lib \<Rightarrow> handshake \<Rightarrow> finding list" where
  "no_modern lib h =
     (if hs_Version h < VersionTLS12
      then [finding_with (host_String (hs_Host h)) [] [''negotiated'' \<mapsto> tl_VersionName lib (hs_Version h)]] else [])"

definition allCiphers :: "tls_lib \<Rightarrow> nat list" where
  "allCiphers lib = map fst (tl_CipherSuites lib @ tl_InsecureSuites lib)"

definition accepts_version :: "'e web_env \<Rightarrow> host \<Rightarrow> nat \<Rightarrow> nat list \<Rightarrow> 'e web_error + bool" where
  "accepts_version env h v ciphers =
     (case Connect env h \<lparr>tc_MinVersion = v, tc_MaxVersion = Some v, tc_CipherSuites = Some ciphers\<rparr> of
        Inl e \<Rightarrow> if is_handshake_error e then Inr False else Inl e
      | Inr _ \<Rightarrow> Inr True)"

fun accepted_versions :: "'e web_env \<Rightarrow> tls_lib \<Rightarrow> host \<Rightarrow> nat list \<Rightarrow> 'e web_error + string list" where
  "accepted_versions env lib h [] = Inr []"
| "accepted_versions env lib h (v # vs) =
     (case accepts_version env h v (allCiphers lib) of
        Inl e \<Rightarrow> Inl e
      | Inr ok \<Rightarrow> map_sum id (\<lambda>ns. if ok then tl_VersionName lib v # ns else ns) (accepted_versions env lib h vs))"

definition old_versions :: "'e web_env \<Rightarrow> tls_lib \<Rightarrow> host \<Rightarrow> 'e web_error + host \<times> string list" where
  "old_versions env lib h =
     (case web_TLS env h of
        Inl e \<Rightarrow> Inl e
      | Inr _ \<Rightarrow> map_sum id (Pair h) (accepted_versions env lib h [VersionTLS10, VersionTLS11]))"

definition protocol_deprecated :: "'e web_env \<Rightarrow> tls_lib \<Rightarrow> target \<Rightarrow> 'e web_error + finding list" where
  "protocol_deprecated env lib t =
     map_sum id (\<lambda>rs. concat (map (\<lambda>(h, vs). if vs \<noteq> []
         then [finding_with (host_String h) [] [''accepted'' \<mapsto> comma vs]] else []) rs))
       (web_Each (old_versions env lib) (TLSHosts env t))"

subsection \<open>Weak cipher suites\<close>

definition weak_offer :: "tls_lib \<Rightarrow> nat list" where
  "weak_offer lib = map fst (filter (\<lambda>s. VersionTLS13 \<notin> set (snd s)) (tl_InsecureSuites lib))"

definition offer_config :: "nat list \<Rightarrow> tls_config" where
  "offer_config offer =
     \<lparr>tc_MinVersion = VersionTLS10, tc_MaxVersion = Some VersionTLS12, tc_CipherSuites = Some offer\<rparr>"

partial_function (option) offer_loop ::
  "'e web_env \<Rightarrow> tls_lib \<Rightarrow> host \<Rightarrow> nat list \<Rightarrow> string list \<Rightarrow> ('e web_error + string list) option" where
  "offer_loop env lib h offer suites =
     (if offer = [] then Some (Inr suites)
      else case Connect env h (offer_config offer) of
          Inl e \<Rightarrow> Some (if is_handshake_error e then Inr suites else Inl e)
        | Inr st \<Rightarrow>
            offer_loop env lib h (filter (\<lambda>c. c \<noteq> ts_CipherSuite st) offer)
              (suites @ [tl_SuiteName lib (ts_CipherSuite st)]))"

declare offer_loop.simps [code]

text \<open>None: the loop does not return.\<close>

definition weak_suites :: "'e web_env \<Rightarrow> tls_lib \<Rightarrow> host \<Rightarrow> ('e web_error + host \<times> string list) option" where
  "weak_suites env lib h =
     (case web_TLS env h of
        Inl e \<Rightarrow> Some (Inl e)
      | Inr _ \<Rightarrow> map_option (map_sum id (Pair h)) (offer_loop env lib h (weak_offer lib) []))"

definition is_broken_suite :: "string \<Rightarrow> bool" where
  "is_broken_suite s \<longleftrightarrow> contains_sub s ''RC4'' \<or> contains_sub s ''3DES''"

definition weak_suite_finding :: "host \<times> string list \<Rightarrow> finding list" where
  "weak_suite_finding r = (case r of (h, suites) \<Rightarrow>
     if suites = [] then []
     else [(finding_with (host_String h) [] [''accepted'' \<mapsto> comma (sort_func str_compare suites)])
            \<lparr>f_Severity := (if list_ex is_broken_suite suites then SeverityMedium else SeverityLow)\<rparr>])"

text \<open>None when the loop of one host does not return, as \<open>Each\<close> waits for all of them.\<close>

definition cipher_weak :: "'e web_env \<Rightarrow> tls_lib \<Rightarrow> target \<Rightarrow> ('e web_error + finding list) option" where
  "cipher_weak env lib t =
     (let hosts = TLSHosts env t in
      if list_ex (\<lambda>h. weak_suites env lib h = None) hosts then None
      else Some (map_sum id (\<lambda>rs. concat (map weak_suite_finding rs))
        (web_Each (\<lambda>h. the (weak_suites env lib h)) hosts)))"

subsection \<open>The checks of the module\<close>

definition tls_checks :: "'e web_env \<Rightarrow> tls_lib \<Rightarrow> target \<Rightarrow> (string \<times> ('e web_error + finding list) option) list" where
  "tls_checks env lib t =
     [(''tls.cert.invalid'', Some (with_handshakes env t (cert_invalid env lib))),
      (''tls.cert.hostname_mismatch'', Some (with_handshakes env t (hostname_mismatch lib))),
      (''tls.cert.expiring'', Some (with_handshakes env t (cert_expiring env lib))),
      (''tls.protocol.no_modern'', Some (with_handshakes env t (no_modern lib))),
      (''tls.protocol.deprecated'', Some (protocol_deprecated env lib t)),
      (''tls.cipher.weak'', cipher_weak env lib t)]"

subsection \<open>The loop returns, and what it found\<close>

definition honours_offer :: "'e web_env \<Rightarrow> bool" where
  "honours_offer env \<longleftrightarrow> (\<forall>h cfg st offer. we_handshake env h cfg = Inr st \<and> tc_CipherSuites cfg = Some offer \<and>
     tc_MaxVersion cfg = Some VersionTLS12 \<longrightarrow> ts_CipherSuite st \<in> set offer)"

lemma Connect_offer:
  assumes "honours_offer env" "Connect env h (offer_config offer) = Inr st"
  shows "ts_CipherSuite st \<in> set offer"
proof -
  have "we_handshake env h (offer_config offer) = Inr st"
    using assms(2) by (auto simp: Connect_def split: option.splits sum.splits)
  then show ?thesis using assms(1) unfolding honours_offer_def by (fastforce simp: offer_config_def)
qed

text \<open>What the loop leaves: suites the server took one after the other, and a rest it refuses.\<close>

definition refuses :: "'e web_env \<Rightarrow> host \<Rightarrow> nat list \<Rightarrow> bool" where
  "refuses env h offer \<longleftrightarrow> offer = [] \<or> (\<exists>e. Connect env h (offer_config offer) = Inl e \<and> is_handshake_error e)"

lemma offer_loop_result:
  assumes "honours_offer env"
  shows "\<exists>r. offer_loop env lib h offer suites = Some r \<and>
    (case r of
       Inl e \<Rightarrow> \<not> is_handshake_error e
     | Inr found \<Rightarrow> \<exists>ids. found = suites @ map (tl_SuiteName lib) ids \<and> distinct ids \<and> set ids \<subseteq> set offer \<and>
         refuses env h (filter (\<lambda>c. c \<notin> set ids) offer))"
proof (induction "length offer" arbitrary: offer suites rule: less_induct)
  case less
  show ?case
  proof (cases "offer = []")
    case True
    then show ?thesis by (subst offer_loop.simps) (auto simp: refuses_def)
  next
    case False
    show ?thesis
    proof (cases "Connect env h (offer_config offer)")
      case (Inl e)
      then show ?thesis using False by (subst offer_loop.simps) (auto simp: refuses_def intro!: exI [of _ "[]"])
    next
      case (Inr st)
      let ?c = "ts_CipherSuite st"
      let ?rest = "filter (\<lambda>c. c \<noteq> ?c) offer"
      have c: "?c \<in> set offer" by (rule Connect_offer [OF assms Inr])
      then have "length ?rest < length offer" by (simp add: length_filter_less)
      from less [OF this, of "suites @ [tl_SuiteName lib ?c]"] obtain r where
        r: "offer_loop env lib h ?rest (suites @ [tl_SuiteName lib ?c]) = Some r"
          "case r of Inl e \<Rightarrow> \<not> is_handshake_error e
           | Inr found \<Rightarrow> \<exists>ids. found = (suites @ [tl_SuiteName lib ?c]) @ map (tl_SuiteName lib) ids \<and> distinct ids \<and>
               set ids \<subseteq> set ?rest \<and> refuses env h (filter (\<lambda>c. c \<notin> set ids) ?rest)"
        by blast
      have loop: "offer_loop env lib h offer suites = Some r"
        using r(1) False Inr by (subst offer_loop.simps) simp
      show ?thesis
      proof (cases r)
        case (Inl e)
        then show ?thesis using loop r(2) by simp
      next
        case (Inr found)
        then obtain ids where ids: "found = (suites @ [tl_SuiteName lib ?c]) @ map (tl_SuiteName lib) ids" "distinct ids"
          "set ids \<subseteq> set ?rest" "refuses env h (filter (\<lambda>c. c \<notin> set ids) ?rest)"
          using r(2) by auto
        have "filter (\<lambda>c. c \<notin> set (?c # ids)) offer = filter (\<lambda>c. c \<notin> set ids) ?rest"
          by (simp add: conj_commute)
        then show ?thesis using loop Inr ids c by (auto intro!: exI [of _ "?c # ids"])
      qed
    qed
  qed
qed

text \<open>
  C30 The search for weak cipher suites ends and is complete: with a TLS library that only accepts a suite it
  offered, the loop returns; without an error it has found suites of the offer, none twice, and what is left
  of the offer is refused by the server as a whole.
\<close>

theorem offer_loop_complete:
  assumes "honours_offer env"
  shows "\<exists>r. offer_loop env lib h (weak_offer lib) [] = Some r \<and>
    (case r of
       Inl e \<Rightarrow> \<not> is_handshake_error e
     | Inr found \<Rightarrow> \<exists>ids. found = map (tl_SuiteName lib) ids \<and> distinct ids \<and> set ids \<subseteq> set (weak_offer lib) \<and>
         refuses env h (filter (\<lambda>c. c \<notin> set ids) (weak_offer lib)))"
  using offer_loop_result [OF assms, of lib h "weak_offer lib" "[]", unfolded append_Nil] .

text \<open>A server that takes the suites 5 and 10, whatever else it is offered.\<close>

definition demo_tls :: "unit web_env" where
  "demo_tls = demo_web None\<lparr>we_handshake := (\<lambda>h cfg.
     case filter (\<lambda>c. c \<in> {5, 10}) (case tc_CipherSuites cfg of Some cs \<Rightarrow> cs | None \<Rightarrow> [5]) of
       [] \<Rightarrow> Inl ''handshake failure''
     | c # _ \<Rightarrow> Inr \<lparr>ts_Version = VersionTLS12, ts_CipherSuite = c, ts_PeerCertificates = []\<rparr>)\<rparr>"

definition demo_lib :: tls_lib where
  "demo_lib = \<lparr>tl_VersionName = nat_digits, tl_SuiteName = nat_digits, tl_CipherSuites = [],
     tl_InsecureSuites = [(5, []), (7, []), (10, [])], tl_VerifyHostname = (\<lambda>_ _. True), tl_TimeText = itoa\<rparr>"

theorem offer_loop_complete_witness:
  "\<exists>r. offer_loop demo_tls demo_lib (named_host ''a.test'') (weak_offer demo_lib) [] = Some r \<and>
    (case r of
       Inl e \<Rightarrow> \<not> is_handshake_error e
     | Inr found \<Rightarrow> \<exists>ids. found = map (tl_SuiteName demo_lib) ids \<and> distinct ids \<and> set ids \<subseteq> set (weak_offer demo_lib) \<and>
         refuses demo_tls (named_host ''a.test'') (filter (\<lambda>c. c \<notin> set ids) (weak_offer demo_lib)))"
proof (rule offer_loop_complete)
  have pick: "c \<in> set cs" if "filter P cs = c # ds" for P c ds and cs :: "nat list"
    using that by (induction cs) (auto split: if_splits)
  show "honours_offer demo_tls"
    unfolding honours_offer_def
  proof (intro allI impI, elim conjE)
    fix h :: host and cfg st offer
    assume "we_handshake demo_tls h cfg = Inr st" and "tc_CipherSuites cfg = Some offer"
    then obtain ds where "filter (\<lambda>c. c \<in> {5, 10}) offer = ts_CipherSuite st # ds"
      by (auto simp: demo_tls_def split: list.splits)
    then show "ts_CipherSuite st \<in> set offer" by (rule pick)
  qed
qed

end
