(* ===== verification/SetaHttp.thy ===== *)
theory SetaHttp
  imports SetaWeb SetaRunes
begin

text \<open>
  Package checks/http: redirects to HTTPS, HSTS, security headers and exposed files. \<open>media\<close> is the
  media type mime.ParseMediaType finds in a header value (empty for none). The regular expressions are written
  out, on ASCII. The memo is left out (see SetaMemo and \<open>get_key\<close>).
\<close>

subsection \<open>HSTS\<close>

definition hstsMinAge :: int where "hstsMinAge = 180 * 24 * 3600"

definition hstsPreloadAge :: int where "hstsPreloadAge = 365 * 24 * 3600"

record hsts =
  hp_raw :: string
  hp_maxAge :: int
  hp_includeSubDomains :: bool
  hp_preload :: bool
  hp_invalid :: string

definition trim_quotes :: "string \<Rightarrow> string" where
  "trim_quotes s = trim_right_by (\<lambda>c. c = CHR 0x22) (trim_left_by (\<lambda>c. c = CHR 0x22) s)"

definition max_age_value :: "string \<Rightarrow> int option" where
  "max_age_value val =
     (case atoi (trim_quotes (trim_space val)) of None \<Rightarrow> None | Some n \<Rightarrow> if n < 0 then None else Some n)"

definition directive_of :: "string \<Rightarrow> string \<times> string" where
  "directive_of d = (case cut CHR ''='' (trim_space d) of (name, val, _) \<Rightarrow> (to_lower (trim_space name), val))"

definition set_directive :: "string \<times> string \<Rightarrow> hsts \<Rightarrow> hsts" where
  "set_directive d h =
     (case d of (name, val) \<Rightarrow>
      if name = ''max-age'' then
        (case max_age_value val of
           None \<Rightarrow> h\<lparr>hp_invalid := ''invalid max-age '' @ go_quote val\<rparr>
         | Some n \<Rightarrow> h\<lparr>hp_maxAge := n\<rparr>)
      else if name = ''includesubdomains'' then h\<lparr>hp_includeSubDomains := True\<rparr>
      else if name = ''preload'' then h\<lparr>hp_preload := True\<rparr>
      else h)"

fun hsts_directives :: "string list \<Rightarrow> (string \<times> string) list \<Rightarrow> hsts \<Rightarrow> hsts" where
  "hsts_directives seen [] h = h"
| "hsts_directives seen (d # ds) h =
     (if fst d = [] then hsts_directives seen ds h
      else hsts_directives (fst d # seen) ds
        (set_directive d (if fst d \<in> set seen
           then h\<lparr>hp_invalid := ''directive '' @ fst d @ '' appears more than once''\<rparr> else h)))"

definition parseHSTS :: "string \<Rightarrow> hsts" where
  "parseHSTS v =
     (let h = hsts_directives [] (map directive_of (split_on CHR '';'' v))
            \<lparr>hp_raw = v, hp_maxAge = -1, hp_includeSubDomains = False, hp_preload = False, hp_invalid = []\<rparr>
      in if hp_maxAge h < 0 \<and> hp_invalid h = [] then h\<lparr>hp_invalid := ''no max-age directive''\<rparr> else h)"

definition STS :: string where "STS = ''Strict-Transport-Security''"

definition same_host :: "host \<Rightarrow> page_url \<Rightarrow> bool" where
  "same_host h next \<longleftrightarrow> pu_Scheme next = ''https'' \<and> equal_fold (pu_Host next) (host_String h)"

definition host_url :: "host \<Rightarrow> string" where
  "host_url h = ''https://'' @ host_String h @ ''/''"

definition https_response :: "'e web_env \<Rightarrow> host \<Rightarrow> 'e web_error + host \<times> web_response" where
  "https_response env h =
     (case web_Get env h (host_url h) None of
        Inl e \<Rightarrow> Inl e
      | Inr r \<Rightarrow>
          if ws_Header r STS \<noteq> [] then Inr (h, r)
          else case Location env r of
              None \<Rightarrow> Inr (h, r)
            | Some next \<Rightarrow>
                if \<not> same_host h next then Inl Absent
                else case web_Get env h (host_url h) (Some (same_host h)) of
                    Inl e \<Rightarrow> Inl e
                  | Inr r' \<Rightarrow> if Location env r' \<noteq> None \<and> ws_Header r' STS = [] then Inl Absent else Inr (h, r'))"

definition httpsResponses :: "'e web_env \<Rightarrow> target \<Rightarrow> 'e web_error + (host \<times> web_response) list" where
  "httpsResponses env t = web_Each (https_response env) (TLSHosts env t)"

definition hsts_missing :: "host \<times> web_response \<Rightarrow> finding list" where
  "hsts_missing x = (case x of (h, r) \<Rightarrow>
     if ws_Header r STS = [] then [finding_with (host_String h) [] [''status'' \<mapsto> nat_digits (ws_Status r)]] else [])"

definition hsts_weak :: "host \<times> web_response \<Rightarrow> finding list" where
  "hsts_weak x = (case x of (h, r) \<Rightarrow>
     let v = ws_Header r STS; p = parseHSTS v in
     if v = [] then []
     else if hp_invalid p \<noteq> [] then [finding_with (host_String h) [] [''header'' \<mapsto> v, ''problem'' \<mapsto> hp_invalid p]]
     else if hp_maxAge p < hstsMinAge
       then [finding_with (host_String h) [] [''header'' \<mapsto> v, ''max_age'' \<mapsto> itoa (hp_maxAge p)]]
     else [])"

definition with_https ::
  "'e web_env \<Rightarrow> target \<Rightarrow> (host \<times> web_response \<Rightarrow> finding list) \<Rightarrow> 'e web_error + finding list" where
  "with_https env t judge = map_sum id (\<lambda>rs. concat (map judge rs)) (httpsResponses env t)"

definition preload_redirects :: "'e web_env \<Rightarrow> string \<Rightarrow> web_response \<Rightarrow> bool" where
  "preload_redirects env name plain \<longleftrightarrow> 300 \<le> ws_Status plain \<and> ws_Status plain \<le> 399 \<and>
     (case we_parse env (ws_Header plain ''Location'') of
        None \<Rightarrow> False
      | Some loc \<Rightarrow> pu_Scheme loc = ''https'' \<and> equal_fold (pu_Hostname loc) name)"

definition preload_problems :: "hsts \<Rightarrow> string list" where
  "preload_problems h =
     (if hp_maxAge h < hstsPreloadAge then [''max-age '' @ itoa (hp_maxAge h) @ '' is under 31536000''] else []) @
     (if \<not> hp_includeSubDomains h then [''no includeSubDomains''] else [])"

definition preload_not_ready :: "'e web_env \<Rightarrow> target \<Rightarrow> 'e web_error + finding list" where
  "preload_not_ready env t =
     (let name = t_Name t; url = ''https://'' @ name @ ''/''; plain_url = ''http://'' @ name @ ''/'' in
      case web_Get env \<lparr>h_Name = name, h_Port = 443, h_Explicit = False\<rparr> url None of
        Inl e \<Rightarrow> if e = Absent then Inr [] else Inl e
      | Inr r \<Rightarrow>
        let v = ws_Header r STS; h = parseHSTS v in
        if \<not> hp_preload h then Inr []
        else
          let report = (\<lambda>problems. if problems = [] then []
                else [finding_with name [] [''header'' \<mapsto> v, ''problems'' \<mapsto> join ''; '' problems]])
          in case web_Get env \<lparr>h_Name = name, h_Port = 80, h_Explicit = False\<rparr> plain_url None of
              Inl e \<Rightarrow> if is_connect_error e \<or> e = Absent then Inr (report (preload_problems h)) else Inl e
            | Inr plain \<Rightarrow> Inr (report (preload_problems h @
                (if preload_redirects env name plain then []
                 else [plain_url @ '' doesn't redirect to '' @ url @ '' first'']))))"

subsection \<open>Redirects to HTTPS\<close>

definition redirect_arrow :: string where
  "redirect_arrow = [CHR '' '', CHR 0xE2, CHR 0x86, CHR 0x92, CHR '' '']"

definition plain_response :: "'e web_env \<Rightarrow> host \<Rightarrow> 'e web_error + host \<times> web_response" where
  "plain_response env h =
     (case web_Get env \<lparr>h_Name = h_Name h, h_Port = 80, h_Explicit = False\<rparr> (''http://'' @ h_Name h @ ''/'')
          (Some (\<lambda>next. pu_Scheme next = ''http'')) of
        Inl e \<Rightarrow> Inl (if is_connect_error e then Absent else e)
      | Inr r \<Rightarrow> Inr (h, r))"

definition redirect_finding :: "'e web_env \<Rightarrow> host \<times> web_response \<Rightarrow> finding list" where
  "redirect_finding env x = (case x of (h, r) \<Rightarrow>
     if (case Location env r of Some next \<Rightarrow> pu_Scheme next = ''https'' | None \<Rightarrow> False) then []
     else
       let ev = [''status'' \<mapsto> nat_digits (ws_Status r), ''final_url'' \<mapsto> ws_URL r]
       in [finding_with (h_Name h) []
            (if ws_Redirects r \<noteq> [] then ev(''redirects'' \<mapsto> join redirect_arrow (ws_Redirects r)) else ev)])"

definition redirect_missing :: "'e web_env \<Rightarrow> target \<Rightarrow> 'e web_error + finding list" where
  "redirect_missing env t =
     map_sum id (\<lambda>rs. concat (map (redirect_finding env) rs))
       (web_Each (plain_response env) (filter (\<lambda>h. h_Port h = 443) (TLSHosts env t)))"

subsection \<open>Pages and their headers\<close>

datatype 'e page_error = NilURL | PageFetch "'e web_error" | PageStatus string nat

record page =
  pg_subject :: string
  pg_resp :: web_response
  pg_html :: bool

definition inScope :: "target \<Rightarrow> string \<Rightarrow> bool" where
  "inScope t host0 \<longleftrightarrow>
     (let host = to_lower host0 in
      host = t_Name t \<or> has_suffix host (''.'' @ t_Name t) \<or>
      list_ex (\<lambda>h. h_Name h = host) (case t_Hosts t of None \<Rightarrow> [] | Some hs \<Rightarrow> hs))"

definition fetch_page :: "'e web_env \<Rightarrow> target \<Rightarrow> page_ref \<Rightarrow> 'e web_error + page_ref \<times> web_response" where
  "fetch_page env t p =
     map_sum id (Pair p) (web_Get env (snd p) (fst p) (Some (\<lambda>next. inScope t (pu_Hostname next))))"

definition page_subject :: "page_url \<Rightarrow> string" where
  "page_subject final = pu_Host final @ (if pu_Path final \<noteq> [] \<and> pu_Path final \<noteq> ''/'' then pu_Path final else [])"

definition is_html :: "string \<Rightarrow> bool" where
  "is_html mt \<longleftrightarrow> mt = ''text/html'' \<or> mt = ''application/xhtml+xml''"

fun collect_pages ::
  "'e web_env \<Rightarrow> (string \<Rightarrow> string) \<Rightarrow> target \<Rightarrow> string list \<Rightarrow> (page_ref \<times> web_response) list \<Rightarrow> 'e page_error + page list" where
  "collect_pages env media t seen [] = Inr []"
| "collect_pages env media t seen ((p, r) # rs) =
     (if ws_Status r < 200 \<or> 299 < ws_Status r then
        (if h_Explicit (snd p) \<and> 400 \<le> ws_Status r then Inl (PageStatus (fst p) (ws_Status r))
         else collect_pages env media t seen rs)
      else case we_parse env (ws_URL r) of
          None \<Rightarrow> Inl NilURL
        | Some final \<Rightarrow>
            if \<not> inScope t (pu_Hostname final) \<or> ws_URL r \<in> set seen then collect_pages env media t seen rs
            else map_sum id (\<lambda>ps. \<lparr>pg_subject = page_subject final, pg_resp = r,
                  pg_html = is_html (media (ws_Header r ''Content-Type''))\<rparr> # ps)
              (collect_pages env media t (ws_URL r # seen) rs))"

definition pages :: "'e web_env \<Rightarrow> (string \<Rightarrow> string) \<Rightarrow> target \<Rightarrow> 'e page_error + page list" where
  "pages env media t =
     (if None \<in> set (Pages env t) then Inl NilURL
      else case web_Each (fetch_page env t) (map the (Pages env t)) of
          Inl e \<Rightarrow> Inl (PageFetch e)
        | Inr rs \<Rightarrow> collect_pages env media t [] rs)"

definition header_findings :: "bool \<Rightarrow> ((string \<Rightarrow> string) \<Rightarrow> bool) \<Rightarrow> page list \<Rightarrow> finding list" where
  "header_findings htmlOnly missing ps =
     map (\<lambda>p. finding_with (pg_subject p) [] [''url'' \<mapsto> ws_URL (pg_resp p)])
       (filter (\<lambda>p. (htmlOnly \<longrightarrow> pg_html p) \<and> missing (ws_Header (pg_resp p))) ps)"

definition headerCheck ::
  "'e web_env \<Rightarrow> (string \<Rightarrow> string) \<Rightarrow> bool \<Rightarrow> ((string \<Rightarrow> string) \<Rightarrow> bool) \<Rightarrow> target \<Rightarrow> 'e page_error + finding list" where
  "headerCheck env media htmlOnly missing t =
     map_sum id (header_findings htmlOnly missing) (pages env media t)"

definition csp_missing :: "(string \<Rightarrow> string) \<Rightarrow> bool" where
  "csp_missing h \<longleftrightarrow> h ''Content-Security-Policy'' = []"

text \<open>White space of a regular expression.\<close>

definition re_space :: "char \<Rightarrow> bool" where
  "re_space c \<longleftrightarrow> byte c \<in> {9, 10, 12, 13, 32}"

definition frame_directive :: "string \<Rightarrow> bool" where
  "frame_directive s \<longleftrightarrow>
     (let r = dropWhile re_space s in
      equal_fold (take 15 r) ''frame-ancestors'' \<and> drop 15 r \<noteq> [] \<and> re_space (hd (drop 15 r)))"

text \<open>The directive at the start or after a semicolon.\<close>

definition frameAncestors :: "string \<Rightarrow> bool" where
  "frameAncestors s \<longleftrightarrow> list_ex (\<lambda>i. (i = 0 \<or> s ! (i - 1) = CHR '';'') \<and> frame_directive (drop i s)) [0..<Suc (length s)]"

definition frame_protection_missing :: "(string \<Rightarrow> string) \<Rightarrow> bool" where
  "frame_protection_missing h \<longleftrightarrow>
     (let xfo = to_upper (trim_space (h ''X-Frame-Options'')) in
      xfo \<noteq> ''DENY'' \<and> xfo \<noteq> ''SAMEORIGIN'' \<and> \<not> frameAncestors (h ''Content-Security-Policy''))"

definition nosniff_missing :: "(string \<Rightarrow> string) \<Rightarrow> bool" where
  "nosniff_missing h \<longleftrightarrow> \<not> equal_fold (trim_space (h ''X-Content-Type-Options'')) ''nosniff''"

definition referrer_policy_missing :: "(string \<Rightarrow> string) \<Rightarrow> bool" where
  "referrer_policy_missing h \<longleftrightarrow> h ''Referrer-Policy'' = []"

subsection \<open>Exposed files\<close>

definition re_word :: "char \<Rightarrow> bool" where
  "re_word c \<longleftrightarrow> is_lower c \<or> is_upper c \<or> is_digit c \<or> c = CHR ''_''"

definition hex_lower :: "char \<Rightarrow> bool" where
  "hex_lower c \<longleftrightarrow> is_digit c \<or> c \<in> set ''abcdef''"

definition gitRef :: "string \<Rightarrow> bool" where
  "gitRef s \<longleftrightarrow>
     (case cut_prefix s ''ref: refs/'' of
        Some r \<Rightarrow> r \<noteq> [] \<and> list_all (\<lambda>c. \<not> re_space c) r
      | None \<Rightarrow> length s \<in> {40, 64} \<and> list_all hex_lower s)"

definition match_git :: "string \<Rightarrow> evidence option" where
  "match_git body =
     (let line = fst (cut CHR 0x0A (trim_space body)) in if gitRef line then Some [''content'' \<mapsto> line] else None)"

text \<open>An identifier followed by white space and an equals sign.\<close>

definition assigned :: "string \<Rightarrow> string option" where
  "assigned s =
     (let name = takeWhile re_word s; rest = dropWhile re_space (drop (length name) s) in
      if name \<noteq> [] \<and> \<not> is_digit (hd name) \<and> rest \<noteq> [] \<and> hd rest = CHR ''='' then Some name else None)"

text \<open>The optional word export is tried first.\<close>

definition envLine :: "string \<Rightarrow> string option" where
  "envLine s =
     (case cut_prefix s ''export'' of
        None \<Rightarrow> assigned s
      | Some r \<Rightarrow>
          if r \<noteq> [] \<and> re_space (hd r) \<and> assigned (dropWhile re_space r) \<noteq> None
          then assigned (dropWhile re_space r) else assigned s)"

definition env_lines :: "string \<Rightarrow> string list" where
  "env_lines body = filter (\<lambda>l. l \<noteq> [] \<and> hd l \<noteq> CHR ''#'') (map trim_space (split_on CHR 0x0A body))"

definition shown_names :: "string list \<Rightarrow> string list" where
  "shown_names names = (if 8 < length names then take 8 names @ [ellipsis] else names)"

definition match_env :: "string \<Rightarrow> evidence option" where
  "match_env body =
     (let found = map envLine (env_lines body) in
      if None \<in> set found \<or> found = [] then None
      else Some [''variables'' \<mapsto> comma (shown_names (map the found))])"

definition sensitivePaths :: "(string \<times> severity \<times> (string \<Rightarrow> evidence option)) list" where
  "sensitivePaths = [(''/.git/HEAD'', SeverityHigh, match_git), (''/.env'', SeverityCritical, match_env)]"

definition probe_path ::
  "'e web_env \<Rightarrow> (string \<Rightarrow> string) \<Rightarrow> host \<times> string \<times> severity \<times> (string \<Rightarrow> evidence option) \<Rightarrow>
   'e web_error + finding option" where
  "probe_path env media p =
     (case p of (h, path, sev, matches) \<Rightarrow>
      let url = ''https://'' @ host_String h @ path in
      case web_Get env h url None of
        Inl e \<Rightarrow> Inl e
      | Inr r \<Rightarrow>
          if ws_Status r \<noteq> 200 \<or> media (ws_Header r ''Content-Type'') = ''text/html'' then Inr None
          else case matches (ws_Body r) of
              None \<Rightarrow> Inr None
            | Some ev \<Rightarrow> Inr (Some ((finding_with (host_String h @ path) [] (ev(''url'' \<mapsto> url)))\<lparr>f_Severity := sev\<rparr>)))"

definition sensitive_path :: "'e web_env \<Rightarrow> (string \<Rightarrow> string) \<Rightarrow> target \<Rightarrow> 'e web_error + finding list" where
  "sensitive_path env media t =
     map_sum id (\<lambda>fs. concat (map (\<lambda>f. case f of None \<Rightarrow> [] | Some f \<Rightarrow> [f]) fs))
       (web_Each (probe_path env media)
         (concat (map (\<lambda>h. map (Pair h) sensitivePaths) (TLSHosts env t))))"

subsection \<open>What HSTS parsing accepts\<close>

definition named_directives :: "string \<Rightarrow> (string \<times> string) list" where
  "named_directives v = filter (\<lambda>d. fst d \<noteq> []) (map directive_of (split_on CHR '';'' v))"

definition max_ages :: "(string \<times> string) list \<Rightarrow> int option list" where
  "max_ages ds = map (\<lambda>d. max_age_value (snd d)) (filter (\<lambda>d. fst d = ''max-age'') ds)"

lemma max_age_value_nonneg: "max_age_value v = Some n \<Longrightarrow> 0 \<le> n"
  by (auto simp: max_age_value_def split: option.splits if_splits)

lemma set_directive_simps:
  "fst d \<noteq> ''max-age'' \<Longrightarrow> hp_invalid (set_directive d h) = hp_invalid h"
  "fst d \<noteq> ''max-age'' \<Longrightarrow> hp_maxAge (set_directive d h) = hp_maxAge h"
  "fst d = ''max-age'' \<Longrightarrow> max_age_value (snd d) = Some n \<Longrightarrow> hp_invalid (set_directive d h) = hp_invalid h"
  "fst d = ''max-age'' \<Longrightarrow> max_age_value (snd d) = Some n \<Longrightarrow> hp_maxAge (set_directive d h) = n"
  "fst d = ''max-age'' \<Longrightarrow> max_age_value (snd d) = None \<Longrightarrow> hp_invalid (set_directive d h) \<noteq> []"
  "hp_includeSubDomains (set_directive d h) = (hp_includeSubDomains h \<or> fst d = ''includesubdomains'')"
  "hp_preload (set_directive d h) = (hp_preload h \<or> fst d = ''preload'')"
  by (cases d; auto simp: set_directive_def split: option.splits)+

lemma hsts_directives_flags:
  "hp_includeSubDomains (hsts_directives seen ds h) =
     (hp_includeSubDomains h \<or> ''includesubdomains'' \<in> fst ` set ds)"
  "hp_preload (hsts_directives seen ds h) = (hp_preload h \<or> ''preload'' \<in> fst ` set ds)"
  by (induction seen ds h rule: hsts_directives.induct) (auto simp: set_directive_simps)

lemma hsts_directives_skip:
  "hsts_directives seen ds h = hsts_directives seen (filter (\<lambda>d. fst d \<noteq> []) ds) h"
  by (induction seen ds h rule: hsts_directives.induct) auto

lemma hsts_directives_stay_invalid:
  "hp_invalid h \<noteq> [] \<Longrightarrow> hp_invalid (hsts_directives seen ds h) \<noteq> []"
proof (induction seen ds h rule: hsts_directives.induct)
  case (2 seen d ds h)
  let ?h = "if fst d \<in> set seen then h\<lparr>hp_invalid := ''directive '' @ fst d @ '' appears more than once''\<rparr> else h"
  have "hp_invalid (set_directive d ?h) \<noteq> []"
    using "2.prems" set_directive_simps(1) [of d ?h] set_directive_simps(3) [of d _ ?h] set_directive_simps(5) [of d ?h]
    by (cases "fst d = ''max-age''"; cases "max_age_value (snd d)") auto
  then show ?case using 2 by auto
qed simp

lemma hsts_directives_maxAge:
  "\<forall>d \<in> set ds. fst d \<noteq> [] \<Longrightarrow>
   hp_maxAge (hsts_directives seen ds h) = foldl (\<lambda>m x. case x of Some n \<Rightarrow> n | None \<Rightarrow> m) (hp_maxAge h) (max_ages ds)"
proof (induction ds arbitrary: seen h)
  case (Cons d ds)
  let ?h = "if fst d \<in> set seen then h\<lparr>hp_invalid := ''directive '' @ fst d @ '' appears more than once''\<rparr> else h"
  have "hp_maxAge (set_directive d ?h) = (if fst d = ''max-age'' then (case max_age_value (snd d) of Some n \<Rightarrow> n | None \<Rightarrow> hp_maxAge h) else hp_maxAge h)"
    by (cases d) (auto simp: set_directive_def split: option.splits)
  then show ?case using Cons by (auto simp: max_ages_def)
qed (simp add: max_ages_def)

lemma hsts_directives_valid:
  "\<forall>d \<in> set ds. fst d \<noteq> [] \<Longrightarrow> hp_invalid h = [] \<Longrightarrow>
   hp_invalid (hsts_directives seen ds h) = [] \<longleftrightarrow>
     distinct (map fst ds) \<and> set seen \<inter> fst ` set ds = {} \<and> None \<notin> set (max_ages ds)"
proof (induction ds arbitrary: seen h)
  case (Cons d ds)
  let ?h = "if fst d \<in> set seen then h\<lparr>hp_invalid := ''directive '' @ fst d @ '' appears more than once''\<rparr> else h"
  have step: "hsts_directives seen (d # ds) h = hsts_directives (fst d # seen) ds (set_directive d ?h)"
    using Cons.prems by simp
  have *: "hp_invalid (set_directive d ?h) = [] \<longleftrightarrow>
      fst d \<notin> set seen \<and> \<not> (fst d = ''max-age'' \<and> max_age_value (snd d) = None)"
    using Cons.prems by (cases d) (auto simp: set_directive_def split: option.splits)
  show ?case
  proof (cases "hp_invalid (set_directive d ?h) = []")
    case True
    then show ?thesis using Cons.IH [OF _ True, of "fst d # seen"] Cons.prems(1) * unfolding step
      by (auto simp: max_ages_def)
  next
    case False
    then have "hp_invalid (hsts_directives seen (d # ds) h) \<noteq> []"
      unfolding step by (rule hsts_directives_stay_invalid)
    then show ?thesis using False * by (auto simp: max_ages_def)
  qed
qed (simp add: max_ages_def)

lemma max_ages_single:
  assumes "distinct (map fst ds)"
  shows "length (max_ages ds) \<le> 1"
proof -
  have "length (filter (\<lambda>d. fst d = x) ds) \<le> 1" for x
    using assms by (induction ds) (auto simp: filter_empty_conv image_iff)
  then show ?thesis by (simp add: max_ages_def)
qed

text \<open>
  What counts as a valid HSTS header: no directive repeats and there is exactly one max-age, with a
  non-negative number; that number is the age the weak and preload checks judge. The flags are set
  exactly when their directive occurs, in any case and whatever its value.
\<close>

lemma parseHSTS_spec:
  "(hp_invalid (parseHSTS v) = [] \<longleftrightarrow>
      distinct (map fst (named_directives v)) \<and> max_ages (named_directives v) = [Some (hp_maxAge (parseHSTS v))] \<and>
      0 \<le> hp_maxAge (parseHSTS v)) \<and>
   (hp_includeSubDomains (parseHSTS v) \<longleftrightarrow> ''includesubdomains'' \<in> fst ` set (named_directives v)) \<and>
   (hp_preload (parseHSTS v) \<longleftrightarrow> ''preload'' \<in> fst ` set (named_directives v))"
proof -
  let ?ds = "named_directives v"
  let ?init = "\<lparr>hp_raw = v, hp_maxAge = -1, hp_includeSubDomains = False, hp_preload = False, hp_invalid = []\<rparr>"
  let ?h = "hsts_directives [] ?ds ?init"
  have p: "parseHSTS v = (if hp_maxAge ?h < 0 \<and> hp_invalid ?h = [] then ?h\<lparr>hp_invalid := ''no max-age directive''\<rparr> else ?h)"
    unfolding parseHSTS_def named_directives_def Let_def hsts_directives_skip [symmetric] by (rule refl)
  have named: "\<forall>d \<in> set ?ds. fst d \<noteq> []" by (simp add: named_directives_def)
  have valid: "hp_invalid ?h = [] \<longleftrightarrow> distinct (map fst ?ds) \<and> None \<notin> set (max_ages ?ds)"
    using hsts_directives_valid [OF named, where h = ?init and seen = "[]"] by simp
  have age: "hp_maxAge ?h = foldl (\<lambda>m x. case x of Some n \<Rightarrow> n | None \<Rightarrow> m) (-1) (max_ages ?ds)"
    using hsts_directives_maxAge [OF named, where h = ?init and seen = "[]"] by simp
  have pos: "0 \<le> n" if "max_ages ?ds = [Some n]" for n
    using that max_age_value_nonneg by (auto simp: max_ages_def filter_eq_Cons_iff)
  have one: "max_ages ?ds = [] \<or> (\<exists>x. max_ages ?ds = [x])" if "distinct (map fst ?ds)"
    using max_ages_single [OF that] by (cases "max_ages ?ds") auto
  have i: "hp_invalid (parseHSTS v) = [] \<longleftrightarrow> hp_invalid ?h = [] \<and> 0 \<le> hp_maxAge ?h"
    and m: "hp_maxAge (parseHSTS v) = hp_maxAge ?h"
    and s: "hp_includeSubDomains (parseHSTS v) = hp_includeSubDomains ?h" "hp_preload (parseHSTS v) = hp_preload ?h"
    unfolding p by auto
  have "hp_invalid ?h = [] \<and> 0 \<le> hp_maxAge ?h \<longleftrightarrow>
      distinct (map fst ?ds) \<and> max_ages ?ds = [Some (hp_maxAge ?h)] \<and> 0 \<le> hp_maxAge ?h"
  proof
    assume a: "hp_invalid ?h = [] \<and> 0 \<le> hp_maxAge ?h"
    then have d: "distinct (map fst ?ds)" "None \<notin> set (max_ages ?ds)" using valid by auto
    have "max_ages ?ds \<noteq> []" using a age by auto
    then obtain n where "max_ages ?ds = [Some n]" using one [OF d(1)] d(2) by (metis list.set_intros(1) not_Some_eq)
    then show "distinct (map fst ?ds) \<and> max_ages ?ds = [Some (hp_maxAge ?h)] \<and> 0 \<le> hp_maxAge ?h"
      using d(1) age a by simp
  next
    assume "distinct (map fst ?ds) \<and> max_ages ?ds = [Some (hp_maxAge ?h)] \<and> 0 \<le> hp_maxAge ?h"
    then show "hp_invalid ?h = [] \<and> 0 \<le> hp_maxAge ?h" using valid by auto
  qed
  then show ?thesis
    using hsts_directives_flags [of "[]" ?ds ?init] unfolding i m s by auto
qed

subsection \<open>What is told of an exposed file\<close>

lemma assigned_word: "assigned s = Some n \<Longrightarrow> n \<noteq> [] \<and> list_all re_word n \<and> \<not> is_digit (hd n)"
  by (auto simp: assigned_def Let_def list_all_iff split: if_splits dest: set_takeWhileD)

lemma envLine_word: "envLine s = Some n \<Longrightarrow> n \<noteq> [] \<and> list_all re_word n \<and> \<not> is_digit (hd n)"
  by (auto simp: envLine_def split: option.splits if_splits dest: assigned_word)

text \<open>
  The report of an exposed .env file names variables and never shows a value: the evidence is a list of
  at most nine entries, each an identifier that starts a line of the file (at most one the mark for
  "more"), and every line that is not blank or a comment is such an assignment.
\<close>

lemma match_env_names_only:
  assumes "match_env body = Some ev"
  shows "\<exists>names. ev = [''variables'' \<mapsto> comma names] \<and> length names \<le> 9 \<and> names \<noteq> [] \<and>
    list_all (\<lambda>n. n = ellipsis \<or> list_all re_word n \<and> (\<exists>l \<in> set (env_lines body). envLine l = Some n)) names \<and>
    list_all (\<lambda>l. envLine l \<noteq> None) (env_lines body)"
proof -
  let ?found = "map envLine (env_lines body)"
  have f: "None \<notin> set ?found" "?found \<noteq> []" and ev: "ev = [''variables'' \<mapsto> comma (shown_names (map the ?found))]"
    using assms by (auto simp: match_env_def Let_def split: if_splits)
  have all: "list_all (\<lambda>l. envLine l \<noteq> None) (env_lines body)"
    unfolding list_all_iff using f(1) by (metis (no_types, lifting) in_set_conv_nth length_map nth_map)
  have n: "list_all re_word n \<and> (\<exists>l \<in> set (env_lines body). envLine l = Some n)" if n: "n \<in> set (map the ?found)" for n
  proof -
    obtain l where l: "l \<in> set (env_lines body)" "n = the (envLine l)" using n by auto
    then have "envLine l = Some n" using all by (auto simp: list_all_iff)
    then show ?thesis using envLine_word l(1) by blast
  qed
  have "list_all (\<lambda>n. n = ellipsis \<or> list_all re_word n \<and> (\<exists>l \<in> set (env_lines body). envLine l = Some n))
      (shown_names (map the ?found))"
    unfolding list_all_iff [of _ "shown_names _"]
  proof
    fix n assume "n \<in> set (shown_names (map the ?found))"
    then have "n = ellipsis \<or> n \<in> set (map the ?found)"
      by (auto simp: shown_names_def split: if_splits dest: in_set_takeD)
    then show "n = ellipsis \<or> list_all re_word n \<and> (\<exists>l \<in> set (env_lines body). envLine l = Some n)"
      using n by blast
  qed
  moreover have "length (shown_names (map the ?found)) \<le> 9" "shown_names (map the ?found) \<noteq> []"
    using f(2) by (auto simp: shown_names_def)
  ultimately show ?thesis using ev all by blast
qed

definition demo_env_file :: string where
  "demo_env_file = join [CHR 0x0A] [''# secrets'', ''export DB_PASSWORD = hunter2'', ''API_KEY=abc'']"

lemma match_env_names_only_witness:
  "\<exists>names. match_env demo_env_file = Some [''variables'' \<mapsto> comma names] \<and>
     length names \<le> 9 \<and> names \<noteq> []"
proof -
  have "match_env demo_env_file \<noteq> None" by code_simp
  then obtain ev where "match_env demo_env_file = Some ev" by blast
  with match_env_names_only [OF this] show ?thesis by blast
qed

subsection \<open>Pages that differ in their query only\<close>

text \<open>
  Header findings are lost when two configured URLs lead to pages that differ in scheme or query only: the
  pages are told apart by their full URL, the findings by host and path, so a check that finds both
  wanting reports the same subject twice and the engine rejects all its findings.
\<close>

lemma same_page_twice_rejected:
  assumes "pages env media t = Inr ps"
    and "\<not> distinct (map pg_subject (filter (\<lambda>p. (htmlOnly \<longrightarrow> pg_html p) \<and> missing (ws_Header (pg_resp p))) ps))"
  shows "\<exists>fs e. headerCheck env media htmlOnly missing t = Inr fs \<and> normalize m t fs = Inl e"
proof -
  have "map f_Subject (header_findings htmlOnly missing ps) =
      map pg_subject (filter (\<lambda>p. (htmlOnly \<longrightarrow> pg_html p) \<and> missing (ws_Header (pg_resp p))) ps)"
    by (simp add: header_findings_def finding_with_def o_def)
  then have "\<exists>e. normalize m t (header_findings htmlOnly missing ps) = Inl e"
    using assms(2) by (intro normalize_rejects) simp
  then show ?thesis using assms(1) by (simp add: headerCheck_def)
qed

definition two_queries :: target where
  "two_queries = (target_named ''a.test'')\<lparr>t_URLs := [''https://a.test/?a=1'', ''https://a.test/?a=2'']\<rparr>"

lemma two_queries_pages:
  "\<exists>ps. pages (demo_web None) media two_queries = Inr ps \<and> map pg_subject ps = [''a.test'', ''a.test''] \<and>
     (\<forall>p \<in> set ps. ws_Header (pg_resp p) = (\<lambda>_. []))"
proof -
  let ?h = "named_host ''a.test''"
  have parse: "demo_parse ''https://a.test/?a=1'' = Some (page_at ''a.test'')" "demo_parse ''https://a.test/?a=2'' = Some (page_at ''a.test'')"
    by code_simp+
  have host: "ParseHost (\<lambda>_. None) ''a.test'' = Inr ?h" by code_simp
  have "url_page (demo_web None) raw = Some (raw, ?h)" if "demo_parse raw = Some (page_at ''a.test'')" for raw
  proof -
    have "we_parse (demo_web None) raw = Some (page_at ''a.test'')" "we_idna (demo_web None) = (\<lambda>_. None)"
      using that by (simp_all add: demo_web_def)
    then show ?thesis using host by (simp add: url_page_def page_at_def)
  qed
  then have ps: "Pages (demo_web None) two_queries = [Some (''https://a.test/?a=1'', ?h), Some (''https://a.test/?a=2'', ?h)]"
    using parse by (simp add: Pages_def two_queries_def)
  let ?r = "\<lparr>rw_Status = 200, rw_Header = (\<lambda>_. []), rw_Body = ''hello'', rw_TLS = True\<rparr>"
  have get: "web_Get (demo_web None) ?h raw (Some f) = Inr (response_of raw [] ?r)"
    if "demo_parse raw = Some (page_at ''a.test'')" "raw \<noteq> ''https://a.test/''" for raw f
  proof -
    have "http_get (demo_web None) ?h raw = Inr ?r"
      by (rule demo_get [OF _ that(1)]) (use that(2) in \<open>simp_all add: named_host_def demo_web_def\<close>)
    then show ?thesis by (simp add: web_Get_def get_loop.simps Location_def response_of_def)
  qed
  have scope: "inScope two_queries ''a.test''" by code_simp
  have we: "we_parse (demo_web None) s = demo_parse s" for s by (simp add: demo_web_def)
  show ?thesis
    by (simp add: pages_def ps fetch_page_def get parse response_of_def we page_subject_def page_at_def scope)
qed

lemma same_page_twice_rejected_witness:
  "\<exists>fs e. headerCheck (demo_web None) (\<lambda>s. s) False csp_missing two_queries = Inr fs \<and>
     normalize (demo_meta ''http.headers.csp_missing'' []) two_queries fs = Inl e"
proof -
  obtain ps where ps: "pages (demo_web None) (\<lambda>s. s) two_queries = Inr ps" "map pg_subject ps = [''a.test'', ''a.test'']"
    "\<forall>p \<in> set ps. ws_Header (pg_resp p) = (\<lambda>_. [])"
    using two_queries_pages [where media = "\<lambda>s. s"] by (elim exE conjE)
  then have "filter (\<lambda>p. (False \<longrightarrow> pg_html p) \<and> csp_missing (ws_Header (pg_resp p))) ps = ps"
    by (simp add: filter_id_conv csp_missing_def)
  then have "\<not> distinct (map pg_subject (filter (\<lambda>p. (False \<longrightarrow> pg_html p) \<and> csp_missing (ws_Header (pg_resp p))) ps))"
    using ps(2) by simp
  with ps(1) show ?thesis by (rule same_page_twice_rejected)
qed

subsection \<open>The memo and the target\<close>

text \<open>
  The pages of two targets share the key "in-scope" although which redirects may be followed depends on
  the target: from the same URL the one ends at the redirect, the other follows it.
\<close>

lemma in_scope_key_shared:
  "(case fetch_page (demo_web None) (target_named ''a.test'') (''https://a.test/'', named_host ''a.test'') of
      Inr (_, r) \<Rightarrow> ws_URL r | Inl _ \<Rightarrow> []) = ''https://a.test/''"
  "(case fetch_page (demo_web None) (target_named ''b.test'') (''https://a.test/'', named_host ''a.test'') of
      Inr (_, r) \<Rightarrow> ws_URL r | Inl _ \<Rightarrow> []) = ''https://b.test/''"
proof -
  let ?env = "demo_web None"
  have a: "http_get ?env (named_host ''a.test'') ''https://a.test/'' = Inr \<lparr>rw_Status = 301,
      rw_Header = (\<lambda>k. if k = ''Location'' then ''https://b.test/'' else []), rw_Body = [], rw_TLS = True\<rparr>"
    by (rule demo_get [OF _ demo_parse_names(1)]) (simp_all add: named_host_def demo_web_def)
  have b: "http_get ?env \<lparr>h_Name = n, h_Port = 0, h_Explicit = True\<rparr> ''https://b.test/'' =
      Inr \<lparr>rw_Status = 200, rw_Header = (\<lambda>_. []), rw_Body = ''hello'', rw_TLS = True\<rparr>" for n
    by (rule demo_get [OF _ demo_parse_names(2)]) (simp_all add: demo_web_def)
  have l: "we_resolve ?env u v = demo_parse v" for u v by (simp add: demo_web_def)
  have s: "\<not> inScope (target_named ''a.test'') ''b.test''" "inScope (target_named ''b.test'') ''b.test''"
    by code_simp+
  show "(case fetch_page (demo_web None) (target_named ''a.test'') (''https://a.test/'', named_host ''a.test'') of
      Inr (_, r) \<Rightarrow> ws_URL r | Inl _ \<Rightarrow> []) = ''https://a.test/''"
    by (simp add: fetch_page_def web_Get_def maxRedirects_def get_loop.simps a l Location_def response_of_def Let_def
        demo_parse_names page_at_def s)
  show "(case fetch_page (demo_web None) (target_named ''b.test'') (''https://a.test/'', named_host ''a.test'') of
      Inr (_, r) \<Rightarrow> ws_URL r | Inl _ \<Rightarrow> []) = ''https://b.test/''"
    by (simp add: fetch_page_def web_Get_def maxRedirects_def get_loop.simps a b l Location_def response_of_def Let_def
        demo_parse_names page_at_def s numeral_eq_Suc)
qed

end
