(* ===== verification/SetaPlugin.thy ===== *)
theory SetaPlugin
  imports SetaEngine SetaRunes
begin

text \<open>
  Package sdk and internal/plugin: the protocol, the plugin's side of it (sdk/plugin.go), finding the
  executables, running one (exec.go), reading its description and running a check.
  Parameters: the functions of path/filepath and the file system (\<open>platform\<close>), what becomes of a process
  (\<open>proc\<close>), encoding/json (an encoder, and a decoder that also returns the input it has not read), and
  time.ParseDuration. Logging is left out.
\<close>

subsection \<open>The protocol\<close>

definition Protocol :: int where "Protocol = 1"

definition EnvProtocol :: string where "EnvProtocol = ''SETA_PLUGIN_PROTOCOL''"

definition EnvVersion :: string where "EnvVersion = ''SETA_VERSION''"

record check_info =
  ci_ID :: string
  ci_Title :: string
  ci_Description :: string
  ci_Remediation :: string
  ci_Mode :: string
  ci_Severity :: string
  ci_References :: "string list"
  ci_Timeout :: string

record describe_doc =
  dd_Protocol :: int
  dd_Name :: string
  dd_Version :: string
  dd_Checks :: "check_info list"

record request =
  rq_Protocol :: int
  rq_Check :: string
  rq_Kind :: string
  rq_Name :: string
  rq_Config :: string
  rq_Deadline :: "int option"
  rq_SetaVersion :: string

record sdk_finding =
  sf_Subject :: string
  sf_Severity :: string
  sf_Title :: string
  sf_Evidence :: evidence
  sf_Remediation :: string
  sf_References :: "string list option"

record reply =
  rs_Findings :: "sdk_finding list"
  rs_Error :: "string option"

subsection \<open>The plugin's side\<close>

datatype check_outcome = CheckFindings "sdk_finding list" | CheckError string | CheckPanic string

record sdk_check =
  sc_Info :: check_info
  sc_Run :: "request \<Rightarrow> check_outcome"

record sdk_plugin =
  sp_Name :: string
  sp_Version :: string
  sp_Checks :: "sdk_check list"

definition describe_of :: "sdk_plugin \<Rightarrow> describe_doc" where
  "describe_of p = \<lparr>dd_Protocol = Protocol, dd_Name = sp_Name p, dd_Version = sp_Version p, dd_Checks = map sc_Info (sp_Checks p)\<rparr>"

definition sdk_fail :: "string \<Rightarrow> reply" where
  "sdk_fail msg = \<lparr>rs_Findings = [], rs_Error = Some msg\<rparr>"

text \<open>The loop over the checks keeps the last one with the ID.\<close>

definition find_check :: "sdk_plugin \<Rightarrow> string \<Rightarrow> sdk_check option" where
  "find_check p i = foldl (\<lambda>found c. if ci_ID (sc_Info c) = i then Some c else found) None (sp_Checks p)"

definition sdk_run :: "(string \<Rightarrow> string + request) \<Rightarrow> (string \<Rightarrow> string) \<Rightarrow> sdk_plugin \<Rightarrow> string \<Rightarrow> reply" where
  "sdk_run decode quote p stdin =
     (case decode stdin of
        Inl e \<Rightarrow> sdk_fail (''invalid request: '' @ e)
      | Inr req \<Rightarrow>
        if rq_Protocol req \<noteq> Protocol then
          sdk_fail (''unsupported protocol '' @ itoa (rq_Protocol req) @ '' (this plugin speaks '' @ itoa Protocol @ '')'')
        else case find_check p (rq_Check req) of
            None \<Rightarrow> sdk_fail (''unknown check '' @ quote (rq_Check req))
          | Some c \<Rightarrow>
            (case sc_Run c req of
               CheckPanic r \<Rightarrow> sdk_fail (''check panicked: '' @ r)
             | CheckError e \<Rightarrow> sdk_fail e
             | CheckFindings fs \<Rightarrow> \<lparr>rs_Findings = fs, rs_Error = None\<rparr>))"

record sdk_codec =
  cd_Describe :: "describe_doc \<Rightarrow> string"
  cd_Reply :: "reply \<Rightarrow> string"
  cd_Request :: "string \<Rightarrow> string + request"
  cd_Quote :: "string \<Rightarrow> string"

text \<open>The exit code, standard output and standard error of an invocation whose output can be written.\<close>

definition Serve :: "sdk_codec \<Rightarrow> sdk_plugin \<Rightarrow> string list \<Rightarrow> string \<Rightarrow> int \<times> string \<times> string" where
  "Serve cd p args stdin =
     (case args of
        [a] \<Rightarrow>
          if a = ''describe'' then (0, cd_Describe cd (describe_of p), [])
          else if a = ''run'' then (0, cd_Reply cd (sdk_run (cd_Request cd) (cd_Quote cd) p stdin), [])
          else (2, [], ''unknown command '' @ cd_Quote cd a @ '' (want describe or run)'' @ newline)
      | _ \<Rightarrow> (2, [], ''usage: seta-plugin-'' @ sp_Name p @ '' describe|run'' @ newline))"

subsection \<open>Running a plugin\<close>

definition maxStdout :: nat where "maxStdout = 4 * 1024 * 1024"

definition maxStderr :: nat where "maxStderr = 64 * 1024"

text \<open>A capped buffer: what it holds and whether something was dropped.\<close>

type_synonym capped = "string \<times> bool"

definition capped_Write :: "nat \<Rightarrow> capped \<Rightarrow> string \<Rightarrow> capped \<times> nat" where
  "capped_Write mx c p =
     (case c of (buf, over) \<Rightarrow>
      let room = int mx - int (length buf) in
      if room < int (length p) then ((buf @ take (nat (max room 0)) p, True), length p)
      else ((buf @ p, over), length p))"

definition capped_all :: "nat \<Rightarrow> string list \<Rightarrow> capped" where
  "capped_all mx writes = foldl (\<lambda>c p. fst (capped_Write mx c p)) ([], False) writes"

definition truncateLog :: "string \<Rightarrow> nat \<Rightarrow> string" where
  "truncateLog s n =
     (let r = runes s in if length r \<le> n then s else concat (map rune_text (take (n - 1) r)) @ ellipsis)"

definition lastLine :: "string \<Rightarrow> string" where
  "lastLine b = (let lines = split_on CHR 0x0A (trim_space b) in truncateLog (trim_space (List.last lines)) 300)"

text \<open>How a process ends: cmd.Run returns nil, an exit status, or another error.\<close>

datatype proc_end = Exited0 | ExitStatus int | ProcError string

datatype 'c invoke_error =
    InvokeContext 'c
  | OutputTooLarge
  | InvokeFailed string string

record 'c proc_result =
  pr_Context :: "'c option"
  pr_Stdout :: "string list"
  pr_Stderr :: "string list"
  pr_End :: proc_end

text \<open>\<open>InvokeFailed\<close> carries the error and the last line of the plugin's stderr, empty when there is none.\<close>

definition end_text :: "proc_end \<Rightarrow> string option" where
  "end_text e =
     (case e of Exited0 \<Rightarrow> None | ExitStatus n \<Rightarrow> Some (''plugin exited with status '' @ itoa n) | ProcError t \<Rightarrow> Some t)"

definition invoke :: "'c proc_result \<Rightarrow> 'c invoke_error + string" where
  "invoke r =
     (let out = capped_all maxStdout (pr_Stdout r); logs = capped_all maxStderr (pr_Stderr r) in
      case pr_Context r of
        Some c \<Rightarrow> Inl (InvokeContext c)
      | None \<Rightarrow>
        if snd out then Inl OutputTooLarge
        else case end_text (pr_End r) of
            Some e \<Rightarrow> Inl (InvokeFailed e (lastLine (fst logs)))
          | None \<Rightarrow> Inr (fst out))"

subsection \<open>Decoding the output\<close>

datatype decode_error = PrintedNothing | InvalidJSON string | MoreThanOneDocument

definition json_space :: "char \<Rightarrow> bool" where
  "json_space c \<longleftrightarrow> c \<in> {CHR '' '', CHR 0x09, CHR 0x0A, CHR 0x0D}"

text \<open>\<open>json.Decoder.More\<close> at the top level: something other than a closing bracket follows.\<close>

definition decoder_More :: "string \<Rightarrow> bool" where
  "decoder_More rest = (case dropWhile json_space rest of [] \<Rightarrow> False | c # _ \<Rightarrow> c \<noteq> CHR '']'' \<and> c \<noteq> CHR ''}'')"

definition decodeOne :: "(string \<Rightarrow> string + 'v \<times> string) \<Rightarrow> string \<Rightarrow> decode_error + 'v" where
  "decodeOne decode data =
     (if trim_space data = [] then Inl PrintedNothing
      else case decode data of
          Inl e \<Rightarrow> Inl (InvalidJSON e)
        | Inr (v, rest) \<Rightarrow> if decoder_More rest then Inl MoreThanOneDocument else Inr v)"

subsection \<open>Finding the executables\<close>

definition Prefix :: string where "Prefix = ''seta-plugin-''"

definition Planned :: "string list" where
  "Planned = [''email'', ''tls'', ''http'', ''dns'', ''domain'', ''exposure'', ''ct'']"

record 'e platform =
  pl_Windows :: bool
  pl_SplitList :: "string \<Rightarrow> string list"
  pl_IsAbs :: "string \<Rightarrow> bool"
  pl_Clean :: "string \<Rightarrow> string"
  pl_Join :: "string \<Rightarrow> string \<Rightarrow> string"
  pl_Ext :: "string \<Rightarrow> string"
  pl_ReadDir :: "string \<Rightarrow> 'e + string list"
  pl_Stat :: "string \<Rightarrow> (bool \<times> bool) option"

text \<open>\<open>pl_Stat\<close>: whether the file is regular and whether an execute bit is set; None is an error.\<close>

record plugin_options =
  po_Dirs :: "string list"
  po_PATH :: string
  po_Reserved :: "string list"
  po_LookupEnv :: "string \<rightharpoonup> string"
  po_SetaVersion :: string

definition namePattern :: "string \<Rightarrow> bool" where "namePattern = id_part"

record candidate =
  ca_name :: string
  ca_path :: string
  ca_shadowed :: "string list"

datatype 'e discover_error = DirectoryError 'e | InvalidPluginName string string

definition executable :: "'e platform \<Rightarrow> string \<Rightarrow> string \<Rightarrow> string \<Rightarrow> string option" where
  "executable pl path base pathext =
     (case pl_Stat pl path of
        None \<Rightarrow> None
      | Some (regular, exec) \<Rightarrow>
        if \<not> regular then None
        else if pl_Windows pl then
          (let ext = pl_Ext pl base in
           if ext \<noteq> [] \<and> list_ex (equal_fold ext) (pl_SplitList pl pathext) then Some (trim_suffix base ext) else None)
        else if exec then Some base else None)"

definition plugin_dirs :: "'e platform \<Rightarrow> plugin_options \<Rightarrow> string list" where
  "plugin_dirs pl opts = po_Dirs opts @ filter (pl_IsAbs pl) (pl_SplitList pl (po_PATH opts))"

definition path_ext :: "plugin_options \<Rightarrow> string" where
  "path_ext opts =
     (case po_LookupEnv opts ''PATHEXT'' of
        Some v \<Rightarrow> if v \<noteq> [] then v else ''.COM;.EXE;.BAT;.CMD''
      | None \<Rightarrow> ''.COM;.EXE;.BAT;.CMD'')"

text \<open>The body of the loop over a directory's entries: the candidates and errors so far.\<close>

definition add_entry ::
  "'e platform \<Rightarrow> string \<Rightarrow> string \<Rightarrow> candidate list \<times> 'e discover_error list \<Rightarrow> string \<Rightarrow> candidate list \<times> 'e discover_error list" where
  "add_entry pl pathext dir st entry =
     (case st of (cands, errs) \<Rightarrow>
      if \<not> has_prefix entry Prefix then (cands, errs)
      else
        let base = drop (length Prefix) entry; path = pl_Join pl dir entry in
        case executable pl path base pathext of
          None \<Rightarrow> (cands, errs)
        | Some name \<Rightarrow>
          if \<not> namePattern name then (cands, errs @ [InvalidPluginName name path])
          else if name \<in> ca_name ` set cands then
            (map (\<lambda>c. if ca_name c = name then c\<lparr>ca_shadowed := ca_shadowed c @ [path]\<rparr> else c) cands, errs)
          else (cands @ [\<lparr>ca_name = name, ca_path = path, ca_shadowed = []\<rparr>], errs))"

text \<open>The loop over the directories, with the cleaned names seen; \<open>own\<close> counts the configured ones left.\<close>

fun discover_dirs ::
  "'e platform \<Rightarrow> string \<Rightarrow> nat \<Rightarrow> string list \<Rightarrow> string list \<Rightarrow> candidate list \<times> 'e discover_error list \<Rightarrow>
   candidate list \<times> 'e discover_error list" where
  "discover_dirs pl pathext own seen [] st = st"
| "discover_dirs pl pathext own seen (dir # dirs) st =
     (if pl_Clean pl dir \<in> set seen then discover_dirs pl pathext (own - 1) seen dirs st
      else discover_dirs pl pathext (own - 1) (pl_Clean pl dir # seen) dirs
        (case pl_ReadDir pl dir of
           Inl e \<Rightarrow> if 0 < own then (fst st, snd st @ [DirectoryError e]) else st
         | Inr entries \<Rightarrow> foldl (add_entry pl pathext dir) st entries))"

definition discover :: "'e platform \<Rightarrow> plugin_options \<Rightarrow> candidate list \<times> 'e discover_error list" where
  "discover pl opts = discover_dirs pl (path_ext opts) (length (po_Dirs opts)) [] (plugin_dirs pl opts) ([], [])"

subsection \<open>The environment of a plugin\<close>

definition envKeys :: "string list" where
  "envKeys = [''PATH'', ''HOME'', ''USER'', ''LANG'', ''LC_ALL'', ''LC_CTYPE'', ''TZ'', ''TMPDIR'',
     ''SSL_CERT_FILE'', ''SSL_CERT_DIR'',
     ''HTTP_PROXY'', ''HTTPS_PROXY'', ''NO_PROXY'', ''http_proxy'', ''https_proxy'', ''no_proxy'',
     ''SYSTEMROOT'', ''WINDIR'', ''COMSPEC'', ''PATHEXT'', ''TEMP'', ''TMP'', ''USERPROFILE'', ''APPDATA'', ''LOCALAPPDATA'',
     ''PROGRAMDATA'']"

definition minimalEnv :: "(string \<rightharpoonup> string) \<Rightarrow> string \<Rightarrow> string list" where
  "minimalEnv lookup version =
     concat (map (\<lambda>k. case lookup k of None \<Rightarrow> [] | Some v \<Rightarrow> [k @ ''='' @ v]) envKeys) @
     [EnvProtocol @ ''='' @ itoa Protocol, EnvVersion @ ''='' @ version]"

subsection \<open>Describing\<close>

definition maxTimeout :: int where "maxTimeout = 10 * 60 * 1000000000"

datatype meta_problem =
    OutsideModule string string
  | BadMode string string
  | BadSeverity string string
  | BadTimeout string string
  | InvalidMeta meta_error

definition plugin_meta :: "(string \<Rightarrow> int option) \<Rightarrow> string \<Rightarrow> check_info \<Rightarrow> meta_problem + meta" where
  "plugin_meta parse_dur name ci =
     (if \<not> has_prefix (ci_ID ci) (name @ ''.'') then Inl (OutsideModule (ci_ID ci) (name @ ''.''))
      else case (if ci_Mode ci = ''passive'' then Some Passive else if ci_Mode ci = ''active'' then Some Active else None) of
          None \<Rightarrow> Inl (BadMode (ci_ID ci) (ci_Mode ci))
        | Some mode \<Rightarrow>
          (case ParseSeverity (ci_Severity ci) of
             Inl e \<Rightarrow> Inl (BadSeverity (ci_ID ci) e)
           | Inr sev \<Rightarrow>
             (case (if ci_Timeout ci = [] then Some 0
                    else case parse_dur (ci_Timeout ci) of
                        None \<Rightarrow> None
                      | Some d \<Rightarrow> if d \<le> 0 \<or> maxTimeout < d then None else Some d) of
                None \<Rightarrow> Inl (BadTimeout (ci_ID ci) (ci_Timeout ci))
              | Some timeout \<Rightarrow>
                let m = \<lparr>m_ID = ci_ID ci, m_Aliases = [], m_Module = name, m_Title = ci_Title ci,
                         m_Description = ci_Description ci, m_Remediation = ci_Remediation ci, m_Mode = mode,
                         m_Severity = sev, m_References = ci_References ci, m_Timeout = timeout\<rparr> in
                case meta_Validate m of Some e \<Rightarrow> Inl (InvalidMeta e) | None \<Rightarrow> Inr m)))"

datatype 'c describe_error =
    DescribeTimedOut
  | DescribeInvoke "'c invoke_error"
  | DescribeDecode decode_error
  | SpeaksProtocol int
  | DescribesItselfAs string
  | BuiltinModule string
  | DescribesNoChecks
  | DescribeMeta meta_problem
  | DescribedTwice string

text \<open>The loop over the described checks with the IDs so far.\<close>

fun describe_checks ::
  "(string \<Rightarrow> int option) \<Rightarrow> string \<Rightarrow> string set \<Rightarrow> check_info list \<Rightarrow> 'c describe_error + meta list" where
  "describe_checks parse_dur name ids [] = Inr []"
| "describe_checks parse_dur name ids (ci # cis) =
     (case plugin_meta parse_dur name ci of
        Inl e \<Rightarrow> Inl (DescribeMeta e)
      | Inr m \<Rightarrow>
        if m_ID m \<in> ids then Inl (DescribedTwice (m_ID m))
        else map_sum id (Cons m) (describe_checks parse_dur name (insert (m_ID m) ids) cis))"

record plugin =
  pg_Name :: string
  pg_Version :: string
  pg_Path :: string
  pg_Shadowed :: "string list"
  pg_Checks :: "meta list"
  pg_env :: "string list"
  pg_setaVersion :: string

record 'c host_env =
  he_proc :: "string \<Rightarrow> string \<Rightarrow> string \<Rightarrow> string list \<Rightarrow> 'c proc_result"
  he_timed_out :: "'c \<Rightarrow> bool"
  he_Describe :: "string \<Rightarrow> string + describe_doc \<times> string"
  he_Reply :: "string \<Rightarrow> string + reply \<times> string"
  he_Request :: "request \<Rightarrow> string + string"
  he_ParseDuration :: "string \<Rightarrow> int option"

text \<open>\<open>he_proc path arg stdin env\<close> is the process; \<open>he_timed_out\<close> recognises context.DeadlineExceeded.\<close>

definition describe :: "'c host_env \<Rightarrow> string list \<Rightarrow> plugin \<Rightarrow> 'c describe_error + plugin" where
  "describe he reserved p =
     (case invoke (he_proc he (pg_Path p) ''describe'' [] (pg_env p)) of
        Inl (InvokeContext c) \<Rightarrow> Inl (if he_timed_out he c then DescribeTimedOut else DescribeInvoke (InvokeContext c))
      | Inl e \<Rightarrow> Inl (DescribeInvoke e)
      | Inr out \<Rightarrow>
        (case decodeOne (he_Describe he) out of
           Inl e \<Rightarrow> Inl (DescribeDecode e)
         | Inr d \<Rightarrow>
           if dd_Protocol d \<noteq> Protocol then Inl (SpeaksProtocol (dd_Protocol d))
           else if dd_Name d \<noteq> pg_Name p then Inl (DescribesItselfAs (dd_Name d))
           else if pg_Name p \<in> set reserved then Inl (BuiltinModule (pg_Name p))
           else if dd_Checks d = [] then Inl DescribesNoChecks
           else map_sum id (\<lambda>ms. p\<lparr>pg_Version := dd_Version d, pg_Checks := ms\<rparr>)
             (describe_checks (he_ParseDuration he) (pg_Name p) {} (dd_Checks d))))"

datatype ('e, 'c) load_error = DiscoverFailed "'e discover_error" | PluginUnusable string string "'c describe_error"

definition new_plugin :: "plugin_options \<Rightarrow> candidate \<Rightarrow> plugin" where
  "new_plugin opts c =
     \<lparr>pg_Name = ca_name c, pg_Version = [], pg_Path = ca_path c, pg_Shadowed = ca_shadowed c, pg_Checks = [],
      pg_env = minimalEnv (po_LookupEnv opts) (po_SetaVersion opts), pg_setaVersion = po_SetaVersion opts\<rparr>"

text \<open>The descriptions run concurrently and do not affect one another; the results keep the candidates' order.\<close>

definition Load :: "'e platform \<Rightarrow> 'c host_env \<Rightarrow> plugin_options \<Rightarrow> plugin list \<times> ('e, 'c) load_error list" where
  "Load pl he opts =
     (case discover pl opts of (cands, errs) \<Rightarrow>
      let rs = map (\<lambda>c. (c, describe he (po_Reserved opts) (new_plugin opts c))) cands in
      (concat (map (\<lambda>(c, r). case r of Inl e \<Rightarrow> [] | Inr p \<Rightarrow> [p]) rs),
       map DiscoverFailed errs @
       concat (map (\<lambda>(c, r). case r of Inl e \<Rightarrow> [PluginUnusable (ca_name c) (ca_path c) e] | Inr p \<Rightarrow> []) rs)))"

subsection \<open>Running a check\<close>

datatype 'c plugin_run_error =
    RequestNotEncoded string
  | RunInvoke "'c invoke_error"
  | RunDecode decode_error
  | PluginSaid string
  | UnknownSeverity string

definition plugin_request :: "plugin \<Rightarrow> meta \<Rightarrow> target \<Rightarrow> int option \<Rightarrow> request" where
  "plugin_request p m t deadline =
     \<lparr>rq_Protocol = Protocol, rq_Check = m_ID m, rq_Kind = ''domain'', rq_Name = t_Name t,
      rq_Config = (case t_Plugins t (pg_Name p) of None \<Rightarrow> ''{}'' | Some cfg \<Rightarrow> cfg),
      rq_Deadline = deadline, rq_SetaVersion = pg_setaVersion p\<rparr>"

definition core_finding :: "sdk_finding \<Rightarrow> string + finding" where
  "core_finding f =
     (case (if sf_Severity f = [] then Inr SeverityUnset else ParseSeverity (sf_Severity f)) of
        Inl e \<Rightarrow> Inl e
      | Inr sev \<Rightarrow> Inr (finding0\<lparr>f_Subject := sf_Subject f, f_Severity := sev, f_Title := sf_Title f,
          f_Evidence := sf_Evidence f, f_Remediation := sf_Remediation f, f_References := sf_References f\<rparr>))"

definition said :: "string \<Rightarrow> string" where
  "said msg = (let t = truncateLog msg 500 in if t \<noteq> [] then t else ''error without a message'')"

definition reply_findings :: "reply \<Rightarrow> 'c plugin_run_error + finding list" where
  "reply_findings resp =
     (case rs_Error resp of
        Some msg \<Rightarrow> Inl (PluginSaid (said msg))
      | None \<Rightarrow> map_sum UnknownSeverity id (try_map core_finding (rs_Findings resp)))"

definition plugin_Run :: "'c host_env \<Rightarrow> plugin \<Rightarrow> meta \<Rightarrow> int option \<Rightarrow> target \<Rightarrow> 'c plugin_run_error + finding list" where
  "plugin_Run he p m deadline t =
     (case he_Request he (plugin_request p m t deadline) of
        Inl e \<Rightarrow> Inl (RequestNotEncoded e)
      | Inr input \<Rightarrow>
        (case invoke (he_proc he (pg_Path p) ''run'' input (pg_env p)) of
           Inl e \<Rightarrow> Inl (RunInvoke e)
         | Inr out \<Rightarrow>
           (case decodeOne (he_Reply he) out of
              Inl e \<Rightarrow> Inl (RunDecode e)
            | Inr resp \<Rightarrow> reply_findings resp)))"

subsection \<open>Output that is too long\<close>

lemma capped_Write_step:
  assumes "c = (take mx w, mx < length w)"
  shows "fst (capped_Write mx c p) = (take mx (w @ p), mx < length (w @ p))"
proof (cases "mx < length w")
  case True
  then show ?thesis using assms by (simp add: capped_Write_def)
next
  case False
  then have "nat (int mx - int (length w)) = mx - length w" by simp
  then show ?thesis using assms False by (auto simp: capped_Write_def Let_def)
qed

lemma capped_all_spec: "capped_all mx ws = (take mx (concat ws), mx < length (concat ws))"
proof (induction ws rule: rev_induct)
  case (snoc p ws)
  then show ?case using capped_Write_step [OF snoc, of p] by (simp add: capped_all_def)
qed (simp add: capped_all_def)

subsection \<open>Which executable of a name is used\<close>

definition named_executable :: "'e platform \<Rightarrow> string \<Rightarrow> string \<Rightarrow> string \<Rightarrow> (string \<times> string) list" where
  "named_executable pl pathext dir entry =
     (if \<not> has_prefix entry Prefix then []
      else case executable pl (pl_Join pl dir entry) (drop (length Prefix) entry) pathext of
          None \<Rightarrow> []
        | Some name \<Rightarrow> if namePattern name then [(name, pl_Join pl dir entry)] else [])"

fun distinct_dirs :: "'e platform \<Rightarrow> string list \<Rightarrow> string list \<Rightarrow> string list" where
  "distinct_dirs pl seen [] = []"
| "distinct_dirs pl seen (d # ds) =
     (if pl_Clean pl d \<in> set seen then distinct_dirs pl seen ds else d # distinct_dirs pl (pl_Clean pl d # seen) ds)"

definition executables_in :: "'e platform \<Rightarrow> string \<Rightarrow> string \<Rightarrow> (string \<times> string) list" where
  "executables_in pl pathext dir =
     (case pl_ReadDir pl dir of Inl e \<Rightarrow> [] | Inr entries \<Rightarrow> concat (map (named_executable pl pathext dir) entries))"

text \<open>Every plugin executable in the order of the search.\<close>

definition executables :: "'e platform \<Rightarrow> plugin_options \<Rightarrow> (string \<times> string) list" where
  "executables pl opts = concat (map (executables_in pl (path_ext opts)) (distinct_dirs pl [] (plugin_dirs pl opts)))"

definition paths_of :: "string \<Rightarrow> (string \<times> string) list \<Rightarrow> string list" where
  "paths_of n xs = map snd (filter (\<lambda>x. fst x = n) xs)"

definition candidates_of :: "(string \<times> string) list \<Rightarrow> candidate list \<Rightarrow> bool" where
  "candidates_of xs cands \<longleftrightarrow> distinct (map ca_name cands) \<and> set (map ca_name cands) = fst ` set xs \<and>
     list_all (\<lambda>c. ca_path c # ca_shadowed c = paths_of (ca_name c) xs) cands"

lemma paths_of_snoc: "paths_of n (xs @ [(m, q)]) = paths_of n xs @ (if m = n then [q] else [])"
  by (simp add: paths_of_def)

lemma candidates_of_add:
  assumes "candidates_of xs cands"
  shows "candidates_of (xs @ named_executable pl pathext dir entry) (fst (add_entry pl pathext dir (cands, errs) entry))"
proof (cases "named_executable pl pathext dir entry")
  case Nil
  then show ?thesis
    using assms by (auto simp: named_executable_def add_entry_def Let_def split: if_splits option.splits)
next
  case (Cons x ys)
  then obtain name where exe: "has_prefix entry Prefix" "executable pl (pl_Join pl dir entry) (drop (length Prefix) entry) pathext = Some name"
      "namePattern name" and x: "named_executable pl pathext dir entry = [(name, pl_Join pl dir entry)]"
    by (auto simp: named_executable_def split: if_splits option.splits)
  show ?thesis
  proof (cases "name \<in> ca_name ` set cands")
    case True
    let ?q = "pl_Join pl dir entry"
    let ?cs = "map (\<lambda>c. if ca_name c = name then c\<lparr>ca_shadowed := ca_shadowed c @ [?q]\<rparr> else c) cands"
    have new: "fst (add_entry pl pathext dir (cands, errs) entry) = ?cs"
      using exe True by (simp add: add_entry_def Let_def)
    have names: "map ca_name ?cs = map ca_name cands" by (induction cands) auto
    have known: "insert name (fst ` set xs) = fst ` set xs" using assms True by (auto simp: candidates_of_def)
    have "ca_path c # ca_shadowed c @ (if name = ca_name c then [?q] else []) = paths_of (ca_name c) (xs @ [(name, ?q)])"
      if "c \<in> set cands" for c
      using assms that append_Cons [of "ca_path c" "ca_shadowed c" "[?q]"]
      by (auto simp: candidates_of_def list_all_iff paths_of_snoc)
    then have "list_all (\<lambda>c. ca_path c # ca_shadowed c = paths_of (ca_name c) (xs @ [(name, ?q)])) ?cs"
      unfolding list_all_iff by fastforce
    then show ?thesis
      unfolding x new candidates_of_def names using assms known by (simp add: candidates_of_def)
  next
    case False
    then have "paths_of name xs = []"
      using assms by (auto simp: candidates_of_def paths_of_def filter_empty_conv)
    then show ?thesis
      using assms False exe unfolding x
      by (auto simp: add_entry_def Let_def candidates_of_def list_all_iff paths_of_def image_iff)
  qed
qed

lemma candidates_of_dir:
  "candidates_of xs (fst st) \<Longrightarrow>
   candidates_of (xs @ concat (map (named_executable pl pathext dir) entries)) (fst (foldl (add_entry pl pathext dir) st entries))"
proof (induction entries arbitrary: xs st)
  case (Cons e es)
  then show ?case
    using Cons.IH [of "xs @ named_executable pl pathext dir e" "add_entry pl pathext dir st e"]
      candidates_of_add [of xs "fst st" pl pathext dir e "snd st"] by simp
qed simp

lemma candidates_of_dirs:
  "candidates_of xs (fst st) \<Longrightarrow>
   candidates_of (xs @ concat (map (executables_in pl pathext) (distinct_dirs pl seen dirs)))
     (fst (discover_dirs pl pathext own seen dirs st))"
proof (induction pl pathext own seen dirs st arbitrary: xs rule: discover_dirs.induct)
  case (2 pl pathext own seen dir dirs st)
  show ?case
  proof (cases "pl_Clean pl dir \<in> set seen")
    case False
    show ?thesis
    proof (cases "pl_ReadDir pl dir")
      case (Inl e)
      then show ?thesis
        using False 2 by (auto simp: executables_in_def)
    next
      case (Inr entries)
      then show ?thesis
        using False 2(2) [of "xs @ executables_in pl pathext dir"] candidates_of_dir [OF 2(3), of pl pathext dir entries]
        by (simp add: executables_in_def)
    qed
  qed (use 2 in simp)
qed simp

lemma distinct_dirs_subset: "set (distinct_dirs pl seen ds) \<subseteq> set ds"
  by (induction pl seen ds rule: distinct_dirs.induct) auto

text \<open>
  The first executable of a name wins: each name of a plugin found anywhere in the search has one candidate, its
  path is the first in the order of the search and the others are listed as shadowed, in order; and no
  directory is searched but those of the configuration and the absolute ones of PATH.
\<close>

lemma discover_first_wins:
  "candidates_of (executables pl opts) (fst (discover pl opts)) \<and>
   list_all (\<lambda>d. d \<in> set (po_Dirs opts) \<or> pl_IsAbs pl d) (distinct_dirs pl [] (plugin_dirs pl opts))"
proof
  have "candidates_of [] (fst ([], []))" by (simp add: candidates_of_def)
  from candidates_of_dirs [OF this, of pl "path_ext opts" "[]" "plugin_dirs pl opts" "length (po_Dirs opts)"]
  show "candidates_of (executables pl opts) (fst (discover pl opts))" by (simp add: executables_def discover_def)
  show "list_all (\<lambda>d. d \<in> set (po_Dirs opts) \<or> pl_IsAbs pl d) (distinct_dirs pl [] (plugin_dirs pl opts))"
    using distinct_dirs_subset [of pl "[]" "plugin_dirs pl opts"] by (auto simp: list_all_iff plugin_dirs_def)
qed

subsection \<open>What a plugin may describe\<close>

definition plugin_check_ok :: "string \<Rightarrow> meta \<Rightarrow> bool" where
  "plugin_check_ok name m \<longleftrightarrow> meta_Validate m = None \<and> m_Module m = name \<and> m_Aliases m = [] \<and>
     has_prefix (m_ID m) (name @ ''.'') \<and> 0 \<le> m_Timeout m \<and> m_Timeout m \<le> maxTimeout"

lemma plugin_meta_ok: "plugin_meta parse_dur name ci = Inr m \<Longrightarrow> plugin_check_ok name m"
  by (auto simp: plugin_meta_def plugin_check_ok_def Let_def maxTimeout_def split: if_splits option.splits sum.splits)

lemma describe_checks_ok:
  "describe_checks parse_dur name ids cis = (Inr ms :: 'c describe_error + meta list) \<Longrightarrow>
   length ms = length cis \<and> list_all (plugin_check_ok name) ms \<and> distinct (map m_ID ms) \<and> set (map m_ID ms) \<inter> ids = {}"
proof (induction cis arbitrary: ids ms)
  case (Cons ci cis)
  then obtain m ms' where m: "plugin_meta parse_dur name ci = Inr m" "m_ID m \<notin> ids"
      "describe_checks parse_dur name (insert (m_ID m) ids) cis = (Inr ms' :: 'c describe_error + meta list)" "ms = m # ms'"
    by (auto split: sum.splits if_splits simp: map_sum_Inr_iff)
  then show ?case using plugin_meta_ok [OF m(1)] Cons.IH [OF m(3)] by auto
qed simp

definition plugin_ok :: "string list \<Rightarrow> plugin \<Rightarrow> bool" where
  "plugin_ok reserved p \<longleftrightarrow> pg_Name p \<notin> set reserved \<and> pg_Checks p \<noteq> [] \<and> distinct (map m_ID (pg_Checks p)) \<and>
     list_all (plugin_check_ok (pg_Name p)) (pg_Checks p)"

lemma describe_ok:
  fixes he :: "'c host_env"
  assumes "describe he reserved p = Inr q"
  shows "plugin_ok reserved q \<and> pg_Name q = pg_Name p \<and> pg_env q = pg_env p"
proof -
  obtain out where "invoke (he_proc he (pg_Path p) ''describe'' [] (pg_env p)) = Inr out"
    using assms by (auto simp: describe_def split: sum.splits invoke_error.splits)
  moreover from this obtain d where "decodeOne (he_Describe he) out = Inr d"
    using assms by (auto simp: describe_def split: sum.splits)
  ultimately obtain ms where ms: "describe_checks (he_ParseDuration he) (pg_Name p) {} (dd_Checks d) = (Inr ms :: 'c describe_error + meta list)"
      "dd_Checks d \<noteq> []" "pg_Name p \<notin> set reserved" "q = p\<lparr>pg_Version := dd_Version d, pg_Checks := ms\<rparr>"
    using assms by (auto simp: describe_def map_sum_Inr_iff split: if_splits)
  then show ?thesis using describe_checks_ok [OF ms(1)] by (auto simp: plugin_ok_def)
qed

lemma Load_names:
  assumes "distinct (map ca_name cands)"
  shows "let ps = concat (map (\<lambda>(c, r). case r of Inl e \<Rightarrow> [] | Inr p \<Rightarrow> [p])
       (map (\<lambda>c. (c, describe he reserved (new_plugin opts c))) cands)) in
     distinct (map pg_Name ps) \<and> set (map pg_Name ps) \<subseteq> set (map ca_name cands) \<and> list_all (plugin_ok reserved) ps"
  using assms
proof (induction cands)
  case (Cons c cands)
  show ?case
  proof (cases "describe he reserved (new_plugin opts c)")
    case (Inl e)
    moreover note Cons.IH [unfolded Let_def]
    ultimately show ?thesis using Cons.prems unfolding Let_def
      by (simp only: list.map prod.case sum.case concat.simps append.simps distinct.simps list.set list.pred_inject) blast
  next
    case (Inr q)
    have "pg_Name q = ca_name c" "plugin_ok reserved q" using describe_ok [OF Inr] by (simp_all add: new_plugin_def)
    moreover note Cons.IH [unfolded Let_def]
    ultimately show ?thesis using Cons.prems Inr unfolding Let_def
      by (simp only: list.map prod.case sum.case concat.simps append.simps distinct.simps list.set list.pred_inject) blast
  qed
qed simp

lemma discover_names: "distinct (map ca_name (fst (discover pl opts)))"
  using candidates_of_dirs [of "[]" "([], [])" pl "path_ext opts" "[]" "plugin_dirs pl opts" "length (po_Dirs opts)"]
  by (simp add: candidates_of_def discover_def)

lemma Load_ok:
  assumes "Load pl he opts = (ps, errs)"
  shows "distinct (map pg_Name ps) \<and> list_all (plugin_ok (po_Reserved opts)) ps"
  using Load_names [OF discover_names, of he "po_Reserved opts" opts pl opts] assms
  by (auto simp: Load_def Let_def case_prod_unfold)

text \<open>
  What discovery hands on is usable: the plugins that load have distinct names, none of a built-in module, and
  each describes at least one check; its checks have distinct IDs inside the plugin's module, valid
  metadata and a time limit of at most ten minutes. Every other candidate is reported.
\<close>

lemma Load_wellformed:
  fixes pl :: "'e platform" and he :: "'c host_env"
  shows "case Load pl he opts of (ps, errs) \<Rightarrow>
     distinct (map pg_Name ps) \<and> list_all (plugin_ok (po_Reserved opts)) ps \<and>
     length ps + length errs = length (fst (discover pl opts)) + length (snd (discover pl opts))"
proof -
  obtain cands ds where d: "discover pl opts = (cands, ds)" by (cases "discover pl opts")
  let ?rs = "map (\<lambda>c. (c, describe he (po_Reserved opts) (new_plugin opts c))) cands"
  let ?ps = "\<lambda>rs. concat (map (\<lambda>(c, r). case r of Inl e \<Rightarrow> [] | Inr p \<Rightarrow> [p]) rs)"
  let ?es = "\<lambda>rs. concat (map (\<lambda>(c, r). case r of Inl e \<Rightarrow> [PluginUnusable (ca_name c) (ca_path c) e] | Inr p \<Rightarrow> []) rs)
    :: ('e, 'c) load_error list"
  have split: "length (?ps rs) + length (?es rs) = length rs" for rs :: "(candidate \<times> ('c describe_error + plugin)) list"
    by (induction rs) (auto split: sum.splits)
  have load: "Load pl he opts = (?ps ?rs, map DiscoverFailed ds @ ?es ?rs)" using d by (simp add: Load_def Let_def)
  show ?thesis using Load_ok [OF load] split [of ?rs] d unfolding load by (simp del: map_map)
qed

subsection \<open>What a plugin gets to see\<close>

lemma minimalEnv_cong: "list_all (\<lambda>k. e1 k = e2 k) envKeys \<Longrightarrow> minimalEnv e1 v = minimalEnv e2 v"
  unfolding minimalEnv_def list_all_iff by (intro arg_cong2 [where f = append] arg_cong [where f = concat] map_cong) auto

text \<open>
  Plugins learn no secrets: what loading plugins gives and what a check of a plugin returns depend on no environment
  variable but those of the list of harmless ones, and on no part of a target but its name and the
  plugin's own section of the configuration.
\<close>

lemma secrets_withheld:
  assumes "list_all (\<lambda>k. e1 k = e2 k) envKeys"
    and "t_Name t1 = t_Name t2" and "t_Plugins t1 (pg_Name p) = t_Plugins t2 (pg_Name p)"
  shows "Load pl he (opts\<lparr>po_LookupEnv := e1\<rparr>) = Load pl he (opts\<lparr>po_LookupEnv := e2\<rparr>) \<and>
    plugin_Run he p m deadline t1 = plugin_Run he p m deadline t2"
proof
  have pathext: "e1 ''PATHEXT'' = e2 ''PATHEXT''" using assms(1) by (simp add: list_all_iff envKeys_def)
  have "new_plugin (opts\<lparr>po_LookupEnv := e1\<rparr>) = new_plugin (opts\<lparr>po_LookupEnv := e2\<rparr>)"
    using minimalEnv_cong [OF assms(1)] by (simp add: new_plugin_def fun_eq_iff)
  then show "Load pl he (opts\<lparr>po_LookupEnv := e1\<rparr>) = Load pl he (opts\<lparr>po_LookupEnv := e2\<rparr>)"
    by (simp add: Load_def discover_def plugin_dirs_def path_ext_def pathext)
  show "plugin_Run he p m deadline t1 = plugin_Run he p m deadline t2"
    using assms(2,3) by (simp add: plugin_Run_def plugin_request_def)
qed

subsection \<open>Both ends of the protocol\<close>

text \<open>A process that behaves as \<open>Serve\<close> says.\<close>

definition process_of :: "int \<times> string \<times> string \<Rightarrow> 'c proc_result" where
  "process_of r =
     (case r of (code, out, err) \<Rightarrow>
      \<lparr>pr_Context = None, pr_Stdout = [out], pr_Stderr = [err], pr_End = (if code = 0 then Exited0 else ExitStatus code)\<rparr>)"

text \<open>What a check of a plugin's own would report without a protocol in between.\<close>

definition direct_run :: "(string \<Rightarrow> string) \<Rightarrow> sdk_plugin \<Rightarrow> request \<Rightarrow> 'c plugin_run_error + finding list" where
  "direct_run quote sp req =
     (case find_check sp (rq_Check req) of
        None \<Rightarrow> Inl (PluginSaid (said (''unknown check '' @ quote (rq_Check req))))
      | Some c \<Rightarrow>
        (case sc_Run c req of
           CheckPanic r \<Rightarrow> Inl (PluginSaid (said (''check panicked: '' @ r)))
         | CheckError e \<Rightarrow> Inl (PluginSaid (said e))
         | CheckFindings fs \<Rightarrow> map_sum UnknownSeverity id (try_map core_finding fs)))"

definition served_reply :: "sdk_codec \<Rightarrow> sdk_plugin \<Rightarrow> string \<Rightarrow> reply" where
  "served_reply cd sp input = sdk_run (cd_Request cd) (cd_Quote cd) sp input"

lemma invoke_served:
  "length out \<le> maxStdout \<Longrightarrow> invoke (process_of (0, out, err)) = Inr out"
  by (simp add: invoke_def process_of_def capped_all_spec end_text_def Let_def)

lemma decodeOne_line:
  "trim_space out \<noteq> [] \<Longrightarrow> decode out = Inr (v, newline) \<Longrightarrow> decodeOne decode out = Inr v"
  by (simp add: decodeOne_def decoder_More_def newline_def json_space_def)

text \<open>
  C31 A check of a plugin written with the SDK counts for as much as a built-in one: whenever the request and
  this reply survive their encoding and the reply fits the limit, running it through the protocol gives
  exactly its findings, and its errors and panics become errors of the check, never findings.
\<close>

theorem protocol_transparent:
  fixes he :: "'c host_env"
  assumes "he_Request he (plugin_request p m t deadline) = Inr input"
    and "cd_Request cd input = Inr (plugin_request p m t deadline)"
    and "he_Reply he (cd_Reply cd (served_reply cd sp input)) = Inr (served_reply cd sp input, newline)"
    and "trim_space (cd_Reply cd (served_reply cd sp input)) \<noteq> []" and "length (cd_Reply cd (served_reply cd sp input)) \<le> maxStdout"
    and "he_proc he (pg_Path p) ''run'' input (pg_env p) = process_of (Serve cd sp [''run''] input)"
  shows "plugin_Run he p m deadline t = direct_run (cd_Quote cd) sp (plugin_request p m t deadline)"
proof -
  have "Serve cd sp [''run''] input = (0, cd_Reply cd (served_reply cd sp input), [])" by (simp add: Serve_def served_reply_def)
  then have "plugin_Run he p m deadline t = reply_findings (served_reply cd sp input)"
    using assms(1,6) invoke_served [OF assms(5), where 'a = 'c] decodeOne_line [of _ "he_Reply he", OF assms(4,3)]
    by (simp add: plugin_Run_def)
  moreover have "rq_Protocol (plugin_request p m t deadline) = Protocol" by (simp add: plugin_request_def)
  ultimately show ?thesis
    using assms(2) by (auto simp: served_reply_def sdk_run_def direct_run_def reply_findings_def sdk_fail_def split: option.splits check_outcome.splits)
qed

text \<open>A plugin with one check, and a host that runs it.\<close>

definition demo_sdk :: sdk_plugin where
  "demo_sdk = \<lparr>sp_Name = ''ipv6'', sp_Version = ''1'',
     sp_Checks = [\<lparr>sc_Info = \<lparr>ci_ID = ''ipv6.web.missing'', ci_Title = ''No IPv6'', ci_Description = [], ci_Remediation = [],
       ci_Mode = ''passive'', ci_Severity = ''low'', ci_References = [], ci_Timeout = []\<rparr>,
       sc_Run = (\<lambda>req. CheckFindings [\<lparr>sf_Subject = rq_Name req, sf_Severity = ''high'', sf_Title = ''No AAAA'',
         sf_Evidence = Map.empty, sf_Remediation = [], sf_References = None\<rparr>])\<rparr>]\<rparr>"

definition demo_meta6 :: meta where
  "demo_meta6 = \<lparr>m_ID = ''ipv6.web.missing'', m_Aliases = [], m_Module = ''ipv6'', m_Title = ''No IPv6'', m_Description = [],
     m_Remediation = [], m_Mode = Passive, m_Severity = SeverityLow, m_References = [], m_Timeout = 0\<rparr>"

definition demo_plugin :: plugin where
  "demo_plugin = \<lparr>pg_Name = ''ipv6'', pg_Version = ''1'', pg_Path = ''/usr/bin/seta-plugin-ipv6'', pg_Shadowed = [],
     pg_Checks = [demo_meta6], pg_env = [], pg_setaVersion = ''v1''\<rparr>"

definition demo_request :: "string \<Rightarrow> request" where
  "demo_request name = plugin_request demo_plugin demo_meta6 (target_named name) None"

definition demo_codec :: sdk_codec where
  "demo_codec = \<lparr>cd_Describe = (\<lambda>_. ''{}''), cd_Reply = (\<lambda>_. ''{}''), cd_Request = (\<lambda>s. Inr (demo_request s)), cd_Quote = id\<rparr>"

definition demo_host :: "unit host_env" where
  "demo_host = \<lparr>he_proc = (\<lambda>path arg input env. process_of (Serve demo_codec demo_sdk [arg] input)),
     he_timed_out = (\<lambda>_. True), he_Describe = (\<lambda>_. Inr (describe_of demo_sdk, newline)),
     he_Reply = (\<lambda>_. Inr (sdk_run (cd_Request demo_codec) id demo_sdk ''a.test'', newline)),
     he_Request = (\<lambda>req. Inr (rq_Name req)), he_ParseDuration = (\<lambda>_. None)\<rparr>"

theorem protocol_transparent_witness:
  "map_sum id (map f_Subject) (plugin_Run demo_host demo_plugin demo_meta6 None (target_named ''a.test'')) = Inr [''a.test'']"
proof -
  let ?he = demo_host and ?cd = demo_codec
  have "plugin_Run ?he demo_plugin demo_meta6 None (target_named ''a.test'') =
      direct_run (cd_Quote ?cd) demo_sdk (plugin_request demo_plugin demo_meta6 (target_named ''a.test'') None)"
  proof (rule protocol_transparent)
    show "he_Request ?he (plugin_request demo_plugin demo_meta6 (target_named ''a.test'') None) = Inr ''a.test''"
      by (simp add: demo_host_def plugin_request_def target_named_def)
    show "cd_Request ?cd ''a.test'' = Inr (plugin_request demo_plugin demo_meta6 (target_named ''a.test'') None)"
      by (simp add: demo_codec_def demo_request_def)
    show "he_Reply ?he (cd_Reply ?cd (served_reply ?cd demo_sdk ''a.test'')) =
        Inr (served_reply ?cd demo_sdk ''a.test'', newline)"
      by (simp add: demo_host_def demo_codec_def served_reply_def)
    show "trim_space (cd_Reply ?cd (served_reply ?cd demo_sdk ''a.test'')) \<noteq> []"
      by (simp add: demo_codec_def) code_simp
    show "length (cd_Reply ?cd (served_reply ?cd demo_sdk ''a.test'')) \<le> maxStdout"
      by (simp add: demo_codec_def maxStdout_def)
    show "he_proc ?he (pg_Path demo_plugin) ''run'' ''a.test'' (pg_env demo_plugin) = process_of (Serve ?cd demo_sdk [''run''] ''a.test'')"
      by (simp add: demo_host_def)
  qed
  then show ?thesis
    by (simp add: direct_run_def find_check_def demo_sdk_def demo_meta6_def plugin_request_def target_named_def core_finding_def
        ParseSeverity_def Severities_def severity_defs severityNames_def demo_codec_def)
qed

lemma secrets_withheld_witness:
  "plugin_Run demo_host demo_plugin demo_meta6 None (target_named ''a.test'') =
   plugin_Run demo_host demo_plugin demo_meta6 None
     ((target_named ''a.test'')\<lparr>t_Plugins := [''other'' \<mapsto> ''{token: secret}'']\<rparr>)"
  by (rule secrets_withheld [THEN conjunct2, of Map.empty "[''TOKEN'' \<mapsto> ''secret'']"])
    (simp_all add: envKeys_def demo_plugin_def target_named_def)

text \<open>
  One document only, almost: a closing bracket and whatever comes after it is not noticed, since \<open>More\<close> takes
  it for the end of an enclosing array.
\<close>

lemma decodeOne_after_bracket:
  "trim_space data \<noteq> [] \<Longrightarrow> decode data = Inr (v, CHR ''}'' # junk) \<Longrightarrow> decodeOne decode data = Inr v"
  by (simp add: decodeOne_def decoder_More_def json_space_def)

end
