(* ===== verification/SetaPluginHost.thy ===== *)
theory SetaPluginHost
  imports SetaPlugin
begin

text \<open>
  cli/plugins.go: loading the plugins of a process and registering their checks beside the built-in ones.
  What a check's Run is, is a parameter \<open>mk\<close>. The texts of the list command are left out, its decision which of
  them to print is not.
\<close>

datatype ('e, 'c) set_error = LoadFailed "('e, 'c) load_error" | NotRegistered string string reg_error

record ('e, 'c) plugin_set =
  ps_plugins :: "plugin list"
  ps_errs :: "('e, 'c) set_error list"

text \<open>The loop over a plugin's checks: the first failure ends it, what was registered stays.\<close>

fun register_checks :: "'r registry \<Rightarrow> 'r check list \<Rightarrow> reg_error option \<times> 'r registry" where
  "register_checks r [] = (None, r)"
| "register_checks r (c # cs) = (case Register r c of Inl e \<Rightarrow> (Some e, r) | Inr r' \<Rightarrow> register_checks r' cs)"

definition plugin_checks :: "(plugin \<Rightarrow> meta \<Rightarrow> 'r) \<Rightarrow> plugin \<Rightarrow> 'r check list" where
  "plugin_checks mk p = map (\<lambda>m. \<lparr>c_Meta = m, c_Run = mk p m\<rparr>) (pg_Checks p)"

fun register_plugins ::
  "(plugin \<Rightarrow> meta \<Rightarrow> 'r) \<Rightarrow> 'r registry \<Rightarrow> plugin list \<Rightarrow> plugin list \<times> ('e, 'c) set_error list \<times> 'r registry" where
  "register_plugins mk r [] = ([], [], r)"
| "register_plugins mk r (p # ps) =
     (case register_checks r (plugin_checks mk p) of (err, r') \<Rightarrow>
      case register_plugins mk r' ps of (used, errs, r'') \<Rightarrow>
      case err of
        None \<Rightarrow> (p # used, errs, r'')
      | Some e \<Rightarrow> (used, NotRegistered (pg_Name p) (pg_Path p) e # errs, r''))"

definition reserved_modules :: "'r registry \<Rightarrow> string list" where
  "reserved_modules r = Planned @ map (\<lambda>c. m_Module (c_Meta c)) (registry_All r)"

definition load_options :: "(string \<rightharpoonup> string) \<Rightarrow> string \<Rightarrow> string \<Rightarrow> 'r registry \<Rightarrow> plugin_options" where
  "load_options env version dir r =
     \<lparr>po_Dirs = (if dir \<noteq> [] then [dir] else []), po_PATH = (case env ''PATH'' of None \<Rightarrow> [] | Some v \<Rightarrow> v),
      po_Reserved = reserved_modules r, po_LookupEnv = env, po_SetaVersion = version\<rparr>"

text \<open>The plugin set is loaded once: \<open>cached\<close> is what an earlier call left.\<close>

definition loadPlugins ::
  "'e platform \<Rightarrow> 'c host_env \<Rightarrow> (plugin \<Rightarrow> meta \<Rightarrow> 'r) \<Rightarrow> (string \<rightharpoonup> string) \<Rightarrow> string \<Rightarrow> bool \<Rightarrow> string \<Rightarrow>
   ('e, 'c) plugin_set option \<Rightarrow> 'r registry \<Rightarrow> ('e, 'c) plugin_set \<times> 'r registry" where
  "loadPlugins pl he mk env version noPlugins dir cached r =
     (case cached of
        Some s \<Rightarrow> (s, r)
      | None \<Rightarrow>
        if noPlugins then (\<lparr>ps_plugins = [], ps_errs = []\<rparr>, r)
        else case Load pl he (load_options env version dir r) of (ps, errs) \<Rightarrow>
          (case register_plugins mk r ps of (used, failed, r') \<Rightarrow>
           (\<lparr>ps_plugins = used, ps_errs = map LoadFailed errs @ failed\<rparr>, r')))"

text \<open>The warnings on stderr; True marks those that add that the plugin's checks are unavailable.\<close>

definition plugin_warnings :: "bool \<Rightarrow> ('e, 'c) plugin_set \<Rightarrow> (('e, 'c) set_error \<times> bool) list" where
  "plugin_warnings quiet s =
     (if quiet then []
      else map (\<lambda>e. (e, case e of LoadFailed (DiscoverFailed (DirectoryError _)) \<Rightarrow> False | _ \<Rightarrow> True)) (ps_errs s))"

definition plugin_names :: "('e, 'c) plugin_set \<Rightarrow> string list" where
  "plugin_names s = map pg_Name (ps_plugins s)"

text \<open>What \<open>plugins list\<close> prints: nothing found, or the table, the shadowed ones and the problems.\<close>

definition plugins_list :: "('e, 'c) plugin_set \<Rightarrow> (plugin list \<times> (string \<times> string) list \<times> ('e, 'c) set_error list) option" where
  "plugins_list s =
     (if ps_plugins s = [] \<and> ps_errs s = [] then None
      else Some (ps_plugins s, map (\<lambda>p. (pg_Path p, comma (pg_Shadowed p))) (filter (\<lambda>p. pg_Shadowed p \<noteq> []) (ps_plugins s)),
        ps_errs s))"

subsection \<open>Registering\<close>

definition module_of :: "string \<Rightarrow> string" where
  "module_of i = fst (cut CHR ''.'' i)"

text \<open>Every name of the registry lies in one of these modules.\<close>

definition names_within :: "string set \<Rightarrow> 'r registry \<Rightarrow> bool" where
  "names_within ms r \<longleftrightarrow> (\<forall>i. taken r i \<longrightarrow> module_of i \<in> ms)"

lemma valid_module: "meta_Validate m = None \<Longrightarrow> module_of (m_ID m) = m_Module m"
  by (simp add: meta_Validate_None module_of_def cut_fst_split_on)

definition check_table :: "'r check list \<Rightarrow> (string \<times> 'r check) list" where
  "check_table cs = map (\<lambda>c. (check_ID c, c)) cs"

lemma Register_free:
  assumes "meta_Validate (c_Meta c) = None" and "m_Aliases (c_Meta c) = []" and "\<not> taken r (check_ID c)"
  shows "\<exists>r'. Register r c = Inr r'"
  using assms by (simp add: Register_def Let_def)

lemma register_checks_free:
  assumes "registry_ok r" and "distinct (map check_ID cs)"
    and "list_all (\<lambda>c. meta_Validate (c_Meta c) = None \<and> m_Aliases (c_Meta c) = [] \<and> \<not> taken r (check_ID c)) cs"
  shows "\<exists>r'. register_checks r cs = (None, r') \<and> registry_ok r' \<and>
    (\<forall>i. taken r' i \<longleftrightarrow> taken r i \<or> i \<in> check_ID ` set cs) \<and>
    (\<forall>i. registry_Lookup r' i = (case map_of (check_table cs) i of Some c \<Rightarrow> Some c | None \<Rightarrow> registry_Lookup r i))"
  using assms
proof (induction cs arbitrary: r)
  case (Cons c cs)
  obtain r1 where r1: "Register r c = Inr r1" using Register_free [of c r] Cons.prems(3) by auto
  note R = Register_Inr [OF r1]
  have taken: "taken r1 i \<longleftrightarrow> taken r i \<or> i = check_ID c" for i
    using R(4,5) Cons.prems(3) by (auto simp: taken_def)
  have look: "registry_Lookup r1 i = (if i = check_ID c then Some c else registry_Lookup r i)" for i
    using Register_finds [OF Cons.prems(1) r1] Cons.prems(3) by simp
  have "list_all (\<lambda>c. meta_Validate (c_Meta c) = None \<and> m_Aliases (c_Meta c) = [] \<and> \<not> taken r1 (check_ID c)) cs"
    using Cons.prems(2,3) taken by (auto simp: list_all_iff) (metis image_eqI)
  then obtain r' where r': "register_checks r1 cs = (None, r')" "registry_ok r'"
      "\<forall>i. taken r' i \<longleftrightarrow> taken r1 i \<or> i \<in> check_ID ` set cs"
      "\<forall>i. registry_Lookup r' i = (case map_of (check_table cs) i of Some c \<Rightarrow> Some c | None \<Rightarrow> registry_Lookup r1 i)"
    using Cons.IH [OF Register_ok [OF Cons.prems(1) r1]] Cons.prems(2) by auto
  have "map_of (check_table cs) (check_ID c) = None"
    using Cons.prems(2) by (auto simp: check_table_def map_of_eq_None_iff image_iff)
  then show ?case
    using r' r1 taken look by (auto simp: check_table_def split: option.splits)
qed (simp add: check_table_def)

definition plugin_table :: "(plugin \<Rightarrow> meta \<Rightarrow> 'r) \<Rightarrow> plugin list \<Rightarrow> (string \<times> 'r check) list" where
  "plugin_table mk ps = concat (map (\<lambda>p. check_table (plugin_checks mk p)) ps)"

lemma register_plugins_free:
  assumes "registry_ok r" and "names_within ms r" and "distinct (map pg_Name ps)"
    and "list_all (\<lambda>p. pg_Name p \<notin> ms \<and> distinct (map m_ID (pg_Checks p)) \<and> list_all (plugin_check_ok (pg_Name p)) (pg_Checks p)) ps"
  shows "\<exists>r'. register_plugins mk r ps = (ps, [] :: ('e, 'c) set_error list, r') \<and> registry_ok r' \<and>
    (\<forall>i. registry_Lookup r' i = (case map_of (plugin_table mk ps) i of Some c \<Rightarrow> Some c | None \<Rightarrow> registry_Lookup r i))"
  using assms
proof (induction ps arbitrary: r ms)
  case (Cons p ps)
  let ?cs = "plugin_checks mk p"
  have ids: "map check_ID ?cs = map m_ID (pg_Checks p)" by (simp add: plugin_checks_def)
  have ok: "meta_Validate m = None \<and> m_Aliases m = [] \<and> module_of (m_ID m) = pg_Name p" if "m \<in> set (pg_Checks p)" for m
    using Cons.prems(4) that valid_module by (auto simp: list_all_iff plugin_check_ok_def)
  then have "\<not> taken r (m_ID m)" if "m \<in> set (pg_Checks p)" for m
    using Cons.prems(2,4) that by (auto simp: names_within_def)
  then have "list_all (\<lambda>c. meta_Validate (c_Meta c) = None \<and> m_Aliases (c_Meta c) = [] \<and> \<not> taken r (check_ID c)) ?cs"
    using ok by (auto simp: plugin_checks_def list_all_iff)
  moreover have "distinct (map check_ID ?cs)" unfolding ids using Cons.prems(4) by simp
  ultimately obtain r1 where r1: "register_checks r ?cs = (None, r1)" "registry_ok r1"
      "\<forall>i. taken r1 i \<longleftrightarrow> taken r i \<or> i \<in> check_ID ` set ?cs"
      "\<forall>i. registry_Lookup r1 i = (case map_of (check_table ?cs) i of Some c \<Rightarrow> Some c | None \<Rightarrow> registry_Lookup r i)"
    using register_checks_free [OF Cons.prems(1)] by blast
  have "check_ID ` set ?cs = m_ID ` set (pg_Checks p)" using ids by (metis set_map)
  then have within: "names_within (insert (pg_Name p) ms) r1"
    using r1(3) Cons.prems(2) ok by (auto simp: names_within_def)
  have dist: "distinct (map pg_Name ps)" using Cons.prems(3) by simp
  have rest: "list_all (\<lambda>q. pg_Name q \<notin> insert (pg_Name p) ms \<and> distinct (map m_ID (pg_Checks q)) \<and>
      list_all (plugin_check_ok (pg_Name q)) (pg_Checks q)) ps"
    using Cons.prems(3,4) by (auto simp: list_all_iff) (metis image_eqI)
  obtain r' where r': "register_plugins mk r1 ps = (ps, [] :: ('e, 'c) set_error list, r')" "registry_ok r'"
      "\<forall>i. registry_Lookup r' i = (case map_of (plugin_table mk ps) i of Some c \<Rightarrow> Some c | None \<Rightarrow> registry_Lookup r1 i)"
    using Cons.IH [OF r1(2) within dist rest] by (elim exE conjE)
  have "map_of (check_table ?cs) i = None \<or> map_of (plugin_table mk ps) i = None" for i
  proof (rule ccontr)
    assume "\<not> ?thesis"
    then obtain m q n where mqn: "m \<in> set (pg_Checks p)" "q \<in> set ps" "n \<in> set (pg_Checks q)" "m_ID m = i" "m_ID n = i"
      by (auto simp: check_table_def plugin_table_def plugin_checks_def dest!: map_of_SomeD)
    then have "plugin_check_ok (pg_Name q) n" using Cons.prems(4) by (simp add: list_all_iff)
    then have "module_of (m_ID n) = pg_Name q" using valid_module [of n] by (simp add: plugin_check_ok_def)
    then have "pg_Name q = pg_Name p" using ok [OF mqn(1)] mqn(4,5) by simp
    then show False using mqn(2) Cons.prems(3) by (metis distinct.simps(2) image_eqI list.simps(9) set_map)
  qed
  then have "registry_Lookup r' i = (case map_of (plugin_table mk (p # ps)) i of Some c \<Rightarrow> Some c | None \<Rightarrow> registry_Lookup r i)" for i
    using r'(3) r1(4) by (auto simp: plugin_table_def map_add_def split: option.splits) (metis option.distinct(1))
  then show ?case using r1(1) r' by simp
qed (simp add: plugin_table_def)

text \<open>
  Plugins cannot touch the built-in checks and none is lost on the way: in a registry whose former names lie in
  its own modules, every plugin that loads has all its checks registered, under names nobody had, no
  error is added, and every name that led to a check before leads to the same check after.
\<close>

lemma loadPlugins_registers_all:
  fixes r :: "'r registry" and pl :: "'e platform" and he :: "'c host_env"
  assumes "registry_ok r" and "list_all (\<lambda>(a, _). module_of a \<in> set (reserved_modules r)) (r_aliases r)"
    and "Load pl he (load_options env version dir r) = (ps, errs)"
  shows "\<exists>r'. loadPlugins pl he mk env version False dir None r =
      (\<lparr>ps_plugins = ps, ps_errs = map LoadFailed errs\<rparr>, r') \<and> registry_ok r' \<and>
    (\<forall>i. registry_Lookup r' i = (case map_of (plugin_table mk ps) i of Some c \<Rightarrow> Some c | None \<Rightarrow> registry_Lookup r i)) \<and>
    list_all (\<lambda>(i, _). \<not> taken r i) (plugin_table mk ps)"
proof -
  let ?ms = "set (reserved_modules r)"
  have within: "names_within ?ms r"
    unfolding names_within_def
  proof (intro allI impI)
    fix i assume "taken r i"
    then consider c where "map_of (r_checks r) i = Some c" | a where "map_of (r_aliases r) i = Some a"
      by (auto simp: taken_def)
    then show "module_of i \<in> ?ms"
    proof cases
      case 1
      then have "check_ID c = i" "meta_Validate (c_Meta c) = None" using assms(1) by (auto simp: registry_ok_def maps_ok_def)
      then have "module_of i = m_Module (c_Meta c)" using valid_module by blast
      moreover have "c \<in> set (registry_All r)"
        using map_of_SomeD [OF 1] by (force simp: registry_All_def sortByID_def)
      ultimately show ?thesis by (simp add: reserved_modules_def)
    next
      case 2
      then show ?thesis using assms(2) map_of_SomeD [OF 2] by (auto simp: list_all_iff)
    qed
  qed
  have loaded: "distinct (map pg_Name ps)" "list_all (plugin_ok (reserved_modules r)) ps"
    using Load_ok [OF assms(3)] by (simp_all add: load_options_def)
  then have ok: "list_all (\<lambda>p. pg_Name p \<notin> ?ms \<and> distinct (map m_ID (pg_Checks p)) \<and>
      list_all (plugin_check_ok (pg_Name p)) (pg_Checks p)) ps"
    by (auto simp: plugin_ok_def list_all_iff)
  obtain r' where "register_plugins mk r ps = (ps, [] :: ('e, 'c) set_error list, r')" "registry_ok r'"
      "\<forall>i. registry_Lookup r' i = (case map_of (plugin_table mk ps) i of Some c \<Rightarrow> Some c | None \<Rightarrow> registry_Lookup r i)"
    using register_plugins_free [OF assms(1) within loaded(1) ok, of mk] by (elim exE conjE)
  moreover have "list_all (\<lambda>(i, _). \<not> taken r i) (plugin_table mk ps)"
    using ok within valid_module
    by (fastforce simp: list_all_iff plugin_table_def check_table_def plugin_checks_def names_within_def plugin_check_ok_def)
  ultimately show ?thesis using assms(3) by (simp add: loadPlugins_def)
qed

subsection \<open>A plugin on PATH\<close>

definition demo_platform :: "unit platform" where
  "demo_platform = \<lparr>pl_Windows = False, pl_SplitList = split_on CHR '':'', pl_IsAbs = (\<lambda>d. has_prefix d ''/''), pl_Clean = id,
     pl_Join = (\<lambda>d n. d @ ''/'' @ n), pl_Ext = (\<lambda>_. []), pl_ReadDir = (\<lambda>_. Inr [''ls'', ''seta-plugin-ipv6'']),
     pl_Stat = (\<lambda>_. Some (True, True))\<rparr>"

definition demo_env :: "string \<rightharpoonup> string" where "demo_env = [''PATH'' \<mapsto> ''bin:/usr/bin'']"

definition demo_options :: plugin_options where
  "demo_options = load_options demo_env ''v1'' [] demo_registry"

lemma demo_reserved: "''ipv6'' \<notin> set (po_Reserved demo_options)"
  by code_simp

lemma demo_discover:
  "discover demo_platform demo_options = ([\<lparr>ca_name = ''ipv6'', ca_path = ''/usr/bin/seta-plugin-ipv6'', ca_shadowed = []\<rparr>], [])"
  by code_simp

lemma demo_checks: "describe_checks Map.empty ''ipv6'' {} (map sc_Info (sp_Checks demo_sdk)) = (Inr [demo_meta6] :: unit describe_error + meta list)"
  by code_simp

lemma demo_describe:
  assumes "pg_Name p = ''ipv6''" and "''ipv6'' \<notin> set reserved"
  shows "describe demo_host reserved p = Inr (p\<lparr>pg_Version := ''1'', pg_Checks := [demo_meta6]\<rparr>)"
proof -
  have "trim_space ''{}'' \<noteq> []" by code_simp
  then have "decodeOne (he_Describe demo_host) ''{}'' = Inr (describe_of demo_sdk)"
    by (intro decodeOne_line) (simp_all add: demo_host_def)
  moreover have "invoke (he_proc demo_host (pg_Path p) ''describe'' [] (pg_env p)) = Inr ''{}''"
    using invoke_served [of "''{}''"] by (simp add: demo_host_def Serve_def demo_codec_def maxStdout_def)
  moreover have "dd_Protocol (describe_of demo_sdk) = Protocol" "dd_Name (describe_of demo_sdk) = ''ipv6''"
      "dd_Version (describe_of demo_sdk) = ''1''" "dd_Checks (describe_of demo_sdk) = map sc_Info (sp_Checks demo_sdk)"
      "sp_Checks demo_sdk \<noteq> []" "he_ParseDuration demo_host = Map.empty"
    by (simp_all add: describe_of_def demo_sdk_def demo_host_def)
  ultimately show ?thesis using assms demo_checks by (simp add: describe_def)
qed

lemma demo_Load:
  "map (\<lambda>p. (pg_Path p, map m_ID (pg_Checks p))) (fst (Load demo_platform demo_host demo_options)) =
    [(''/usr/bin/seta-plugin-ipv6'', [''ipv6.web.missing''])]"
  using demo_reserved by (simp add: Load_def demo_discover Let_def demo_describe new_plugin_def demo_meta6_def)

lemma loadPlugins_registers_all_witness:
  "registry_Lookup (snd (loadPlugins demo_platform demo_host (\<lambda>p m. ()) demo_env ''v1'' False [] None demo_registry)) ''ipv6.web.missing'' \<noteq> None"
proof -
  obtain ps errs where load: "Load demo_platform demo_host (load_options demo_env ''v1'' [] demo_registry) = (ps, errs)" by fastforce
  have former: "list_all (\<lambda>(a, _). module_of a \<in> set (reserved_modules demo_registry)) (r_aliases demo_registry)" by code_simp
  have ids: "map (\<lambda>p. (pg_Path p, map m_ID (pg_Checks p))) ps = [(''/usr/bin/seta-plugin-ipv6'', [''ipv6.web.missing''])]"
    using demo_Load load by (simp add: demo_options_def)
  then obtain p where "ps = [p]" "map m_ID (pg_Checks p) = [''ipv6.web.missing'']" by auto
  then have "map_of (plugin_table (\<lambda>p m. ()) ps) ''ipv6.web.missing'' \<noteq> None"
    by (auto simp: plugin_table_def check_table_def plugin_checks_def)
  then show ?thesis
    using loadPlugins_registers_all [OF demo_registry_ok former load, of "\<lambda>p m. ()"] by auto
qed

text \<open>
  The hypothesis on former names is needed: where a plugin's check has the former name of a built-in one, the plugin
  is reported as unusable and yet the checks it described before that one stay registered.
\<close>

lemma partly_registered:
  "register_plugins (\<lambda>p m. ()) (registry_New\<lparr>r_checks := [(''a.b.c'', demo_check ''a.b.c'' [''z.y.x''])], r_aliases := [(''z.y.x'', ''a.b.c'')]\<rparr>)
     [demo_plugin\<lparr>pg_Checks := [demo_meta ''z.first.one'' [], demo_meta ''z.y.x'' []]\<rparr>] =
   ([], [NotRegistered ''ipv6'' ''/usr/bin/seta-plugin-ipv6'' (IDTaken ''z.y.x'')] :: (unit, unit) set_error list,
    registry_New\<lparr>r_checks := [(''a.b.c'', demo_check ''a.b.c'' [''z.y.x'']), (''z.first.one'', demo_check ''z.first.one'' [])],
      r_aliases := [(''z.y.x'', ''a.b.c'')]\<rparr>)"
  by code_simp

end
