(* ===== verification/SetaCatalog.thy ===== *)
theory SetaCatalog
  imports SetaPluginHost SetaEmailMail SetaTls
begin

text \<open>
  The metadata of the built-in checks, as the packages under checks/ declare it, and how it gets into the
  registry (checks/internal/checkdef, \<open>define\<close> and \<open>Checks\<close> of checks/email). The functions of the checks are in the
  theories of their packages; here they are a parameter \<open>run\<close>.
\<close>

subsection \<open>Defining checks\<close>

record 'r check_set =
  cs_Module :: string
  cs_checks :: "'r check list"

text \<open>\<open>Inl\<close>: the panic of registry.Register.\<close>

definition Define :: "'r check_set \<Rightarrow> 'r registry \<Rightarrow> meta \<Rightarrow> 'r \<Rightarrow> reg_error + 'r check_set \<times> 'r registry" where
  "Define s r m run =
     (let c = \<lparr>c_Meta = m\<lparr>m_Module := cs_Module s\<rparr>, c_Run = run\<rparr> in
      case Register r c of
        Inl e \<Rightarrow> Inl e
      | Inr r' \<Rightarrow> Inr (s\<lparr>cs_checks := cs_checks s @ [c]\<rparr>, r'))"

definition set_Check :: "'r check_set \<Rightarrow> string \<Rightarrow> 'r check option" where
  "set_Check s i = find (\<lambda>c. check_ID c = i) (cs_checks s)"

definition email_define :: "'r check list \<Rightarrow> meta \<Rightarrow> 'r \<Rightarrow> 'r check list" where
  "email_define checks m run = checks @ [\<lparr>c_Meta = m\<lparr>m_Module := ''email''\<rparr>, c_Run = run\<rparr>]"

definition rfc :: "nat \<Rightarrow> string \<Rightarrow> string" where
  "rfc n sec =
     ''https://www.rfc-editor.org/rfc/rfc'' @ nat_digits n @ (if sec \<noteq> [] then ''#section-'' @ sec else [])"

definition mdnHeaders :: string where "mdnHeaders = ''https://developer.mozilla.org/en-US/docs/Web/HTTP/Headers/''"

definition rfc6797 :: string where "rfc6797 = ''https://www.rfc-editor.org/rfc/rfc6797''"

definition dmarcRefs :: "string list" where "dmarcRefs = [rfc 7489 []]"

definition spfRefs :: "string list" where "spfRefs = [rfc 7208 []]"

definition smtpTimeout :: int where "smtpTimeout = 45 * 1000000000"

definition starttlsMeta :: meta where
  "starttlsMeta =
    \<lparr>m_ID = [], m_Aliases = [], m_Module = [], m_Title = [], m_Description = [], m_Remediation = [],
     m_Mode = Active, m_Severity = SeverityUnset, m_References = [rfc 3207 [], rfc 8461 []],
     m_Timeout = smtpTimeout + 5 * 1000000000\<rparr>"

subsection \<open>Package checks/dns\<close>

definition dns_caa_missing_meta :: meta where
  "dns_caa_missing_meta =
    \<lparr>m_ID = ''dns.caa.missing'', m_Aliases = [], m_Module = [],
     m_Title = ''No CAA records'',
     m_Description = ''Neither the domain nor its parent domains publish CAA records, so any public CA may issue '' @
       ''certificates for it. CAA limits issuance to the CAs you use, which blocks mis-issuance through '' @
       ''other CAs' weaker validation.'',
     m_Remediation = ''Publish CAA records naming the CAs you use, e.g. '' @ [CHR 0x22] @ ''example.com. CAA 0 issue '' @ [CHR 0x5C] @ [CHR 0x22] @ ''letsencrypt.org'' @ [CHR 0x5C] @ [CHR 0x22] @ [CHR 0x22] @ '', '' @
       ''and optionally an iodef record for violation reports.'',
     m_Mode = Passive, m_Severity = SeverityLow,
     m_References = [rfc 8659 []], m_Timeout = 0\<rparr>"

definition dns_caa_invalid_meta :: meta where
  "dns_caa_invalid_meta =
    \<lparr>m_ID = ''dns.caa.invalid'', m_Aliases = [], m_Module = [],
     m_Title = ''CAA records block all issuance by mistake'',
     m_Description = ''The CAA records that apply to the domain contain a record CAs can't honor: an unknown '' @
       ''property marked critical, or an issue value that isn't a CA domain name. CAs then refuse to issue '' @
       ''(or renew) certificates, and the site breaks when the current certificate expires.'',
     m_Remediation = ''Fix or remove the record: issue values are CA domain names such as '' @ [CHR 0x22] @ ''letsencrypt.org'' @ [CHR 0x22] @ '' or '' @
       [CHR 0x22] @ ''pki.goog'' @ [CHR 0x22] @ '', and the critical flag (128) must only be set on tags CAs understand.'',
     m_Mode = Passive, m_Severity = SeverityMedium,
     m_References = [rfc 8659 ''4''], m_Timeout = 0\<rparr>"

definition dns_dnssec_missing_meta :: meta where
  "dns_dnssec_missing_meta =
    \<lparr>m_ID = ''dns.dnssec.missing'', m_Aliases = [], m_Module = [],
     m_Title = ''Domain is not signed with DNSSEC'',
     m_Description = ''The zone isn't protected by DNSSEC (no DS record at the parent), so resolvers can't detect '' @
       ''forged answers from cache poisoning or on-path attackers. When the zone is signed but the parent '' @
       ''has no DS record, the signatures are never checked.'',
     m_Remediation = ''Enable DNSSEC signing at your DNS provider, then publish the DS record it gives you at your '' @
       ''registrar. Most managed DNS providers do both in one click.'',
     m_Mode = Passive, m_Severity = SeverityLow,
     m_References = [rfc 4033 [], ''https://www.icann.org/resources/pages/dnssec-what-is-it-why-important-2019-03-05-en''], m_Timeout = 0\<rparr>"

definition dns_dnssec_invalid_meta :: meta where
  "dns_dnssec_invalid_meta =
    \<lparr>m_ID = ''dns.dnssec.invalid'', m_Aliases = [], m_Module = [],
     m_Title = ''DNSSEC validation fails'',
     m_Description = ''The parent zone says the domain is signed (DS record), but the signatures don't validate: '' @
       ''no key matches the DS, a signature doesn't verify, or signatures have expired. Validating resolvers '' @
       ''(Google, Cloudflare, Quad9 and many ISPs) then answer SERVFAIL, so the domain, its website and its '' @
       ''mail are unreachable for a large share of users.'',
     m_Remediation = ''Fix the chain at the DNS provider (re-enable signing, or finish the key rollover) and make the '' @
       ''DS record at the registrar match the current key. If signing can't be fixed quickly, remove the DS '' @
       ''record at the registrar to go back to an unsigned zone.'',
     m_Mode = Passive, m_Severity = SeverityCritical,
     m_References = [rfc 4035 ''5'', ''https://dnsviz.net/''], m_Timeout = 0\<rparr>"

definition dns_dnssec_weak_algorithm_meta :: meta where
  "dns_dnssec_weak_algorithm_meta =
    \<lparr>m_ID = ''dns.dnssec.weak_algorithm'', m_Aliases = [], m_Module = [],
     m_Title = ''DNSSEC uses a deprecated algorithm'',
     m_Description = ''The zone is signed with an algorithm RFC 8624 says must not or should not be used for '' @
       ''signing (RSA/SHA-1, DSA, RSA/MD5, GOST), or the parent's DS uses a SHA-1 digest. Some validators '' @
       ''already treat such zones as unsigned.'',
     m_Remediation = ''Roll the zone over to ECDSA P-256 with SHA-256 (algorithm 13) and publish a SHA-256 DS (digest type 2).'',
     m_Mode = Passive, m_Severity = SeverityLow,
     m_References = [rfc 8624 ''3.1''], m_Timeout = 0\<rparr>"

definition dns_axfr_allowed_meta :: meta where
  "dns_axfr_allowed_meta =
    \<lparr>m_ID = ''dns.axfr.allowed'', m_Aliases = [], m_Module = [],
     m_Title = ''Nameserver allows zone transfers to anyone'',
     m_Description = ''A nameserver answers AXFR requests from arbitrary clients, handing out the whole zone: '' @
       ''every host name, including internal and staging ones never meant to be discovered. Seta reads only '' @
       ''the first message of the transfer and reports how many records it held.'',
     m_Remediation = ''Restrict zone transfers to your secondary nameservers' addresses (BIND: allow-transfer; '' @
       ''PowerDNS: allow-axfr-ips; NSD: provide-xfr), ideally with TSIG.'',
     m_Mode = Active, m_Severity = SeverityHigh,
     m_References = [rfc 5936 ''6'', ''https://www.cisa.gov/news-events/alerts/2015/04/13/dns-zone-transfer-axfr-requests-may-leak-domain-information''], m_Timeout = 0\<rparr>"

definition dns_nameserver_open_resolver_meta :: meta where
  "dns_nameserver_open_resolver_meta =
    \<lparr>m_ID = ''dns.nameserver.open_resolver'', m_Aliases = [], m_Module = [],
     m_Title = ''Nameserver is an open resolver'',
     m_Description = ''A nameserver answers recursive queries for names outside its zones from anyone. Open '' @
       ''resolvers are used to amplify DDoS attacks and are easier targets for cache poisoning.'',
     m_Remediation = ''Disable recursion on authoritative nameservers (BIND: recursion no; or allow-recursion '' @
       ''limited to your own networks), and run recursive resolvers only for your own clients.'',
     m_Mode = Active, m_Severity = SeverityMedium,
     m_References = [rfc 5358 [], ''https://www.cisa.gov/news-events/alerts/2013/03/29/dns-amplification-attacks''], m_Timeout = 0\<rparr>"

definition dns_takeover_possible_meta :: meta where
  "dns_takeover_possible_meta =
    \<lparr>m_ID = ''dns.takeover.possible'', m_Aliases = [], m_Module = [],
     m_Title = ''Subdomain can be taken over'',
     m_Description = ''A CNAME points at a cloud or SaaS resource (a storage bucket, an app, a Pages site) that no '' @
       ''longer exists, on a service where anyone can create a resource with that name. Whoever claims it '' @
       ''serves their content, cookies and phishing pages on your domain. Seta only looks for the service's '' @
       [CHR 0x22] @ ''doesn't exist'' @ [CHR 0x22] @ '' signature and never tries to claim anything.'',
     m_Remediation = ''Delete the CNAME record now, or recreate the resource it points at in your own account. '' @
       ''Remove DNS records before deprovisioning the resources they point at.'',
     m_Mode = Passive, m_Severity = SeverityHigh,
     m_References = [''https://github.com/EdOverflow/can-i-take-over-xyz'', ''https://developer.mozilla.org/en-US/docs/Web/Security/Subdomain_takeovers''], m_Timeout = 0\<rparr>"

definition dns_cname_dangling_meta :: meta where
  "dns_cname_dangling_meta =
    \<lparr>m_ID = ''dns.cname.dangling'', m_Aliases = [], m_Module = [],
     m_Title = ''CNAME points at a name that doesn't exist'',
     m_Description = ''A CNAME's target doesn't exist (NXDOMAIN), so the name is broken. If the target's domain '' @
       ''is unregistered or on a service that lets anyone create that name, it can be taken over.'',
     m_Remediation = ''Remove the CNAME record, or point it at a name that exists. Check whether the target's '' @
       ''domain has expired.'',
     m_Mode = Passive, m_Severity = SeverityMedium,
     m_References = [rfc 1034 ''3.6.2''], m_Timeout = 0\<rparr>"

definition dns_metas :: "meta list" where
  "dns_metas =
    [dns_caa_missing_meta, dns_caa_invalid_meta, dns_dnssec_missing_meta, dns_dnssec_invalid_meta,
     dns_dnssec_weak_algorithm_meta, dns_axfr_allowed_meta, dns_nameserver_open_resolver_meta, dns_takeover_possible_meta,
     dns_cname_dangling_meta]"

subsection \<open>Package checks/email\<close>

definition email_dkim_missing_meta :: meta where
  "email_dkim_missing_meta =
    \<lparr>m_ID = ''email.dkim.missing'', m_Aliases = [], m_Module = [],
     m_Title = ''DKIM key not found'',
     m_Description = ''A configured DKIM selector publishes no usable key at <selector>._domainkey, so '' @
       ''signatures made with it fail verification. Selectors can't be discovered from DNS: without '' @
       ''configured selectors Seta only tries common names, and finding none there doesn't mean the '' @
       ''domain lacks DKIM.'',
     m_Remediation = ''Publish the public key your mail provider gives you at <selector>._domainkey.<domain>, '' @
       ''or remove the selector from the configuration if it's no longer used.'',
     m_Mode = Passive, m_Severity = SeverityMedium,
     m_References = [rfc 6376 ''3.6.2''], m_Timeout = 0\<rparr>"

definition email_dkim_weak_key_meta :: meta where
  "email_dkim_weak_key_meta =
    \<lparr>m_ID = ''email.dkim.weak_key'', m_Aliases = [], m_Module = [],
     m_Title = ''DKIM RSA key is too short'',
     m_Description = ''A DKIM selector publishes an RSA key shorter than 2048 bits. 1024-bit keys are '' @
       ''considered breakable by well-resourced attackers, and anything shorter can be factored '' @
       ''cheaply, letting anyone forge signatures for the domain.'',
     m_Remediation = ''Generate a 2048-bit key with your mail provider, publish it under a new selector, '' @
       ''switch signing to it, then revoke the old selector.'',
     m_Mode = Passive, m_Severity = SeverityHigh,
     m_References = [rfc 8301 ''3.2''], m_Timeout = 0\<rparr>"

definition email_dmarc_missing_meta :: meta where
  "email_dmarc_missing_meta =
    \<lparr>m_ID = ''email.dmarc.missing'', m_Aliases = [], m_Module = [],
     m_Title = ''No DMARC record'',
     m_Description = ''Neither the domain nor its organizational domain publishes a DMARC record at _dmarc. '' @
       ''Receivers apply no policy to mail that fails SPF and DKIM alignment, and you get no reports '' @
       ''about who sends mail as your domain.'',
     m_Remediation = ''Publish a TXT record at _dmarc, starting with '' @ [CHR 0x22] @ ''v=DMARC1; p=none; rua=mailto:dmarc@<domain>'' @ [CHR 0x22] @ '' '' @
       ''and moving to p=quarantine or p=reject once reports show legitimate mail passes.'',
     m_Mode = Passive, m_Severity = SeverityHigh,
     m_References = dmarcRefs, m_Timeout = 0\<rparr>"

definition email_dmarc_syntax_meta :: meta where
  "email_dmarc_syntax_meta =
    \<lparr>m_ID = ''email.dmarc.syntax'', m_Aliases = [], m_Module = [],
     m_Title = ''Invalid DMARC record'',
     m_Description = ''The DMARC record is malformed, or more than one is published. Receivers then ignore '' @
       ''DMARC for the domain entirely.'',
     m_Remediation = ''Publish exactly one record starting with '' @ [CHR 0x22] @ ''v=DMARC1;'' @ [CHR 0x22] @ '' and a valid p= tag.'',
     m_Mode = Passive, m_Severity = SeverityHigh,
     m_References = [rfc 7489 ''6.3'', rfc 7489 ''6.6.3''], m_Timeout = 0\<rparr>"

definition email_dmarc_policy_none_meta :: meta where
  "email_dmarc_policy_none_meta =
    \<lparr>m_ID = ''email.dmarc.policy_none'', m_Aliases = [], m_Module = [],
     m_Title = ''DMARC policy is p=none'',
     m_Description = ''The DMARC policy only monitors: receivers deliver mail that fails authentication as '' @
       ''if there were no DMARC at all. p=none is meant as a short first step, but often stays forever.'',
     m_Remediation = ''Review aggregate reports, make sure legitimate senders pass, then move to p=quarantine '' @
       ''and finally p=reject.'',
     m_Mode = Passive, m_Severity = SeverityMedium,
     m_References = [rfc 7489 ''6.3'', rfc 7489 ''6.7''], m_Timeout = 0\<rparr>"

definition email_dmarc_no_reporting_meta :: meta where
  "email_dmarc_no_reporting_meta =
    \<lparr>m_ID = ''email.dmarc.no_reporting'', m_Aliases = [], m_Module = [],
     m_Title = ''DMARC aggregate reporting is not configured'',
     m_Description = ''The DMARC record has no rua= address, so you never learn which servers send mail as '' @
       ''your domain or whether legitimate mail fails authentication. Without reports it's unsafe to '' @
       ''tighten the policy.'',
     m_Remediation = ''Add rua=mailto:<address> to the DMARC record, or point it at a DMARC report processor.'',
     m_Mode = Passive, m_Severity = SeverityLow,
     m_References = [rfc 7489 ''7.2''], m_Timeout = 0\<rparr>"

definition email_dmarc_external_auth_meta :: meta where
  "email_dmarc_external_auth_meta =
    \<lparr>m_ID = ''email.dmarc.external_auth'', m_Aliases = [], m_Module = [],
     m_Title = ''External DMARC report destination is not authorized'',
     m_Description = ''The DMARC record sends reports to a mailbox in another organization's domain, but '' @
       ''that domain does not publish the authorization record receivers check before sending '' @
       ''(<domain>._report._dmarc.<destination>). Receivers silently drop those reports.'',
     m_Remediation = ''Ask the report destination (or your DMARC vendor) to publish '' @
       [CHR 0x22] @ ''<your-domain>._report._dmarc.<their-domain> TXT v=DMARC1'' @ [CHR 0x22] @ '', or send reports to your own domain.'',
     m_Mode = Passive, m_Severity = SeverityMedium,
     m_References = [rfc 7489 ''7.1''], m_Timeout = 0\<rparr>"

definition email_dnsbl_listed_meta :: meta where
  "email_dnsbl_listed_meta =
    \<lparr>m_ID = ''email.dnsbl.listed'', m_Aliases = [], m_Module = [],
     m_Title = ''Mail server is on a DNS blocklist'',
     m_Description = ''An IPv4 address of an MX host appears on a DNS blocklist. MX hosts usually also send '' @
       ''mail, and receivers consult these lists to reject or junk mail from listed addresses.'',
     m_Remediation = ''Find out why the address was listed (compromised account, open relay, shared IP '' @
       ''reputation), fix the cause, then request delisting on the blocklist's website.'',
     m_Mode = Passive, m_Severity = SeverityHigh,
     m_References = [rfc 5782 [], ''https://www.spamcop.net/bl.shtml'', ''https://psbl.org/'', ''https://docs.spamhaustech.com/40-real-world-usage/DQS/000-intro.html''], m_Timeout = 0\<rparr>"

definition email_mtasts_missing_meta :: meta where
  "email_mtasts_missing_meta =
    \<lparr>m_ID = ''email.mtasts.missing'', m_Aliases = [], m_Module = [],
     m_Title = ''No MTA-STS policy'',
     m_Description = ''The domain publishes no MTA-STS record at _mta-sts. Without it, senders fall back to '' @
       ''opportunistic TLS, which an attacker on the network path can strip to read or alter '' @
       ''mail in transit.'',
     m_Remediation = ''Serve a policy at https://mta-sts.<domain>/.well-known/mta-sts.txt (start with '' @
       ''mode: testing) and publish '' @ [CHR 0x22] @ ''_mta-sts TXT v=STSv1; id=<timestamp>'' @ [CHR 0x22] @ ''.'',
     m_Mode = Passive, m_Severity = SeverityLow,
     m_References = [rfc 8461 []], m_Timeout = 0\<rparr>"

definition email_mtasts_invalid_meta :: meta where
  "email_mtasts_invalid_meta =
    \<lparr>m_ID = ''email.mtasts.invalid'', m_Aliases = [], m_Module = [],
     m_Title = ''MTA-STS policy is broken'',
     m_Description = ''The domain announces MTA-STS but the record or policy is invalid, the policy can't be '' @
       ''fetched over valid HTTPS, or the policy doesn't cover every MX host. In enforce mode, senders '' @
       ''refuse to deliver to MX hosts the policy doesn't list.'',
     m_Remediation = ''Serve a valid policy at https://mta-sts.<domain>/.well-known/mta-sts.txt with a '' @
       ''publicly trusted certificate, list every MX host under mx:, and bump the id= in the TXT record.'',
     m_Mode = Passive, m_Severity = SeverityMedium,
     m_References = [rfc 8461 ''3'', rfc 8461 ''4.1''], m_Timeout = 0\<rparr>"

definition email_mtasts_testing_meta :: meta where
  "email_mtasts_testing_meta =
    \<lparr>m_ID = ''email.mtasts.testing'', m_Aliases = [], m_Module = [],
     m_Title = ''MTA-STS policy is in testing mode'',
     m_Description = ''The MTA-STS policy is in mode: testing, so senders report TLS failures but still '' @
       ''deliver over unprotected connections.'',
     m_Remediation = ''Once TLS-RPT reports show no failures, switch the policy to mode: enforce and bump the '' @
       ''id= in the TXT record.'',
     m_Mode = Passive, m_Severity = SeverityInfo,
     m_References = [rfc 8461 ''5''], m_Timeout = 0\<rparr>"

definition email_mx_missing_meta :: meta where
  "email_mx_missing_meta =
    \<lparr>m_ID = ''email.mx.missing'', m_Aliases = [], m_Module = [],
     m_Title = ''No MX records'',
     m_Description = ''The domain publishes no MX records. Senders then fall back to the domain's '' @
       ''A/AAAA records (the '' @ [CHR 0x22] @ ''implicit MX'' @ [CHR 0x22] @ '' of RFC 5321), which is rarely intended: mail is either '' @
       ''delivered to a web server or bounces after retrying for days. Domains that do not receive '' @
       ''mail should say so explicitly with a null MX record (RFC 7505).'',
     m_Remediation = ''Publish MX records pointing at your mail servers. If the domain does not receive mail, '' @
       ''publish a null MX record instead ('' @ [CHR 0x22] @ ''@ IN MX 0 .'' @ [CHR 0x22] @ '') so senders fail fast.'',
     m_Mode = Passive, m_Severity = SeverityHigh,
     m_References = [rfc 5321 ''5.1'', rfc 7505 []], m_Timeout = 0\<rparr>"

definition email_mx_unresolvable_meta :: meta where
  "email_mx_unresolvable_meta =
    \<lparr>m_ID = ''email.mx.unresolvable'', m_Aliases = [], m_Module = [],
     m_Title = ''MX host does not resolve'',
     m_Description = ''An MX record points at a host name with no A or AAAA records, or at an IP address '' @
       ''instead of a host name. Senders cannot deliver to it and fall through to the next MX, or '' @
       ''queue and eventually bounce if it is the only one.'',
     m_Remediation = ''Point the MX record at a host name that has A/AAAA records, or remove the stale MX record.'',
     m_Mode = Passive, m_Severity = SeverityHigh,
     m_References = [rfc 5321 ''5.1'', rfc 2181 ''10.3''], m_Timeout = 0\<rparr>"

definition email_mx_unexpected_meta :: meta where
  "email_mx_unexpected_meta =
    \<lparr>m_ID = ''email.mx.unexpected'', m_Aliases = [], m_Module = [],
     m_Title = ''MX records differ from the expected set'',
     m_Description = ''The domain's MX hosts don't match the expected_mx list in the config: a host is '' @
       ''published that isn't expected, or an expected host is missing. An unexpected MX host can '' @
       ''receive (and read) the domain's mail, and is a common sign of a hijacked DNS zone or a '' @
       ''forgotten migration. Only runs when expected_mx is configured.'',
     m_Remediation = ''If the change was intended, update expected_mx in the config. Otherwise restore the MX '' @
       ''records and find out who changed the zone.'',
     m_Mode = Passive, m_Severity = SeverityMedium,
     m_References = [rfc 5321 ''5.1''], m_Timeout = 0\<rparr>"

definition email_mx_fcrdns_meta :: meta where
  "email_mx_fcrdns_meta =
    \<lparr>m_ID = ''email.mx.fcrdns'', m_Aliases = [], m_Module = [],
     m_Title = ''MX host lacks forward-confirmed reverse DNS'',
     m_Description = ''An address of an MX host has no PTR record, or its PTR names don't resolve back to '' @
       ''the same address. Many receivers penalize or reject mail from servers without '' @
       ''forward-confirmed reverse DNS, and MX hosts usually send mail too.'',
     m_Remediation = ''Ask the owner of the IP range (your hosting provider) to set a PTR record for each MX '' @
       ''address that names a host resolving back to that address.'',
     m_Mode = Passive, m_Severity = SeverityLow,
     m_References = [rfc 8601 ''2.7.3'', ''https://support.google.com/a/answer/81126''], m_Timeout = 0\<rparr>"

definition email_spf_missing_meta :: meta where
  "email_spf_missing_meta =
    \<lparr>m_ID = ''email.spf.missing'', m_Aliases = [], m_Module = [],
     m_Title = ''No SPF record'',
     m_Description = ''The domain publishes no SPF record, so receivers cannot tell which servers may send '' @
       ''mail for it. Spoofed mail is more likely to be delivered, and DMARC can only pass via DKIM. '' @
       ''Domains that never send mail need a record too, to say so.'',
     m_Remediation = ''Publish a TXT record listing your senders, e.g. '' @ [CHR 0x22] @ ''v=spf1 include:_spf.google.com -all'' @ [CHR 0x22] @ ''. '' @
       ''For a domain that sends no mail, publish '' @ [CHR 0x22] @ ''v=spf1 -all'' @ [CHR 0x22] @ ''.'',
     m_Mode = Passive, m_Severity = SeverityHigh,
     m_References = spfRefs, m_Timeout = 0\<rparr>"

definition email_spf_multiple_meta :: meta where
  "email_spf_multiple_meta =
    \<lparr>m_ID = ''email.spf.multiple'', m_Aliases = [], m_Module = [],
     m_Title = ''Multiple SPF records'',
     m_Description = ''The domain publishes more than one SPF record. RFC 7208 makes this a permanent '' @
       ''error: receivers ignore all of them, as if the domain had no SPF at all.'',
     m_Remediation = ''Merge the records into a single '' @ [CHR 0x22] @ ''v=spf1 ...'' @ [CHR 0x22] @ '' TXT record.'',
     m_Mode = Passive, m_Severity = SeverityHigh,
     m_References = [rfc 7208 ''4.5''], m_Timeout = 0\<rparr>"

definition email_spf_syntax_meta :: meta where
  "email_spf_syntax_meta =
    \<lparr>m_ID = ''email.spf.syntax'', m_Aliases = [], m_Module = [],
     m_Title = ''Invalid SPF record'',
     m_Description = ''The SPF record, or a record it includes or redirects to, is malformed or cannot be '' @
       ''evaluated. Receivers treat this as a permanent error and SPF stops protecting the domain.'',
     m_Remediation = ''Fix the reported term. Included domains must publish exactly one valid SPF record.'',
     m_Mode = Passive, m_Severity = SeverityHigh,
     m_References = [rfc 7208 ''4.6'', rfc 7208 ''5.2''], m_Timeout = 0\<rparr>"

definition email_spf_lookup_limit_meta :: meta where
  "email_spf_lookup_limit_meta =
    \<lparr>m_ID = ''email.spf.lookup_limit'', m_Aliases = [], m_Module = [],
     m_Title = ''SPF exceeds the 10 DNS lookup limit'',
     m_Description = ''Evaluating the SPF record takes more than 10 DNS-querying terms (include, a, mx, ptr, '' @
       ''exists, redirect), counted recursively through includes. Receivers stop at 10 and return a '' @
       ''permanent error, so SPF fails for legitimate mail. This usually happens silently when a new '' @
       ''SaaS sender is added.'',
     m_Remediation = ''Remove includes for services you no longer use, replace a/mx terms with ip4/ip6 ranges, '' @
       ''or split senders across subdomains.'',
     m_Mode = Passive, m_Severity = SeverityHigh,
     m_References = [rfc 7208 ''4.6.4''], m_Timeout = 0\<rparr>"

definition email_spf_void_lookups_meta :: meta where
  "email_spf_void_lookups_meta =
    \<lparr>m_ID = ''email.spf.void_lookups'', m_Aliases = [], m_Module = [],
     m_Title = ''SPF has too many void lookups'',
     m_Description = ''More than two DNS lookups made while evaluating SPF return no records. RFC 7208 '' @
       ''lets receivers fail evaluation after two, so stale includes and a/mx terms for deleted '' @
       ''hosts can break SPF.'',
     m_Remediation = ''Remove terms that point at names which no longer exist or have no records.'',
     m_Mode = Passive, m_Severity = SeverityMedium,
     m_References = [rfc 7208 ''4.6.4''], m_Timeout = 0\<rparr>"

definition email_spf_permissive_all_meta :: meta where
  "email_spf_permissive_all_meta =
    \<lparr>m_ID = ''email.spf.permissive_all'', m_Aliases = [], m_Module = [],
     m_Title = ''SPF allows any sender'',
     m_Description = ''The SPF policy authorizes every server on the internet: the record ends in '' @ [CHR 0x22] @ ''+all'' @ [CHR 0x22] @ '' '' @
       ''(or a bare '' @ [CHR 0x22] @ ''all'' @ [CHR 0x22] @ ''), or includes a record that does. '' @ [CHR 0x22] @ ''?all'' @ [CHR 0x22] @ '' and a missing '' @ [CHR 0x22] @ ''all'' @ [CHR 0x22] @ '' are '' @
       ''weaker problems: they make SPF neutral for unlisted senders, so it never fails.'',
     m_Remediation = ''End the record with '' @ [CHR 0x22] @ ''-all'' @ [CHR 0x22] @ '' (or '' @ [CHR 0x22] @ ''~all'' @ [CHR 0x22] @ '' while rolling out) and remove includes of '' @
       ''records that end in +all.'',
     m_Mode = Passive, m_Severity = SeverityCritical,
     m_References = [rfc 7208 ''5.1''], m_Timeout = 0\<rparr>"

definition email_starttls_unsupported_meta :: meta where
  "email_starttls_unsupported_meta =
    \<lparr>m_ID = ''email.starttls.unsupported'', m_Aliases = [], m_Module = [],
     m_Title = ''MX host does not support STARTTLS'',
     m_Description = ''An MX host doesn't advertise STARTTLS, or fails the TLS handshake after advertising '' @
       ''it. Mail to it travels in plaintext, readable by anyone on the network path.'',
     m_Remediation = ''Enable STARTTLS on the mail server with a certificate for its host name.'',
     m_Mode = m_Mode starttlsMeta, m_Severity = SeverityHigh,
     m_References = m_References starttlsMeta, m_Timeout = m_Timeout starttlsMeta\<rparr>"

definition email_starttls_cert_invalid_meta :: meta where
  "email_starttls_cert_invalid_meta =
    \<lparr>m_ID = ''email.starttls.cert_invalid'', m_Aliases = [], m_Module = [],
     m_Title = ''MX host has an invalid TLS certificate'',
     m_Description = ''An MX host's certificate is expired, not issued for its host name, or not signed by a '' @
       ''trusted authority. Senders enforcing MTA-STS or DANE refuse to deliver, and others can't '' @
       ''tell the real server from an impostor.'',
     m_Remediation = ''Install a certificate from a public CA (e.g. Let's Encrypt) covering the MX host name, '' @
       ''with the full intermediate chain.'',
     m_Mode = m_Mode starttlsMeta, m_Severity = SeverityMedium,
     m_References = m_References starttlsMeta, m_Timeout = m_Timeout starttlsMeta\<rparr>"

definition email_starttls_cert_expiring_meta :: meta where
  "email_starttls_cert_expiring_meta =
    \<lparr>m_ID = ''email.starttls.cert_expiring'', m_Aliases = [], m_Module = [],
     m_Title = ''MX host TLS certificate expires soon'',
     m_Description = ''An MX host's otherwise valid certificate expires within 21 days (7 days: high). '' @
       ''Renewal automation often covers the web server but not the mail server.'',
     m_Remediation = ''Renew the certificate and make sure the mail server reloads it; automate both steps.'',
     m_Mode = m_Mode starttlsMeta, m_Severity = SeverityMedium,
     m_References = m_References starttlsMeta, m_Timeout = m_Timeout starttlsMeta\<rparr>"

definition email_tlsrpt_missing_meta :: meta where
  "email_tlsrpt_missing_meta =
    \<lparr>m_ID = ''email.tlsrpt.missing'', m_Aliases = [], m_Module = [],
     m_Title = ''No TLS-RPT record'',
     m_Description = ''The domain publishes no valid TLS reporting record at _smtp._tls, so sending servers '' @
       ''have nowhere to report TLS failures delivering to you. You won't learn that MTA-STS or '' @
       ''STARTTLS is broken until mail stops arriving.'',
     m_Remediation = ''Publish '' @ [CHR 0x22] @ ''_smtp._tls TXT v=TLSRPTv1; rua=mailto:tlsrpt@<domain>'' @ [CHR 0x22] @ ''.'',
     m_Mode = Passive, m_Severity = SeverityLow,
     m_References = [rfc 8460 ''3''], m_Timeout = 0\<rparr>"

definition email_metas :: "meta list" where
  "email_metas =
    [email_dkim_missing_meta, email_dkim_weak_key_meta, email_dmarc_missing_meta, email_dmarc_syntax_meta,
     email_dmarc_policy_none_meta, email_dmarc_no_reporting_meta, email_dmarc_external_auth_meta, email_dnsbl_listed_meta,
     email_mtasts_missing_meta, email_mtasts_invalid_meta, email_mtasts_testing_meta, email_mx_missing_meta,
     email_mx_unresolvable_meta, email_mx_unexpected_meta, email_mx_fcrdns_meta, email_spf_missing_meta,
     email_spf_multiple_meta, email_spf_syntax_meta, email_spf_lookup_limit_meta, email_spf_void_lookups_meta,
     email_spf_permissive_all_meta, email_starttls_unsupported_meta, email_starttls_cert_invalid_meta, email_starttls_cert_expiring_meta,
     email_tlsrpt_missing_meta]"

subsection \<open>Package checks/http\<close>

definition http_redirect_missing_meta :: meta where
  "http_redirect_missing_meta =
    \<lparr>m_ID = ''http.redirect.missing'', m_Aliases = [], m_Module = [],
     m_Title = ''HTTP doesn't redirect to HTTPS'',
     m_Description = ''The host answers plain-HTTP requests on port 80 without redirecting them to HTTPS, so '' @
       ''visitors who type the bare name or follow an old http:// link use an unencrypted connection '' @
       ''that anyone on the network can read and modify.'',
     m_Remediation = ''Answer every request on port 80 with a 301 (or 308) redirect to the same URL over https://.'',
     m_Mode = Passive, m_Severity = SeverityMedium,
     m_References = [''https://developer.mozilla.org/en-US/docs/Web/Security/Practical_implementation_guides/TLS#http_redirections''], m_Timeout = 0\<rparr>"

definition http_hsts_missing_meta :: meta where
  "http_hsts_missing_meta =
    \<lparr>m_ID = ''http.hsts.missing'', m_Aliases = [], m_Module = [],
     m_Title = ''No HSTS header'',
     m_Description = ''The host's HTTPS responses have no Strict-Transport-Security header, so browsers '' @
       ''will keep trying plain HTTP first, and an attacker on the network can strip the redirect to HTTPS.'',
     m_Remediation = ''Send '' @ [CHR 0x22] @ ''Strict-Transport-Security: max-age=31536000; includeSubDomains'' @ [CHR 0x22] @ '' on every HTTPS response '' @
       ''once the whole site works over HTTPS.'',
     m_Mode = Passive, m_Severity = SeverityMedium,
     m_References = [rfc6797, mdnHeaders @ ''Strict-Transport-Security''], m_Timeout = 0\<rparr>"

definition http_hsts_weak_meta :: meta where
  "http_hsts_weak_meta =
    \<lparr>m_ID = ''http.hsts.weak'', m_Aliases = [], m_Module = [],
     m_Title = ''HSTS header is invalid or short-lived'',
     m_Description = ''The Strict-Transport-Security header is malformed, or its max-age is under 180 days, so '' @
       ''browsers forget it quickly and returning visitors are exposed to HTTPS stripping again. '' @
       ''max-age=0 turns HSTS off.'',
     m_Remediation = ''Use a max-age of at least 15552000 (180 days); 31536000 (a year) is the common choice.'',
     m_Mode = Passive, m_Severity = SeverityLow,
     m_References = [rfc6797 @ ''#section-6.1''], m_Timeout = 0\<rparr>"

definition http_hsts_preload_not_ready_meta :: meta where
  "http_hsts_preload_not_ready_meta =
    \<lparr>m_ID = ''http.hsts.preload_not_ready'', m_Aliases = [], m_Module = [],
     m_Title = ''HSTS asks for preloading but doesn't qualify'',
     m_Description = ''The domain's HSTS header carries the preload directive, but the domain doesn't meet '' @
       ''the requirements of the browsers' HSTS preload list (max-age of at least a year, includeSubDomains, '' @
       ''and an HTTP-to-HTTPS redirect on the same host), so a preload submission would be rejected.'',
     m_Remediation = ''Serve '' @ [CHR 0x22] @ ''Strict-Transport-Security: max-age=31536000; includeSubDomains; preload'' @ [CHR 0x22] @ '' on the apex '' @
       ''domain and redirect http:// to https:// on the same host first, or drop the preload directive.'',
     m_Mode = Passive, m_Severity = SeverityLow,
     m_References = [''https://hstspreload.org/#submission-requirements''], m_Timeout = 0\<rparr>"

definition http_headers_csp_missing_meta :: meta where
  "http_headers_csp_missing_meta =
    \<lparr>m_ID = ''http.headers.csp_missing'', m_Aliases = [], m_Module = [],
     m_Title = ''No Content-Security-Policy'',
     m_Description = ''The page sets no Content-Security-Policy, so a single cross-site scripting bug lets an '' @
       ''attacker run any script and load it from anywhere. A report-only policy doesn't count.'',
     m_Remediation = ''Add a Content-Security-Policy header. Start with Content-Security-Policy-Report-Only to find '' @
       ''what the page loads, then enforce a policy such as '' @ [CHR 0x22] @ ''default-src 'self'; object-src 'none'; base-uri 'none'' @ [CHR 0x27] @ [CHR 0x22] @ ''.'',
     m_Mode = Passive, m_Severity = SeverityLow,
     m_References = [mdnHeaders @ ''Content-Security-Policy'', ''https://www.w3.org/TR/CSP3/''], m_Timeout = 0\<rparr>"

definition http_headers_frame_protection_missing_meta :: meta where
  "http_headers_frame_protection_missing_meta =
    \<lparr>m_ID = ''http.headers.frame_protection_missing'', m_Aliases = [], m_Module = [],
     m_Title = ''Page can be framed by other sites'',
     m_Description = ''The page sets neither X-Frame-Options nor a CSP frame-ancestors directive, so any site can '' @
       ''embed it in a frame and trick visitors into clicking on it (clickjacking).'',
     m_Remediation = ''Send '' @ [CHR 0x22] @ ''Content-Security-Policy: frame-ancestors 'self'' @ [CHR 0x27] @ [CHR 0x22] @ '' (or 'none'), or '' @ [CHR 0x22] @ ''X-Frame-Options: DENY'' @ [CHR 0x22] @ '' '' @
       ''for older browsers.'',
     m_Mode = Passive, m_Severity = SeverityLow,
     m_References = [mdnHeaders @ ''X-Frame-Options'', ''https://owasp.org/www-community/attacks/Clickjacking''], m_Timeout = 0\<rparr>"

definition http_headers_nosniff_missing_meta :: meta where
  "http_headers_nosniff_missing_meta =
    \<lparr>m_ID = ''http.headers.nosniff_missing'', m_Aliases = [], m_Module = [],
     m_Title = ''No X-Content-Type-Options: nosniff'',
     m_Description = ''Without '' @ [CHR 0x22] @ ''X-Content-Type-Options: nosniff'' @ [CHR 0x22] @ '', browsers may guess a response's type from its '' @
       ''content, so an uploaded file served as text can be executed as script or style.'',
     m_Remediation = ''Send '' @ [CHR 0x22] @ ''X-Content-Type-Options: nosniff'' @ [CHR 0x22] @ '' on every response.'',
     m_Mode = Passive, m_Severity = SeverityLow,
     m_References = [mdnHeaders @ ''X-Content-Type-Options''], m_Timeout = 0\<rparr>"

definition http_headers_referrer_policy_missing_meta :: meta where
  "http_headers_referrer_policy_missing_meta =
    \<lparr>m_ID = ''http.headers.referrer_policy_missing'', m_Aliases = [], m_Module = [],
     m_Title = ''No Referrer-Policy'',
     m_Description = ''The page sets no Referrer-Policy. Current browsers default to strict-origin-when-cross-origin, '' @
       ''but older ones send full URLs, including paths and query strings, to every site the page links to.'',
     m_Remediation = ''Send '' @ [CHR 0x22] @ ''Referrer-Policy: strict-origin-when-cross-origin'' @ [CHR 0x22] @ '' (or stricter).'',
     m_Mode = Passive, m_Severity = SeverityInfo,
     m_References = [mdnHeaders @ ''Referrer-Policy''], m_Timeout = 0\<rparr>"

definition http_exposure_sensitive_path_meta :: meta where
  "http_exposure_sensitive_path_meta =
    \<lparr>m_ID = ''http.exposure.sensitive_path'', m_Aliases = [], m_Module = [],
     m_Title = ''Sensitive file is publicly readable'',
     m_Description = ''The web server serves a file that should never be public: /.git/HEAD means the whole Git '' @
       ''repository (source code and history, often with credentials) can be downloaded, and /.env usually '' @
       ''holds database passwords and API keys. Seta reads only these files and reports variable names, '' @
       ''never values.'',
     m_Remediation = ''Deny access to dotfiles in the web server (e.g. nginx '' @ [CHR 0x22] @ ''location ~ /'' @ [CHR 0x5C] @ ''. { deny all; }'' @ [CHR 0x22] @ ''), deploy '' @
       ''without the .git directory, and rotate every secret the exposed files contained.'',
     m_Mode = Active, m_Severity = SeverityHigh,
     m_References = [''https://owasp.org/www-project-web-security-testing-guide/latest/4-Web_Application_Security_Testing/02-Configuration_and_Deployment_Management_Testing/04-Review_Old_Backup_and_Unreferenced_Files_for_Sensitive_Information''], m_Timeout = 0\<rparr>"

definition http_metas :: "meta list" where
  "http_metas =
    [http_redirect_missing_meta, http_hsts_missing_meta, http_hsts_weak_meta, http_hsts_preload_not_ready_meta,
     http_headers_csp_missing_meta, http_headers_frame_protection_missing_meta, http_headers_nosniff_missing_meta, http_headers_referrer_policy_missing_meta,
     http_exposure_sensitive_path_meta]"

subsection \<open>Package checks/tls\<close>

definition tls_cert_invalid_meta :: meta where
  "tls_cert_invalid_meta =
    \<lparr>m_ID = ''tls.cert.invalid'', m_Aliases = [], m_Module = [],
     m_Title = ''Certificate is not trusted'',
     m_Description = ''The host's certificate chain doesn't verify against the public roots: it is expired, '' @
       ''self-signed, issued by an untrusted CA, or the server doesn't send the intermediate certificates. '' @
       ''Browsers show a full-page warning, and API clients refuse to connect.'',
     m_Remediation = ''Install a certificate from a public CA (e.g. Let's Encrypt) and configure the server to send '' @
       ''the full chain (leaf plus intermediates). Renew expired certificates and automate renewal.'',
     m_Mode = Passive, m_Severity = SeverityHigh,
     m_References = [''https://www.rfc-editor.org/rfc/rfc5280#section-6''], m_Timeout = 0\<rparr>"

definition tls_cert_hostname_mismatch_meta :: meta where
  "tls_cert_hostname_mismatch_meta =
    \<lparr>m_ID = ''tls.cert.hostname_mismatch'', m_Aliases = [], m_Module = [],
     m_Title = ''Certificate doesn't cover the host name'',
     m_Description = ''The certificate the host presents is not valid for its name, typically because the '' @
       ''www or apex name is missing from the certificate, or the name is served by a default virtual host.'',
     m_Remediation = ''Issue a certificate whose subject alternative names include this host name, '' @
       ''and make sure the server selects it for this name (SNI).'',
     m_Mode = Passive, m_Severity = SeverityHigh,
     m_References = [''https://www.rfc-editor.org/rfc/rfc6125''], m_Timeout = 0\<rparr>"

definition tls_cert_expiring_meta :: meta where
  "tls_cert_expiring_meta =
    \<lparr>m_ID = ''tls.cert.expiring'', m_Aliases = [], m_Module = [],
     m_Title = ''Certificate expires soon'',
     m_Description = ''The host's certificate expires within '' @ itoa SetaTls.expiringDays @ '' days (within '' @ itoa SetaTls.urgentDays @
       '' days: high severity). Once it expires, browsers and clients refuse to connect.'',
     m_Remediation = ''Renew the certificate, and automate renewal (ACME) so it doesn't depend on someone remembering.'',
     m_Mode = Passive, m_Severity = SeverityMedium,
     m_References = [''https://www.rfc-editor.org/rfc/rfc8555''], m_Timeout = 0\<rparr>"

definition tls_protocol_no_modern_meta :: meta where
  "tls_protocol_no_modern_meta =
    \<lparr>m_ID = ''tls.protocol.no_modern'', m_Aliases = [], m_Module = [],
     m_Title = ''Host doesn't support TLS 1.2 or later'',
     m_Description = ''Offered every version up to TLS 1.3, the host settled for TLS 1.0 or 1.1. Current '' @
       ''browsers and most HTTP libraries no longer speak these versions and can't connect at all.'',
     m_Remediation = ''Enable TLS 1.2 and TLS 1.3 on the server (or upgrade its TLS library).'',
     m_Mode = Passive, m_Severity = SeverityHigh,
     m_References = [''https://www.rfc-editor.org/rfc/rfc8996''], m_Timeout = 0\<rparr>"

definition tls_protocol_deprecated_meta :: meta where
  "tls_protocol_deprecated_meta =
    \<lparr>m_ID = ''tls.protocol.deprecated'', m_Aliases = [], m_Module = [],
     m_Title = ''Host accepts TLS 1.0 or 1.1'',
     m_Description = ''The host still completes handshakes with TLS 1.0 or 1.1, which RFC 8996 deprecated. '' @
       ''They rely on weak constructions (SHA-1, CBC without AEAD) and fail PCI DSS and most audits. '' @
       ''Seta can't test SSL 3.0 or older; use testssl.sh for that.'',
     m_Remediation = ''Disable TLS 1.0 and 1.1 and keep TLS 1.2 and 1.3, e.g. '' @ [CHR 0x22] @ ''ssl_protocols TLSv1.2 TLSv1.3;'' @ [CHR 0x22] @ '' in nginx.'',
     m_Mode = Active, m_Severity = SeverityMedium,
     m_References = [''https://www.rfc-editor.org/rfc/rfc8996''], m_Timeout = 0\<rparr>"

definition tls_cipher_weak_meta :: meta where
  "tls_cipher_weak_meta =
    \<lparr>m_ID = ''tls.cipher.weak'', m_Aliases = [], m_Module = [],
     m_Title = ''Host accepts weak cipher suites'',
     m_Description = ''The host completes handshakes that offer only cipher suites considered insecure: RC4 or '' @
       ''3DES (medium severity), or suites without forward secrecy (RSA key exchange) or with CBC-SHA256 '' @
       ''(low severity). A client that prefers them gets a weak connection, and recorded RSA-key-exchange '' @
       ''traffic can be decrypted later if the server key leaks. Seta can only offer the weak suites Go '' @
       ''implements, so NULL and EXPORT suites aren't tested.'',
     m_Remediation = ''Restrict the server to AEAD suites (AES-GCM, ChaCha20-Poly1305) with ECDHE key exchange; '' @
       ''the Mozilla SSL Configuration Generator's '' @ [CHR 0x22] @ ''intermediate'' @ [CHR 0x22] @ '' profile is a good baseline.'',
     m_Mode = Active, m_Severity = SeverityMedium,
     m_References = [''https://www.rfc-editor.org/rfc/rfc7525'', ''https://ssl-config.mozilla.org/''], m_Timeout = 0\<rparr>"

definition tls_metas :: "meta list" where
  "tls_metas =
    [tls_cert_invalid_meta, tls_cert_hostname_mismatch_meta, tls_cert_expiring_meta, tls_protocol_no_modern_meta,
     tls_protocol_deprecated_meta, tls_cipher_weak_meta]"

subsection \<open>All of them\<close>

definition define_all :: "string \<Rightarrow> (meta \<Rightarrow> 'r) \<Rightarrow> meta list \<Rightarrow> 'r check list" where
  "define_all module run ms = map (\<lambda>m. \<lparr>c_Meta = m\<lparr>m_Module := module\<rparr>, c_Run = run m\<rparr>) ms"

definition builtin_checks :: "(meta \<Rightarrow> 'r) \<Rightarrow> 'r check list" where
  "builtin_checks run =
     define_all ''dns'' run dns_metas @ define_all ''email'' run email_metas @
     define_all ''http'' run http_metas @ define_all ''tls'' run tls_metas"

subsection \<open>They can be registered\<close>

lemma dns_ids:
  "map m_ID dns_metas =
    [''dns.caa.missing'', ''dns.caa.invalid'', ''dns.dnssec.missing'', ''dns.dnssec.invalid'',
     ''dns.dnssec.weak_algorithm'', ''dns.axfr.allowed'', ''dns.nameserver.open_resolver'', ''dns.takeover.possible'',
     ''dns.cname.dangling'']"
  by (simp only: dns_metas_def list.map meta.select_convs
      dns_caa_missing_meta_def dns_caa_invalid_meta_def dns_dnssec_missing_meta_def dns_dnssec_invalid_meta_def
      dns_dnssec_weak_algorithm_meta_def dns_axfr_allowed_meta_def dns_nameserver_open_resolver_meta_def
      dns_takeover_possible_meta_def dns_cname_dangling_meta_def)

lemma dns_metas_valid: "list_all (\<lambda>m. meta_Validate (m\<lparr>m_Module := ''dns''\<rparr>) = None \<and> m_Aliases m = []) dns_metas"
  by (simp only: dns_metas_def list.pred_inject meta_Validate_None meta.select_convs meta.update_convs
      dns_caa_missing_meta_def dns_caa_invalid_meta_def dns_dnssec_missing_meta_def dns_dnssec_invalid_meta_def
      dns_dnssec_weak_algorithm_meta_def dns_axfr_allowed_meta_def dns_nameserver_open_resolver_meta_def
      dns_takeover_possible_meta_def dns_cname_dangling_meta_def) code_simp

lemma email_ids:
  "map m_ID email_metas =
    [''email.dkim.missing'', ''email.dkim.weak_key'', ''email.dmarc.missing'', ''email.dmarc.syntax'',
     ''email.dmarc.policy_none'', ''email.dmarc.no_reporting'', ''email.dmarc.external_auth'', ''email.dnsbl.listed'',
     ''email.mtasts.missing'', ''email.mtasts.invalid'', ''email.mtasts.testing'', ''email.mx.missing'',
     ''email.mx.unresolvable'', ''email.mx.unexpected'', ''email.mx.fcrdns'', ''email.spf.missing'',
     ''email.spf.multiple'', ''email.spf.syntax'', ''email.spf.lookup_limit'', ''email.spf.void_lookups'',
     ''email.spf.permissive_all'', ''email.starttls.unsupported'', ''email.starttls.cert_invalid'',
     ''email.starttls.cert_expiring'', ''email.tlsrpt.missing'']"
  by (simp only: email_metas_def list.map meta.select_convs
      email_dkim_missing_meta_def email_dkim_weak_key_meta_def email_dmarc_missing_meta_def email_dmarc_syntax_meta_def
      email_dmarc_policy_none_meta_def email_dmarc_no_reporting_meta_def email_dmarc_external_auth_meta_def
      email_dnsbl_listed_meta_def email_mtasts_missing_meta_def email_mtasts_invalid_meta_def
      email_mtasts_testing_meta_def email_mx_missing_meta_def email_mx_unresolvable_meta_def
      email_mx_unexpected_meta_def email_mx_fcrdns_meta_def email_spf_missing_meta_def email_spf_multiple_meta_def
      email_spf_syntax_meta_def email_spf_lookup_limit_meta_def email_spf_void_lookups_meta_def
      email_spf_permissive_all_meta_def email_starttls_unsupported_meta_def email_starttls_cert_invalid_meta_def
      email_starttls_cert_expiring_meta_def email_tlsrpt_missing_meta_def starttlsMeta_def)

lemma email_metas_valid: "list_all (\<lambda>m. meta_Validate (m\<lparr>m_Module := ''email''\<rparr>) = None \<and> m_Aliases m = []) email_metas"
  by (simp only: email_metas_def list.pred_inject meta_Validate_None meta.select_convs meta.update_convs
      email_dkim_missing_meta_def email_dkim_weak_key_meta_def email_dmarc_missing_meta_def email_dmarc_syntax_meta_def
      email_dmarc_policy_none_meta_def email_dmarc_no_reporting_meta_def email_dmarc_external_auth_meta_def
      email_dnsbl_listed_meta_def email_mtasts_missing_meta_def email_mtasts_invalid_meta_def
      email_mtasts_testing_meta_def email_mx_missing_meta_def email_mx_unresolvable_meta_def
      email_mx_unexpected_meta_def email_mx_fcrdns_meta_def email_spf_missing_meta_def email_spf_multiple_meta_def
      email_spf_syntax_meta_def email_spf_lookup_limit_meta_def email_spf_void_lookups_meta_def
      email_spf_permissive_all_meta_def email_starttls_unsupported_meta_def email_starttls_cert_invalid_meta_def
      email_starttls_cert_expiring_meta_def email_tlsrpt_missing_meta_def starttlsMeta_def) code_simp

lemma http_ids:
  "map m_ID http_metas =
    [''http.redirect.missing'', ''http.hsts.missing'', ''http.hsts.weak'', ''http.hsts.preload_not_ready'',
     ''http.headers.csp_missing'', ''http.headers.frame_protection_missing'', ''http.headers.nosniff_missing'',
     ''http.headers.referrer_policy_missing'', ''http.exposure.sensitive_path'']"
  by (simp only: http_metas_def list.map meta.select_convs
      http_redirect_missing_meta_def http_hsts_missing_meta_def http_hsts_weak_meta_def
      http_hsts_preload_not_ready_meta_def http_headers_csp_missing_meta_def
      http_headers_frame_protection_missing_meta_def http_headers_nosniff_missing_meta_def
      http_headers_referrer_policy_missing_meta_def http_exposure_sensitive_path_meta_def)

lemma http_metas_valid: "list_all (\<lambda>m. meta_Validate (m\<lparr>m_Module := ''http''\<rparr>) = None \<and> m_Aliases m = []) http_metas"
  by (simp only: http_metas_def list.pred_inject meta_Validate_None meta.select_convs meta.update_convs
      http_redirect_missing_meta_def http_hsts_missing_meta_def http_hsts_weak_meta_def
      http_hsts_preload_not_ready_meta_def http_headers_csp_missing_meta_def
      http_headers_frame_protection_missing_meta_def http_headers_nosniff_missing_meta_def
      http_headers_referrer_policy_missing_meta_def http_exposure_sensitive_path_meta_def) code_simp

lemma tls_ids:
  "map m_ID tls_metas =
    [''tls.cert.invalid'', ''tls.cert.hostname_mismatch'', ''tls.cert.expiring'', ''tls.protocol.no_modern'',
     ''tls.protocol.deprecated'', ''tls.cipher.weak'']"
  by (simp only: tls_metas_def list.map meta.select_convs
      tls_cert_invalid_meta_def tls_cert_hostname_mismatch_meta_def tls_cert_expiring_meta_def
      tls_protocol_no_modern_meta_def tls_protocol_deprecated_meta_def tls_cipher_weak_meta_def)

lemma tls_metas_valid: "list_all (\<lambda>m. meta_Validate (m\<lparr>m_Module := ''tls''\<rparr>) = None \<and> m_Aliases m = []) tls_metas"
  by (simp only: tls_metas_def list.pred_inject meta_Validate_None meta.select_convs meta.update_convs
      tls_cert_invalid_meta_def tls_cert_hostname_mismatch_meta_def tls_cert_expiring_meta_def
      tls_protocol_no_modern_meta_def tls_protocol_deprecated_meta_def tls_cipher_weak_meta_def) code_simp

text \<open>Each name leads to one check.\<close>

lemma builtin_names: "map check_ID (builtin_checks run) = map m_ID (dns_metas @ email_metas @ http_metas @ tls_metas)"
  by (simp add: builtin_checks_def define_all_def o_def)

lemma builtin_distinct: "distinct (map check_ID (builtin_checks run))"
  unfolding builtin_names map_append dns_ids email_ids http_ids tls_ids by code_simp

lemma builtin_valid: "list_all (\<lambda>c. meta_Validate (c_Meta c) = None \<and> m_Aliases (c_Meta c) = []) (builtin_checks run)"
  using dns_metas_valid email_metas_valid http_metas_valid tls_metas_valid
  by (auto simp: builtin_checks_def define_all_def list_all_iff)

lemma register_all_checks: "register_checks r cs = (None, r') \<Longrightarrow> register_all r cs = Inr r'"
  by (induction r cs rule: register_all.induct) (auto split: sum.splits)

lemma register_all_aliases:
  "register_all r cs = Inr r' \<Longrightarrow> list_all (\<lambda>c. m_Aliases (c_Meta c) = []) cs \<Longrightarrow> r_aliases r' = r_aliases r"
proof (induction cs arbitrary: r)
  case (Cons c cs)
  then obtain r1 where r1: "Register r c = Inr r1" "register_all r1 cs = Inr r'" by (auto split: sum.splits)
  have "r_aliases r1 = r_aliases r" using r1(1) Cons.prems(2) by (auto simp: Register_def Let_def split: option.splits if_splits)
  then show ?case using Cons.IH [OF r1(2)] Cons.prems(2) by simp
qed simp

lemma builtins_registered:
  fixes run :: "meta \<Rightarrow> 'r"
  shows "\<exists>r. register_all registry_New (builtin_checks run) = Inr r \<and> registry_ok r \<and> r_aliases r = [] \<and>
    (\<forall>i. taken r i \<longleftrightarrow> i \<in> set (map check_ID (builtin_checks run))) \<and>
    (\<forall>i. registry_Lookup r i = map_of (check_table (builtin_checks run)) i)"
proof -
  have no: "\<not> taken (registry_New :: 'r registry) i" "registry_Lookup (registry_New :: 'r registry) i = None" for i
    by (simp_all add: taken_def registry_New_def registry_Lookup_def)
  have valid: "list_all (\<lambda>c. meta_Validate (c_Meta c) = None \<and> m_Aliases (c_Meta c) = [] \<and> \<not> taken (registry_New :: 'r registry) (check_ID c)) (builtin_checks run)"
    using builtin_valid [of run] no(1) by (simp add: list_all_iff)
  obtain r where r: "register_checks registry_New (builtin_checks run) = (None, r)" "registry_ok r"
      "\<forall>i. taken r i \<longleftrightarrow> taken (registry_New :: 'r registry) i \<or> i \<in> check_ID ` set (builtin_checks run)"
      "\<forall>i. registry_Lookup r i = (case map_of (check_table (builtin_checks run)) i of Some c \<Rightarrow> Some c | None \<Rightarrow> registry_Lookup registry_New i)"
    using register_checks_free [OF registry_ok_New builtin_distinct valid] by blast
  note all = register_all_checks [OF r(1)]
  have "r_aliases r = []"
    using register_all_aliases [OF all] builtin_valid [of run] by (simp add: list_all_iff registry_New_def)
  then show ?thesis using all r(2-4) no by (auto split: option.splits)
qed

lemma plugin_table_names:
  "list_all (plugin_ok res) ps \<Longrightarrow> i \<in> set (map fst (plugin_table mk ps)) \<Longrightarrow> \<exists>p\<in>set ps. module_of i = pg_Name p"
proof -
  assume ok: "list_all (plugin_ok res) ps" and i: "i \<in> set (map fst (plugin_table mk ps))"
  then obtain p m where pm: "p \<in> set ps" "m \<in> set (pg_Checks p)" "i = m_ID m"
    by (auto simp: plugin_table_def check_table_def plugin_checks_def)
  then have "plugin_check_ok (pg_Name p) m" using ok by (auto simp: list_all_iff plugin_ok_def)
  then show ?thesis using pm valid_module [of m] by (auto simp: plugin_check_ok_def)
qed

lemma plugin_table_distinct:
  "list_all (plugin_ok res) ps \<Longrightarrow> distinct (map pg_Name ps) \<Longrightarrow> distinct (map fst (plugin_table mk ps))"
proof (induction ps)
  case (Cons p ps)
  have p: "map fst (plugin_table mk (p # ps)) = map m_ID (pg_Checks p) @ map fst (plugin_table mk ps)"
    by (simp add: plugin_table_def check_table_def plugin_checks_def)
  have "module_of (m_ID m) = pg_Name p" if "m \<in> set (pg_Checks p)" for m
    using Cons.prems(1) that valid_module [of m] by (auto simp: plugin_ok_def plugin_check_ok_def list_all_iff)
  then have "m_ID m \<notin> set (map fst (plugin_table mk ps))" if "m \<in> set (pg_Checks p)" for m
    using plugin_table_names [of res ps "m_ID m" mk] Cons.prems that by fastforce
  then show ?case unfolding p using Cons by (auto simp: plugin_ok_def)
qed (simp add: plugin_table_def)

text \<open>
  C35 Start-up never panics and never loses a check: the 49 built-in checks register under different valid names without
  former names; whatever plugins load beside them, every plugin's checks are registered too, no error is added, every
  built-in name still leads to its check, and no plugin has a name of a built-in check.
\<close>

theorem startup_registers_all:
  fixes run :: "meta \<Rightarrow> 'r" and pl :: "'e platform" and he :: "'c host_env"
  shows "length (builtin_checks run) = 49 \<and>
    (\<exists>r0 r. register_all registry_New (builtin_checks run) = Inr r0 \<and>
      (case Load pl he (load_options env version dir r0) of (ps, errs) \<Rightarrow>
        loadPlugins pl he mk env version False dir None r0 = (\<lparr>ps_plugins = ps, ps_errs = map LoadFailed errs\<rparr>, r) \<and>
        registry_ok r \<and>
        list_all (\<lambda>(i, c). registry_Lookup r i = Some c) (check_table (builtin_checks run) @ plugin_table mk ps) \<and>
        distinct (map fst (check_table (builtin_checks run) @ plugin_table mk ps))))"
proof -
  let ?b = "check_table (builtin_checks run)"
  have count: "length (builtin_checks run) = 49"
    using arg_cong [OF builtin_names [of run], of length] arg_cong [OF dns_ids, of length] arg_cong [OF email_ids, of length]
      arg_cong [OF http_ids, of length] arg_cong [OF tls_ids, of length] by simp
  obtain r0 where r0: "register_all registry_New (builtin_checks run) = Inr r0" "registry_ok r0" "r_aliases r0 = []"
      "\<forall>i. taken r0 i \<longleftrightarrow> i \<in> set (map check_ID (builtin_checks run))" "\<forall>i. registry_Lookup r0 i = map_of ?b i"
    using builtins_registered [of run] by blast
  obtain ps errs where load: "Load pl he (load_options env version dir r0) = (ps, errs)" by fastforce
  have aliases: "list_all (\<lambda>(a, _). module_of a \<in> set (reserved_modules r0)) (r_aliases r0)" by (simp add: r0(3))
  obtain r where r: "loadPlugins pl he mk env version False dir None r0 = (\<lparr>ps_plugins = ps, ps_errs = map LoadFailed errs\<rparr>, r)"
      "registry_ok r" "\<forall>i. registry_Lookup r i = (case map_of (plugin_table mk ps) i of Some c \<Rightarrow> Some c | None \<Rightarrow> registry_Lookup r0 i)"
      "list_all (\<lambda>(i, _). \<not> taken r0 i) (plugin_table mk ps)"
    using loadPlugins_registers_all [OF r0(2) aliases load, of mk] by (elim exE conjE)
  have ok: "list_all (plugin_ok (po_Reserved (load_options env version dir r0))) ps" "distinct (map pg_Name ps)"
    using Load_ok [OF load] by simp_all
  have names: "map fst ?b = map check_ID (builtin_checks run)" by (simp add: check_table_def)
  have disj: "i \<notin> set (map fst ?b)" if "i \<in> set (map fst (plugin_table mk ps))" for i
    using r(4) r0(4) that unfolding names by (auto simp: list_all_iff)
  have apart: False if "(i, x) \<in> set (plugin_table mk ps)" "(i, y) \<in> set ?b" for i x y
    using disj [of i] that by (metis fst_conv image_eqI set_map)
  have d: "distinct (map fst (?b @ plugin_table mk ps))"
    using disj plugin_table_distinct [OF ok, of mk] builtin_distinct [of run] names by auto
  have "registry_Lookup r i = map_of (?b @ plugin_table mk ps) i" for i
    using r(3) r0(5) d by (auto simp: map_add_def map_of_append split: option.splits dest!: map_of_SomeD dest: apart)
  then have "list_all (\<lambda>(i, c). registry_Lookup r i = Some c) (?b @ plugin_table mk ps)"
    using map_of_eq_Some_iff [OF d] by (auto simp: list_all_iff)
  then show ?thesis using count r0(1) load r(1,2) d by auto
qed

end
