(* ===== verification/SetaReport.thy ===== *)
theory SetaReport
  imports SetaEngine SetaRunes
begin

text \<open>
  Package internal/report, the texts for people: table.go and markdown.go. A report is the string
  the code writes. Parameters: the text of an error, a date and a duration (package time), and for the
  machine formats of SetaSarif the digest, the version and filepath.ToSlash. As reference for what
  GitHub-flavored Markdown makes of the text: \<open>md_tokens\<close>, which characters of a line of text act as
  structure, and \<open>code_span\<close>, the code span at the start of a text.
\<close>

record source =
  src_Path :: string
  src_TargetLines :: "string \<rightharpoonup> int"

record report_options =
  op_Color :: bool
  op_Notes :: "string list"
  op_Source :: "source option"
  op_Baseline :: bool

record 'e report_env =
  re_Error :: "'e \<Rightarrow> string"
  re_Date :: "int \<Rightarrow> string"
  re_Duration :: "int \<Rightarrow> string"
  re_sha :: "string \<Rightarrow> string"
  re_Version :: string
  re_ToSlash :: "string \<Rightarrow> string"

subsection \<open>Counting\<close>

definition report_plural :: "nat \<Rightarrow> string \<Rightarrow> string" where
  "report_plural n noun = (if n = 1 then ''1 '' @ noun else nat_digits n @ '' '' @ noun @ ''s'')"

definition errorsFor :: "'e result \<Rightarrow> string \<Rightarrow> nat" where
  "errorsFor res t = length (filter (\<lambda>e. ce_Target e = t) (r_Errors res))"

definition hiddenFor :: "'e result \<Rightarrow> string \<Rightarrow> nat" where
  "hiddenFor res t =
     length (filter (\<lambda>s. f_Target (fst s) = t) (r_Suppressed res)) +
     length (filter (\<lambda>f. f_Target f = t) (r_Baselined res))"

text \<open>\<open>time.Duration.Round\<close>: to a multiple of \<open>m\<close>, halves away from zero.\<close>

definition duration_Round :: "int \<Rightarrow> int \<Rightarrow> int" where
  "duration_Round d m =
     (let a = \<bar>d\<bar>; r = a mod m; q = (if r + r < m then a - r else a + m - r) in if d < 0 then - q else q)"

definition millisecond :: int where "millisecond = 1000000"

definition formatDuration :: "'e report_env \<Rightarrow> int \<Rightarrow> string" where
  "formatDuration env d =
     re_Duration env (duration_Round d (if d < 1000 * millisecond then millisecond else 10 * millisecond))"

definition by_severity_text :: "finding list \<Rightarrow> string list" where
  "by_severity_text fs =
     concat (map (\<lambda>s. let n = length (filter (\<lambda>f. f_Severity f = s) fs) in
         if 0 < n then [nat_digits n @ '' '' @ severity_String s] else [])
       (rev Severities))"

definition report_summary :: "'e report_env \<Rightarrow> 'e result \<Rightarrow> string" where
  "report_summary env res =
     (let by = by_severity_text (r_Findings res);
          findings = report_plural (length (r_Findings res)) ''finding'' @
            (if by \<noteq> [] then '' ('' @ comma by @ '')'' else []);
          checks = report_plural (nat (r_Executions res)) ''check'' @
            (if 1 < length (r_Targets res) then '' on '' @ report_plural (length (r_Targets res)) ''target'' else [])
      in join middot ([findings] @
        (if r_Suppressed res \<noteq> [] then [nat_digits (length (r_Suppressed res)) @ '' suppressed''] else []) @
        (if r_Baselined res \<noteq> [] then [nat_digits (length (r_Baselined res)) @ '' in baseline''] else []) @
        (if r_Errors res \<noteq> [] then [report_plural (length (r_Errors res)) ''check error''] else []) @
        [checks, formatDuration env (r_Duration res)]))"

subsection \<open>The table\<close>

definition ESC :: char where "ESC = CHR 0x1B"

text \<open>A painter is its flag \<open>on\<close>.\<close>

definition style :: "bool \<Rightarrow> string \<Rightarrow> string \<Rightarrow> string" where
  "style on code s = (if \<not> on then s else [ESC] @ ''['' @ code @ ''m'' @ s @ [ESC] @ ''[0m'')"

definition bold :: "bool \<Rightarrow> string \<Rightarrow> string" where "bold on s = style on ''1'' s"

definition dim :: "bool \<Rightarrow> string \<Rightarrow> string" where "dim on s = style on ''2'' s"

definition green :: "bool \<Rightarrow> string \<Rightarrow> string" where "green on s = style on ''32'' s"

definition yellow :: "bool \<Rightarrow> string \<Rightarrow> string" where "yellow on s = style on ''33'' s"

definition cyan :: "bool \<Rightarrow> string \<Rightarrow> string" where "cyan on s = style on ''36'' s"

definition severity_code :: "severity \<Rightarrow> string" where
  "severity_code s =
     (if s = SeverityCritical then ''1;35'' else if s = SeverityHigh then ''1;31''
      else if s = SeverityMedium then ''33'' else if s = SeverityLow then ''36'' else ''2'')"

definition paint_severity :: "bool \<Rightarrow> severity \<Rightarrow> string \<Rightarrow> string" where
  "paint_severity on s text = style on (severity_code s) text"

definition pad :: "string \<Rightarrow> nat \<Rightarrow> string" where
  "pad s width = (if width \<le> length s then s else s @ replicate (width - length s) (CHR '' ''))"

definition severityWidth :: nat where "severityWidth = length ''CRITICAL''"

definition shown_title :: "finding \<Rightarrow> string" where
  "shown_title f = f_Title f @ (if f_Subject f \<noteq> [] then '' ('' @ f_Subject f @ '')'' else [])"

definition indent :: string where "indent = replicate (2 + severityWidth + 2) (CHR '' '')"

definition evidence_line :: "bool \<Rightarrow> evidence \<Rightarrow> string \<Rightarrow> string" where
  "evidence_line on e k = indent @ dim on (k @ '': '' @ the (e k)) @ newline"

definition writeFinding :: "bool \<Rightarrow> nat \<Rightarrow> finding \<Rightarrow> string" where
  "writeFinding on idWidth f =
     ''  '' @ paint_severity on (f_Severity f) (pad (to_upper (severity_String (f_Severity f))) severityWidth) @ ''  '' @
     pad (f_CheckID f) idWidth @ ''  '' @ shown_title f @ newline @
     concat (map (evidence_line on (f_Evidence f)) (sorted_keys (f_Evidence f))) @
     (if f_Remediation f \<noteq> [] then indent @ cyan on ''fix: '' @ f_Remediation f @ newline else [])"

definition target_findings :: "'e result \<Rightarrow> string \<Rightarrow> finding list" where
  "target_findings res t = filter (\<lambda>f. f_Target f = t) (r_Findings res)"

definition check_mark :: string where "check_mark = [CHR 0xE2, CHR 0x9C, CHR 0x93]"

text \<open>What is printed for a target without findings.\<close>

definition no_findings_text :: "bool \<Rightarrow> 'e result \<Rightarrow> string \<Rightarrow> string" where
  "no_findings_text on res t =
     (let errs = errorsFor res t; hidden = hiddenFor res t in
      if 0 < errs then yellow on (''no findings, but '' @ report_plural errs ''check'' @ '' could not complete'')
      else if 0 < hidden then
        green on (check_mark @ '' no new findings ('' @ nat_digits hidden @ '' suppressed or in baseline)'')
      else green on (check_mark @ '' no findings''))"

definition target_table :: "bool \<Rightarrow> 'e result \<Rightarrow> nat \<Rightarrow> string \<Rightarrow> string" where
  "target_table on res idWidth t =
     bold on t @ newline @
     (if target_findings res t = [] then ''  '' @ no_findings_text on res t @ newline
      else concat (map (writeFinding on idWidth) (target_findings res t)))"

definition error_row :: "'e report_env \<Rightarrow> 'e check_error \<Rightarrow> string" where
  "error_row env e = ''  '' @ ce_Target e @ ''  '' @ ce_CheckID e @ ''  '' @ re_Error env (ce_Err e) @ newline"

definition errors_table :: "bool \<Rightarrow> 'e report_env \<Rightarrow> 'e result \<Rightarrow> string" where
  "errors_table on env res =
     (if r_Errors res = [] then []
      else newline @ bold on (''Check errors ('' @ nat_digits (length (r_Errors res)) @ '')'') @ newline @
        dim on ''  These checks could not reach a verdict; they are not findings.'' @ newline @
        concat (map (error_row env) (r_Errors res)))"

definition notes_text :: "bool \<Rightarrow> string list \<Rightarrow> string" where
  "notes_text on notes =
     (if notes = [] then [] else newline @ concat (map (\<lambda>n. dim on n @ newline) notes))"

definition Table :: "'e report_env \<Rightarrow> 'e result \<Rightarrow> report_options \<Rightarrow> string" where
  "Table env res opts =
     (let on = op_Color opts;
          idWidth = foldl (\<lambda>w f. max w (length (f_CheckID f))) 0 (r_Findings res) in
      join newline (map (\<lambda>t. target_table on res idWidth (t_Name t)) (r_Targets res)) @
      errors_table on env res @ notes_text on (op_Notes opts) @
      newline @ report_summary env res @ newline)"

subsection \<open>Markdown\<close>

definition md_char :: "char \<Rightarrow> string" where
  "md_char c =
     (if c = CHR 0x5C then [CHR 0x5C, CHR 0x5C]
      else if c = CHR 0x60 then [CHR 0x5C, CHR 0x60]
      else if c \<in> {CHR ''*'', CHR ''_'', CHR ''['', CHR '']'', CHR ''|'', CHR ''#''} then [CHR 0x5C, c]
      else if c = CHR ''<'' then ''&lt;''
      else if c = CHR ''>'' then ''&gt;''
      else if c = CHR 0x0A then '' ''
      else [c])"

definition mdText :: "string \<Rightarrow> string" where "mdText s = concat (map md_char s)"

definition tick :: char where "tick = CHR 0x60"

text \<open>The loop that lengthens the fence until the text does not contain it.\<close>

function fence_from :: "string \<Rightarrow> nat \<Rightarrow> nat" where
  "fence_from s n = (if contains_sub s (replicate n tick) then fence_from s (Suc n) else n)"
  by pat_completeness auto
termination
  by (relation "measure (\<lambda>(s, n). Suc (length s) - n)") (auto simp: contains_sub_iff Suc_diff_le)

declare fence_from.simps [simp del]

definition spaces_for_newlines :: "string \<Rightarrow> string" where
  "spaces_for_newlines s = map (\<lambda>c. if c = CHR 0x0A then CHR '' '' else c) s"

definition mdCode :: "string \<Rightarrow> string" where
  "mdCode text =
     (let s = spaces_for_newlines text; fence = replicate (fence_from s 1) tick in
      if has_prefix s [tick] \<or> has_suffix s [tick] \<or> fence \<noteq> [tick] then fence @ '' '' @ s @ '' '' @ fence
      else fence @ s @ fence)"

definition mdSeverity :: "severity \<Rightarrow> string" where
  "mdSeverity s =
     (let label = to_upper (severity_String s) in if SeverityHigh \<le> s then ''**'' @ label @ ''**'' else label)"

definition finding_row :: "finding \<Rightarrow> string" where
  "finding_row f =
     ''| '' @ mdSeverity (f_Severity f) @ '' | '' @ mdCode (f_CheckID f) @ '' | '' @ mdText (shown_title f) @ '' |'' @ newline"

definition finding_details :: "finding \<Rightarrow> string" where
  "finding_details f =
     ''**'' @ mdCode (f_CheckID f) @ ''** '' @ mdText (f_Title f) @
     (if f_Subject f \<noteq> [] then '' ('' @ mdText (f_Subject f) @ '')'' else []) @ newline @
     concat (map (\<lambda>k. ''- '' @ mdText k @ '': '' @ mdCode (the (f_Evidence f k)) @ newline) (sorted_keys (f_Evidence f))) @
     (if f_Remediation f \<noteq> [] then ''- **Fix:** '' @ mdText (f_Remediation f) @ newline else []) @ newline"

definition white_check_mark :: string where "white_check_mark = [CHR 0xE2, CHR 0x9C, CHR 0x85]"

definition target_markdown :: "'e result \<Rightarrow> string \<Rightarrow> string" where
  "target_markdown res t =
     newline @ ''### '' @ mdText t @ newline @ newline @
     (let fs = target_findings res t; errs = errorsFor res t; hidden = hiddenFor res t in
      if fs = [] then
        (if 0 < errs then ''No findings, but '' @ report_plural errs ''check'' @ '' could not complete.'' @ newline
         else if 0 < hidden then
           white_check_mark @ '' No new findings ('' @ nat_digits hidden @ '' suppressed or in baseline).'' @ newline
         else white_check_mark @ '' No findings.'' @ newline)
      else ''| Severity | Check | Finding |'' @ newline @ ''|---|---|---|'' @ newline @
        concat (map finding_row fs) @
        newline @ ''<details><summary>Evidence and fixes</summary>'' @ newline @ newline @
        concat (map finding_details fs) @ ''</details>'' @ newline)"

definition suppressed_row :: "'e report_env \<Rightarrow> finding \<times> string \<times> int option \<Rightarrow> string" where
  "suppressed_row env s =
     (case s of (f, reason, expires) \<Rightarrow>
      ''| '' @ mdText (f_Target f) @ '' | '' @ mdCode (f_CheckID f) @
      (if f_Subject f \<noteq> [] then '' ('' @ mdText (f_Subject f) @ '')'' else []) @ '' | '' @ mdText reason @ '' | '' @
      (case expires of None \<Rightarrow> ''never'' | Some d \<Rightarrow> re_Date env d) @ '' |'' @ newline)"

definition error_row_md :: "'e report_env \<Rightarrow> 'e check_error \<Rightarrow> string" where
  "error_row_md env e =
     ''| '' @ mdText (ce_Target e) @ '' | '' @ mdCode (ce_CheckID e) @ '' | '' @ mdText (re_Error env (ce_Err e)) @ '' |'' @ newline"

definition suppressed_markdown :: "'e report_env \<Rightarrow> 'e result \<Rightarrow> string" where
  "suppressed_markdown env res =
     (if r_Suppressed res = [] then []
      else newline @ ''### Suppressed'' @ newline @ newline @ ''| Target | Check | Reason | Expires |'' @ newline @
        ''|---|---|---|---|'' @ newline @ concat (map (suppressed_row env) (r_Suppressed res)))"

definition errors_markdown :: "'e report_env \<Rightarrow> 'e result \<Rightarrow> string" where
  "errors_markdown env res =
     (if r_Errors res = [] then []
      else newline @ ''### Check errors'' @ newline @ newline @
        ''These checks could not reach a verdict; they are not findings.'' @ newline @ newline @
        ''| Target | Check | Error |'' @ newline @ ''|---|---|---|'' @ newline @
        concat (map (error_row_md env) (r_Errors res)))"

definition notes_markdown :: "string list \<Rightarrow> string" where
  "notes_markdown notes =
     (if notes = [] then [] else newline @ concat (map (\<lambda>n. ''> '' @ mdText n @ newline) notes))"

definition Markdown :: "'e report_env \<Rightarrow> 'e result \<Rightarrow> report_options \<Rightarrow> string" where
  "Markdown env res opts =
     ''## Seta report'' @ newline @ newline @ report_summary env res @ newline @
     concat (map (\<lambda>t. target_markdown res (t_Name t)) (r_Targets res)) @
     suppressed_markdown env res @ errors_markdown env res @ notes_markdown (op_Notes opts)"

subsection \<open>What Markdown makes of escaped text\<close>

text \<open>
  The characters to which GitHub-flavored Markdown gives a meaning inside a line: code, emphasis, links, HTML, cells,
  headings, strikethrough, line ends. (Parentheses act only after a bracket, an exclamation mark before one.)
\<close>

definition md_structure :: "char set" where
  "md_structure = {tick, CHR ''*'', CHR ''_'', CHR ''['', CHR '']'', CHR ''<'', CHR ''>'', CHR ''|'', CHR ''#'', CHR ''~'',
     CHR 0x0A, CHR 0x0D}"

text \<open>The extended autolinks: what makes a link without any markup. An at sign may make an address or a mention.\<close>

definition link_starts :: "string list" where
  "link_starts = [''http://'', ''https://'', ''ftp://'', ''www.'', ''mailto:'', ''xmpp:'', ''@'']"

definition starts_link :: "string \<Rightarrow> bool" where
  "starts_link s \<longleftrightarrow> list_ex (has_prefix s) link_starts"

definition is_punct :: "char \<Rightarrow> bool" where
  "is_punct c \<longleftrightarrow> (33 \<le> byte c \<and> byte c \<le> 47) \<or> (58 \<le> byte c \<and> byte c \<le> 64) \<or>
     (91 \<le> byte c \<and> byte c \<le> 96) \<or> (123 \<le> byte c \<and> byte c \<le> 126)"

text \<open>
  The characters a reader sees, each with whether it acts as structure: a backslash before punctuation and
  the two entities \<open>mdText\<close> writes make plain characters.
\<close>

function md_tokens :: "string \<Rightarrow> (bool \<times> char) list" where
  "md_tokens [] = []"
| "md_tokens (c # cs) =
     (if c = CHR 0x5C \<and> cs \<noteq> [] \<and> is_punct (hd cs) then (False, hd cs) # md_tokens (tl cs)
      else if c = CHR ''&'' \<and> has_prefix cs ''lt;'' then (False, CHR ''<'') # md_tokens (drop 3 cs)
      else if c = CHR ''&'' \<and> has_prefix cs ''gt;'' then (False, CHR ''>'') # md_tokens (drop 3 cs)
      else (c \<in> md_structure \<or> starts_link (c # cs), c) # md_tokens cs)"
  by pat_completeness auto
termination by (relation "measure length") auto

lemma starts_link_head: "starts_link (c # cs) \<Longrightarrow> c \<in> set ''hfwmx@''"
  by (auto simp: starts_link_def link_starts_def has_prefix_def)

lemma md_tokens_md_char:
  assumes "c \<noteq> CHR ''&''"
  shows "md_tokens (md_char c @ t) =
    (c \<in> {CHR ''~'', CHR 0x0D} \<or> starts_link (c # t), if c = CHR 0x0A then CHR '' '' else c) # md_tokens t"
proof -
  have "\<not> starts_link (d # u)" if "d \<notin> set ''hfwmx@''" for d u
    using starts_link_head that by blast
  then show ?thesis
    using assms by (simp add: md_char_def md_structure_def tick_def is_punct_def byte_def has_prefix_def)
qed

lemma md_tokens_entity:
  "has_prefix u ''lt;'' \<or> has_prefix u ''gt;'' \<Longrightarrow> \<exists>d. md_tokens (CHR ''&'' # u) = (False, d) # md_tokens (drop 3 u)"
  by auto

definition stops_entity :: "string \<Rightarrow> bool" where
  "stops_entity t \<longleftrightarrow> t = [] \<or> hd t \<notin> set ''lgt;''"

lemma mdText_Cons: "mdText (c # s) = md_char c @ mdText s"
  by (simp add: mdText_def)

lemma mdText_starts:
  assumes "mdText s @ t = x # r" and "x \<in> set ''lgt;''" and "stops_entity t"
  shows "\<exists>s'. s = x # s' \<and> r = mdText s' @ t"
proof (cases s)
  case Nil
  then show ?thesis using assms by (auto simp: stops_entity_def mdText_def)
next
  case (Cons c s')
  have "md_char c @ mdText s' @ t = x # r" using assms(1) Cons by (simp add: mdText_Cons)
  then have "c = x \<and> r = mdText s' @ t" using assms(2) by (auto simp: md_char_def split: if_splits)
  then show ?thesis using Cons by blast
qed

lemma mdText_starts_entity:
  assumes "mdText s @ t = [x, CHR ''t'', CHR '';''] @ r" and "x \<in> set ''lg''" and "stops_entity t"
  shows "\<exists>s'. s = [x, CHR ''t'', CHR '';''] @ s' \<and> r = mdText s' @ t"
proof -
  obtain s1 where 1: "s = x # s1" "CHR ''t'' # CHR '';'' # r = mdText s1 @ t"
    using mdText_starts [OF _ _ assms(3), of s x] assms(1,2) by fastforce
  obtain s2 where 2: "s1 = CHR ''t'' # s2" "CHR '';'' # r = mdText s2 @ t"
    using mdText_starts [OF 1(2) [symmetric] _ assms(3)] by auto
  obtain s3 where "s2 = CHR '';'' # s3" "r = mdText s3 @ t"
    using mdText_starts [OF 2(2) [symmetric] _ assms(3)] by auto
  then show ?thesis using 1 2 by simp
qed

text \<open>How a character of the text may act all the same: it is not escaped.\<close>

definition md_leak :: "string \<Rightarrow> string \<Rightarrow> char \<Rightarrow> bool" where
  "md_leak s t c \<longleftrightarrow> c \<in> set s \<and> c \<in> {CHR ''~'', CHR 0x0D} \<or>
     (\<exists>pre post. s = pre @ c # post \<and> starts_link (c # mdText post @ t))"

lemma md_leak_suffix: "md_leak s' t c \<Longrightarrow> md_leak (p @ s') t c"
  unfolding md_leak_def by (metis Un_iff append.assoc set_append)

lemma md_leak_Cons: "md_leak cs t c' \<Longrightarrow> md_leak (c # cs) t c'"
  using md_leak_suffix [of cs t c' "[c]"] by simp

lemma md_leak_head: "c \<in> {CHR ''~'', CHR 0x0D} \<or> starts_link (c # mdText cs @ t) \<Longrightarrow> md_leak (c # cs) t c"
  unfolding md_leak_def by (metis append_Nil list.set_intros(1))

lemma mdText_tokens:
  assumes "stops_entity t"
  shows "\<exists>ds. md_tokens (mdText s @ t) = ds @ md_tokens t \<and> (\<forall>(acts, c)\<in>set ds. acts \<longrightarrow> md_leak s t c) \<and>
    (CHR ''&'' \<notin> set s \<longrightarrow> map snd ds = spaces_for_newlines s)"
proof (induction s rule: length_induct)
  case (1 s)
  show ?case
  proof (cases s)
    case Nil
    then show ?thesis by (simp add: mdText_def spaces_for_newlines_def)
  next
    case (Cons c cs)
    obtain ds where ds: "md_tokens (mdText cs @ t) = ds @ md_tokens t" "\<forall>(acts, c)\<in>set ds. acts \<longrightarrow> md_leak cs t c"
        "CHR ''&'' \<notin> set cs \<longrightarrow> map snd ds = spaces_for_newlines cs"
      using 1 Cons by auto
    show ?thesis
    proof (cases "c = CHR ''&''")
      case False
      define d where "d = (c \<in> {CHR ''~'', CHR 0x0D} \<or> starts_link (c # mdText cs @ t), if c = CHR 0x0A then CHR '' '' else c)"
      have "md_tokens (mdText s @ t) = (d # ds) @ md_tokens t"
        using ds(1) False Cons by (simp add: mdText_Cons md_tokens_md_char d_def)
      moreover have "fst d \<longrightarrow> md_leak s t (snd d)"
        using md_leak_head [of c cs t] starts_link_head [of c "mdText cs @ t"] by (auto simp: d_def Cons)
      moreover have "\<forall>(acts, c')\<in>set ds. acts \<longrightarrow> md_leak s t c'"
        using ds(2) md_leak_Cons [of cs t _ c] by (auto simp: Cons)
      moreover have "CHR ''&'' \<notin> set s \<longrightarrow> map snd (d # ds) = spaces_for_newlines s"
        using ds(3) by (simp add: Cons d_def spaces_for_newlines_def)
      ultimately show ?thesis by (intro exI [of _ "d # ds"]) (simp add: case_prod_unfold)
    next
      case amper: True
      then have amp: "mdText s @ t = CHR ''&'' # mdText cs @ t"
        using Cons by (simp add: mdText_Cons md_char_def)
      have mem: "CHR ''&'' \<in> set s" using amper Cons by simp
      show ?thesis
      proof (cases "has_prefix (mdText cs @ t) ''lt;'' \<or> has_prefix (mdText cs @ t) ''gt;''")
        case True
        then obtain x where x: "x \<in> set ''lg''" "has_prefix (mdText cs @ t) [x, CHR ''t'', CHR '';'']" by auto
        obtain r where r: "mdText cs @ t = [x, CHR ''t'', CHR '';''] @ r" using x(2) unfolding has_prefix_iff by blast
        obtain cs' where cs': "cs = [x, CHR ''t'', CHR '';''] @ cs'" "r = mdText cs' @ t"
          using mdText_starts_entity [OF r x(1) assms] by blast
        have "length cs' < length s" by (simp add: Cons cs'(1))
        then obtain es where es: "md_tokens r = es @ md_tokens t" "\<forall>(acts, c)\<in>set es. acts \<longrightarrow> md_leak cs' t c"
          using 1 cs'(2) by blast
        obtain e where "md_tokens (mdText s @ t) = (False, e) # md_tokens r"
          using md_tokens_entity [OF True] amp r by auto
        moreover have "\<forall>(acts, c')\<in>set es. acts \<longrightarrow> md_leak s t c'"
          using es(2) md_leak_suffix [of cs' t _ "c # [x, CHR ''t'', CHR '';'']"] by (auto simp: Cons cs'(1))
        ultimately show ?thesis
          using es(1) mem by (intro exI [of _ "(False, e) # es"]) auto
      next
        case False
        then have "md_tokens (mdText s @ t) = (False, c) # ds @ md_tokens t"
          using amp ds(1) amper starts_link_head [of "CHR ''&''" "mdText cs @ t"] by (auto simp: md_structure_def tick_def)
        moreover have "\<forall>(acts, c')\<in>set ds. acts \<longrightarrow> md_leak s t c'"
          using ds(2) md_leak_Cons [of cs t _ c] by (auto simp: Cons)
        ultimately show ?thesis using mem by (intro exI [of _ "(False, c) # ds"]) auto
      qed
    qed
  qed
qed

text \<open>Escaping neither makes nor breaks the start of a bare link.\<close>

lemma mdText_has_prefix:
  "set p \<inter> {CHR 0x5C, CHR ''&'', CHR '' ''} = {} \<Longrightarrow> has_prefix (mdText s) p \<Longrightarrow> has_prefix s p"
proof (induction p arbitrary: s)
  case Nil
  then show ?case by (simp add: has_prefix_def)
next
  case (Cons x p)
  obtain c s' where s: "s = c # s'" using Cons.prems(2) by (cases s) (auto simp: has_prefix_def mdText_def)
  have "md_char c = [c] \<or> hd (md_char c) \<in> {CHR 0x5C, CHR ''&'', CHR '' ''}" by (auto simp: md_char_def)
  moreover have "md_char c \<noteq> []" by (simp add: md_char_def)
  ultimately have "c = x \<and> has_prefix (mdText s') p"
    using Cons.prems by (cases "md_char c") (auto simp: s mdText_Cons has_prefix_def)
  then show ?case using Cons.IH [of s'] Cons.prems(1) by (auto simp: s has_prefix_def)
qed

lemma link_starts_plain: "p \<in> set link_starts \<Longrightarrow> set p \<inter> {CHR 0x5C, CHR ''&'', CHR '' ''} = {}"
  by (auto simp: link_starts_def)

lemma starts_link_mdText: "starts_link (c # mdText s) \<Longrightarrow> starts_link (c # s)"
proof -
  assume "starts_link (c # mdText s)"
  then obtain p where p: "p \<in> set link_starts" "has_prefix (c # mdText s) p"
    by (auto simp: starts_link_def list_ex_iff)
  have "p \<noteq> []" using p(1) by (auto simp: link_starts_def)
  then obtain x q where q: "p = x # q" by (meson neq_Nil_conv)
  then have "has_prefix (c # s) p"
    using link_starts_plain [OF p(1)] mdText_has_prefix [of q s] p(2) by (auto simp: has_prefix_def)
  then show ?thesis using p(1) by (auto simp: starts_link_def list_ex_iff)
qed

text \<open>
  C32 What text from outside can do in the Markdown report. In escaped text no character acts inside a line - no
  markup of a link or an image, no tag, code, emphasis, cell, heading or line - but these: a tilde (strikethrough),
  a carriage return (a line end), and where the text itself has the start of a bare URL or an at sign, which GitHub
  may turn into a link. Without an ampersand (which may write an entity) the text reads back as it was, line ends
  as spaces.
\<close>

theorem mdText_inert:
  "(\<forall>(acts, c)\<in>set (md_tokens (mdText s)). acts \<longrightarrow>
      c \<in> {CHR ''~'', CHR 0x0D} \<or> (\<exists>pre post. s = pre @ c # post \<and> starts_link (c # post))) \<and>
   (CHR ''&'' \<in> set s \<or> map snd (md_tokens (mdText s)) = spaces_for_newlines s)"
proof -
  obtain ds where ds: "md_tokens (mdText s @ []) = ds @ md_tokens []"
      "\<forall>(acts, c)\<in>set ds. acts \<longrightarrow> md_leak s [] c" "CHR ''&'' \<notin> set s \<longrightarrow> map snd ds = spaces_for_newlines s"
    using mdText_tokens [of "[]" s] by (auto simp: stops_entity_def)
  have "c \<in> {CHR ''~'', CHR 0x0D} \<or> (\<exists>pre post. s = pre @ c # post \<and> starts_link (c # post))" if "md_leak s [] c" for c
    using that starts_link_mdText unfolding md_leak_def by fastforce
  then show ?thesis using ds by fastforce
qed

theorem mdText_inert_witness:
  "map snd (md_tokens (mdText ''[a](b) | <script>'')) = ''[a](b) | <script>''"
  using mdText_inert [of "''[a](b) | <script>''"] by (simp add: spaces_for_newlines_def)

text \<open>The exceptions occur: a carriage return, a tilde and a bare URL are not escaped.\<close>

lemma mdText_keeps_carriage_return: "(True, CHR 0x0D) \<in> set (md_tokens (mdText [CHR ''a'', CHR 0x0D, CHR ''b'']))"
  by (simp add: mdText_def md_char_def md_structure_def tick_def has_prefix_def)

lemma mdText_keeps_tilde: "(True, CHR ''~'') \<in> set (md_tokens (mdText ''~~x~~''))"
  by code_simp

lemma mdText_keeps_url: "(True, CHR ''h'') \<in> set (md_tokens (mdText ''https://evil.example''))"
  by code_simp

subsection \<open>Rows of the findings table\<close>

lemma id_part_chars: "id_part s \<Longrightarrow> set s \<subseteq> {c. is_lower c \<or> is_digit c \<or> c = CHR ''_''}"
  by (auto simp: id_part_def list_all_iff split: list.splits)

definition id_char :: "char \<Rightarrow> bool" where
  "id_char c \<longleftrightarrow> is_lower c \<or> is_digit c \<or> c = CHR ''_'' \<or> c = CHR ''.''"

lemma checkID_chars:
  assumes "checkIDPattern s"
  shows "list_all id_char s"
proof -
  obtain a b c where "split_on CHR ''.'' s = [a, b, c]" and "id_part a" "id_part b" "id_part c"
    using assms by (auto simp: checkIDPattern_def split: list.splits)
  moreover from this(1) have "s = join ''.'' [a, b, c]" using join_split_on [of "CHR ''.''" s] by simp
  ultimately show ?thesis using id_part_chars by (fastforce simp: join_Cons list_all_iff id_char_def)
qed

lemma other_id_chars: "list_all (\<lambda>c. \<not> id_char c) [tick, CHR 0x5C, CHR ''&'', CHR ''|'', CHR 0x0A, CHR 0x0D]"
  by code_simp

lemma severity_label_chars:
  "severity_Valid s \<Longrightarrow> set (mdSeverity s) \<inter> {CHR 0x5C, CHR ''&'', CHR ''|'', CHR 0x0A, CHR 0x0D} = {}"
  unfolding severity_cases
  by (auto simp: severity_defs severity_String_def severityNames_def mdSeverity_def to_upper_def upper_char_def
      is_lower_def go_eval)

definition row_structure :: "string \<Rightarrow> string" where
  "row_structure s = map snd (filter (\<lambda>(acts, c). acts \<and> c \<in> {CHR ''|'', CHR 0x0A, CHR 0x0D}) (md_tokens s))"

lemma row_structure_plain:
  "set p \<inter> {CHR 0x5C, CHR ''&''} = {} \<Longrightarrow>
   row_structure (p @ t) = filter (\<lambda>c. c \<in> {CHR ''|'', CHR 0x0A, CHR 0x0D}) p @ row_structure t"
  by (induction p) (auto simp: row_structure_def md_structure_def)

lemma row_structure_silent:
  "set p \<inter> {CHR 0x5C, CHR ''&'', CHR ''|'', CHR 0x0A, CHR 0x0D} = {} \<Longrightarrow> row_structure (p @ t) = row_structure t"
  by (subst row_structure_plain) (auto simp: filter_empty_conv)

lemma row_structure_borders:
  "row_structure (''| '' @ t) = CHR ''|'' # row_structure t"
  "row_structure ('' | '' @ t) = CHR ''|'' # row_structure t"
  "row_structure ('' |'' @ newline) = ''|'' @ newline"
  by (subst row_structure_plain; simp) (simp_all add: row_structure_plain row_structure_def newline_def md_structure_def)

lemma row_structure_mdText:
  "CHR 0x0D \<notin> set s \<Longrightarrow> stops_entity t \<Longrightarrow> row_structure (mdText s @ t) = row_structure t"
proof -
  assume "CHR 0x0D \<notin> set s" "stops_entity t"
  then obtain ds where ds: "md_tokens (mdText s @ t) = ds @ md_tokens t" "\<forall>(acts, c)\<in>set ds. acts \<longrightarrow> md_leak s t c"
    using mdText_tokens [of t s] by blast
  have "\<not> (acts \<and> c \<in> {CHR ''|'', CHR 0x0A, CHR 0x0D})" if "(acts, c) \<in> set ds" for acts c
    using ds(2) that \<open>CHR 0x0D \<notin> set s\<close> starts_link_head unfolding md_leak_def by fastforce
  then have "filter (\<lambda>(acts, c). acts \<and> c \<in> {CHR ''|'', CHR 0x0A, CHR 0x0D}) ds = []"
    by (auto simp: filter_empty_conv)
  then show "row_structure (mdText s @ t) = row_structure t" by (simp add: row_structure_def ds(1))
qed

text \<open>
  The table of findings keeps its shape whatever the texts say: a row has its four cell borders and ends in its
  only line end, with titles and subjects that hold no carriage return.
\<close>

lemma finding_row_intact:
  assumes "checkIDPattern (f_CheckID f)" and "severity_Valid (f_Severity f)" and "CHR 0x0D \<notin> set (shown_title f)"
  shows "row_structure (finding_row f) = ''||||'' @ newline"
proof -
  let ?id = "f_CheckID f"
  have tick: "tick \<notin> set ?id" and chars: "set ?id \<inter> {CHR 0x5C, CHR ''&'', CHR ''|'', CHR 0x0A, CHR 0x0D} = {}"
    using checkID_chars [OF assms(1)] other_id_chars by (auto simp: list_all_iff)
  have "spaces_for_newlines ?id = ?id" using chars by (auto simp: spaces_for_newlines_def intro: map_idI)
  moreover have "fence_from ?id 1 = 1"
    using tick contains_sub_set [of ?id "[tick]"] by (subst fence_from.simps) auto
  ultimately have "mdCode ?id = [tick] @ ?id @ [tick]"
    using tick by (auto simp: mdCode_def Let_def has_prefix_iff has_suffix_iff)
  then have "set (mdCode ?id) \<inter> {CHR 0x5C, CHR ''&'', CHR ''|'', CHR 0x0A, CHR 0x0D} = {}"
    using chars by (auto simp: tick_def)
  note code = row_structure_silent [OF this]
  have stop: "stops_entity ('' |'' @ newline)" by (simp add: stops_entity_def)
  show ?thesis
    unfolding finding_row_def row_structure_borders code row_structure_silent [OF severity_label_chars [OF assms(2)]]
      row_structure_mdText [OF assms(3) stop]
    by simp
qed

text \<open>Titles with pipes, links and line ends.\<close>

definition hostile_finding :: finding where
  "hostile_finding = (finding_with ''a.test'' (''| [x](y) |'' @ newline @ ''## z'') Map.empty)
     \<lparr>f_CheckID := ''dns.caa.missing'', f_Severity := SeverityHigh\<rparr>"

lemma finding_row_intact_witness: "row_structure (finding_row hostile_finding) = ''||||'' @ newline"
proof (rule finding_row_intact)
  show "checkIDPattern (f_CheckID hostile_finding)" by code_simp
  show "severity_Valid (f_Severity hostile_finding)" by code_simp
  show "CHR 0x0D \<notin> set (shown_title hostile_finding)" by code_simp
qed

subsection \<open>Code spans\<close>

text \<open>The code span a text starts with, as CommonMark reads it: its content and the rest of the text.\<close>

definition tick_run :: "string \<Rightarrow> nat" where
  "tick_run s = length (takeWhile (\<lambda>c. c = tick) s)"

function code_body :: "nat \<Rightarrow> string \<Rightarrow> (string \<times> string) option" where
  "code_body n [] = None"
| "code_body n (c # cs) =
     (if c \<noteq> tick then map_option (\<lambda>(b, r). (c # b, r)) (code_body n cs)
      else if tick_run (c # cs) = n then Some ([], drop n (c # cs))
      else map_option (\<lambda>(b, r). (replicate (tick_run (c # cs)) tick @ b, r)) (code_body n (drop (tick_run (c # cs)) (c # cs))))"
  by pat_completeness auto
termination by (relation "measure (\<lambda>(n, s). length s)") (auto simp: tick_run_def)

definition strip_space :: "string \<Rightarrow> string" where
  "strip_space b =
     (if has_prefix b '' '' \<and> has_suffix b '' '' \<and> \<not> list_all (\<lambda>c. c = CHR '' '') b then tl (butlast b) else b)"

definition code_span :: "string \<Rightarrow> (string \<times> string) option" where
  "code_span s =
     (let n = tick_run s in
      if n = 0 then None else map_option (\<lambda>(b, r). (strip_space b, r)) (code_body n (drop n s)))"

lemma takeWhile_tick: "takeWhile (\<lambda>c. c = tick) s = replicate (tick_run s) tick"
  unfolding tick_run_def by (induction s) auto

lemma tick_run_replicate: "r = [] \<or> hd r \<noteq> tick \<Longrightarrow> tick_run (replicate n tick @ r) = n"
  by (cases r) (auto simp: tick_run_def takeWhile_append)

lemma code_body_closes:
  assumes "\<not> contains_sub b (replicate n tick)" and "b = [] \<or> last b \<noteq> tick" and "0 < n" and "r = [] \<or> hd r \<noteq> tick"
  shows "code_body n (b @ replicate n tick @ r) = Some (b, r)"
  using assms(1,2)
proof (induction b rule: length_induct)
  case (1 b)
  show ?case
  proof (cases b)
    case Nil
    obtain m where "n = Suc m" using assms(3) by (cases n) auto
    then show ?thesis using Nil tick_run_replicate [OF assms(4), of n] by simp
  next
    case (Cons c cs)
    show ?thesis
    proof (cases "c = tick")
      case False
      have "\<not> contains_sub cs (replicate n tick)"
        using 1(2) Cons contains_sub_append [of cs _ "[c]" "[]"] by auto
      then have "code_body n (cs @ replicate n tick @ r) = Some (cs, r)"
        using 1(1,3) Cons by (auto split: if_splits)
      then show ?thesis using Cons False by simp
    next
      case True
      let ?k = "tick_run b" and ?b = "dropWhile (\<lambda>c. c = tick) b"
      have b: "b = replicate ?k tick @ ?b" using takeWhile_tick [of b] takeWhile_dropWhile_id by metis
      have ne: "?b \<noteq> []"
      proof
        assume "?b = []"
        then have "b = replicate ?k tick" using b by (metis append.right_neutral)
        then have "last b = tick" using Cons by (metis last_replicate list.distinct(1) replicate_empty)
        then show False using 1(3) Cons by simp
      qed
      then have hd: "hd ?b \<noteq> tick" using hd_dropWhile by blast
      have k: "?k < n"
      proof (rule ccontr)
        assume "\<not> ?k < n"
        then have "b = [] @ replicate n tick @ (replicate (?k - n) tick @ ?b)"
          using b by (metis append.assoc append_Nil le_add_diff_inverse not_less replicate_add)
        then show False using 1(2) contains_sub_iff by blast
      qed
      have run: "tick_run (b @ replicate n tick @ r) = ?k"
        using tick_run_replicate [of "?b @ replicate n tick @ r" ?k] ne hd b by (metis append.assoc hd_append2)
      have "0 < ?k" using Cons True by (simp add: tick_run_def)
      then have len: "length ?b < length b" using b by (metis add_less_same_cancel2 length_append length_replicate less_add_same_cancel2)
      have "\<not> contains_sub ?b (replicate n tick)"
        using 1(2) b contains_sub_append [of ?b _ "replicate ?k tick" "[]"] by auto
      moreover have "last ?b \<noteq> tick" using 1(3) b ne by (metis Cons last_appendR list.distinct(1))
      ultimately have IH: "code_body n (?b @ replicate n tick @ r) = Some (?b, r)" using 1(1) len by blast
      have "drop ?k (b @ replicate n tick @ r) = ?b @ replicate n tick @ r"
        using b by (metis append.assoc append_eq_conv_conj length_replicate)
      then have "code_body n (b @ replicate n tick @ r) = Some (replicate ?k tick @ ?b, r)"
        using run k IH Cons True by simp
      then show ?thesis using b by simp
    qed
  qed
qed

lemma fence_absent: "\<not> contains_sub s (replicate (fence_from s n) tick) \<and> n \<le> fence_from s n"
proof (induction s n rule: fence_from.induct)
  case (1 s n)
  then show ?case by (subst (1 2) fence_from.simps) auto
qed

text \<open>
  C33 Raw facts are shown as they are: whatever backticks the text of a code span holds, a Markdown reader finds the
  span's end where the code wrote it and reads back the text, its line ends as spaces (and, where the
  text has no backtick, less one space at both ends if it has them there). An empty text is the
  exception: its two backticks are no code span.
\<close>

theorem mdCode_reads_back:
  assumes "r = [] \<or> hd r \<noteq> tick"
  shows "code_span (mdCode text @ r) =
    (if text = [] then map_option (\<lambda>(b, r). (strip_space b, r)) (code_body 2 r)
     else Some (let s = spaces_for_newlines text in if tick \<in> set s then s else strip_space s, r))"
proof -
  let ?s = "spaces_for_newlines text"
  let ?n = "fence_from ?s 1"
  have n: "0 < ?n" and absent: "\<not> contains_sub ?s (replicate ?n tick)" using fence_absent [of ?s 1] by auto
  have span: "code_span (replicate ?n tick @ b @ replicate ?n tick @ r) = Some (strip_space b, r)"
    if b: "\<not> contains_sub b (replicate ?n tick)" "b \<noteq> []" "hd b \<noteq> tick" "last b \<noteq> tick" for b
  proof -
    have "tick_run (replicate ?n tick @ b @ replicate ?n tick @ r) = ?n" using b by (intro tick_run_replicate) simp
    then show ?thesis using n code_body_closes [OF b(1) _ n assms] b(4) by (simp add: code_span_def)
  qed
  show ?thesis
  proof (cases "tick \<in> set ?s")
    case True
    let ?b = "'' '' @ ?s @ '' ''"
    have wrapped: "mdCode text = replicate ?n tick @ ?b @ replicate ?n tick"
    proof -
      have "contains_sub ?s [tick]" using True by (metis append_Cons append_Nil contains_sub_iff split_list)
      then have "replicate ?n tick \<noteq> [tick]" using absent by auto
      then show ?thesis by (simp add: mdCode_def Let_def)
    qed
    have "CHR '' '' \<notin> set (replicate ?n tick)" "replicate ?n tick \<noteq> []" using n by (auto simp: tick_def)
    note sep = contains_sub_sep [OF this]
    have sub: "\<not> contains_sub ?b (replicate ?n tick)"
      using sep [of "[]" "?s @ '' ''"] sep [of ?s "[]"] absent n by (auto simp: append_Cons)
    then have "code_span (mdCode text @ r) = Some (strip_space ?b, r)"
      using span [OF sub] unfolding wrapped append_assoc by (simp add: tick_def)
    moreover have "strip_space ?b = ?s"
      using True by (auto simp: strip_space_def has_prefix_iff has_suffix_iff list_all_iff butlast_append tick_def)
    moreover have "text \<noteq> []" using True by (auto simp: spaces_for_newlines_def)
    ultimately show ?thesis using True by (simp add: Let_def)
  next
    case False
    have "\<not> contains_sub ?s [tick]" using False contains_sub_set [of ?s "[tick]"] by auto
    then have one: "?n = 1" by (subst fence_from.simps) simp
    have bare: "mdCode text = [tick] @ ?s @ [tick]"
      using False by (auto simp: mdCode_def Let_def one [unfolded One_nat_def] has_prefix_iff has_suffix_iff)
    show ?thesis
    proof (cases "text = []")
      case True
      have "tick_run ([tick, tick] @ r) = 2" using tick_run_replicate [OF assms, of 2] by (simp add: numeral_2_eq_2)
      then show ?thesis using bare True by (simp add: code_span_def spaces_for_newlines_def)
    next
      case False
      then have "?s \<noteq> []" by (simp add: spaces_for_newlines_def)
      then have "code_span (mdCode text @ r) = Some (strip_space ?s, r)"
        using span [OF absent] \<open>tick \<notin> set ?s\<close> one bare by (metis append.assoc hd_in_set last_in_set replicate_0 replicate_Suc One_nat_def)
      then show ?thesis using False \<open>tick \<notin> set ?s\<close> by (simp add: Let_def)
    qed
  qed
qed

theorem mdCode_reads_back_witness:
  "code_span (mdCode [CHR ''a'', tick, tick, CHR ''b'', CHR 0x0A, tick]) = Some ([CHR ''a'', tick, tick, CHR ''b'', CHR '' '', tick], [])"
  using mdCode_reads_back [of "[]" "[CHR ''a'', tick, tick, CHR ''b'', CHR 0x0A, tick]"]
  by (simp add: spaces_for_newlines_def tick_def)

subsection \<open>Colours\<close>

text \<open>Text without its escape sequences, and texts that differ in escape sequences only.\<close>

function strip_ansi :: "string \<Rightarrow> string" where
  "strip_ansi [] = []"
| "strip_ansi (c # cs) =
     (if c = ESC then strip_ansi (drop 1 (dropWhile (\<lambda>d. d \<noteq> CHR ''m'') cs)) else c # strip_ansi cs)"
  by pat_completeness auto
termination
  by (relation "measure length") (auto intro!: le_imp_less_Suc le_trans [OF diff_le_self length_dropWhile_le])

definition paints :: "string \<Rightarrow> string \<Rightarrow> bool" where
  "paints a b \<longleftrightarrow> (\<forall>t. strip_ansi (a @ t) = b @ strip_ansi t)"

definition clean :: "string \<Rightarrow> bool" where "clean s \<longleftrightarrow> ESC \<notin> set s"

lemma paints_clean: "clean s \<Longrightarrow> paints s s"
  unfolding paints_def clean_def by (induction s) auto

lemma paints_append [intro]: "paints a b \<Longrightarrow> paints c d \<Longrightarrow> paints (a @ c) (b @ d)"
  by (simp add: paints_def)

lemma paints_Nil [intro]: "paints [] []"
  by (simp add: paints_def)

lemma paints_concat: "list_all (\<lambda>x. paints (f x) (g x)) xs \<Longrightarrow> paints (concat (map f xs)) (concat (map g xs))"
  by (induction xs) (auto simp: paints_Nil)

lemma paints_join: "list_all (\<lambda>x. paints (f x) (g x)) xs \<Longrightarrow> clean sep \<Longrightarrow> paints (join sep (map f xs)) (join sep (map g xs))"
proof (induction xs)
  case (Cons x xs)
  then show ?case by (cases xs) (auto intro!: paints_append paints_clean)
qed (simp add: paints_Nil)

lemma paints_style:
  assumes "clean s" and "CHR ''m'' \<notin> set code"
  shows "paints (style on code s) s"
proof (cases on)
  case True
  have skip: "dropWhile (\<lambda>d. d \<noteq> CHR ''m'') (code @ CHR ''m'' # u) = CHR ''m'' # u" for u
    using assms(2) by (induction code) auto
  have "strip_ansi (style True code s @ t) = s @ strip_ansi t" for t
  proof -
    have "strip_ansi (style True code s @ t) = strip_ansi (s @ [ESC] @ ''[0m'' @ t)"
      using skip [of "s @ [ESC] @ ''[0m'' @ t"] by (simp add: style_def)
    also have "\<dots> = s @ strip_ansi ([ESC] @ ''[0m'' @ t)"
      using paints_clean [OF assms(1)] unfolding paints_def by blast
    also have "strip_ansi ([ESC] @ ''[0m'' @ t) = strip_ansi t" by simp
    finally show ?thesis .
  qed
  then show ?thesis using True by (simp add: paints_def)
next
  case False
  then show ?thesis using paints_clean [OF assms(1)] by (simp add: style_def)
qed

lemma paints_colours:
  assumes "clean s"
  shows "paints (bold on s) (bold False s)" and "paints (dim on s) (dim False s)" and "paints (green on s) (green False s)"
    and "paints (yellow on s) (yellow False s)" and "paints (cyan on s) (cyan False s)"
    and "paints (paint_severity on sev s) (paint_severity False sev s)"
  using paints_style [OF assms]
  by (auto simp: bold_def dim_def green_def yellow_def cyan_def paint_severity_def severity_code_def style_def)

lemma clean_text_simps [simp]:
  "clean []" "clean (c # s) \<longleftrightarrow> c \<noteq> ESC \<and> clean s" "clean (s @ t) \<longleftrightarrow> clean s \<and> clean t"
  "clean (replicate n c) \<longleftrightarrow> n = 0 \<or> c \<noteq> ESC"
  by (auto simp: clean_def)

lemma clean_digits [simp]: "clean (nat_digits n)"
  using nat_digits_all_digits [of n] by (auto simp: clean_def list_all_iff is_digit_def ESC_def byte_def)

lemma clean_concat: "list_all clean xs \<Longrightarrow> clean (concat xs)"
  by (induction xs) auto

lemma clean_join: "clean sep \<Longrightarrow> list_all clean xs \<Longrightarrow> clean (join sep xs)"
  by (induction sep xs rule: join.induct) auto

text \<open>A result whose texts hold no escape character.\<close>

definition clean_finding :: "finding \<Rightarrow> bool" where
  "clean_finding f \<longleftrightarrow> clean (f_CheckID f) \<and> clean (f_Subject f) \<and> clean (f_Title f) \<and> clean (f_Remediation f) \<and>
     severity_Valid (f_Severity f) \<and> finite (dom (f_Evidence f)) \<and>
     list_all (\<lambda>k. clean k \<and> clean (the (f_Evidence f k))) (sorted_keys (f_Evidence f))"

definition clean_result :: "'e report_env \<Rightarrow> 'e result \<Rightarrow> bool" where
  "clean_result env res \<longleftrightarrow> list_all clean_finding (r_Findings res) \<and> list_all (\<lambda>t. clean (t_Name t)) (r_Targets res) \<and>
     list_all (\<lambda>e. clean (ce_Target e) \<and> clean (ce_CheckID e) \<and> clean (re_Error env (ce_Err e))) (r_Errors res) \<and>
     clean (formatDuration env (r_Duration res))"

lemma clean_newline [simp]: "clean newline" "clean middot" "clean indent" "clean check_mark" "ESC \<noteq> CHR '' ''"
  by (simp_all add: newline_def middot_def indent_def check_mark_def ESC_def)

lemma clean_severity:
  assumes "severity_Valid s"
  shows "clean (severity_String s)" and "clean (to_upper (severity_String s))"
  using assms unfolding severity_cases
  by (auto simp: severity_defs severity_String_def severityNames_def to_upper_def upper_char_def is_lower_def go_eval ESC_def)

lemma clean_pad: "clean s \<Longrightarrow> clean (pad s n)"
  by (simp add: pad_def ESC_def)

lemma clean_plural: "clean noun \<Longrightarrow> clean (report_plural n noun)"
  by (simp add: report_plural_def ESC_def)

lemma clean_by_severity: "list_all clean (by_severity_text fs)"
  by (auto simp: by_severity_text_def Severities_def clean_severity(1) severity_cases list_all_iff Let_def ESC_def)

lemma clean_summary: "clean_result env res \<Longrightarrow> clean (report_summary env res)"
  by (auto simp: report_summary_def clean_result_def Let_def comma_def ESC_def
      intro!: clean_join clean_plural clean_by_severity)

lemma paints_finding: "clean_finding f \<Longrightarrow> paints (writeFinding on w f) (writeFinding False w f)"
  unfolding writeFinding_def evidence_line_def
  by (intro paints_append paints_concat)
    (auto simp: clean_finding_def shown_title_def list_all_iff ESC_def
      intro!: paints_append paints_colours paints_clean clean_pad clean_severity)

lemma paints_no_findings: "paints (no_findings_text on res t) (no_findings_text False res t)"
  by (auto simp: no_findings_text_def Let_def ESC_def intro!: paints_colours clean_plural)

lemma paints_target:
  assumes "clean_result env res" and "clean t"
  shows "paints (target_table on res w t) (target_table False res w t)"
proof -
  have "list_all (\<lambda>f. paints (writeFinding on w f) (writeFinding False w f)) (target_findings res t)"
    using assms(1) paints_finding by (auto simp: clean_result_def target_findings_def list_all_iff)
  then have "paints (concat (map (writeFinding on w) (target_findings res t))) (concat (map (writeFinding False w) (target_findings res t)))"
    by (rule paints_concat)
  moreover have "paints (''  '' @ no_findings_text on res t @ newline) (''  '' @ no_findings_text False res t @ newline)"
    by (intro paints_append paints_no_findings paints_clean) (simp_all add: ESC_def)
  ultimately show ?thesis
    unfolding target_table_def using assms(2)
    by (cases "target_findings res t = []") (simp_all add: paints_append paints_colours paints_clean del: append.simps)
qed

text \<open>
  Colours are decoration: taking the escape sequences out of a coloured table leaves the plain table, columns and
  all, as long as the texts of the run hold no escape character.
\<close>

lemma Table_colours_only_style:
  assumes "clean_result env res" and "list_all clean (op_Notes opts)"
  shows "strip_ansi (Table env res (opts\<lparr>op_Color := True\<rparr>)) = Table env res (opts\<lparr>op_Color := False\<rparr>)"
proof -
  let ?w = "foldl (\<lambda>w f. max w (length (f_CheckID f))) 0 (r_Findings res)"
  have "list_all (\<lambda>t. paints (target_table True res ?w (t_Name t)) (target_table False res ?w (t_Name t))) (r_Targets res)"
    using assms(1) paints_target [OF assms(1)] by (auto simp: clean_result_def list_all_iff)
  then have targets: "paints (join newline (map (\<lambda>t. target_table True res ?w (t_Name t)) (r_Targets res)))
      (join newline (map (\<lambda>t. target_table False res ?w (t_Name t)) (r_Targets res)))"
    by (rule paints_join) simp
  have rows: "clean (concat (map (error_row env) (r_Errors res)))"
    using assms(1) by (auto simp: clean_result_def error_row_def list_all_iff ESC_def intro!: clean_concat)
  have errors: "paints (errors_table True env res) (errors_table False env res)"
    using rows by (auto simp: errors_table_def ESC_def intro!: paints_append paints_colours paints_clean paints_Nil)
  have "list_all (\<lambda>n. paints (dim True n @ newline) (dim False n @ newline)) (op_Notes opts)"
    using assms(2) by (auto simp: list_all_iff intro!: paints_append paints_colours paints_clean)
  note texts = paints_concat [OF this]
  have "paints (notes_text True (op_Notes opts)) (notes_text False (op_Notes opts))"
    using texts by (auto simp: notes_text_def intro!: paints_append paints_clean paints_Nil)
  then have "paints (Table env res (opts\<lparr>op_Color := True\<rparr>)) (Table env res (opts\<lparr>op_Color := False\<rparr>))"
    unfolding Table_def Let_def
    using targets errors clean_summary [OF assms(1)] by (auto intro!: paints_append paints_clean)
  then show ?thesis unfolding paints_def by (metis append_Nil2 strip_ansi.simps(1))
qed

definition demo_report_env :: "string report_env" where
  "demo_report_env = \<lparr>re_Error = id, re_Date = (\<lambda>_. ''2026-01-02''), re_Duration = (\<lambda>_. ''1.2s''), re_sha = id,
     re_Version = ''v1'', re_ToSlash = id\<rparr>"

definition demo_result :: "string result" where
  "demo_result = \<lparr>r_Started = 0, r_Duration = 1200000000, r_Targets = [target_named ''a.test''], r_Executions = 2,
     r_Ran = [], r_Findings = [hostile_finding\<lparr>f_Target := ''a.test''\<rparr>],
     r_Errors = [\<lparr>ce_CheckID = ''dns.ns.lame'', ce_Target = ''a.test'', ce_Err = ''timeout''\<rparr>],
     r_Checks = [], r_Suppressed = [], r_Baselined = []\<rparr>"

lemma Table_colours_only_style_witness:
  "strip_ansi (Table demo_report_env demo_result \<lparr>op_Color = True, op_Notes = [''note''], op_Source = None, op_Baseline = False\<rparr>) =
   Table demo_report_env demo_result \<lparr>op_Color = False, op_Notes = [''note''], op_Source = None, op_Baseline = False\<rparr>"
proof -
  have "clean_result demo_report_env demo_result"
    by (simp add: clean_result_def clean_finding_def demo_report_env_def demo_result_def hostile_finding_def
        finding_with_def finding0_def severity_Valid_def severity_defs sorted_keys_def target_named_def formatDuration_def ESC_def)
  from Table_colours_only_style [OF this, where opts = "\<lparr>op_Color = True, op_Notes = [''note''], op_Source = None, op_Baseline = False\<rparr>"]
  show ?thesis by (simp add: ESC_def)
qed

end
