(* ===== verification/SetaSarif.thy ===== *)
theory SetaSarif
  imports SetaReport
begin

text \<open>
  Package internal/report, the formats for machines: json.go and sarif.go. A document is a record of what is
  encoded; the JSON syntax is encoding/json's. A Go map that is only looked up is a function, one whose
  keys are listed a map.
\<close>

subsection \<open>JSON\<close>

record json_finding =
  jf_Fingerprint :: string
  jf_CheckID :: string
  jf_Target :: string
  jf_Subject :: string
  jf_Severity :: severity
  jf_Title :: string
  jf_Evidence :: evidence
  jf_Remediation :: string
  jf_References :: "string list"

record json_suppressed =
  js_Finding :: json_finding
  js_Reason :: string
  js_Expires :: "string option"

record json_error =
  je_CheckID :: string
  je_Target :: string
  je_Error :: string

record json_summary =
  jy_Findings :: nat
  jy_BySeverity :: "string \<rightharpoonup> nat"
  jy_CheckErrors :: nat
  jy_ChecksRun :: int
  jy_Suppressed :: nat
  jy_Baselined :: nat

record json_report =
  jr_Schema :: int
  jr_Tool :: "string \<times> string"
  jr_StartedAt :: int
  jr_DurationMS :: int
  jr_Targets :: "string list"
  jr_Summary :: json_summary
  jr_Findings :: "json_finding list"
  jr_Errors :: "json_error list"
  jr_Suppressed :: "json_suppressed list"
  jr_Baselined :: "json_finding list"

definition JSONSchema :: int where "JSONSchema = 1"

text \<open>A nil map and an empty one are both \<open>Map.empty\<close>; nil references become an empty list.\<close>

definition toJSON :: "(string \<Rightarrow> string) \<Rightarrow> finding \<Rightarrow> json_finding" where
  "toJSON sha f =
     \<lparr>jf_Fingerprint = finding_Fingerprint sha f, jf_CheckID = f_CheckID f, jf_Target = f_Target f,
      jf_Subject = f_Subject f, jf_Severity = f_Severity f, jf_Title = f_Title f, jf_Evidence = f_Evidence f,
      jf_Remediation = f_Remediation f,
      jf_References = (case f_References f of None \<Rightarrow> [] | Some rs \<Rightarrow> rs)\<rparr>"

text \<open>The maps of counts: every severity starts at zero, every finding adds one under its severity's name.\<close>

definition zero_counts :: "string \<rightharpoonup> nat" where
  "zero_counts = foldl (\<lambda>m s. m(severity_String s \<mapsto> 0)) Map.empty Severities"

definition count_finding :: "(string \<rightharpoonup> nat) \<Rightarrow> finding \<Rightarrow> (string \<rightharpoonup> nat)" where
  "count_finding m f =
     (let k = severity_String (f_Severity f) in m(k \<mapsto> (case m k of None \<Rightarrow> 0 | Some n \<Rightarrow> n) + 1))"

definition json_suppressed_of :: "'e report_env \<Rightarrow> finding \<times> string \<times> int option \<Rightarrow> json_suppressed" where
  "json_suppressed_of env s =
     (case s of (f, reason, expires) \<Rightarrow>
      \<lparr>js_Finding = toJSON (re_sha env) f, js_Reason = reason, js_Expires = map_option (re_Date env) expires\<rparr>)"

definition json_error_of :: "'e report_env \<Rightarrow> 'e check_error \<Rightarrow> json_error" where
  "json_error_of env e = \<lparr>je_CheckID = ce_CheckID e, je_Target = ce_Target e, je_Error = re_Error env (ce_Err e)\<rparr>"

definition JSON :: "'e report_env \<Rightarrow> 'e result \<Rightarrow> json_report" where
  "JSON env res =
     \<lparr>jr_Schema = JSONSchema, jr_Tool = (''seta'', re_Version env), jr_StartedAt = r_Started res,
      jr_DurationMS = sgn (r_Duration res) * (\<bar>r_Duration res\<bar> div millisecond),
      jr_Targets = map t_Name (r_Targets res),
      jr_Summary =
        \<lparr>jy_Findings = length (r_Findings res), jy_BySeverity = foldl count_finding zero_counts (r_Findings res),
         jy_CheckErrors = length (r_Errors res), jy_ChecksRun = r_Executions res,
         jy_Suppressed = length (r_Suppressed res), jy_Baselined = length (r_Baselined res)\<rparr>,
      jr_Findings = map (toJSON (re_sha env)) (r_Findings res),
      jr_Errors = map (json_error_of env) (r_Errors res),
      jr_Suppressed = map (json_suppressed_of env) (r_Suppressed res),
      jr_Baselined = map (toJSON (re_sha env)) (r_Baselined res)\<rparr>"

subsection \<open>SARIF: the log\<close>

record sarif_rule =
  sr_ID :: string
  sr_ShortDescription :: string
  sr_FullDescription :: "string option"
  sr_Help :: "string option"
  sr_HelpURI :: string
  sr_Level :: string
  sr_Tags :: "string list"
  sr_SecuritySeverity :: "string option"

record sarif_notification =
  sn_Level :: string
  sn_Message :: string
  sn_AssociatedRule :: string

record sarif_location =
  sl_PhysicalLocation :: "(string \<times> int option) option"
  sl_Name :: string
  sl_FullyQualifiedName :: string

record sarif_suppression =
  ss_Kind :: string
  ss_Status :: string
  ss_Justification :: string

record sarif_result =
  sa_RuleID :: string
  sa_RuleIndex :: nat
  sa_Level :: string
  sa_Message :: string
  sa_Location :: sarif_location
  sa_Fingerprint :: "string \<times> string"
  sa_BaselineState :: string
  sa_Suppressions :: "sarif_suppression list"
  sa_Severity :: string
  sa_Target :: string
  sa_Subject :: "string option"
  sa_Evidence :: "evidence option"

record sarif_log =
  lg_Driver :: "string \<times> string"
  lg_Rules :: "sarif_rule list"
  lg_Notifications :: "sarif_notification list"
  lg_Results :: "sarif_result list"

definition sarifFingerprintKey :: string where "sarifFingerprintKey = ''setaFingerprint/v1''"

definition sarifLevel :: "severity \<Rightarrow> string" where
  "sarifLevel s = (if SeverityHigh \<le> s then ''error'' else if s = SeverityMedium then ''warning'' else ''note'')"

definition securitySeverity :: "severity \<rightharpoonup> string" where
  "securitySeverity = [SeverityCritical \<mapsto> ''9.5'', SeverityHigh \<mapsto> ''8.0'', SeverityMedium \<mapsto> ''5.5'', SeverityLow \<mapsto> ''3.0'']"

subsection \<open>SARIF: the rules\<close>

text \<open>\<open>highest\<close> is looked up with Go's zero value for a missing key.\<close>

definition severity_at :: "(string \<rightharpoonup> severity) \<Rightarrow> string \<Rightarrow> severity" where
  "severity_at h i = (case h i of None \<Rightarrow> SeverityUnset | Some s \<Rightarrow> s)"

definition note_severity :: "(string \<rightharpoonup> severity) \<Rightarrow> finding \<Rightarrow> (string \<rightharpoonup> severity)" where
  "note_severity h f = h(f_CheckID f \<mapsto> max (severity_at h (f_CheckID f)) (f_Severity f))"

text \<open>The findings in the order \<open>sarifRules\<close> notes them.\<close>

definition noted :: "'e result \<Rightarrow> finding list" where
  "noted res = r_Findings res @ r_Baselined res @ map fst (r_Suppressed res)"

definition highest_severities :: "'e result \<Rightarrow> (string \<rightharpoonup> severity)" where
  "highest_severities res = foldl note_severity Map.empty (noted res)"

definition bare_meta :: "string \<Rightarrow> severity \<Rightarrow> meta" where
  "bare_meta i sev =
     \<lparr>m_ID = i, m_Aliases = [], m_Module = [], m_Title = i, m_Description = [], m_Remediation = [], m_Mode = Passive,
      m_Severity = sev, m_References = [], m_Timeout = 0\<rparr>"

text \<open>The loop over \<open>highest\<close> touches each key once, so it is written as a map.\<close>

definition rule_metas :: "'e result \<Rightarrow> (string \<rightharpoonup> meta)" where
  "rule_metas res =
     (let metas = foldl (\<lambda>m x. m(m_ID x \<mapsto> x)) Map.empty (r_Checks res) in
      (\<lambda>i. case metas i of Some m \<Rightarrow> Some m | None \<Rightarrow> map_option (bare_meta i) (highest_severities res i)))"

definition sarif_rule_of :: "(string \<rightharpoonup> severity) \<Rightarrow> string \<Rightarrow> meta \<Rightarrow> sarif_rule" where
  "sarif_rule_of highest i m =
     (let sev = max (m_Severity m) (severity_at highest i) in
      \<lparr>sr_ID = i, sr_ShortDescription = m_Title m,
       sr_FullDescription = (if m_Description m \<noteq> [] then Some (m_Description m) else None),
       sr_Help = (if m_Remediation m \<noteq> [] then Some (m_Remediation m) else None),
       sr_HelpURI = (case m_References m of [] \<Rightarrow> [] | u # _ \<Rightarrow> u),
       sr_Level = sarifLevel sev,
       sr_Tags = (if m_Module m = [] then [''security''] else [''security'', m_Module m]),
       sr_SecuritySeverity = securitySeverity sev\<rparr>)"

definition sarifRules :: "'e result \<Rightarrow> sarif_rule list \<times> (string \<rightharpoonup> nat)" where
  "sarifRules res =
     (let metas = rule_metas res; ids = sorted_keys metas in
      (map (\<lambda>i. sarif_rule_of (highest_severities res) i (the (metas i))) ids,
       map_of (zip ids [0..<length ids])))"

subsection \<open>SARIF: the results\<close>

definition sarif_location_of :: "'e report_env \<Rightarrow> source option \<Rightarrow> finding \<Rightarrow> sarif_location" where
  "sarif_location_of env src f =
     \<lparr>sl_PhysicalLocation =
        map_option (\<lambda>s.
          (re_ToSlash env (src_Path s),
           case src_TargetLines s (f_Target f) of None \<Rightarrow> None | Some l \<Rightarrow> if 0 < l then Some l else None)) src,
      sl_Name = f_Target f,
      sl_FullyQualifiedName = f_Target f @ (if f_Subject f \<noteq> [] then ''/'' @ f_Subject f else [])\<rparr>"

definition sarif_message :: "finding \<Rightarrow> string" where
  "sarif_message f =
     shown_title f @ '' on '' @ f_Target f @ ''.'' @
     concat (map (\<lambda>k. newline @ k @ '': '' @ the (f_Evidence f k)) (sorted_keys (f_Evidence f))) @
     (if f_Remediation f \<noteq> [] then newline @ ''Fix: '' @ f_Remediation f else [])"

definition sarifFinding :: "'e report_env \<Rightarrow> finding \<Rightarrow> (string \<rightharpoonup> nat) \<Rightarrow> source option \<Rightarrow> sarif_result" where
  "sarifFinding env f index src =
     \<lparr>sa_RuleID = f_CheckID f,
      sa_RuleIndex = (case index (f_CheckID f) of None \<Rightarrow> 0 | Some n \<Rightarrow> n),
      sa_Level = sarifLevel (f_Severity f),
      sa_Message = trim_space (sarif_message f),
      sa_Location = sarif_location_of env src f,
      sa_Fingerprint = (sarifFingerprintKey, finding_Fingerprint (re_sha env) f),
      sa_BaselineState = [], sa_Suppressions = [],
      sa_Severity = severity_String (f_Severity f), sa_Target = f_Target f,
      sa_Subject = (if f_Subject f \<noteq> [] then Some (f_Subject f) else None),
      sa_Evidence = (if f_Evidence f \<noteq> Map.empty then Some (f_Evidence f) else None)\<rparr>"

definition sarif_notification_of :: "'e report_env \<Rightarrow> 'e check_error \<Rightarrow> sarif_notification" where
  "sarif_notification_of env e =
     \<lparr>sn_Level = ''error'',
      sn_Message = ce_CheckID e @ '' on '' @ ce_Target e @ '' could not complete: '' @ re_Error env (ce_Err e),
      sn_AssociatedRule = ce_CheckID e\<rparr>"

definition sarif_suppressed :: "'e report_env \<Rightarrow> (string \<rightharpoonup> nat) \<Rightarrow> source option \<Rightarrow> finding \<times> string \<times> int option \<Rightarrow> sarif_result" where
  "sarif_suppressed env index src s =
     (case s of (f, reason, expires) \<Rightarrow>
      (sarifFinding env f index src)\<lparr>sa_Suppressions :=
        [\<lparr>ss_Kind = ''external'', ss_Status = ''accepted'',
          ss_Justification = reason @ (case expires of None \<Rightarrow> [] | Some d \<Rightarrow> '' (until '' @ re_Date env d @ '')'')\<rparr>]\<rparr>)"

definition SARIF :: "'e report_env \<Rightarrow> 'e result \<Rightarrow> report_options \<Rightarrow> sarif_log" where
  "SARIF env res opts =
     (case sarifRules res of (rules, index) \<Rightarrow>
      let src = op_Source opts in
      \<lparr>lg_Driver = (''seta'', re_Version env), lg_Rules = rules,
       lg_Notifications = map (sarif_notification_of env) (r_Errors res),
       lg_Results =
         map (\<lambda>f. if op_Baseline opts then (sarifFinding env f index src)\<lparr>sa_BaselineState := ''new''\<rparr>
                  else sarifFinding env f index src) (r_Findings res) @
         map (\<lambda>f. (sarifFinding env f index src)\<lparr>sa_BaselineState := ''unchanged''\<rparr>) (r_Baselined res) @
         map (sarif_suppressed env index src) (r_Suppressed res)\<rparr>)"

subsection \<open>Counts\<close>

lemma severity_String_inj: "severity_Valid s \<Longrightarrow> severity_Valid t \<Longrightarrow> severity_String s = severity_String t \<Longrightarrow> s = t"
  by (metis ParseSeverity_String Inr_inject)

lemma zero_counts_at: "zero_counts k = (if k \<in> severity_String ` set Severities then Some 0 else None)"
  by (auto simp: zero_counts_def Severities_def)

lemma count_findings_at:
  "foldl count_finding m fs k =
     (let n = length (filter (\<lambda>f. severity_String (f_Severity f) = k) fs) in
      if n = 0 then m k else Some ((case m k of None \<Rightarrow> 0 | Some c \<Rightarrow> c) + n))"
proof (induction fs arbitrary: m)
  case (Cons f fs)
  then show ?case by (auto simp: count_finding_def Let_def split: option.splits)
qed simp

lemma valid_in_Severities: "severity_Valid s \<longleftrightarrow> s \<in> set Severities"
  unfolding severity_cases by (auto simp: Severities_def)

lemma length_by_key:
  assumes "distinct ks" and "list_all (\<lambda>x. h x \<in> set ks) xs"
  shows "sum_list (map (\<lambda>k. length (filter (\<lambda>x. h x = k) xs)) ks) = length xs"
  using assms(2)
proof (induction xs)
  case (Cons x xs)
  have "sum_list (map (\<lambda>k. length (filter (\<lambda>y. h y = k) (x # xs))) ks) =
      sum_list (map (\<lambda>k. (if h x = k then 1 else 0) + length (filter (\<lambda>y. h y = k) xs)) ks)"
    by (intro arg_cong [where f = sum_list] map_cong) auto
  also have "\<dots> = sum_list (map (\<lambda>k. if h x = k then 1 else 0) ks) + length xs"
    using Cons by (simp add: sum_list_addf)
  also have "sum_list (map (\<lambda>k. if h x = k then 1 else (0::nat)) ks) = 1"
    using assms(1) Cons.prems by (simp add: sum_list_distinct_conv_sum_set)
  finally show ?case by simp
qed simp

text \<open>
  The numbers of the JSON report are the report's: with valid severities every severity has its count, the
  counts add up to the findings listed, no other key appears, and findings, errors, suppressed and
  baselined entries are listed one for one.
\<close>

lemma JSON_counts:
  assumes "list_all (\<lambda>f. severity_Valid (f_Severity f)) (r_Findings res)"
  shows "let j = JSON env res; by = jy_BySeverity (jr_Summary j) in
     list_all (\<lambda>s. by (severity_String s) = Some (length (filter (\<lambda>f. jf_Severity f = s) (jr_Findings j)))) Severities \<and>
     dom by = severity_String ` set Severities \<and>
     sum_list (map (\<lambda>s. the (by (severity_String s))) Severities) = length (jr_Findings j) \<and>
     jy_Findings (jr_Summary j) = length (jr_Findings j) \<and> jy_CheckErrors (jr_Summary j) = length (jr_Errors j) \<and>
     jy_Suppressed (jr_Summary j) = length (jr_Suppressed j) \<and> jy_Baselined (jr_Summary j) = length (jr_Baselined j) \<and>
     map jf_Fingerprint (jr_Findings j) = map (finding_Fingerprint (re_sha env)) (r_Findings res)"
proof -
  let ?fs = "r_Findings res" and ?by = "foldl count_finding zero_counts (r_Findings res)"
  have same: "filter (\<lambda>f. severity_String (f_Severity f) = severity_String s) ?fs = filter (\<lambda>f. f_Severity f = s) ?fs"
    if "s \<in> set Severities" for s
    using assms severity_String_inj that by (intro filter_cong) (auto simp: list_all_iff valid_in_Severities)
  have at: "?by (severity_String s) = Some (length (filter (\<lambda>f. f_Severity f = s) ?fs))" if "s \<in> set Severities" for s
    using same [OF that] that by (auto simp: count_findings_at zero_counts_at Let_def)
  have json: "length (filter (\<lambda>f. jf_Severity f = s) (map (toJSON (re_sha env)) ?fs)) = length (filter (\<lambda>f. f_Severity f = s) ?fs)" for s
    by (simp add: filter_map o_def toJSON_def)
  have dom: "dom ?by = severity_String ` set Severities"
  proof (intro equalityI subsetI)
    fix k assume "k \<in> dom ?by"
    then obtain n where "?by k = Some n" by blast
    then have "k \<in> severity_String ` set Severities \<or> filter (\<lambda>f. severity_String (f_Severity f) = k) ?fs \<noteq> []"
      by (auto simp: count_findings_at zero_counts_at Let_def split: if_splits)
    then show "k \<in> severity_String ` set Severities"
      using assms by (auto simp: list_all_iff valid_in_Severities filter_empty_conv)
  qed (use at in auto)
  have "map (\<lambda>s. the (?by (severity_String s))) Severities = map (\<lambda>s. length (filter (\<lambda>f. f_Severity f = s) ?fs)) Severities"
    using at by (intro map_cong) auto
  moreover have "sum_list (map (\<lambda>s. length (filter (\<lambda>f. f_Severity f = s) ?fs)) Severities) = length ?fs"
    using assms by (intro length_by_key) (auto simp: list_all_iff valid_in_Severities, simp add: Severities_def severity_defs)
  ultimately have "sum_list (map (\<lambda>s. the (?by (severity_String s))) Severities) = length ?fs" by metis
  then show ?thesis
    using at dom json by (simp add: JSON_def Let_def list_all_iff o_def) (simp add: toJSON_def)
qed

lemma JSON_counts_witness:
  "jy_BySeverity (jr_Summary (JSON demo_report_env demo_result)) ''high'' = Some 1"
proof -
  have "list_all (\<lambda>f. severity_Valid (f_Severity f)) (r_Findings demo_result)"
    by (simp add: demo_result_def hostile_finding_def finding_with_def severity_Valid_def severity_defs)
  from JSON_counts [OF this, of demo_report_env]
  show ?thesis
    by (simp add: Let_def Severities_def severity_defs severity_String_def severityNames_def JSON_def toJSON_def demo_result_def
        hostile_finding_def finding_with_def finding0_def)
qed

subsection \<open>Rules and results\<close>

lemma severity_at_update [simp]: "severity_at (h(i \<mapsto> s)) k = (if k = i then s else severity_at h k)"
  by (simp add: severity_at_def)

lemma note_severities_mono: "severity_at h i \<le> severity_at (foldl note_severity h fs) i"
proof (induction fs arbitrary: h)
  case (Cons f fs)
  have "severity_at h i \<le> severity_at (note_severity h f) i" by (simp add: note_severity_def)
  then show ?case using Cons [of "note_severity h f"] by simp
qed simp

lemma note_severities_above: "f \<in> set fs \<Longrightarrow> f_Severity f \<le> severity_at (foldl note_severity h fs) (f_CheckID f)"
proof (induction fs arbitrary: h)
  case (Cons g fs)
  show ?case
  proof (cases "f = g")
    case True
    have "f_Severity f \<le> severity_at (note_severity h f) (f_CheckID f)" by (simp add: note_severity_def)
    then show ?thesis using True note_severities_mono [of "note_severity h g" "f_CheckID f" fs] by simp
  qed (use Cons in simp)
qed simp

lemma dom_note_severities: "dom (foldl note_severity h fs) = dom h \<union> f_CheckID ` set fs"
  by (induction fs arbitrary: h) (auto simp: note_severity_def)

lemma dom_metas: "dom (foldl (\<lambda>m x. m(m_ID x \<mapsto> x)) m0 xs) = dom m0 \<union> m_ID ` set xs"
  by (induction xs arbitrary: m0) auto

lemma dom_rule_metas: "dom (rule_metas res) = m_ID ` set (r_Checks res) \<union> f_CheckID ` set (noted res)"
proof -
  have "dom (rule_metas res) =
      dom (foldl (\<lambda>m x. m(m_ID x \<mapsto> x)) Map.empty (r_Checks res)) \<union> dom (highest_severities res)"
    by (auto simp: rule_metas_def Let_def split: option.splits)
  then show ?thesis by (simp add: dom_metas highest_severities_def dom_note_severities)
qed

definition level_rank :: "string \<Rightarrow> nat" where
  "level_rank l = (if l = ''error'' then 2 else if l = ''warning'' then 1 else 0)"

lemma sarifLevel_mono: "s \<le> t \<Longrightarrow> level_rank (sarifLevel s) \<le> level_rank (sarifLevel t)"
  by (simp add: sarifLevel_def level_rank_def severity_defs)

lemma set_sorted_keys: "finite (dom m) \<Longrightarrow> set (sorted_keys m) = dom m"
  by (simp add: sorted_keys_def)

lemma map_of_zip_index:
  assumes "distinct xs" and "x \<in> set xs"
  shows "\<exists>n < length xs. map_of (zip xs [0..<length xs]) x = Some n \<and> xs ! n = x"
proof -
  obtain n where n: "n < length xs" "xs ! n = x" using assms(2) by (auto simp: in_set_conv_nth)
  have "map_of (zip xs [0..<length xs]) (xs ! n) = Some ([0..<length xs] ! n)"
    using assms(1) n(1) by (intro map_of_zip_nth) auto
  then show ?thesis using n by auto
qed

text \<open>Where a finding's result points.\<close>

definition points_to_rule :: "sarif_rule list \<Rightarrow> sarif_result \<Rightarrow> bool" where
  "points_to_rule rules r \<longleftrightarrow> sa_RuleIndex r < length rules \<and> sr_ID (rules ! sa_RuleIndex r) = sa_RuleID r \<and>
     level_rank (sa_Level r) \<le> level_rank (sr_Level (rules ! sa_RuleIndex r))"

lemma sarifFinding_points:
  assumes "f \<in> set (noted res)" and "sarifRules res = (rules, index)"
  shows "points_to_rule rules (sarifFinding env f index src)"
proof -
  let ?ids = "sorted_keys (rule_metas res)"
  have fin: "finite (dom (rule_metas res))" by (simp add: dom_rule_metas)
  have mem: "f_CheckID f \<in> set ?ids" using assms(1) by (simp add: set_sorted_keys [OF fin] dom_rule_metas)
  have dist: "distinct ?ids" by (simp add: sorted_keys_def)
  obtain n where n: "n < length ?ids" "map_of (zip ?ids [0..<length ?ids]) (f_CheckID f) = Some n" "?ids ! n = f_CheckID f"
    using map_of_zip_index [OF dist mem] by (elim exE conjE)
  have rules: "rules = map (\<lambda>i. sarif_rule_of (highest_severities res) i (the (rule_metas res i))) ?ids"
    and index: "index = map_of (zip ?ids [0..<length ?ids])"
    using assms(2) unfolding sarifRules_def Let_def by simp_all
  obtain m where m: "rules ! n = sarif_rule_of (highest_severities res) (f_CheckID f) m" using rules n(1,3) by simp
  have "f_Severity f \<le> severity_at (highest_severities res) (f_CheckID f)"
    unfolding highest_severities_def by (rule note_severities_above [OF assms(1)])
  then have "level_rank (sarifLevel (f_Severity f)) \<le>
      level_rank (sarifLevel (max (m_Severity m) (severity_at (highest_severities res) (f_CheckID f))))"
    by (intro sarifLevel_mono) simp
  moreover have "sa_RuleIndex (sarifFinding env f index src) = n" using n(2) index by (simp add: sarifFinding_def)
  moreover have "n < length rules" using rules n(1) by simp
  ultimately show ?thesis
    using m by (simp add: points_to_rule_def sarifFinding_def sarif_rule_of_def Let_def)
qed

text \<open>
  C34 A SARIF log hangs together: there is one rule for every check that ran or has a finding, sorted by ID; every
  finding, new, baselined or suppressed, is one result, and its index leads to the rule of its check, whose
  level is no lower than the result's, so that a reader who takes severities from the rules never
  underrates a finding.
\<close>

theorem SARIF_results_indexed:
  "let log = SARIF env res opts in
     list_all (points_to_rule (lg_Rules log)) (lg_Results log) \<and>
     map sa_RuleID (lg_Results log) = map f_CheckID (noted res) \<and>
     map (snd \<circ> sa_Fingerprint) (lg_Results log) = map (finding_Fingerprint (re_sha env)) (noted res) \<and>
     set (map sr_ID (lg_Rules log)) = m_ID ` set (r_Checks res) \<union> f_CheckID ` set (noted res) \<and>
     sorted_wrt (<) (map sr_ID (lg_Rules log))"
proof -
  obtain rules index where r: "sarifRules res = (rules, index)" by (cases "sarifRules res")
  have fin: "finite (dom (rule_metas res))" by (simp add: dom_rule_metas)
  have ids: "map sr_ID rules = sorted_keys (rule_metas res)"
    using r by (auto simp: sarifRules_def Let_def sarif_rule_of_def o_def)
  have points: "points_to_rule rules (sarifFinding env f index src)"
      "points_to_rule rules ((sarifFinding env f index src)\<lparr>sa_BaselineState := b\<rparr>)"
      "points_to_rule rules ((sarifFinding env f index src)\<lparr>sa_Suppressions := ss\<rparr>)"
    if "f \<in> set (noted res)" for f src b ss
    using sarifFinding_points [OF that r, of env src] by (simp_all add: points_to_rule_def)
  have suppressed: "points_to_rule rules (sarif_suppressed env index src s)" if s: "s \<in> set (r_Suppressed res)" for s src
  proof (cases s)
    case (fields f reason expires)
    then have "f \<in> set (noted res)" using s by (force simp: noted_def)
    then show ?thesis using points(3) fields by (simp add: sarif_suppressed_def)
  qed
  have "list_all (points_to_rule rules) (lg_Results (SARIF env res opts))"
    using points(1,2) suppressed by (auto simp: SARIF_def r Let_def list_all_iff noted_def)
  moreover have "map sa_RuleID (lg_Results (SARIF env res opts)) = map f_CheckID (noted res)"
      "map (snd \<circ> sa_Fingerprint) (lg_Results (SARIF env res opts)) = map (finding_Fingerprint (re_sha env)) (noted res)"
    by (auto simp: SARIF_def r Let_def noted_def sarif_suppressed_def sarifFinding_def o_def case_prod_unfold)
  moreover have "sorted_wrt (<) (sorted_keys (rule_metas res))"
    by (simp add: sorted_keys_def strict_sorted_iff)
  ultimately show ?thesis
    using ids set_sorted_keys [OF fin] by (simp add: Let_def SARIF_def r dom_rule_metas flip: set_map)
qed

end
