(* ===== verification/SetaSession.thy ===== *)
theory SetaSession
  imports SetaCli SetaSarif
begin

text \<open>
  cli/output.go and the commands of cli/run.go around it: the report files a command opens before it runs
  any check, fills at the end, and takes away again when it fails in between. The file system is a map from
  paths to contents; what may go wrong (creating, writing, closing a file) is a parameter, and so is what of a
  text reaches a file when writing fails. A handle is written once, from the start of its file, so it is the path it was opened with;
  two handles may share a path. Not modelled: the process that writes, links between paths.
\<close>

type_synonym files = "string \<rightharpoonup> string"

record disk =
  dk_stat :: "string \<Rightarrow> bool"
  dk_special :: "string \<Rightarrow> bool"
  dk_create :: "string \<Rightarrow> bool"
  dk_write :: "string \<Rightarrow> bool"
  dk_partial :: "string \<Rightarrow> string \<Rightarrow> string"
  dk_close :: "string \<Rightarrow> bool"

record session =
  se_format :: string
  se_failOn :: severity
  se_strict :: bool
  se_file :: "string option"
  se_extra :: "(string \<times> string) list"
  se_baseline :: "baseline_file option"

record output_flags =
  of_format :: string
  of_output :: string
  of_reports :: "string list"
  of_failOn :: string
  of_baseline :: string
  of_strict :: bool

datatype ('b, 'e) command_error =
    FlagError usage_reason
  | NoBaseline string
  | BaselineUnreadable 'b
  | CannotCreate string
  | WriteFailed string
  | CloseFailed string
  | ExitWith "'e exit_error"

subsection \<open>Opening\<close>

text \<open>os.Create: the file exists and is empty afterwards, whatever it held.\<close>

definition os_Create :: "disk \<Rightarrow> string \<Rightarrow> files \<Rightarrow> files option" where
  "os_Create dk path fs =
     (if dk_create dk path then Some (if dk_special dk path then fs else fs(path \<mapsto> [])) else None)"

definition remove_file :: "disk \<Rightarrow> string \<Rightarrow> files \<Rightarrow> files" where
  "remove_file dk path fs = (if dk_special dk path then fs else fs(path := None))"

text \<open>The loop of \<open>close\<close> over the handles that are still open; Stat refuses a closed one, and is taken to succeed
  on an open one (\<open>dk_stat\<close> is about paths).\<close>

definition session_handles :: "session \<Rightarrow> string list" where
  "session_handles s = (case se_file s of None \<Rightarrow> [] | Some p \<Rightarrow> [p]) @ map snd (se_extra s)"

definition close_files :: "disk \<Rightarrow> string list \<Rightarrow> files \<Rightarrow> files" where
  "close_files dk handles fs = foldl (\<lambda>fs h. remove_file dk h fs) fs handles"

definition session_close :: "disk \<Rightarrow> session \<Rightarrow> files \<Rightarrow> session \<times> files" where
  "session_close dk s fs = (s\<lparr>se_file := None, se_extra := []\<rparr>, close_files dk (session_handles s) fs)"

text \<open>The loop that creates the extra reports; a failure closes the session.\<close>

fun open_extra ::
  "disk \<Rightarrow> (string \<times> string) list \<Rightarrow> session \<Rightarrow> files \<Rightarrow> (('b, 'e) command_error \<times> files) + session \<times> files" where
  "open_extra dk [] s fs = Inr (s, fs)"
| "open_extra dk ((format, path) # rs) s fs =
     (case os_Create dk path fs of
        None \<Rightarrow> Inl (CannotCreate path, snd (session_close dk s fs))
      | Some fs' \<Rightarrow> open_extra dk rs (s\<lparr>se_extra := se_extra s @ [(format, path)]\<rparr>) fs')"

text \<open>The baseline of \<open>--baseline\<close>; \<open>Inl None\<close>: it does not exist.\<close>

definition read_baseline :: "(string \<Rightarrow> 'b option + baseline_file) \<Rightarrow> string \<Rightarrow> 'b option + baseline_file option" where
  "read_baseline read path = (if path = [] then Inr None else map_sum id Some (read path))"

definition openSession ::
  "disk \<Rightarrow> (string \<Rightarrow> 'b option + baseline_file) \<Rightarrow> output_flags \<Rightarrow> files \<Rightarrow>
   (('b, 'e) command_error \<times> files) + session \<times> files" where
  "openSession dk read fl fs =
     (case session_flags (of_format fl) (of_reports fl) (of_failOn fl) of
        Inl e \<Rightarrow> Inl (FlagError e, fs)
      | Inr (sev, extra) \<Rightarrow>
        (case read_baseline read (of_baseline fl) of
           Inl None \<Rightarrow> Inl (NoBaseline (of_baseline fl), fs)
         | Inl (Some e) \<Rightarrow> Inl (BaselineUnreadable e, fs)
         | Inr base \<Rightarrow>
           let s = \<lparr>se_format = of_format fl, se_failOn = sev, se_strict = of_strict fl, se_file = None, se_extra = [],
                    se_baseline = base\<rparr> in
           if of_output fl = [] then open_extra dk extra s fs
           else case os_Create dk (of_output fl) fs of
               None \<Rightarrow> Inl (CannotCreate (of_output fl), fs)
             | Some fs' \<Rightarrow> open_extra dk extra (s\<lparr>se_file := Some (of_output fl)\<rparr>) fs'))"

subsection \<open>Writing the reports\<close>

text \<open>\<open>json_text\<close> and \<open>sarif_text\<close> are what encoding/json makes of a document.\<close>

record 'e report_codec =
  rc_env :: "'e report_env"
  rc_json :: "json_report \<Rightarrow> string"
  rc_sarif :: "sarif_log \<Rightarrow> string"

definition report_text :: "'e report_codec \<Rightarrow> string \<Rightarrow> 'e result \<Rightarrow> report_options \<Rightarrow> string" where
  "report_text rc format res opts =
     (if format = ''json'' then rc_json rc (JSON (rc_env rc) res)
      else if format = ''sarif'' then rc_sarif rc (SARIF (rc_env rc) res opts)
      else if format = ''markdown'' then Markdown (rc_env rc) res opts
      else Table (rc_env rc) res opts)"

text \<open>What is written replaces the start of the file; \<open>dk_partial\<close> is what of the text reaches it when writing fails.\<close>

definition write_file :: "string \<Rightarrow> string \<Rightarrow> files \<Rightarrow> files" where
  "write_file path t fs = (case fs path of None \<Rightarrow> fs | Some old \<Rightarrow> fs(path \<mapsto> t @ drop (length t) old))"

definition writeReport ::
  "disk \<Rightarrow> 'e report_codec \<Rightarrow> string \<Rightarrow> string \<Rightarrow> 'e result \<Rightarrow> report_options \<Rightarrow> files \<Rightarrow> bool \<times> files" where
  "writeReport dk rc path format res opts fs =
     (let t = report_text rc format res opts in
      (dk_write dk path,
       if dk_special dk path then fs else write_file path (if dk_write dk path then t else dk_partial dk path t) fs))"

text \<open>The loop over the extra reports: how it ended, the extra reports whose file is still open, and the files.\<close>

fun write_extra ::
  "disk \<Rightarrow> 'e report_codec \<Rightarrow> (string \<times> string) list \<Rightarrow> 'e result \<Rightarrow> report_options \<Rightarrow> files \<Rightarrow>
   ('b, 'e) command_error option \<times> (string \<times> string) list \<times> files" where
  "write_extra dk rc [] res opts fs = (None, [], fs)"
| "write_extra dk rc ((format, path) # rs) res opts fs =
     (case writeReport dk rc path format res opts fs of (ok, fs') \<Rightarrow>
      if \<not> ok then (Some (WriteFailed path), (format, path) # rs, fs')
      else if \<not> dk_close dk path then (Some (CloseFailed path), rs, fs')
      else write_extra dk rc rs res opts fs')"

text \<open>
  \<open>finish\<close> with its deferred \<open>close\<close>: the error it returns and the files. \<open>stdout_ok\<close>: writing to stdout works,
  where the report goes without \<open>--output\<close>. A file whose Close failed is closed all the same.
\<close>

definition finish_session ::
  "disk \<Rightarrow> 'e report_codec \<Rightarrow> bool \<Rightarrow> bool \<Rightarrow> 'r registry \<Rightarrow> session \<Rightarrow> 'e result \<Rightarrow> string list \<Rightarrow> source option \<Rightarrow> files \<Rightarrow>
   ('b, 'e) command_error option \<times> files" where
  "finish_session dk rc stdout_ok colour reg s res ns src fs =
     (case finish (re_sha (rc_env rc)) reg (se_failOn s) (se_strict s) (se_baseline s) res ns of (res', notes', outcome) \<Rightarrow>
      let opts = \<lparr>op_Color = False, op_Notes = notes', op_Source = src, op_Baseline = se_baseline s \<noteq> None\<rparr> in
      case write_extra dk rc (se_extra s) res' opts fs of (err, still, fs1) \<Rightarrow>
      case err of
        Some e \<Rightarrow> (Some e, snd (session_close dk (s\<lparr>se_extra := still\<rparr>) fs1))
      | None \<Rightarrow>
        let s' = s\<lparr>se_extra := []\<rparr>; opts' = opts\<lparr>op_Color := se_file s = None \<and> colour\<rparr> in
        case se_file s of
          None \<Rightarrow> if stdout_ok then (map_option ExitWith outcome, fs1) else (Some (WriteFailed []), fs1)
        | Some path \<Rightarrow>
          (case writeReport dk rc path (se_format s) res' opts' fs1 of (ok, fs2) \<Rightarrow>
           if \<not> ok then (Some (WriteFailed path), snd (session_close dk s' fs2))
           else if \<not> dk_close dk path then (Some (CloseFailed path), fs2)
           else (map_option ExitWith outcome, fs2)))"

text \<open>os.Stat finds something; os.WriteFile.\<close>

definition path_exists :: "disk \<Rightarrow> string \<Rightarrow> files \<Rightarrow> bool" where
  "path_exists dk path fs \<longleftrightarrow> dk_stat dk path \<and> (dk_special dk path \<or> fs path \<noteq> None)"

definition os_WriteFile :: "disk \<Rightarrow> string \<Rightarrow> string \<Rightarrow> files \<Rightarrow> bool \<times> files" where
  "os_WriteFile dk path t fs =
     (case os_Create dk path fs of
        None \<Rightarrow> (False, fs)
      | Some fs' \<Rightarrow>
        (dk_write dk path \<and> dk_close dk path,
         if dk_special dk path then fs' else write_file path (if dk_write dk path then t else dk_partial dk path t) fs'))"

subsection \<open>The run command\<close>

text \<open>\<open>runConfig\<close> gives the result, the notes and where targets are declared, or an error.\<close>

definition run_command ::
  "disk \<Rightarrow> 'e report_codec \<Rightarrow> bool \<Rightarrow> bool \<Rightarrow> 'r registry \<Rightarrow> (string \<Rightarrow> 'b option + baseline_file) \<Rightarrow> output_flags \<Rightarrow>
   ('b, 'e) command_error + 'e result \<times> string list \<times> source \<Rightarrow> files \<Rightarrow> ('b, 'e) command_error option \<times> files" where
  "run_command dk rc stdout_ok colour reg read fl runConfig fs =
     (case openSession dk read fl fs of
        Inl (e, fs') \<Rightarrow> (Some e, fs')
      | Inr (s, fs') \<Rightarrow>
        (case runConfig of
           Inl e \<Rightarrow> (Some e, snd (session_close dk s fs'))
         | Inr (res, ns, src) \<Rightarrow> finish_session dk rc stdout_ok colour reg s res ns (Some src) fs'))"

definition command_exit_code :: "('b, 'e) command_error option \<Rightarrow> nat" where
  "command_exit_code r =
     (case r of None \<Rightarrow> ExitOK | Some (ExitWith e) \<Rightarrow> exit_code (Some e) | Some _ \<Rightarrow> ExitUsage)"

text \<open>\<open>sourceOf\<close> of cli/run.go: where targets are declared, the path made relative where possible.\<close>

definition sourceOf :: "(string \<Rightarrow> bool) \<Rightarrow> (string \<Rightarrow> string option) \<Rightarrow> 'j config \<Rightarrow> source" where
  "sourceOf is_abs rel cfg =
     \<lparr>src_Path = (if is_abs (cf_Path cfg) then (case rel (cf_Path cfg) of None \<Rightarrow> cf_Path cfg | Some p \<Rightarrow> p) else cf_Path cfg),
      src_TargetLines = foldl (\<lambda>m t. m(ct_Domain t \<mapsto> ct_Line t)) Map.empty (cf_Targets cfg)\<rparr>"

subsection \<open>What is left on disk\<close>

lemma remove_file_at: "\<not> dk_special dk h \<Longrightarrow> remove_file dk h fs p = (if p = h then None else fs p)"
  by (simp add: remove_file_def)

lemma close_files_at:
  "list_all (\<lambda>h. \<not> dk_special dk h) hs \<Longrightarrow> close_files dk hs fs p = (if p \<in> set hs then None else fs p)"
  by (induction hs arbitrary: fs) (auto simp: close_files_def remove_file_at)

lemma write_file_fresh: "fs p = Some [] \<Longrightarrow> write_file p t fs = fs(p \<mapsto> t)"
  by (simp add: write_file_def)

lemma os_Create_at: "os_Create dk h fs = Some fs' \<Longrightarrow> \<not> dk_special dk h \<Longrightarrow> fs' p = (if p = h then Some [] else fs p)"
  by (auto simp: os_Create_def split: if_splits)

abbreviation plain :: "disk \<Rightarrow> (string \<times> string) list \<Rightarrow> bool" where
  "plain dk rs \<equiv> list_all (\<lambda>(_, p). \<not> dk_special dk p \<and> dk_close dk p) rs"

lemma open_extra_Inr:
  assumes "plain dk rs" and "open_extra dk rs s fs = Inr (s', fs')"
  shows "s' = s\<lparr>se_extra := se_extra s @ rs\<rparr> \<and> fs' p = (if p \<in> snd ` set rs then Some [] else fs p)"
  using assms
proof (induction rs arbitrary: s fs)
  case (Cons r rs)
  obtain f q where r: "r = (f, q)" by (cases r)
  obtain fs1 where fs1: "os_Create dk q fs = Some fs1" using Cons.prems(2) r by (auto split: option.splits)
  then have new: "fs1 p = (if p = q then Some [] else fs p)" using os_Create_at [OF fs1] Cons.prems(1) r by simp
  note rest = Cons.prems(2) [unfolded r open_extra.simps fs1 option.case]
  from Cons.IH [OF _ rest] Cons.prems(1) show ?case unfolding new r by simp
qed simp

lemma open_extra_Inl:
  assumes "plain dk rs" and "list_all (\<lambda>h. \<not> dk_special dk h) (session_handles s)"
    and "open_extra dk rs s fs = Inl (e, fs')"
  shows "(\<exists>q. e = CannotCreate q) \<and>
    fs' p \<in> (if p \<in> set (session_handles s) then {None} else if p \<in> snd ` set rs then {None, fs p} else {fs p})"
  using assms
proof (induction rs arbitrary: s fs)
  case (Cons r rs)
  obtain f q where r: "r = (f, q)" by (cases r)
  show ?case
  proof (cases "os_Create dk q fs")
    case None
    then show ?thesis using Cons.prems r by (auto simp: session_close_def close_files_at)
  next
    case (Some fs1)
    then have new: "fs1 p = (if p = q then Some [] else fs p)" using os_Create_at [OF Some] Cons.prems(1) r by simp
    have h: "session_handles (s\<lparr>se_extra := se_extra s @ [(f, q)]\<rparr>) = session_handles s @ [q]" by (simp add: session_handles_def)
    note rest = Cons.prems(3) [unfolded r open_extra.simps Some option.case]
    from Cons.IH [OF _ _ rest] Cons.prems(1,2) show ?thesis unfolding h new r by (auto split: if_splits)
  qed
qed simp

lemma write_extra_result:
  assumes "plain dk rs" and "distinct (map snd rs)" and "\<forall>p\<in>snd ` set rs. fs p = Some []"
    and "write_extra dk rc rs res opts fs = (err, still, fs')"
  shows "set still \<subseteq> set rs \<and> (err = None \<longrightarrow> still = []) \<and> (\<forall>x. err \<noteq> Some (ExitWith x)) \<and>
    (\<forall>(f, p)\<in>set rs - set still. fs' p = Some (report_text rc f res opts)) \<and> (\<forall>p. p \<notin> snd ` set rs \<longrightarrow> fs' p = fs p)"
  using assms
proof (induction rs arbitrary: fs)
  case (Cons r rs)
  obtain f q where r: "r = (f, q)" by (cases r)
  show ?case
  proof (cases "dk_write dk q")
    case False
    then show ?thesis using Cons.prems r by (auto simp: writeReport_def Let_def write_file_def split: option.splits)
  next
    case True
    let ?fs = "fs(q \<mapsto> report_text rc f res opts)"
    have w: "writeReport dk rc q f res opts fs = (True, ?fs)"
      using True Cons.prems(1,3) r by (simp add: writeReport_def Let_def write_file_fresh)
    then have rest: "write_extra dk rc rs res opts ?fs = (err, still, fs')" using Cons.prems(1,4) r by simp
    have "\<forall>p\<in>snd ` set rs. ?fs p = Some []" using Cons.prems(2,3) r by auto
    from Cons.IH [OF _ _ this rest] Cons.prems(1,2) r
    have "set still \<subseteq> set rs" "err = None \<longrightarrow> still = []" "\<forall>x. err \<noteq> Some (ExitWith x)"
      and rs: "\<forall>(f, p)\<in>set rs - set still. fs' p = Some (report_text rc f res opts)"
      and out: "\<forall>p. p \<notin> snd ` set rs \<longrightarrow> fs' p = ?fs p" by simp_all
    moreover have "fs' q = Some (report_text rc f res opts)" using out Cons.prems(2) r by auto
    ultimately show ?thesis using out r by auto
  qed
qed simp

text \<open>Two reports under one path are not noticed: the later one replaces only the start of the earlier one.\<close>

lemma shared_path_mixes:
  assumes "\<not> dk_special dk p" and "dk_write dk p" and "dk_close dk p" and "fs p = Some []"
  shows "write_extra dk rc [(f, p), (g, p)] res opts fs =
    (None, [], fs(p \<mapsto> report_text rc g res opts @ drop (length (report_text rc g res opts)) (report_text rc f res opts)))"
  using assms by (simp add: writeReport_def Let_def write_file_def)

text \<open>The reports a command was asked for, and what one of them says.\<close>

definition asked :: "output_flags \<Rightarrow> (string \<times> string) list \<Rightarrow> (string \<times> string) list" where
  "asked fl extra = (if of_output fl = [] then [] else [(of_format fl, of_output fl)]) @ extra"

definition session_report ::
  "'e report_codec \<Rightarrow> 'r registry \<Rightarrow> severity \<Rightarrow> bool \<Rightarrow> baseline_file option \<Rightarrow> 'e result \<times> string list \<times> source \<Rightarrow> string \<Rightarrow> string" where
  "session_report rc reg sev strict base outcome format =
     (case outcome of (res, ns, src) \<Rightarrow>
      case finish (re_sha (rc_env rc)) reg sev strict base res ns of (res', notes', _) \<Rightarrow>
      report_text rc format res' \<lparr>op_Color = False, op_Notes = notes', op_Source = Some src, op_Baseline = base \<noteq> None\<rparr>)"

definition completed :: "('b, 'e) command_error option \<Rightarrow> bool" where
  "completed e \<longleftrightarrow> (case e of None \<Rightarrow> True | Some (ExitWith _) \<Rightarrow> True | Some _ \<Rightarrow> False)"

lemma openSession_result:
  fixes read :: "string \<Rightarrow> 'b option + baseline_file"
  assumes "session_flags (of_format fl) (of_reports fl) (of_failOn fl) = Inr (sev, extra)"
    and "read_baseline read (of_baseline fl) = Inr base" and "plain dk (asked fl extra)"
  shows "case openSession dk read fl fs :: (('b, 'e) command_error \<times> files) + session \<times> files of
      Inl (e, fs') \<Rightarrow> (\<exists>q. e = CannotCreate q) \<and>
        fs' p \<in> (if p \<in> snd ` set (asked fl extra) then {None, fs p} else {fs p})
    | Inr (s, fs') \<Rightarrow> se_failOn s = sev \<and> se_strict s = of_strict fl \<and> se_baseline s = base \<and> se_format s = of_format fl \<and>
        se_file s = (if of_output fl = [] then None else Some (of_output fl)) \<and> se_extra s = extra \<and>
        fs' p = (if p \<in> snd ` set (asked fl extra) then Some [] else fs p)"
proof -
  let ?s = "\<lparr>se_format = of_format fl, se_failOn = sev, se_strict = of_strict fl, se_file = None, se_extra = [],
    se_baseline = base\<rparr>"
  have ex: "plain dk extra" using assms(3) by (simp add: asked_def)
  show ?thesis
  proof (cases "of_output fl = []")
    case True
    then have o: "openSession dk read fl fs = (open_extra dk extra ?s fs :: (('b, 'e) command_error \<times> files) + session \<times> files)" using assms(1,2) by (simp add: openSession_def Let_def)
    show ?thesis
    proof (cases "open_extra dk extra ?s fs :: (('b, 'e) command_error \<times> files) + session \<times> files")
      case (Inl r)
      then obtain e fs' where r: "open_extra dk extra ?s fs = Inl (e :: ('b, 'e) command_error, fs')" by (cases r) auto
      show ?thesis using open_extra_Inl [OF ex _ r, of p] True unfolding o r by (simp add: asked_def session_handles_def)
    next
      case (Inr r)
      then obtain s fs' where r: "open_extra dk extra ?s fs = (Inr (s, fs') :: (('b, 'e) command_error \<times> files) + _)" by (cases r) auto
      show ?thesis using open_extra_Inr [OF ex r, of p] True unfolding o r by (simp add: asked_def)
    qed
  next
    case False
    show ?thesis
    proof (cases "os_Create dk (of_output fl) fs")
      case None
      then show ?thesis using False assms(1,2) by (simp add: openSession_def Let_def)
    next
      case (Some fs1)
      let ?s' = "?s\<lparr>se_file := Some (of_output fl)\<rparr>"
      have o: "openSession dk read fl fs = (open_extra dk extra ?s' fs1 :: (('b, 'e) command_error \<times> files) + session \<times> files)"
        using False Some assms(1,2) by (simp add: openSession_def Let_def)
      have out: "\<not> dk_special dk (of_output fl)" using assms(3) False by (simp add: asked_def)
      note new = os_Create_at [OF Some out, of p]
      have h: "list_all (\<lambda>h. \<not> dk_special dk h) (session_handles ?s')" using out by (simp add: session_handles_def)
      show ?thesis
      proof (cases "open_extra dk extra ?s' fs1 :: (('b, 'e) command_error \<times> files) + session \<times> files")
        case (Inl r)
        then obtain e fs' where r: "open_extra dk extra ?s' fs1 = Inl (e :: ('b, 'e) command_error, fs')" by (cases r) auto
        show ?thesis using open_extra_Inl [OF ex h r, of p] False new unfolding o r
          by (simp add: asked_def session_handles_def split: if_splits)
      next
        case (Inr r)
        then obtain s fs' where r: "open_extra dk extra ?s' fs1 = (Inr (s, fs') :: (('b, 'e) command_error \<times> files) + _)" by (cases r) auto
        show ?thesis using open_extra_Inr [OF ex r, of p] False new unfolding o r by (auto simp: asked_def)
      qed
    qed
  qed
qed

definition session_files :: "session \<Rightarrow> (string \<times> string) list" where
  "session_files s = (case se_file s of None \<Rightarrow> [] | Some p \<Rightarrow> [(se_format s, p)]) @ se_extra s"

lemma handles_files: "session_handles s = map snd (session_files s)"
  by (simp add: session_handles_def session_files_def split: option.splits)

lemma finish_session_result:
  assumes "plain dk (session_files s)" and "distinct (map snd (session_files s))"
    and "\<forall>p\<in>snd ` set (session_files s). fs p = Some []"
    and "finish_session dk rc stdout_ok colour reg s res ns (Some src) fs = (e, fs')"
  shows "(\<forall>p. p \<notin> snd ` set (session_files s) \<longrightarrow> fs' p = fs p) \<and>
    (\<forall>(f, p)\<in>set (session_files s).
      fs' p = Some (session_report rc reg (se_failOn s) (se_strict s) (se_baseline s) (res, ns, src) f) \<or>
      fs' p = None \<and> \<not> completed e)"
proof -
  obtain res' ns' out where fin: "finish (re_sha (rc_env rc)) reg (se_failOn s) (se_strict s) (se_baseline s) res ns = (res', ns', out)"
    by (cases "finish (re_sha (rc_env rc)) reg (se_failOn s) (se_strict s) (se_baseline s) res ns") auto
  let ?opts = "\<lparr>op_Color = False, op_Notes = ns', op_Source = Some src, op_Baseline = se_baseline s \<noteq> None\<rparr>"
  have rep: "session_report rc reg (se_failOn s) (se_strict s) (se_baseline s) (res, ns, src) f = report_text rc f res' ?opts" for f
    by (simp add: session_report_def fin)
  obtain err :: "('a, 'b) command_error option" and still fs1 where w: "write_extra dk rc (se_extra s) res' ?opts fs = (err, still, fs1)"
    by (metis prod_cases3)
  have ex: "plain dk (se_extra s)" "distinct (map snd (se_extra s))" "\<forall>p\<in>snd ` set (se_extra s). fs p = Some []"
    using assms(1-3) by (auto simp: session_files_def split: option.splits)
  note W = write_extra_result [OF ex w]
  show ?thesis
  proof (cases err)
    case (Some x)
    let ?s = "s\<lparr>se_extra := still\<rparr>"
    have fs': "e = Some x" "fs' = close_files dk (map snd (session_files ?s)) fs1"
      using assms(4) fin w Some by (simp_all add: finish_session_def Let_def session_close_def handles_files)
    have sub: "set (session_files ?s) \<subseteq> set (session_files s)" using W by (auto simp: session_files_def split: option.splits)
    then have "list_all (\<lambda>h. \<not> dk_special dk h) (map snd (session_files ?s))"
      using assms(1) unfolding list_all_iff by fastforce
    then have at: "fs' p = (if p \<in> snd ` set (session_files ?s) then None else fs1 p)" for p
      by (simp add: fs' close_files_at)
    have ne: "\<not> completed e" using W Some fs'(1) by (cases x) (auto simp: completed_def)
    have "fs' p = Some (report_text rc f res' ?opts) \<or> fs' p = None" if "(f, p) \<in> set (session_files s)" for f p
    proof (cases "p \<in> snd ` set (session_files ?s)")
      case False
      then have "(f, p) \<in> set (se_extra s) - set still"
        using that by (cases "se_file s") (force simp: session_files_def)+
      from bspec [OF conjunct1 [OF conjunct2 [OF conjunct2 [OF conjunct2 [OF W]]]] this] show ?thesis using at [of p] False by simp
    qed (simp add: at)
    moreover have "fs' p = fs p" if "p \<notin> snd ` set (session_files s)" for p
      using that sub W at by (auto simp: session_files_def image_iff split: option.splits)
    ultimately show ?thesis unfolding rep using ne by blast
  next
    case None
    then have W': "\<forall>(f, p)\<in>set (se_extra s). fs1 p = Some (report_text rc f res' ?opts)"
        "\<forall>p. p \<notin> snd ` set (se_extra s) \<longrightarrow> fs1 p = fs p" using W by auto
    show ?thesis
    proof (cases "se_file s")
      case f: None
      then have "fs' = fs1" using assms(4) fin w None by (auto simp: finish_session_def Let_def split: if_splits)
      then show ?thesis unfolding rep using W' f by (auto simp: session_files_def)
    next
      case (Some q)
      have q: "q \<notin> snd ` set (se_extra s)" "fs1 q = Some []" "\<not> dk_special dk q" "dk_close dk q"
        using assms(1-3) Some W'(2) by (auto simp: session_files_def)
      have fs': "fs' = (if dk_write dk q then fs1(q \<mapsto> report_text rc (se_format s) res' ?opts) else (write_file q (dk_partial dk q (report_text rc (se_format s) res' ?opts)) fs1)(q := None))"
          "\<not> dk_write dk q \<longrightarrow> \<not> completed e"
        using assms(4) fin w None Some q
        by (auto simp: finish_session_def Let_def writeReport_def write_file_fresh session_close_def close_files_def
            session_handles_def remove_file_def completed_def split: if_splits)
      have "fs' p = (if p = q then (if dk_write dk q then Some (report_text rc (se_format s) res' ?opts) else None) else fs1 p)" for p
        by (simp add: fs'(1) write_file_fresh q(2))
      then show ?thesis unfolding rep using W' Some q(1) fs'(2) by (auto simp: session_files_def image_iff)
    qed
  qed
qed

text \<open>
  C36 A report is complete or it is not there: when \<open>seta run\<close> writes to regular files with different names, that close
  without an error, it leaves every other file alone; each report it was asked for holds everything the report says of the result, or
  is absent, or as it was before where the command failed early; and where the command ends with the exit code of the checks, every
  report is there. A report cut short is never left behind.
\<close>

theorem reports_complete_or_absent:
  fixes runConfig :: "('b, 'e) command_error + 'e result \<times> string list \<times> source"
  assumes "session_flags (of_format fl) (of_reports fl) (of_failOn fl) = Inr (sev, extra)"
    and "distinct (map snd (asked fl extra))" and "plain dk (asked fl extra)"
    and "run_command dk rc stdout_ok colour reg read fl runConfig fs = (e, fs')"
  shows "(\<forall>p. p \<notin> snd ` set (asked fl extra) \<longrightarrow> fs' p = fs p) \<and>
    list_all (\<lambda>(f, p). fs' p = None \<and> e \<noteq> None \<or> fs' p = fs p \<and> e \<noteq> None \<or>
        (\<exists>base outcome. read_baseline read (of_baseline fl) = Inr base \<and> runConfig = Inr outcome \<and>
          fs' p = Some (session_report rc reg sev (of_strict fl) base outcome f))) (asked fl extra) \<and>
    (\<forall>outcome. completed e \<and> runConfig = Inr outcome \<longrightarrow>
      (\<exists>base. read_baseline read (of_baseline fl) = Inr base \<and>
        list_all (\<lambda>(f, p). fs' p = Some (session_report rc reg sev (of_strict fl) base outcome f)) (asked fl extra)))"
proof (cases "read_baseline read (of_baseline fl)")
  case (Inl b)
  then have "fs' = fs" "e \<noteq> None" "\<not> completed e"
    using assms(1,4) by (auto simp: run_command_def openSession_def completed_def split: option.splits)
  then show ?thesis by (auto simp: list_all_iff)
next
  case (Inr base)
  note O = openSession_result [OF assms(1) Inr assms(3), where fs = fs and ?'e = 'e]
  show ?thesis
  proof (cases "openSession dk read fl fs :: (('b, 'e) command_error \<times> files) + session \<times> files")
    case (Inl r)
    then obtain x fs1 where r: "openSession dk read fl fs = (Inl (x, fs1) :: (('b, 'e) command_error \<times> files) + session \<times> files)"
      by (cases r) auto
    then have e: "fs' = fs1" "e = Some x" using assms(4) by (auto simp: run_command_def)
    obtain q where "x = CannotCreate q" using O unfolding r by auto
    then have x: "\<not> completed e" by (simp add: completed_def e)
    have at0: "fs' p \<in> (if p \<in> snd ` set (asked fl extra) then {None, fs p} else {fs p})" for p using O unfolding r e by simp
    have at: "p \<notin> snd ` set (asked fl extra) \<Longrightarrow> fs' p = fs p" "fs' p = None \<or> fs' p = fs p" for p
      using at0 [of p] by (auto split: if_splits)
    show ?thesis using x e(2) at by (auto simp: list_all_iff) (metis option.distinct(1))
  next
    case o: (Inr r)
    then obtain s fs1 where r: "openSession dk read fl fs = (Inr (s, fs1) :: (('b, 'e) command_error \<times> files) + session \<times> files)"
      by (cases r) auto
    have s: "session_files s = asked fl extra" "se_failOn s = sev" "se_strict s = of_strict fl" "se_baseline s = base"
      and fs1: "fs1 p = (if p \<in> snd ` set (asked fl extra) then Some [] else fs p)" for p
      using O unfolding r by (auto simp: session_files_def asked_def)
    show ?thesis
    proof (cases runConfig)
      case (Inl x)
      then have fs': "e = Some x" "fs' = close_files dk (map snd (asked fl extra)) fs1"
        using assms(4) r s(1) by (auto simp: run_command_def session_close_def handles_files)
      have "list_all (\<lambda>h. \<not> dk_special dk h) (map snd (asked fl extra))" using assms(3) by (auto simp: list_all_iff)
      then have "fs' p = (if p \<in> snd ` set (asked fl extra) then None else fs p)" for p by (simp add: fs'(2) close_files_at fs1)
      then show ?thesis using Inl fs'(1) by (force simp: list_all_iff)
    next
      case c: (Inr outcome)
      obtain res ns src where outcome: "outcome = (res, ns, src)" by (cases outcome)
      have fin: "finish_session dk rc stdout_ok colour reg s res ns (Some src) fs1 = (e, fs')"
        using assms(4) r c outcome by (simp add: run_command_def)
      note F = finish_session_result [OF _ _ _ fin, unfolded s, OF assms(3,2)]
      have "\<forall>p\<in>snd ` set (asked fl extra). fs1 p = Some []" by (simp add: fs1)
      from F [OF this] have F1: "\<forall>p. p \<notin> snd ` set (asked fl extra) \<longrightarrow> fs' p = fs1 p"
        and F2: "\<forall>(f, p)\<in>set (asked fl extra). fs' p = Some (session_report rc reg sev (of_strict fl) base (res, ns, src) f) \<or>
          fs' p = None \<and> \<not> completed e" by auto
      have F3: "\<not> completed e \<Longrightarrow> e \<noteq> None" by (simp add: completed_def split: option.splits)
      show ?thesis
        using F1 F2 F3 Inr c outcome fs1 by (auto simp: list_all_iff split: prod.splits)
    qed
  qed
qed

subsection \<open>A run on disk\<close>

definition demo_disk :: disk where
  "demo_disk = \<lparr>dk_stat = (\<lambda>_. True), dk_special = (\<lambda>_. False), dk_create = (\<lambda>_. True), dk_write = (\<lambda>_. True),
     dk_partial = (\<lambda>_ t. t), dk_close = (\<lambda>_. True)\<rparr>"

definition demo_codec :: "unit report_codec" where
  "demo_codec = \<lparr>rc_env = \<lparr>re_Error = (\<lambda>_. []), re_Date = (\<lambda>_. []), re_Duration = (\<lambda>_. []), re_sha = id, re_Version = [],
     re_ToSlash = id\<rparr>, rc_json = (\<lambda>_. ''{}''), rc_sarif = (\<lambda>_. ''{}'')\<rparr>"

definition demo_flags :: output_flags where
  "demo_flags = \<lparr>of_format = ''json'', of_output = ''out'', of_reports = [''sarif=ci''], of_failOn = ''none'', of_baseline = [],
     of_strict = True\<rparr>"

definition demo_outcome :: "unit result \<times> string list \<times> source" where
  "demo_outcome = (\<lparr>r_Started = 0, r_Duration = 0, r_Targets = [], r_Executions = 0, r_Ran = [], r_Findings = [], r_Errors = [], r_Checks = [],
     r_Suppressed = [], r_Baselined = []\<rparr>, [],
     \<lparr>src_Path = ''seta.yaml'', src_TargetLines = Map.empty\<rparr>)"

definition demo_run :: "(unit, unit) command_error option \<times> files" where
  "demo_run = run_command demo_disk demo_codec True False (registry_New :: unit registry) (\<lambda>_. Inl None) demo_flags
     (Inr demo_outcome) [''ci'' \<mapsto> ''an older and longer report'', ''keep'' \<mapsto> ''me'']"

lemma demo_flags_ok: "session_flags (of_format demo_flags) (of_reports demo_flags) (of_failOn demo_flags) = Inr (SeverityUnset, [(''sarif'', ''ci'')])"
  by code_simp

lemma demo_finish: "finish (re_sha (rc_env demo_codec)) (registry_New :: unit registry) SeverityUnset True None (fst demo_outcome) [] =
    (fst demo_outcome, [], None)"
  by (simp add: finish_def exit_outcome_def demo_outcome_def)

lemma demo_run_ends: "fst demo_run = None"
  using demo_finish demo_flags_ok
  by (simp add: demo_run_def run_command_def openSession_def demo_flags_def demo_disk_def read_baseline_def os_Create_def Let_def
      finish_session_def writeReport_def demo_outcome_def)

lemma demo_run_at:
  "run_command demo_disk demo_codec True False (registry_New :: unit registry) (\<lambda>_. Inl None) demo_flags
     (Inr demo_outcome) [''ci'' \<mapsto> ''an older and longer report'', ''keep'' \<mapsto> ''me''] = (None :: (unit, unit) command_error option, snd demo_run)"
  using demo_run_ends by (simp add: demo_run_def prod_eq_iff)

theorem reports_complete_or_absent_witness:
  "fst demo_run = None \<and> snd demo_run ''keep'' = Some ''me'' \<and>
   snd demo_run ''ci'' = Some (session_report demo_codec (registry_New :: unit registry) SeverityUnset True None demo_outcome ''sarif'') \<and>
   snd demo_run ''out'' = Some (session_report demo_codec (registry_New :: unit registry) SeverityUnset True None demo_outcome ''json'')"
proof -
  have a: "asked demo_flags [(''sarif'', ''ci'')] = [(''json'', ''out''), (''sarif'', ''ci'')]"
    by (simp add: asked_def demo_flags_def)
  have s: "of_strict demo_flags = True" "read_baseline (\<lambda>_. Inl None) (of_baseline demo_flags) = (Inr None :: unit option + baseline_file option)"
    by (simp_all add: demo_flags_def read_baseline_def)
  have "distinct (map snd (asked demo_flags [(''sarif'', ''ci'')]))" "plain demo_disk (asked demo_flags [(''sarif'', ''ci'')])"
    by (simp_all add: a demo_disk_def)
  note t = reports_complete_or_absent [OF demo_flags_ok this demo_run_at, unfolded a s]
  have "snd demo_run ''keep'' = Some ''me''" using spec [OF conjunct1 [OF t], of "''keep''"] by simp
  with t show ?thesis using demo_run_ends by (simp add: completed_def)
qed

end
