(* ===== verification/SetaInit.thy ===== *)
theory SetaInit
  imports SetaSession
begin

text \<open>
  cli/init.go and cli/checks.go: the starter config and the commands that show the checks. Parameters: the terminal,
  config.Parse, the file system; and package encoding/json for \<open>yamlList\<close> is written out for strings.
  As reference for what a YAML reader makes of the list: \<open>read_flow\<close>, the flow sequences of double-quoted scalars.
\<close>

subsection \<open>Lists of words\<close>

text \<open>strings.FieldsFunc with the separators of \<open>splitList\<close>.\<close>

definition list_sep :: "char \<Rightarrow> bool" where
  "list_sep c \<longleftrightarrow> c \<in> {CHR '','', CHR '' '', CHR 0x09}"

fun split_acc :: "string \<Rightarrow> string \<Rightarrow> string list" where
  "split_acc w [] = (if w = [] then [] else [w])"
| "split_acc w (c # s) =
     (if list_sep c then (if w = [] then split_acc [] s else w # split_acc [] s) else split_acc (w @ [c]) s)"

definition splitList :: "string \<Rightarrow> string list" where
  "splitList s = split_acc [] s"

subsection \<open>Quoting\<close>

text \<open>
  encoding/json on a string, rune by rune: a byte that starts no rune becomes U+FFFD, and so are U+2028, U+2029 and the
  characters that HTML gives a meaning escaped.
\<close>

definition u_escape :: "char \<Rightarrow> string" where
  "u_escape c = CHR 0x5C # ''u00'' @ [hex_digit (byte c div 16), hex_digit (byte c mod 16)]"

definition json_byte :: "char \<Rightarrow> string" where
  "json_byte c =
     (if c = CHR 0x22 then [CHR 0x5C, CHR 0x22]
      else if c = CHR 0x5C then [CHR 0x5C, CHR 0x5C]
      else if c = CHR 0x08 then [CHR 0x5C, CHR ''b'']
      else if c = CHR 0x0C then [CHR 0x5C, CHR ''f'']
      else if c = CHR 0x0A then [CHR 0x5C, CHR ''n'']
      else if c = CHR 0x0D then [CHR 0x5C, CHR ''r'']
      else if c = CHR 0x09 then [CHR 0x5C, CHR ''t'']
      else if byte c < 32 \<or> c \<in> {CHR ''<'', CHR ''>'', CHR ''&''} then u_escape c
      else if byte c < 128 then [c]
      else (CHR 0x5C # ''ufffd''))"

definition json_rune :: "string \<Rightarrow> string" where
  "json_rune r =
     (case r of
        [c] \<Rightarrow> json_byte c
      | _ \<Rightarrow> if r = [CHR 0xE2, CHR 0x80, CHR 0xA8] then (CHR 0x5C # ''u2028'')
             else if r = [CHR 0xE2, CHR 0x80, CHR 0xA9] then (CHR 0x5C # ''u2029'') else r)"

definition json_quote :: "string \<Rightarrow> string" where
  "json_quote s = [CHR 0x22] @ concat (map json_rune (runes s)) @ [CHR 0x22]"

text \<open>json.Marshal of a list of strings, which is not nil here.\<close>

definition json_list :: "string list \<Rightarrow> string" where
  "json_list items = ''['' @ join '','' (map json_quote items) @ '']''"

definition yamlList :: "string list \<Rightarrow> string" where
  "yamlList items =
     replace_all (json_list items) [CHR 0x22, CHR '','', CHR 0x22] [CHR 0x22, CHR '','', CHR '' '', CHR 0x22]"

subsection \<open>The starter config\<close>

record init_target =
  it_domain :: string
  it_selectors :: "string list"

definition SchemaURL :: string where
  "SchemaURL = ''https://raw.githubusercontent.com/PeacexF/seta/main/schema/config.v1.json''"

definition lines :: "string list \<Rightarrow> string" where
  "lines ls = concat (map (\<lambda>l. l @ newline) ls)"

definition dq :: "string \<Rightarrow> string" where "dq s = [CHR 0x22] @ s @ [CHR 0x22]"

definition init_head :: "string list" where
  "init_head =
     [''# yaml-language-server: $schema='' @ SchemaURL,
      ''# Seta config. Check it with 'seta config validate'.'',
      ''# Values can use environment variables: ${VAR}.'',
      ''version: 1'',
      [],
      ''# DNS servers: system (default), doh, dot, or addresses like 1.1.1.1 and tls://1.1.1.1.'',
      ''# resolver:'',
      ''#   servers: [doh]'',
      [],
      ''defaults:'',
      ''  # All checks run by default; narrow them with globs.'',
      ''  # checks: ['' @ dq ''email.*'' @ '', '' @ dq ''tls.*'' @ '', '' @ dq ''!dns.caa.*'' @ '']'',
      ''  # Active checks probe your servers: STARTTLS on port 25, old TLS versions,'',
      ''  # zone transfers, exposed files.'']"

definition init_target_lines :: "init_target \<Rightarrow> string list" where
  "init_target_lines t =
     (let d = it_domain t in
      [''  - domain: '' @ d,
       ''    # Web hosts for the tls and http checks (default: '' @ d @ '' and www.'' @ d @ '').'',
       ''    # hosts: ['' @ d @ '', www.'' @ d @ '']'',
       ''    email:''] @
      (if it_selectors t \<noteq> [] then [''      dkim_selectors: '' @ yamlList (it_selectors t)]
       else [''      # The s= tag of your DKIM-Signature headers; without it Seta guesses common names.'',
             ''      # dkim_selectors: [google]'']) @
      [''      # MX hosts you expect; any difference is reported.'',
       ''      # expected_mx: [mx1.example.net, mx2.example.net]''])"

definition init_tail :: "string \<Rightarrow> string list" where
  "init_tail domain =
     [[],
      ''# Report a check's findings at another severity.'',
      ''# severity_overrides:'',
      ''#   email.dmarc.policy_none: low'',
      [],
      ''# Accept findings you can't fix yet. Each needs a reason; once expired, the'',
      ''# findings are reported again. For CI, see 'seta baseline' (.seta-baseline.json).'',
      ''# suppressions:'',
      ''#   - check: email.mtasts.missing'',
      ''#     target: '' @ domain,
      ''#     reason: '' @ dq ''Receives no mail'',
      ''#     expires: 2027-01-01'']"

definition renderInit :: "init_target list \<Rightarrow> bool \<Rightarrow> string" where
  "renderInit ts active =
     lines (init_head @ [''  active: '' @ (if active then ''true'' else ''false''), [], ''targets:''] @
       concat (map init_target_lines ts) @
       init_tail (case ts of [] \<Rightarrow> ''example.com'' | t # _ \<Rightarrow> it_domain t))"

subsection \<open>The init command\<close>

datatype 'c init_error =
    ConfigExists string
  | BadDomain domain_error
  | NoAnswer
  | NotATerminal
  | NoDomains
  | RejectedConfig 'c
  | NotWritten string

text \<open>A question: the line answered, None where nobody is there to be asked.\<close>

definition ask_line :: "(string \<Rightarrow> answer) \<Rightarrow> string \<Rightarrow> 'c init_error + string option" where
  "ask_line ask q =
     (case ask q of NobodyThere \<Rightarrow> Inr None | AnswerLine l \<Rightarrow> Inr (Some l) | EndOfInput \<Rightarrow> Inl NoAnswer | AnswerFailed \<Rightarrow> Inl NoAnswer)"

definition selectors_question :: "string \<Rightarrow> string" where
  "selectors_question d =
     ''DKIM selectors for '' @ d @ '' (the s= tag of its DKIM-Signature headers; Enter to skip): ''"

definition active_question :: string where
  "active_question = ''Run active checks (they connect to your mail servers on port 25)? [y/N] ''"

definition domains_question :: string where
  "domains_question = ''Domains to monitor (e.g. example.com example.org): ''"

definition ask_selectors :: "(string \<Rightarrow> answer) \<Rightarrow> target \<Rightarrow> 'c init_error + init_target" where
  "ask_selectors ask t =
     (case ask_line ask (selectors_question (t_Name t)) of
        Inl e \<Rightarrow> Inl e
      | Inr l \<Rightarrow> Inr \<lparr>it_domain = t_Name t, it_selectors = splitList (case l of None \<Rightarrow> [] | Some l \<Rightarrow> l)\<rparr>)"

definition askInit ::
  "(string \<Rightarrow> string option) \<Rightarrow> (string \<Rightarrow> answer) \<Rightarrow> 'c init_error + init_target list \<times> bool" where
  "askInit idna ask =
     (case ask_line ask domains_question of
        Inl e \<Rightarrow> Inl e
      | Inr None \<Rightarrow> Inl NotATerminal
      | Inr (Some l) \<Rightarrow>
        (case parseTargets idna (splitList l) of
           Inl e \<Rightarrow> Inl (BadDomain e)
         | Inr [] \<Rightarrow> Inl NoDomains
         | Inr ts \<Rightarrow>
           (case try_map (ask_selectors ask) ts of
              Inl e \<Rightarrow> Inl e
            | Inr its \<Rightarrow>
              (case ask_line ask active_question of
                 Inl e \<Rightarrow> Inl e
               | Inr a \<Rightarrow> Inr (its, case a of None \<Rightarrow> False | Some l \<Rightarrow> says_yes False l)))))"

text \<open>What the config is made from: the flags, or the answers.\<close>

definition init_targets ::
  "(string \<Rightarrow> string option) \<Rightarrow> (string \<Rightarrow> answer) \<Rightarrow> string list \<Rightarrow> bool \<Rightarrow> 'c init_error + init_target list \<times> bool" where
  "init_targets idna ask domains active =
     (if domains \<noteq> [] then
        (case parseTargets idna domains of
           Inl e \<Rightarrow> Inl (BadDomain e)
         | Inr ts \<Rightarrow> Inr (map (\<lambda>t. \<lparr>it_domain = t_Name t, it_selectors = []\<rparr>) ts, active))
      else askInit idna ask)"

text \<open>\<open>parse\<close>: config.Parse on the text, None where the config is valid.\<close>

definition init_command ::
  "disk \<Rightarrow> (string \<Rightarrow> string option) \<Rightarrow> (string \<Rightarrow> answer) \<Rightarrow> (string \<Rightarrow> 'c option) \<Rightarrow>
   string list \<Rightarrow> bool \<Rightarrow> string \<Rightarrow> bool \<Rightarrow> files \<Rightarrow> 'c init_error option \<times> files" where
  "init_command dk idna ask parse domains active output force fs =
     (if path_exists dk output fs \<and> \<not> force then (Some (ConfigExists output), fs)
      else case init_targets idna ask domains active of
          Inl e \<Rightarrow> (Some e, fs)
        | Inr (ts, active') \<Rightarrow>
          let text = renderInit ts active' in
          (case parse text of
             Some e \<Rightarrow> (Some (RejectedConfig e), fs)
           | None \<Rightarrow>
             (case os_WriteFile dk output text fs of
                (ok, fs') \<Rightarrow> (if ok then None else Some (NotWritten output), fs'))))"

subsection \<open>Reading a list back\<close>

definition hex_value :: "char \<Rightarrow> nat option" where
  "hex_value c =
     (if is_digit c then Some (byte c - 48) else if 97 \<le> byte c \<and> byte c \<le> 102 then Some (byte c - 87) else None)"

text \<open>UTF-8 of a code point below 65536.\<close>

definition utf8 :: "nat \<Rightarrow> string" where
  "utf8 n =
     (if n < 128 then [char_of n]
      else if n < 2048 then [char_of (192 + n div 64), char_of (128 + n mod 64)]
      else [char_of (224 + n div 4096), char_of (128 + n div 64 mod 64), char_of (128 + n mod 64)])"

definition short_escape :: "char \<Rightarrow> char option" where
  "short_escape e =
     map_of [(CHR 0x22, CHR 0x22), (CHR 0x5C, CHR 0x5C), (CHR ''b'', CHR 0x08), (CHR ''f'', CHR 0x0C),
       (CHR ''n'', CHR 0x0A), (CHR ''r'', CHR 0x0D), (CHR ''t'', CHR 0x09)] e"

abbreviation prepend :: "string \<Rightarrow> (string \<times> string) option \<Rightarrow> (string \<times> string) option" where
  "prepend u \<equiv> map_option (apfst ((@) u))"

definition read_u :: "char \<Rightarrow> char \<Rightarrow> char \<Rightarrow> char \<Rightarrow> string option" where
  "read_u a b c d =
     (case (hex_value a, hex_value b, hex_value c, hex_value d) of
        (Some w, Some x, Some y, Some z) \<Rightarrow> Some (utf8 (4096 * w + 256 * x + 16 * y + z))
      | _ \<Rightarrow> None)"

definition read_escape :: "string \<Rightarrow> (string \<times> string) option" where
  "read_escape s =
     (case s of
        [] \<Rightarrow> None
      | e # t \<Rightarrow>
        if e = CHR ''u'' then
          (if length t < 4 then None
           else map_option (\<lambda>v. (v, drop 4 t)) (read_u (t ! 0) (t ! 1) (t ! 2) (t ! 3)))
        else map_option (\<lambda>d. ([d], t)) (short_escape e))"

lemma read_escape_shorter: "read_escape s = Some (v, t) \<Longrightarrow> length t < length s"
  by (cases s) (auto simp: read_escape_def split: if_splits)

text \<open>A double-quoted scalar after its opening quote: its text and what follows.\<close>

function read_quoted :: "string \<Rightarrow> (string \<times> string) option" where
  "read_quoted [] = None"
| "read_quoted (c # s) =
     (if c = CHR 0x22 then Some ([], s)
      else if c \<noteq> CHR 0x5C then prepend [c] (read_quoted s)
      else case read_escape s of None \<Rightarrow> None | Some (v, t) \<Rightarrow> prepend v (read_quoted t))"
  by pat_completeness auto
termination
  by (relation "measure length") (auto dest: read_escape_shorter)

declare read_quoted.simps(2) [simp del]

lemma read_quoted_shorter: "read_quoted s = Some (v, t) \<Longrightarrow> length t < length s"
proof (induction s arbitrary: v t rule: read_quoted.induct)
  case (2 c s)
  then show ?case
    by (fastforce simp: read_quoted.simps(2) [of c s] split: if_splits option.splits dest!: read_escape_shorter)
qed simp

lemma read_item_shorter:
  assumes "dropWhile p s = q # t" and "read_quoted t = Some (v, c # u)"
  shows "length u < length s"
proof -
  have "length (q # t) \<le> length s" using length_dropWhile_le [of p s] by (simp add: assms(1))
  then show ?thesis using read_quoted_shorter [OF assms(2)] by simp
qed

text \<open>The items of a flow sequence after its bracket or a comma, to the end of the text.\<close>

function read_items :: "string \<Rightarrow> string list option" where
  "read_items s =
     (case dropWhile (\<lambda>c. c = CHR '' '') s of
        [] \<Rightarrow> None
      | q # t \<Rightarrow>
        if q \<noteq> CHR 0x22 then None
        else case read_quoted t of
            None \<Rightarrow> None
          | Some (v, u) \<Rightarrow>
            if u = '']'' then Some [v]
            else case u of [] \<Rightarrow> None | c # u' \<Rightarrow> if c \<noteq> CHR '','' then None else map_option ((#) v) (read_items u'))"
  by pat_completeness auto
termination
  by (relation "measure length") (auto dest: read_item_shorter)

declare read_items.simps [simp del]

definition read_flow :: "string \<Rightarrow> string list option" where
  "read_flow s = (if s = ''[]'' then Some [] else if hd s = CHR ''['' then read_items (tl s) else None)"


subsection \<open>What is written is read back\<close>

lemma hex_values:
  "hex_value CHR ''0'' = Some 0" "hex_value CHR ''2'' = Some 2" "hex_value CHR ''8'' = Some 8" "hex_value CHR ''9'' = Some 9"
  "hex_value CHR ''d'' = Some 13" "hex_value CHR ''f'' = Some 15"
  by (simp_all add: hex_value_def is_digit_def byte_def)

lemma high_bytes:
  "char_of (239 :: nat) = CHR 0xEF" "char_of (191 :: nat) = CHR 0xBF" "char_of (189 :: nat) = CHR 0xBD"
  "char_of (226 :: nat) = CHR 0xE2" "char_of (128 :: nat) = CHR 0x80" "char_of (168 :: nat) = CHR 0xA8" "char_of (169 :: nat) = CHR 0xA9"
  by (simp_all add: char_of_def bit_0)

lemma utf8_values:
  "utf8 65533 = [CHR 0xEF, CHR 0xBF, CHR 0xBD]" "utf8 8232 = [CHR 0xE2, CHR 0x80, CHR 0xA8]" "utf8 8233 = [CHR 0xE2, CHR 0x80, CHR 0xA9]"
  by (simp_all add: utf8_def high_bytes)

lemmas read_u_eval = read_u_def hex_values utf8_values

lemma hex_value_digit: "n < 16 \<Longrightarrow> hex_value (hex_digit n) = Some n"
  by (auto simp: hex_value_def hex_digit_def is_digit_def byte_def)

lemma prepend_prepend: "prepend u (prepend v x) = prepend (u @ v) x"
  by (cases x) auto

lemma read_quoted_plain:
  "list_all (\<lambda>c. c \<noteq> CHR 0x22 \<and> c \<noteq> CHR 0x5C) u \<Longrightarrow> read_quoted (u @ t) = prepend u (read_quoted t)"
proof (induction u)
  case Nil
  then show ?case by (cases "read_quoted t") auto
next
  case (Cons c u)
  then show ?case by (cases "read_quoted t") (auto simp: read_quoted.simps)
qed

lemma read_quoted_short: "short_escape e = Some d \<Longrightarrow> e \<noteq> CHR ''u'' \<Longrightarrow> read_quoted (CHR 0x5C # e # t) = prepend [d] (read_quoted t)"
  by (simp add: read_quoted.simps read_escape_def)

lemma read_quoted_u:
  "read_u a b c d = Some v \<Longrightarrow> read_quoted (CHR 0x5C # CHR ''u'' # a # b # c # d # t) = prepend v (read_quoted t)"
  by (simp add: read_quoted.simps read_escape_def numeral_eq_Suc)

lemma read_u_escape: "byte c < 128 \<Longrightarrow> read_quoted (u_escape c @ t) = prepend [c] (read_quoted t)"
proof -
  assume c: "byte c < 128"
  then have "read_u CHR ''0'' CHR ''0'' (hex_digit (byte c div 16)) (hex_digit (byte c mod 16)) = Some [c]"
    using hex_value_digit [of "byte c div 16"] hex_value_digit [of "byte c mod 16"]
    by (simp add: read_u_def hex_value_def is_digit_def byte_def utf8_def)
  from read_quoted_u [OF this] show ?thesis by (simp add: u_escape_def)
qed

lemma read_json_byte: "read_quoted (json_byte c @ t) = prepend (rune_text [c]) (read_quoted t)"
proof -
  consider "c \<in> {CHR 0x22, CHR 0x5C, CHR 0x08, CHR 0x0C, CHR 0x0A, CHR 0x0D, CHR 0x09}"
    | "c \<notin> {CHR 0x22, CHR 0x5C, CHR 0x08, CHR 0x0C, CHR 0x0A, CHR 0x0D, CHR 0x09}" "byte c < 128"
    | "c \<notin> {CHR 0x22, CHR 0x5C, CHR 0x08, CHR 0x0C, CHR 0x0A, CHR 0x0D, CHR 0x09}" "128 \<le> byte c" by fastforce
  then show ?thesis
  proof cases
    case 1
    then show ?thesis
      by (auto simp: json_byte_def rune_text_def read_quoted_short short_escape_def byte_def)
  next
    case 2
    then show ?thesis
      using read_u_escape [of c t] read_quoted_plain [of "[c]" t] by (auto simp: json_byte_def rune_text_def)
  next
    case 3
    have u: "read_u CHR ''f'' CHR ''f'' CHR ''f'' CHR ''d'' = Some [CHR 0xEF, CHR 0xBF, CHR 0xBD]" by (simp add: read_u_eval)
    have "\<not> 128 \<le> byte CHR ''<''" "\<not> 128 \<le> byte CHR ''>''" "\<not> 128 \<le> byte CHR ''&''" by (simp_all add: byte_def)
    then have "c \<noteq> CHR ''<''" "c \<noteq> CHR ''>''" "c \<noteq> CHR ''&''" using 3(2) by blast+
    with 3 have "json_byte c = CHR 0x5C # ''ufffd''" by (simp add: json_byte_def)
    then show ?thesis using read_quoted_u [OF u, of t] 3 by (simp add: rune_text_def)
  qed
qed

lemma rune_bytes: "r \<in> set (runes s) \<Longrightarrow> (\<exists>c. r = [c]) \<or> list_all (\<lambda>c. 128 \<le> byte c) r \<and> 1 < length r"
proof (induction s rule: runes.induct)
  case (1 s)
  show ?case
  proof (cases "s = []")
    case False
    have "(\<exists>c. take (rune_len s) s = [c]) \<or> list_all (\<lambda>c. 128 \<le> byte c) (take (rune_len s) s) \<and> 1 < length (take (rune_len s) s)"
      using False
      by (induction s rule: rune_len.induct)
        (auto simp: numeral_eq_Suc pair_rune_def triple_rune_def quad_rune_def in_range_def split: if_splits)
    then show ?thesis using 1 False by (auto simp: runes_step)
  qed (use 1 in simp)
qed

lemma read_json_rune: "r \<in> set (runes s) \<Longrightarrow> read_quoted (json_rune r @ t) = prepend (rune_text r) (read_quoted t)"
proof -
  assume "r \<in> set (runes s)"
  then consider c where "r = [c]" | "list_all (\<lambda>c. 128 \<le> byte c) r" "1 < length r" using rune_bytes by blast
  then show ?thesis
  proof cases
    case 1
    then show ?thesis using read_json_byte by (simp add: json_rune_def)
  next
    case 2
    then obtain a b u where r: "r = a # b # u" by (cases r; cases "tl r") auto
    have same: "rune_text r = r" by (simp add: rune_text_def r)
    have u: "read_u CHR ''2'' CHR ''0'' CHR ''2'' CHR ''8'' = Some [CHR 0xE2, CHR 0x80, CHR 0xA8]"
      "read_u CHR ''2'' CHR ''0'' CHR ''2'' CHR ''9'' = Some [CHR 0xE2, CHR 0x80, CHR 0xA9]" by (simp_all add: read_u_eval)
    have "list_all (\<lambda>c. c \<noteq> CHR 0x22 \<and> c \<noteq> CHR 0x5C) r" using 2(1) by (auto simp: list_all_iff byte_def)
    then show ?thesis
      using read_quoted_u [OF u(1), of t] read_quoted_u [OF u(2), of t] read_quoted_plain [of r t] same
      by (auto simp: json_rune_def r)
  qed
qed

text \<open>A text as Go sees it: invalid bytes read as the replacement character.\<close>

definition valid_text :: "string \<Rightarrow> string" where
  "valid_text s = concat (map rune_text (runes s))"

lemma read_json_text: "read_quoted (concat (map json_rune (runes s)) @ CHR 0x22 # t) = Some (valid_text s, t)"
proof -
  have "set rs \<subseteq> set (runes s) \<Longrightarrow> read_quoted (concat (map json_rune rs) @ CHR 0x22 # t) = Some (concat (map rune_text rs), t)" for rs
    by (induction rs) (simp_all add: read_quoted.simps(2) [of "CHR 0x22"] read_json_rune [of _ s])
  then show ?thesis by (simp add: valid_text_def)
qed


subsection \<open>The list of a starter config\<close>

abbreviation comma_free :: "string \<Rightarrow> bool" where "comma_free s \<equiv> CHR '','' \<notin> set s"

definition json_body :: "string \<Rightarrow> string" where
  "json_body s = concat (map json_rune (runes s))"

lemma concat_runes: "concat (runes s) = s"
proof (induction s rule: runes.induct)
  case (1 s)
  then show ?case by (cases "s = []") (simp_all add: runes_step)
qed

lemma comma_free_hex: "n < 16 \<Longrightarrow> hex_digit n \<noteq> CHR '',''"
  using hex_value_digit [of n] by (auto simp: hex_value_def is_digit_def byte_def)

lemma comma_free_byte: "c \<noteq> CHR '','' \<Longrightarrow> comma_free (json_byte c)"
proof -
  have "byte c div 16 < 16" using byte_less_256 [of c] by simp
  then show "c \<noteq> CHR '','' \<Longrightarrow> comma_free (json_byte c)"
    using comma_free_hex [of "byte c div 16"] comma_free_hex [of "byte c mod 16"]
    by (simp add: json_byte_def u_escape_def eq_commute [of "CHR '',''"])
qed

lemma comma_free_rune: "comma_free r \<Longrightarrow> comma_free (json_rune r)"
  by (cases r; cases "tl r") (auto simp: json_rune_def comma_free_byte)

lemma comma_free_body: "comma_free s \<Longrightarrow> comma_free (json_body s)"
proof -
  assume "comma_free s"
  then have "comma_free (concat (runes s))" by (simp add: concat_runes)
  then have "\<forall>r\<in>set (runes s). comma_free (json_rune r)" using comma_free_rune by auto
  then show ?thesis by (auto simp: json_body_def)
qed

abbreviation old_sep :: string where "old_sep \<equiv> [CHR 0x22, CHR '','', CHR 0x22]"
abbreviation new_sep :: string where "new_sep \<equiv> [CHR 0x22, CHR '','', CHR '' '', CHR 0x22]"

lemma replace_plain:
  "comma_free u \<Longrightarrow> replace_all_acc 0 (u @ CHR 0x22 # t) old_sep new = u @ replace_all_acc 0 (CHR 0x22 # t) old_sep new"
proof (induction u)
  case (Cons c u)
  then have "\<not> has_prefix ((c # u) @ CHR 0x22 # t) old_sep" by (cases u) (auto simp: has_prefix_def)
  then show ?case using Cons by simp
qed simp

lemma replace_separators:
  assumes "bs \<noteq> []" and "list_all comma_free bs"
  shows "replace_all_acc 0 (join old_sep bs @ CHR 0x22 # '']'') old_sep new_sep = join new_sep bs @ CHR 0x22 # '']''"
  using assms
proof (induction bs)
  case (Cons b bs)
  note plain = replace_plain [of b _ new_sep]
  show ?case
  proof (cases "bs = []")
    case True
    then show ?thesis using plain Cons.prems by (simp add: has_prefix_def)
  next
    case False
    then have "replace_all_acc 0 (join old_sep bs @ CHR 0x22 # '']'') old_sep new_sep = join new_sep bs @ CHR 0x22 # '']''"
      using Cons by simp
    then show ?thesis using plain Cons.prems False
      by (simp add: join_Cons has_prefix_def numeral_eq_Suc)
  qed
qed simp

lemma join_first: "join sep ((p @ b) # bs) = p @ join sep (b # bs)"
  by (cases bs) simp_all

lemma join_quotes:
  "bs \<noteq> [] \<Longrightarrow> join '','' (map (\<lambda>b. CHR 0x22 # b @ [CHR 0x22]) bs) = CHR 0x22 # join old_sep bs @ [CHR 0x22]"
proof (induction bs)
  case (Cons b bs)
  then show ?case by (cases "bs = []") (simp_all add: join_Cons)
qed simp

lemma yamlList_text:
  assumes "items \<noteq> []" and "list_all comma_free items"
  shows "yamlList items = CHR ''['' # CHR 0x22 # join new_sep (map json_body items) @ CHR 0x22 # '']''"
proof -
  obtain x xs where items: "items = x # xs" using assms(1) by (cases items) auto
  let ?p = "[CHR ''['', CHR 0x22]"
  have q: "map json_quote items = map (\<lambda>b. CHR 0x22 # b @ [CHR 0x22]) (map json_body items)"
    by (simp add: json_quote_def json_body_def)
  have "json_list items = join old_sep ((?p @ json_body x) # map json_body xs) @ CHR 0x22 # '']''"
    unfolding json_list_def q join_first using join_quotes [of "map json_body items"] by (simp add: items)
  moreover have "list_all comma_free ((?p @ json_body x) # map json_body xs)"
    using assms(2) comma_free_body by (auto simp: items list_all_iff)
  ultimately show ?thesis
    using replace_separators [of "(?p @ json_body x) # map json_body xs"]
    by (simp only: yamlList_def replace_all_def join_first list.simps items) simp
qed

lemma read_items_text:
  "items \<noteq> [] \<Longrightarrow> read_items (CHR 0x22 # join new_sep (map json_body items) @ CHR 0x22 # '']'') = Some (map valid_text items)"
proof (induction items)
  case (Cons x xs)
  note read = read_json_text [of x, folded json_body_def]
  show ?case
  proof (cases "xs = []")
    case True
    then show ?thesis by (subst read_items.simps) (simp add: read)
  next
    case False
    have "read_items (CHR '' '' # s) = read_items s" for s
      by (subst (1 2) read_items.simps) simp
    then show ?thesis using Cons False
      by (subst read_items.simps) (simp add: join_Cons read)
  qed
qed simp

lemma splitList_comma_free: "list_all comma_free (splitList s)"
proof -
  have "comma_free w \<Longrightarrow> list_all comma_free (split_acc w s)" for w
    by (induction s arbitrary: w) (auto simp: list_sep_def)
  then show ?thesis by (simp add: splitList_def)
qed

text \<open>
  C37 The selectors answered to \<open>seta init\<close> come out of its config as they went in: the list written for any line of input
  reads back as the words of the line, whatever characters they hold (as valid UTF-8). That rests on how
  a line is split: an item that ends in a quote and a comma is taken for the end of an item, and reads back with a space added.
\<close>

theorem yamlList_reads_back:
  "read_flow (yamlList (splitList line)) = Some (map valid_text (splitList line)) \<and>
   read_flow (yamlList [[CHR ''x'', CHR 0x22, CHR '','']]) = Some [[CHR ''x'', CHR 0x22, CHR '','', CHR '' '']]"
proof (intro conjI)
  show "read_flow (yamlList (splitList line)) = Some (map valid_text (splitList line))"
  proof (cases "splitList line = []")
    case True
    then show ?thesis by (simp add: yamlList_def json_list_def replace_all_def read_flow_def has_prefix_def)
  next
    case False
    then show ?thesis
      using yamlList_text [OF _ splitList_comma_free] read_items_text by (simp add: read_flow_def)
  qed
qed code_simp+


subsection \<open>What the init command writes\<close>

lemma map_sum_Cons: "map_sum id ((#) t) x \<noteq> Inr []"
  by (cases x) auto

lemma parse_targets_Nil: "parse_targets idna seen args = Inr [] \<Longrightarrow> set args \<noteq> {} \<Longrightarrow> seen \<noteq> []"
  by (induction idna seen args rule: parse_targets.induct) (auto simp: map_sum_Cons split: sum.splits if_splits)

lemma init_targets_some:
  assumes "init_targets idna ask domains active = Inr (ts, active')" shows "ts \<noteq> []"
proof (cases "domains = []")
  case True
  then show ?thesis
    using assms by (auto simp: init_targets_def askInit_def try_map_Inr split: sum.splits option.splits list.splits)
next
  case False
  then show ?thesis
    using assms parse_targets_Nil [of idna "[]" domains] by (auto simp: init_targets_def parseTargets_def split: sum.splits)
qed

text \<open>
  C38 \<open>seta init\<close> does no harm: it touches no file but the one it is to write; it never overwrites an existing one without
  \<open>--force\<close>; an error other than that of writing leaves everything as it was; and where it reports success the
  file holds, in full, a config for at least one domain that the program itself accepts.
\<close>

theorem init_writes_valid_configs:
  fixes parse :: "string \<Rightarrow> 'c option"
  assumes "dk_stat dk output" and "\<not> dk_special dk output"
    and "init_command dk idna ask parse domains active output force fs = (e, fs')"
  shows "(\<forall>p. p \<noteq> output \<longrightarrow> fs' p = fs p) \<and>
    (fs output \<noteq> None \<and> \<not> force \<longrightarrow> e = Some (ConfigExists output)) \<and>
    (case e of
       None \<Rightarrow> \<exists>ts active'. init_targets idna ask domains active = (Inr (ts, active') :: 'c init_error + init_target list \<times> bool) \<and> ts \<noteq> [] \<and>
         parse (renderInit ts active') = None \<and> fs' output = Some (renderInit ts active')
     | Some (NotWritten _) \<Rightarrow> True
     | Some _ \<Rightarrow> fs' = fs)"
proof (cases "path_exists dk output fs \<and> \<not> force")
  case True
  then show ?thesis using assms(3) by (auto simp: init_command_def)
next
  case False
  then have new: "\<not> (fs output \<noteq> None \<and> \<not> force)" using assms(1) by (auto simp: path_exists_def)
  show ?thesis
  proof (cases "init_targets idna ask domains active :: 'c init_error + init_target list \<times> bool")
    case (Inl x)
    then show ?thesis using assms(3) False new by (auto simp: init_command_def split: init_error.splits)
  next
    case (Inr r)
    then obtain ts a where r: "init_targets idna ask domains active = (Inr (ts, a) :: 'c init_error + init_target list \<times> bool)"
      by (cases r) auto
    obtain ok fs1 where w: "os_WriteFile dk output (renderInit ts a) fs = (ok, fs1)" by fastforce
    have written: "p \<noteq> output \<Longrightarrow> fs1 p = fs p" "ok \<Longrightarrow> fs1 output = Some (renderInit ts a)" for p
      using w assms(2) by (auto simp: os_WriteFile_def os_Create_def write_file_def split: if_splits)
    show ?thesis
    proof (cases "parse (renderInit ts a)")
      case None
      then have "fs' = fs1" "e = (if ok then None else Some (NotWritten output))"
        using assms(3) False r w by (auto simp: init_command_def)
      then show ?thesis using written new r None init_targets_some [OF r] by auto
    next
      case (Some x)
      then show ?thesis using assms(3) False new r by (auto simp: init_command_def)
    qed
  qed
qed


definition demo_init :: "unit init_error option \<times> files" where
  "demo_init = init_command demo_disk Some (\<lambda>_. NobodyThere) (\<lambda>_. None) [''example.com''] False ''seta.yaml'' False [''keep'' \<mapsto> ''me'']"

lemma demo_init_targets:
  "init_targets Some (\<lambda>_. NobodyThere) [''example.com''] False =
    (Inr ([\<lparr>it_domain = ''example.com'', it_selectors = []\<rparr>], False) :: unit init_error + init_target list \<times> bool)"
proof -
  have "ParseDomain Some ''example.com'' = Inr ''example.com''" by code_simp
  then show ?thesis by (simp add: init_targets_def parseTargets_def domain_target_def)
qed

theorem init_writes_valid_configs_witness:
  "fst demo_init = None \<and> snd demo_init ''keep'' = Some ''me'' \<and>
   snd demo_init ''seta.yaml'' = Some (renderInit [\<lparr>it_domain = ''example.com'', it_selectors = []\<rparr>] False)"
proof -
  have disk: "dk_stat demo_disk ''seta.yaml''" "\<not> dk_special demo_disk ''seta.yaml''" by (simp_all add: demo_disk_def)
  have "fst demo_init = None"
    by (simp add: demo_init_def init_command_def demo_init_targets path_exists_def os_WriteFile_def os_Create_def demo_disk_def Let_def)
  then have run: "init_command demo_disk Some (\<lambda>_. NobodyThere) (\<lambda>_. None) [''example.com''] False ''seta.yaml'' False [''keep'' \<mapsto> ''me''] =
      (None :: unit init_error option, snd demo_init)"
    by (metis demo_init_def prod.collapse)
  note t = init_writes_valid_configs [OF disk run, unfolded demo_init_targets]
  have "snd demo_init ''keep'' = Some ''me''" using spec [OF conjunct1 [OF t], of "''keep''"] by simp
  moreover have "snd demo_init ''seta.yaml'' = Some (renderInit [\<lparr>it_domain = ''example.com'', it_selectors = []\<rparr>] False)"
    using conjunct2 [OF conjunct2 [OF t]] by (simp only: option.case prod.case sum.inject prod.inject) blast
  ultimately show ?thesis using \<open>fst demo_init = None\<close> by blast
qed

end
