(* ===== verification/SetaCommands.thy ===== *)
theory SetaCommands
  imports SetaSession SetaNotify SetaDaemon
begin

text \<open>
  The other commands of internal/cli: showing the checks (checks.go), counting what a config runs (configcmd.go), testing
  the notifiers (notify.go), the version (version.go and internal/version), a run of the config and the baseline command (run.go),
  and what the daemon does before its first run (daemon.go). Parameters: config.Load, the engine, the resolvers, the
  build info, formatting of dates. Text goes to stdout unless a definition says otherwise; writing it does not fail.
\<close>

subsection \<open>Showing the checks\<close>

fun wrap_loop :: "nat \<Rightarrow> string list \<Rightarrow> string \<Rightarrow> string list" where
  "wrap_loop width [] line = [line]"
| "wrap_loop width (word # ws) line =
     (if width < length line + 1 + length word \<and> line \<noteq> '' ''
      then line # wrap_loop width ws ('' '' @ '' '' @ word)
      else wrap_loop width ws (line @ '' '' @ word))"

definition wrap :: "string \<Rightarrow> nat \<Rightarrow> string" where
  "wrap text width = join newline (wrap_loop width (SetaPrelude.fields text) '' '')"

definition explain_text :: "meta \<Rightarrow> string" where
  "explain_text m =
     m_ID m @ newline @ m_Title m @ newline @ newline @
     ''Module:    '' @ m_Module m @ newline @ ''Mode:      '' @ mode_String (m_Mode m) @ newline @
     ''Severity:  '' @ severity_String (m_Severity m) @ '' (default)'' @ newline @
     (if m_Aliases m \<noteq> [] then ''Aliases:   '' @ join '', '' (m_Aliases m) @ newline else []) @
     newline @ ''Why it matters'' @ newline @ wrap (m_Description m) 78 @ newline @
     newline @ ''How to fix'' @ newline @ wrap (m_Remediation m) 78 @ newline @
     (if m_References m \<noteq> []
      then newline @ ''References'' @ newline @ concat (map (\<lambda>r. ''  '' @ r @ newline) (m_References m)) else [])"

datatype explain_error = WrongArguments | UnknownCheck string

definition explain_command :: "'r registry \<Rightarrow> string list \<Rightarrow> explain_error + string" where
  "explain_command reg args =
     (case args of
        [i] \<Rightarrow> (case registry_Lookup reg i of None \<Rightarrow> Inl (UnknownCheck i) | Some c \<Rightarrow> Inr (explain_text (c_Meta c)))
      | _ \<Rightarrow> Inl WrongArguments)"

text \<open>
  text/tabwriter as \<open>list\<close> sets it up, for cells without a tab or a line break: every cell but the last of a line is padded to the
  widest of its column and two spaces, in code points.
\<close>

fun pad_row :: "nat list \<Rightarrow> string list \<Rightarrow> string" where
  "pad_row (w # ws) (c # d # cs) = c @ replicate (w + 2 - RuneCount c) CHR '' '' @ pad_row ws (d # cs)"
| "pad_row _ cs = concat cs"

definition column_width :: "string list list \<Rightarrow> nat \<Rightarrow> nat" where
  "column_width rows i = Max (set (0 # map (\<lambda>r. RuneCount (r ! i)) rows))"

definition tab_text :: "string list list \<Rightarrow> string" where
  "tab_text rows = concat (map (\<lambda>r. pad_row (map (column_width rows) [0..<length r - 1]) r @ newline) rows)"

definition listed_checks :: "'r registry \<Rightarrow> string \<Rightarrow> meta list" where
  "listed_checks reg module = filter (\<lambda>m. module = [] \<or> m_Module m = module) (map c_Meta (registry_All reg))"

text \<open>\<open>Inl\<close>: no check in that module.\<close>

definition list_command :: "'r registry \<Rightarrow> string \<Rightarrow> string + string" where
  "list_command reg module =
     (let ms = listed_checks reg module in
      if module \<noteq> [] \<and> ms = [] then Inl module
      else Inr (tab_text ([''ID'', ''MODE'', ''SEVERITY'', ''TITLE''] #
        map (\<lambda>m. [m_ID m, mode_String (m_Mode m), severity_String (m_Severity m), m_Title m]) ms)))"

subsection \<open>The version\<close>

record version_info =
  vi_Version :: string
  vi_Commit :: string
  vi_Date :: string
  vi_GoVersion :: string
  vi_Modified :: bool

text \<open>debug.ReadBuildInfo: the Go version, the version of the main module and the build settings.\<close>

record build_info =
  bi_GoVersion :: string
  bi_Main :: string
  bi_Settings :: "(string \<times> string) list"

definition version_setting :: "version_info \<Rightarrow> string \<times> string \<Rightarrow> version_info" where
  "version_setting v s =
     (case s of (key, val) \<Rightarrow>
      if key = ''vcs.revision'' then (if vi_Commit v = [] then v\<lparr>vi_Commit := val\<rparr> else v)
      else if key = ''vcs.time'' then (if vi_Date v = [] then v\<lparr>vi_Date := val\<rparr> else v)
      else if key = ''vcs.modified'' then v\<lparr>vi_Modified := (val = ''true'')\<rparr>
      else v)"

definition version_Get :: "string \<Rightarrow> string \<Rightarrow> string \<Rightarrow> build_info option \<Rightarrow> version_info" where
  "version_Get version commit date build =
     (let v = \<lparr>vi_Version = version, vi_Commit = commit, vi_Date = date, vi_GoVersion = [], vi_Modified = False\<rparr>;
          v' = (case build of
              None \<Rightarrow> v
            | Some bi \<Rightarrow>
                foldl version_setting
                  (v\<lparr>vi_GoVersion := bi_GoVersion bi,
                     vi_Version := (if version = [] \<and> bi_Main bi \<noteq> [] \<and> bi_Main bi \<noteq> ''(devel)'' then bi_Main bi else version)\<rparr>)
                  (bi_Settings bi))
      in if vi_Version v' = [] then v'\<lparr>vi_Version := ''dev''\<rparr> else v')"

definition UserAgent :: "version_info \<Rightarrow> string" where
  "UserAgent v = ''seta/'' @ vi_Version v"

text \<open>\<open>platform\<close>: the Go version, operating system and architecture of the runtime.\<close>

definition version_text :: "version_info \<Rightarrow> string \<times> string \<times> string \<Rightarrow> string" where
  "version_text v platform =
     (case platform of (gover, goos, goarch) \<Rightarrow>
      ''seta '' @ vi_Version v @ newline @
      (if vi_Commit v \<noteq> [] then ''  commit: '' @ vi_Commit v @ (if vi_Modified v then '' (modified)'' else []) @ newline else []) @
      (if vi_Date v \<noteq> [] then ''  built:  '' @ vi_Date v @ newline else []) @
      ''  go:     '' @ gover @ '' '' @ goos @ ''/'' @ goarch @ newline)"

text \<open>\<open>useColor\<close>; \<open>terminal\<close>: stdout is a terminal that can be switched to colours.\<close>

definition useColor :: "bool \<Rightarrow> string \<Rightarrow> bool \<Rightarrow> bool" where
  "useColor noColor NO_COLOR terminal \<longleftrightarrow> \<not> (noColor \<or> NO_COLOR \<noteq> []) \<and> terminal"

definition noArgs :: "string list \<Rightarrow> string list option" where
  "noArgs args = (if args \<noteq> [] then Some args else None)"

subsection \<open>Loading a config\<close>

text \<open>Config.Load: the file does not exist, another error, or the config; the plugins were loaded before.\<close>

datatype 'x load_failure = NoConfig string | BadConfig 'x

definition expired_warning :: "(int \<Rightarrow> string) \<Rightarrow> 'j config \<Rightarrow> suppression \<Rightarrow> string" where
  "expired_warning date cfg s =
     ''warning: '' @ cf_Path cfg @ '':'' @ itoa (su_Line s) @ '': suppression of '' @ su_Check s @ '' expired on '' @
     date (case su_Expires s of None \<Rightarrow> zero_time | Some t \<Rightarrow> t) @ ''; its findings are reported again'' @ newline"

text \<open>The config and the warnings on stderr.\<close>

definition loadConfig ::
  "(string \<Rightarrow> 'x option + 'j config) \<Rightarrow> (int \<Rightarrow> string) \<Rightarrow> int \<Rightarrow> string \<Rightarrow> 'x load_failure + 'j config \<times> string" where
  "loadConfig load date now path =
     (case load path of
        Inl None \<Rightarrow> Inl (NoConfig path)
      | Inl (Some e) \<Rightarrow> Inl (BadConfig e)
      | Inr cfg \<Rightarrow>
          Inr (cfg, concat (map (expired_warning date cfg) (filter (\<lambda>s. suppression_Expired s now) (cf_Suppressions cfg)))))"

text \<open>
  The loops of \<open>config validate\<close>: how many checks a run of the config makes, counted without planning it; the selection is
  not narrowed by \<open>--only\<close>.
\<close>

fun count_runs :: "'r registry \<Rightarrow> 'j config \<Rightarrow> 'j cfg_target list \<Rightarrow> usage_reason + nat" where
  "count_runs reg cfg [] = Inr 0"
| "count_runs reg cfg (t # ts) =
     (case Select reg (case CheckPatterns cfg t of Some ps \<Rightarrow> ps | None \<Rightarrow> []) of
        Inl e \<Rightarrow> Inl (BadSelection e)
      | Inr selected \<Rightarrow>
        map_sum id (\<lambda>n. length (filter (\<lambda>c. m_Mode (c_Meta c) = Passive \<or> ActiveFor cfg t) selected) + n) (count_runs reg cfg ts))"

definition validate_command :: "'r registry \<Rightarrow> 'j config \<Rightarrow> usage_reason + string" where
  "validate_command reg cfg =
     map_sum id (\<lambda>runs. cf_Path cfg @ '' is valid: '' @ count_noun (int (length (cf_Targets cfg))) ''target'' @ '', '' @
       count_noun (int runs) ''check'' @ '' per run.'' @ newline) (count_runs reg cfg (cf_Targets cfg))"

subsection \<open>Running a config\<close>

record resolver_flags =
  rf_specs :: "string list"
  rf_skipCheck :: bool
  rf_timeout :: int

record config_run_flags =
  cr_active :: bool
  cr_only :: "string list option"
  cr_changed :: bool
  cr_rf :: resolver_flags

text \<open>
  The first lines of \<open>newEngine\<close>: the flags win over the config; \<open>cr_changed\<close>: \<open>--resolver\<close> was given.
\<close>

definition effective_flags :: "config_run_flags \<Rightarrow> 'j config \<Rightarrow> resolver_flags" where
  "effective_flags cf cfg =
     (let rf = cr_rf cf;
          rf1 = (if \<not> cr_changed cf \<and> cr_Servers (cf_Resolver cfg) \<noteq> [] then rf\<lparr>rf_specs := cr_Servers (cf_Resolver cfg)\<rparr> else rf)
      in rf1\<lparr>rf_skipCheck := rf_skipCheck rf1 \<or> cr_SkipCheck (cf_Resolver cfg), rf_timeout := cr_Timeout (cf_Resolver cfg)\<rparr>)"

text \<open>\<open>resolvers\<close>: what is outside \<open>setupResolver\<close>, for the timeout of a query.\<close>

definition newEngine ::
  "(int \<Rightarrow> ('res, 'e) resolver_env) \<Rightarrow> config_run_flags \<Rightarrow> 'j config \<Rightarrow> 'e exit_error + 'res \<times> int \<times> resolver_flags" where
  "newEngine resolvers cf cfg =
     (let rf = effective_flags cf cfg in
      map_sum id (\<lambda>r. (r, cd_CheckTimeout (cf_Defaults cfg), rf)) (setupResolver (resolvers (rf_timeout rf)) (rf_specs rf) (rf_skipCheck rf)))"

text \<open>
  \<open>runConfig\<close> on a loaded config; \<open>engine\<close> is what the engine makes of the jobs with a resolver and a timeout for each check.
\<close>

definition runConfig ::
  "(int \<Rightarrow> ('res, 'e) resolver_env) \<Rightarrow> ('res \<Rightarrow> int \<Rightarrow> (target \<times> 'r check list) list \<Rightarrow> 'e result) \<Rightarrow> int \<Rightarrow>
   'r registry \<Rightarrow> config_run_flags \<Rightarrow> 'j config \<Rightarrow> ('j cfg_target \<Rightarrow> target) \<Rightarrow> 'e exit_error + 'e result \<times> string list" where
  "runConfig resolvers engine now reg cf cfg mk =
     (case planConfig reg cfg (cr_active cf) (cr_only cf) mk of
        Inl e \<Rightarrow> Inl (UsageErr e)
      | Inr p \<Rightarrow>
        (case newEngine resolvers cf cfg of
           Inl e \<Rightarrow> Inl e
         | Inr (r, timeout, _) \<Rightarrow> Inr (snd (config_Apply cfg (engine r timeout (pl_jobs p)) now), plan_notes p)))"

text \<open>The baseline command on what \<open>runConfig\<close> returned: its error, the files and the text on stderr.\<close>

definition baseline_command ::
  "disk \<Rightarrow> (string \<Rightarrow> string) \<Rightarrow> (baseline_file \<Rightarrow> string) \<Rightarrow> 'e exit_error + 'e result \<times> string list \<Rightarrow> string \<Rightarrow> files \<Rightarrow>
   ('b, 'e) command_error option \<times> files \<times> string" where
  "baseline_command dk sha encode outcome output fs =
     (case outcome of
        Inl e \<Rightarrow> (Some (ExitWith e), fs, [])
      | Inr (res, _) \<Rightarrow>
        (case os_WriteFile dk output (encode (baseline_New sha (r_Findings res))) fs of (ok, fs') \<Rightarrow>
         if \<not> ok then (Some (WriteFailed output), fs', [])
         else (None, fs',
           ''Wrote '' @ count_noun (int (length (r_Findings res))) ''finding'' @ '' to '' @ output @ ''.'' @ newline @
           (if r_Errors res \<noteq> []
            then ''warning: '' @ count_noun (int (length (r_Errors res))) ''check'' @
              '' could not complete, so their findings are not in the baseline and will be reported as new later.'' @ newline
            else []))))"

subsection \<open>Testing the notifiers\<close>

datatype notify_error = NoNotifier string | NoNotifiers

text \<open>The channels \<open>--name\<close> picks, one name after the other.\<close>

fun pick_channels :: "'a channel list \<Rightarrow> string list \<Rightarrow> notify_error + 'a channel list" where
  "pick_channels chs [] = Inr []"
| "pick_channels chs (n # ns) =
     (let found = filter (\<lambda>ch. ch_Name ch = n) chs in
      if found = [] then Inl (NoNotifier n) else map_sum id (\<lambda>rest. found @ rest) (pick_channels chs ns))"

definition test_line :: "(string \<rightharpoonup> string) \<Rightarrow> 'a channel \<Rightarrow> string" where
  "test_line failed ch =
     (case failed (ch_Name ch) of
        Some e \<Rightarrow> [CHR 0xE2, CHR 0x9C, CHR 0x97, CHR '' ''] @ ch_Name ch @ '': '' @ e @ newline
      | None \<Rightarrow> [CHR 0xE2, CHR 0x9C, CHR 0x93, CHR '' ''] @ ch_Name ch @ newline)"

text \<open>What is printed, and whether a notifier failed, which ends the command with \<open>ExitFindings\<close>.\<close>

definition notify_command ::
  "('a transport_config \<Rightarrow> SetaNotify.message \<Rightarrow> 'x option) \<Rightarrow> ('x \<Rightarrow> string) \<Rightarrow> int \<Rightarrow> 'a channel list \<Rightarrow> string list \<Rightarrow>
   notify_error + string \<times> bool" where
  "notify_command send text now chs names =
     (case (if names \<noteq> [] then pick_channels chs names else Inr chs) of
        Inl e \<Rightarrow> Inl e
      | Inr picked \<Rightarrow>
        if picked = [] then Inl NoNotifiers
        else let failed = notify_Test send text now picked in
          Inr (concat (map (test_line failed) picked), list_ex (\<lambda>ch. failed (ch_Name ch) \<noteq> None) picked))"

subsection \<open>Starting the daemon\<close>

datatype ('e, 'x) start_error =
    UnknownLogFormat string
  | NotPlanned usage_reason
  | InvalidSchedule string
  | InvalidNotifiers channel_error
  | StateUnavailable 'x
  | EngineUnavailable "'e exit_error"
  | CannotListen string

datatype start_event = Warned string | StoreOpened string | StoreClosed string | Listening string | Served | ServerDown

record ('j, 'r, 'a, 'e, 'x, 'res, 's) daemon_start =
  ds_reg :: "'r registry"
  ds_cfg :: "'j config"
  ds_target :: "'j cfg_target \<Rightarrow> target"
  ds_cron :: "string \<Rightarrow> 's option"
  ds_mail :: "string \<Rightarrow> 'a option"
  ds_notifiers :: "(string list option \<times> notifier_config) list"
  ds_open :: "string \<Rightarrow> 'x option"
  ds_resolvers :: "int \<Rightarrow> ('res, 'e) resolver_env"
  ds_listen :: "string \<Rightarrow> bool"

record daemon_flags =
  df_state :: string
  df_listen :: string
  df_logFormat :: string

definition orString :: "string \<Rightarrow> string \<Rightarrow> string" where
  "orString v def = (if v = [] then def else v)"

text \<open>What \<open>runDaemon\<close> does with the store open, up to the end of the daemon; the deferred calls run in reverse order.\<close>

definition daemon_serve :: "('j, 'r, 'a, 'e, 'x, 'res, 's) daemon_start \<Rightarrow> daemon_flags \<Rightarrow> ('e, 'x) start_error option \<times> start_event list" where
  "daemon_serve ds df =
     (if df_listen df = [] then (None, [Served])
      else if \<not> ds_listen ds (df_listen df) then (Some (CannotListen (df_listen df)), [])
      else (None, [Listening (df_listen df), Served, ServerDown]))"

text \<open>\<open>runDaemon\<close>: the error it returns and what happened.\<close>

definition runDaemon ::
  "('j, 'r, 'a, 'e, 'x, 'res, 's) daemon_start \<Rightarrow> config_run_flags \<Rightarrow> daemon_flags \<Rightarrow>
   ('e, 'x) start_error option \<times> start_event list" where
  "runDaemon ds cf df =
     (let cfg = ds_cfg ds in
      if df_logFormat df \<noteq> ''text'' \<and> df_logFormat df \<noteq> ''json'' then (Some (UnknownLogFormat (df_logFormat df)), [])
      else case planConfig (ds_reg ds) cfg (cr_active cf) (cr_only cf) (ds_target ds) of
          Inl e \<Rightarrow> (Some (NotPlanned e), [])
        | Inr p \<Rightarrow>
          let ws = map Warned (plan_notes p) in
          (case ds_cron ds (cf_Schedule cfg) of
             None \<Rightarrow> (Some (InvalidSchedule (cf_Schedule cfg)), ws)
           | Some _ \<Rightarrow>
             (case FromConfig (ds_mail ds) (ds_notifiers ds) of
                Inl e \<Rightarrow> (Some (InvalidNotifiers e), ws)
              | Inr chs \<Rightarrow>
                let ws' = ws @ (if chs = [] then [Warned ''no notifiers configured; changes are only logged''] else []);
                    path = orString (df_state df) (cs_Path (cf_State cfg)) in
                (case ds_open ds path of
                   Some e \<Rightarrow> (Some (StateUnavailable e), ws')
                 | None \<Rightarrow>
                   (case newEngine (ds_resolvers ds) cf cfg of
                      Inl e \<Rightarrow> (Some (EngineUnavailable e), ws' @ [StoreOpened path, StoreClosed path])
                    | Inr _ \<Rightarrow>
                      (case daemon_serve ds df of
                         (err, evs) \<Rightarrow> (err, ws' @ [StoreOpened path] @ evs @ [StoreClosed path])))))))"

text \<open>A warning about an expired suppression is logged once per line of the config, over all runs.\<close>

fun warn_expired :: "int list \<Rightarrow> suppression list \<Rightarrow> suppression list \<times> int list" where
  "warn_expired warned [] = ([], warned)"
| "warn_expired warned (s # ss) =
     (if su_Line s \<in> set warned then warn_expired warned ss
      else case warn_expired (su_Line s # warned) ss of (logged, warned') \<Rightarrow> (s # logged, warned'))"

subsection \<open>Wrapped text\<close>

lemma fields_acc_space: "is_space c \<Longrightarrow> fields_acc acc (a @ c # b) = fields_acc acc a @ SetaPrelude.fields b"
  by (induction acc a rule: fields_acc.induct) (auto simp: SetaPrelude.fields_def)

lemma fields_space: "is_space c \<Longrightarrow> SetaPrelude.fields (a @ c # b) = SetaPrelude.fields a @ SetaPrelude.fields b"
  by (simp add: SetaPrelude.fields_def fields_acc_space)

definition is_word :: "string \<Rightarrow> bool" where
  "is_word w \<longleftrightarrow> w \<noteq> [] \<and> list_all (\<lambda>c. \<not> is_space c) w"

lemma fields_acc_words: "list_all (\<lambda>c. \<not> is_space c) acc \<Longrightarrow> list_all is_word (fields_acc acc s)"
  by (induction s arbitrary: acc) (simp_all add: is_word_def)

lemma fields_words: "list_all is_word (SetaPrelude.fields s)"
  by (simp add: SetaPrelude.fields_def fields_acc_words)

lemma fields_acc_word: "list_all (\<lambda>c. \<not> is_space c) w \<Longrightarrow> fields_acc acc w = (if acc = [] \<and> w = [] then [] else [rev acc @ w])"
  by (induction w arbitrary: acc) auto

lemma fields_word: "is_word w \<Longrightarrow> SetaPrelude.fields w = [w]"
  by (simp add: SetaPrelude.fields_def fields_acc_word is_word_def)

lemma spaces [simp]: "is_space CHR '' ''" "is_space CHR 0x0A"
  by (simp_all add: is_space_def byte_def)

lemma fields_blank [simp]: "SetaPrelude.fields '' '' = []" "SetaPrelude.fields [] = []"
  by (simp_all add: SetaPrelude.fields_def)

lemma wrap_loop_not_Nil [simp]: "wrap_loop width ws line \<noteq> []"
  by (induction width ws line rule: wrap_loop.induct) auto

lemma wrap_loop_words:
  "list_all is_word ws \<Longrightarrow> SetaPrelude.fields (join newline (wrap_loop width ws line)) = SetaPrelude.fields line @ ws"
proof (induction width ws line rule: wrap_loop.induct)
  case (2 width word ws line)
  have w: "SetaPrelude.fields (l @ '' '' @ word) = SetaPrelude.fields l @ [word]" for l
    using 2(3) fields_space [of "CHR '' ''" l word] fields_word [of word] by simp
  have w2: "SetaPrelude.fields ('' '' @ '' '' @ word) = [word]"
    using w [of "'' ''"] by simp
  show ?case
  proof (cases "width < length line + 1 + length word \<and> line \<noteq> '' ''")
    case True
    then have "wrap_loop width (word # ws) line = line # wrap_loop width ws ('' '' @ '' '' @ word)" by simp
    then show ?thesis
      using 2(1) [OF True] 2(3) w2 fields_space [of "CHR 0x0A" line] by (simp add: join_Cons newline_def)
  next
    case False
    then have "wrap_loop width (word # ws) line = wrap_loop width ws (line @ '' '' @ word)" by auto
    then show ?thesis using 2(2) [OF False] 2(3) w [of line] by simp
  qed
qed simp


lemma wrap_loop_width:
  assumes "list_all is_word ws" and "length line \<le> width \<or> line = '' '' \<or> (\<exists>w\<in>W. line = ''  '' @ w)" and "set ws \<subseteq> W"
  shows "list_all (\<lambda>l. length l \<le> width \<or> l = '' '' \<or> (\<exists>w\<in>W. l = ''  '' @ w)) (wrap_loop width ws line)"
  using assms
proof (induction width ws line rule: wrap_loop.induct)
  case (2 width word ws line)
  show ?case
  proof (cases "width < length line + 1 + length word \<and> line \<noteq> '' ''")
    case True
    then have "wrap_loop width (word # ws) line = line # wrap_loop width ws ('' '' @ '' '' @ word)" by simp
    then show ?thesis using 2(1) [OF True] 2(3-5) by simp
  next
    case False
    then have "wrap_loop width (word # ws) line = wrap_loop width ws (line @ '' '' @ word)" by auto
    then show ?thesis using 2(2) [OF False] 2(3-5) False by auto
  qed
qed simp

lemma wrap_loop_lines:
  assumes "list_all is_word ws" and "CHR 0x0A \<notin> set line"
  shows "\<forall>l\<in>set (wrap_loop width ws line). CHR 0x0A \<notin> set l"
  using assms
proof (induction width ws line rule: wrap_loop.induct)
  case (2 width word ws line)
  have word: "CHR 0x0A \<notin> set word" using 2(3) spaces(2) by (auto simp: is_word_def list_all_iff)
  show ?case
  proof (cases "width < length line + 1 + length word \<and> line \<noteq> '' ''")
    case True
    then have "wrap_loop width (word # ws) line = line # wrap_loop width ws ('' '' @ '' '' @ word)" by simp
    then show ?thesis using 2(1) [OF True] 2(3,4) word by simp
  next
    case False
    then have "wrap_loop width (word # ws) line = wrap_loop width ws (line @ '' '' @ word)" by auto
    then show ?thesis using 2(2) [OF False] 2(3,4) word by simp
  qed
qed simp

text \<open>
  \<open>checks explain\<close> shows the whole text of a check: wrapping keeps every word in its order, and
  no line is longer than the width unless it holds a single word that does not fit.
\<close>

lemma wrap_keeps_words:
  "SetaPrelude.fields (wrap text width) = SetaPrelude.fields text \<and>
   list_all (\<lambda>l. length l \<le> width \<or> l = '' '' \<or> (\<exists>w\<in>set (SetaPrelude.fields text). l = ''  '' @ w))
     (split_on CHR 0x0A (wrap text width))"
proof -
  let ?ls = "wrap_loop width (SetaPrelude.fields text) '' ''"
  have "split_on CHR 0x0A (wrap text width) = ?ls"
    using split_on_join [of ?ls "CHR 0x0A"] wrap_loop_lines [OF fields_words, of "'' ''"] by (simp add: wrap_def newline_def)
  then show ?thesis
    using wrap_loop_words [OF fields_words, of width "text" "'' ''"] wrap_loop_width [OF fields_words, of "'' ''" width _ "text"]
    by (simp add: wrap_def)
qed

subsection \<open>What validate counts\<close>

lemma count_runs_plan:
  assumes "registry_ok reg"
  shows "case count_runs reg cfg ts of
      Inl e \<Rightarrow> plan_targets reg cfg False None mk ts = Inl e
    | Inr n \<Rightarrow> \<exists>p. plan_targets reg cfg False None mk ts = Inr p \<and> n = sum_list (map (\<lambda>j. length (snd j)) (pl_jobs p))"
proof (induction ts)
  case (Cons t ts)
  let ?ps = "case CheckPatterns cfg t of Some ps \<Rightarrow> ps | None \<Rightarrow> []"
  show ?case
  proof (cases "Select reg ?ps")
    case (Inl e)
    then show ?thesis by (simp add: plan_checks_def)
  next
    case (Inr cs)
    have mode: "m_Mode (c_Meta c) = Passive \<or> m_Mode (c_Meta c) = Active" if "c \<in> set cs" for c
    proof -
      have "c \<in> registered reg" using Select_picks(2) [OF assms Inr] that by simp
      then obtain i where "map_of (r_checks reg) i = Some c" by (auto simp: registered_def ran_def)
      then have "meta_Validate (c_Meta c) = None" using assms unfolding registry_ok_def maps_ok_def by blast
      then show ?thesis by (simp add: meta_Validate_None)
    qed
    have keep: "filter (\<lambda>c. m_Mode (c_Meta c) = Passive \<or> ActiveFor cfg t) cs = fst (drop_active (ActiveFor cfg t) cs)"
      unfolding drop_active_filter
    proof (rule filter_cong [OF refl])
      fix c assume "c \<in> set cs"
      from mode [OF this] show "(m_Mode (c_Meta c) = Passive \<or> ActiveFor cfg t) = (m_Mode (c_Meta c) = Active \<longrightarrow> ActiveFor cfg t)"
        by (auto simp: Passive_def Active_def)
    qed
    have plan: "plan_checks reg cfg False None t = Inr (drop_active (ActiveFor cfg t) cs)"
      using Inr by (simp add: plan_checks_def allowed_def)
    obtain cs' k where d: "drop_active (ActiveFor cfg t) cs = (cs', k)" by fastforce
    have count: "count_runs reg cfg (t # ts) = map_sum id (\<lambda>n. length cs' + n) (count_runs reg cfg ts)"
      using Inr keep d by simp
    show ?thesis
    proof (cases "count_runs reg cfg ts")
      case (Inl e)
      then show ?thesis using Cons.IH plan d by (simp add: count del: count_runs.simps)
    next
      case n: (Inr n)
      then obtain p where "plan_targets reg cfg False None mk ts = Inr p" "n = sum_list (map (\<lambda>j. length (snd j)) (pl_jobs p))"
        using Cons.IH by auto
      then show ?thesis using plan d n by (simp add: count del: count_runs.simps)
    qed
  qed
qed simp

text \<open>
  C39 What \<open>config validate\<close> says is what \<open>run\<close> does: without \<open>--active\<close> and \<open>--only\<close> the number of checks
  it prints is the number of checks the plan of the config holds over all targets, counted without making the plan; it is zero
  exactly where \<open>run\<close> refuses for want of checks, and otherwise fails with the same error.
\<close>

theorem validate_counts_plan:
  assumes "registry_ok reg"
  shows "case count_runs reg cfg (cf_Targets cfg) of
      Inl e \<Rightarrow> planConfig reg cfg False None mk = Inl e
    | Inr n \<Rightarrow> (case planConfig reg cfg False None mk of
          Inl e \<Rightarrow> e = NoJobs \<and> n = 0
        | Inr p \<Rightarrow> 0 < n \<and> n = sum_list (map (\<lambda>j. length (snd j)) (pl_jobs p)))"
proof (cases "count_runs reg cfg (cf_Targets cfg)")
  case (Inl e)
  then show ?thesis using count_runs_plan [OF assms, where cfg = cfg and ts = "cf_Targets cfg" and mk = mk] by (simp add: planConfig_def only_ids_def)
next
  case (Inr n)
  then obtain p where p: "plan_targets reg cfg False None mk (cf_Targets cfg) = Inr p"
      "n = sum_list (map (\<lambda>j. length (snd j)) (pl_jobs p))"
    using count_runs_plan [OF assms, where cfg = cfg and ts = "cf_Targets cfg" and mk = mk] by auto
  have "\<forall>j\<in>set (pl_jobs p). snd j \<noteq> []" using plan_targets_jobs [OF p(1)] by auto
  then have "pl_jobs p \<noteq> [] \<Longrightarrow> 0 < n"
    unfolding p(2) by (cases "pl_jobs p") auto
  then show ?thesis using Inr p by (auto simp: planConfig_def only_ids_def)
qed

definition demo_config :: "unit config" where
  "demo_config = bare_config [bare_target ''example.com'', bare_target ''example.org''] []"

theorem validate_counts_plan_witness:
  "\<exists>p. planConfig demo_registry demo_config False None (\<lambda>t. domain_target (ct_Domain t)) = Inr p \<and>
     sum_list (map (\<lambda>j. length (snd j)) (pl_jobs p)) = 4"
proof -
  have "count_runs demo_registry demo_config (cf_Targets demo_config) = Inr 4" by code_simp
  then show ?thesis
    using validate_counts_plan [OF demo_registry_ok, of demo_config "\<lambda>t. domain_target (ct_Domain t)"]
    by (auto split: sum.splits)
qed

end
