(* ===== verification/SetaConfigYaml.thy ===== *)
theory SetaConfigYaml
  imports SetaConfigLoad
begin

text \<open>
  The parts of internal/config that read YAML nodes themselves: the UnmarshalYAML methods of config.go and, of load.go, the
  outside of Parse, PluginsDir and yamlError. An alias is a name; \<open>anchors\<close> is what it stands for, which may
  contain the alias again, since the parser of yaml.v3 binds a name before it reads what the name stands for. Following aliases
  takes fuel: None is a recursion deeper than the fuel. Parameters: the tags and values of scalars, dates, paths and files.
\<close>

subsection \<open>Settings of plugins\<close>

datatype 's json_any = AnyNull | AnyPlain 's | AnyText string | AnyList "'s json_any list" | AnyMap "(string \<times> 's json_any) list"

text \<open>\<open>Node.ShortTag\<close>, \<open>Node.Decode\<close> on a boolean or number, and whether JSON has that number.\<close>

record 's scalars =
  sr_tag :: "ynode \<Rightarrow> string"
  sr_decode :: "ynode \<Rightarrow> string list + 's"
  sr_finite :: "'s \<Rightarrow> bool"

definition typeError :: "ynode \<Rightarrow> string \<Rightarrow> string list" where
  "typeError n msg = [''line '' @ itoa (p_Line (y_pos n)) @ '': '' @ msg]"

definition is_scalar :: "ynode \<Rightarrow> bool" where
  "is_scalar n \<longleftrightarrow> (case n of YScalar _ _ _ _ \<Rightarrow> True | _ \<Rightarrow> False)"

definition scalar_value :: "'s scalars \<Rightarrow> ynode \<Rightarrow> string list + 's json_any" where
  "scalar_value sr n =
     (if sr_tag sr n = ''!!null'' then Inr AnyNull
      else if sr_tag sr n \<in> {''!!bool'', ''!!int'', ''!!float''} then
        (case sr_decode sr n of
           Inl e \<Rightarrow> Inl e
         | Inr v \<Rightarrow> if \<not> sr_finite sr v then Inl (typeError n (y_Value n @ '' can't be passed to a plugin'')) else Inr (AnyPlain v))
      else Inr (AnyText (y_Value n)))"

fun jsonValue :: "'s scalars \<Rightarrow> (string \<Rightarrow> ynode) \<Rightarrow> nat \<Rightarrow> ynode \<Rightarrow> (string list + 's json_any) option"
and json_entries ::
  "'s scalars \<Rightarrow> (string \<Rightarrow> ynode) \<Rightarrow> nat \<Rightarrow> (ynode \<times> ynode) list \<Rightarrow> (string \<times> 's json_any) list \<Rightarrow>
   (string list + (string \<times> 's json_any) list) option"
and json_items :: "'s scalars \<Rightarrow> (string \<Rightarrow> ynode) \<Rightarrow> nat \<Rightarrow> ynode list \<Rightarrow> (string list + 's json_any list) option" where
  "jsonValue sr anchors 0 (YAlias p a) = None"
| "jsonValue sr anchors (Suc k) (YAlias p a) = jsonValue sr anchors k (anchors a)"
| "jsonValue sr anchors k (YMap p kvs) = map_option (map_sum id AnyMap) (json_entries sr anchors k kvs [])"
| "jsonValue sr anchors k (YSeq p xs) = map_option (map_sum id AnyList) (json_items sr anchors k xs)"
| "jsonValue sr anchors k (YScalar p v tag style) = Some (scalar_value sr (YScalar p v tag style))"
| "json_entries sr anchors k [] m = Some (Inr m)"
| "json_entries sr anchors k ((key, v) # kvs) m =
     (if \<not> is_scalar key then Some (Inl (typeError key ''plugin setting names must be plain strings''))
      else case jsonValue sr anchors k v of
          None \<Rightarrow> None
        | Some (Inl e) \<Rightarrow> Some (Inl e)
        | Some (Inr j) \<Rightarrow> json_entries sr anchors k kvs (AList.update (y_Value key) j m))"
| "json_items sr anchors k [] = Some (Inr [])"
| "json_items sr anchors k (x # xs) =
     (case jsonValue sr anchors k x of
        None \<Rightarrow> None
      | Some (Inl e) \<Rightarrow> Some (Inl e)
      | Some (Inr j) \<Rightarrow> map_option (map_sum id ((#) j)) (json_items sr anchors k xs))"

definition PluginConfig_UnmarshalYAML ::
  "'s scalars \<Rightarrow> (string \<Rightarrow> ynode) \<Rightarrow> nat \<Rightarrow> ynode \<Rightarrow> (string list + 's json_any) option" where
  "PluginConfig_UnmarshalYAML sr anchors k n =
     (case n of
        YScalar _ _ tag _ \<Rightarrow>
          if tag = ''!!null'' then Some (Inr (AnyMap [])) else Some (Inl (typeError n ''plugin settings must be a mapping''))
      | YMap _ _ \<Rightarrow> jsonValue sr anchors k n
      | _ \<Rightarrow> Some (Inl (typeError n ''plugin settings must be a mapping'')))"

subsection \<open>Severities and dates\<close>

text \<open>The loop over the overrides: the errors, and the map.\<close>

fun severity_entries :: "(ynode \<times> ynode) list \<Rightarrow> (string \<times> severity) list \<Rightarrow> string list \<times> (string \<times> severity) list" where
  "severity_entries [] m = ([], m)"
| "severity_entries ((k, v) # kvs) m =
     (case (is_scalar v, ParseSeverity (y_Value v)) of
        (True, Inr sev) \<Rightarrow> severity_entries kvs (AList.update (y_Value k) sev m)
      | _ \<Rightarrow>
        (case severity_entries kvs m of (es, m') \<Rightarrow>
         ((''line '' @ itoa (p_Line (y_pos v)) @ '': invalid severity '' @ go_quote (y_Value v) @ '' for '' @ y_Value k @
           '': want info, low, medium, high or critical'') # es, m')))"

definition SeverityOverrides_UnmarshalYAML :: "ynode \<Rightarrow> string list + (string \<times> severity) list" where
  "SeverityOverrides_UnmarshalYAML n =
     (case n of
        YMap _ kvs \<Rightarrow> (case severity_entries kvs [] of (es, m) \<Rightarrow> if es \<noteq> [] then Inl es else Inr m)
      | _ \<Rightarrow> Inl (typeError n ''severity_overrides must map check IDs to severities''))"

definition Date_UnmarshalYAML :: "(string \<Rightarrow> int option) \<Rightarrow> ynode \<Rightarrow> string list + int" where
  "Date_UnmarshalYAML parse_date n =
     (case parse_date (y_Value n) of
        Some t \<Rightarrow> if is_scalar n then Inr t else Inl (typeError n (''invalid date '' @ go_quote (y_Value n) @ '': want YYYY-MM-DD''))
      | None \<Rightarrow> Inl (typeError n (''invalid date '' @ go_quote (y_Value n) @ '': want YYYY-MM-DD'')))"

subsection \<open>Errors of the yaml package\<close>

text \<open>The regular expression \<open>yamlLine\<close> on a message without its prefix: the digits and the rest.\<close>

definition yaml_line :: "string \<Rightarrow> (string \<times> string) option" where
  "yaml_line msg =
     (case cut_prefix msg ''line '' of
        None \<Rightarrow> None
      | Some s \<Rightarrow>
        let ds = takeWhile is_digit s; t = dropWhile is_digit s in
        if ds = [] \<or> CHR 0x0A \<in> set t then None
        else map_option (\<lambda>rest. (ds, rest)) (cut_prefix t '': ''))"

text \<open>Atoi of a number out of range yields the greatest integer, and its error is ignored.\<close>

definition yamlError :: "string \<Rightarrow> cfg_error" where
  "yamlError msg0 =
     (let msg = trim_prefix msg0 ''yaml: '' in
      case yaml_line msg of
        Some (ds, rest) \<Rightarrow>
          \<lparr>ce_Line = (case atoi ds of Some l \<Rightarrow> l | None \<Rightarrow> 9223372036854775807), ce_Column = 0, ce_Msg = SettingMsg (YamlMessage rest)\<rparr>
      | None \<Rightarrow> \<lparr>ce_Line = 0, ce_Column = 0, ce_Msg = SettingMsg (YamlMessage msg)\<rparr>)"

subsection \<open>Reading the file\<close>

record 'x config_files =
  fi_ReadFile :: "string \<Rightarrow> 'x + string"
  fi_yaml :: "string \<Rightarrow> string + ynode option"
  fi_IsAbs :: "string \<Rightarrow> bool"
  fi_JoinDir :: "string \<Rightarrow> string \<Rightarrow> string"

text \<open>\<open>fi_JoinDir\<close>: filepath.Join of the directory of the first path with the second.\<close>

definition resolveDir :: "'x config_files \<Rightarrow> string \<Rightarrow> string \<Rightarrow> string" where
  "resolveDir fi configPath dir = (if dir = [] \<or> fi_IsAbs fi dir then dir else fi_JoinDir fi configPath dir)"

text \<open>\<open>Parse\<close> with the path, where the YAML text is read first.\<close>

definition config_Parse ::
  "'x config_files \<Rightarrow> 'r parser \<Rightarrow> (ynode \<Rightarrow> cfg_error list + 'j config) \<Rightarrow> string \<Rightarrow> string \<Rightarrow>
   (cfg_error list + 'j config) option" where
  "config_Parse fi p decode path data =
     (case fi_yaml fi data of
        Inl msg \<Rightarrow> Some (Inl [yamlError msg])
      | Inr doc \<Rightarrow>
        map_option (map_sum id (\<lambda>c. c\<lparr>cf_Path := path, cf_PluginsDir := resolveDir fi path (cf_PluginsDir c)\<rparr>)) (Parse p decode doc))"

definition config_Load ::
  "'x config_files \<Rightarrow> 'r parser \<Rightarrow> (ynode \<Rightarrow> cfg_error list + 'j config) \<Rightarrow> string \<Rightarrow>
   (('x + cfg_error list) + 'j config) option" where
  "config_Load fi p decode path =
     (case fi_ReadFile fi path of
        Inl e \<Rightarrow> Some (Inl (Inl e))
      | Inr data \<Rightarrow> map_option (map_sum Inr id) (config_Parse fi p decode path data))"

definition PluginsDir :: "'x config_files \<Rightarrow> (string \<Rightarrow> string option) \<Rightarrow> string \<Rightarrow> string" where
  "PluginsDir fi env path =
     (case fi_ReadFile fi path of
        Inl _ \<Rightarrow> []
      | Inr data \<Rightarrow>
        (case fi_yaml fi data of
           Inl _ \<Rightarrow> []
         | Inr None \<Rightarrow> []
         | Inr (Some root) \<Rightarrow>
           (case y_value (Some root) ''plugins_dir'' of
              Some (YScalar _ v _ _) \<Rightarrow> (case expand env v of Inl _ \<Rightarrow> [] | Inr dir \<Rightarrow> resolveDir fi path dir)
            | _ \<Rightarrow> [])))"

subsection \<open>When aliases end\<close>

fun y_aliases :: "ynode \<Rightarrow> string set" where
  "y_aliases (YScalar _ _ _ _) = {}"
| "y_aliases (YSeq _ xs) = (\<Union>x\<in>set xs. y_aliases x)"
| "y_aliases (YMap _ kvs) = (\<Union>kv\<in>set kvs. y_aliases (snd kv))"
| "y_aliases (YAlias _ a) = {a}"

lemma json_more_fuel:
  shows "jsonValue sr anchors k n = Some r \<Longrightarrow> jsonValue sr anchors (Suc k) n = Some r"
    and "json_entries sr anchors k kvs m = Some s \<Longrightarrow> json_entries sr anchors (Suc k) kvs m = Some s"
    and "json_items sr anchors k xs = Some t \<Longrightarrow> json_items sr anchors (Suc k) xs = Some t"
proof (induction sr anchors k n and sr anchors k kvs m and sr anchors k xs arbitrary: r and s and t
    rule: jsonValue_json_entries_json_items.induct)
  case (7 sr anchors k key v kvs m)
  then show ?case by (auto split: option.splits sum.splits if_splits)
next
  case (9 sr anchors k x xs)
  then show ?case by (auto split: option.splits sum.splits)
qed auto

lemma json_fuel_mono:
  assumes "k \<le> k'"
  shows "jsonValue sr anchors k n = Some r \<Longrightarrow> jsonValue sr anchors k' n = Some r"
    and "json_entries sr anchors k kvs m = Some s \<Longrightarrow> json_entries sr anchors k' kvs m = Some s"
    and "json_items sr anchors k xs = Some t \<Longrightarrow> json_items sr anchors k' xs = Some t"
  using assms by (induction rule: dec_induct) (auto intro: json_more_fuel)

lemma jsonValue_unique:
  "jsonValue sr anchors k n = Some r \<Longrightarrow> jsonValue sr anchors k' n = Some r' \<Longrightarrow> r = r'"
  using json_fuel_mono(1) [of k "max k k'" sr anchors n r] json_fuel_mono(1) [of k' "max k k'" sr anchors n r'] by simp

text \<open>Reading a node gives a value, so that the reading of what surrounds it goes on.\<close>

definition reads :: "'s scalars \<Rightarrow> (string \<Rightarrow> ynode) \<Rightarrow> ynode \<Rightarrow> bool" where
  "reads sr anchors n \<longleftrightarrow> (\<exists>k j. jsonValue sr anchors k n = Some (Inr j))"

definition ends :: "'s scalars \<Rightarrow> (string \<Rightarrow> ynode) \<Rightarrow> ynode \<Rightarrow> bool" where
  "ends sr anchors n \<longleftrightarrow> (\<exists>k. jsonValue sr anchors k n \<noteq> None)"

text \<open>
  Reading a node comes to an alias: the node is one, or an entry or item is reached after ones that could be read. An
  error before it ends the reading.
\<close>

inductive asks :: "'s scalars \<Rightarrow> (string \<Rightarrow> ynode) \<Rightarrow> ynode \<Rightarrow> string \<Rightarrow> bool" for sr anchors where
  here: "asks sr anchors (YAlias p a) a"
| entry: "asks sr anchors v a \<Longrightarrow> is_scalar key \<Longrightarrow> (\<forall>(k', v')\<in>set pre. is_scalar k' \<and> reads sr anchors v') \<Longrightarrow>
    asks sr anchors (YMap p (pre @ (key, v) # post)) a"
| item: "asks sr anchors x a \<Longrightarrow> (\<forall>x'\<in>set pre. reads sr anchors x') \<Longrightarrow> asks sr anchors (YSeq p (pre @ x # post)) a"

inductive_cases asks_mapE: "asks sr anchors (YMap p kvs) a"

lemma asks_aliases: "asks sr anchors n a \<Longrightarrow> a \<in> y_aliases n"
  by (induction rule: asks.induct) auto

lemma entries_reach:
  assumes "json_entries sr anchors k (pre @ (key, v) # post) m \<noteq> None" and "is_scalar key"
    and "\<forall>(k', v')\<in>set pre. is_scalar k' \<and> reads sr anchors v'"
  shows "jsonValue sr anchors k v \<noteq> None"
  using assms(1,3)
proof (induction pre arbitrary: m)
  case Nil
  then show ?case using assms(2) by (auto split: option.splits)
next
  case (Cons kv pre)
  obtain k' v' where kv: "kv = (k', v')" by (cases kv)
  obtain j f where j: "jsonValue sr anchors f v' = Some (Inr j)" using Cons.prems(2) by (auto simp: kv reads_def)
  have "jsonValue sr anchors k v' = Some (Inr j)"
    using Cons.prems jsonValue_unique [OF j] by (auto simp: kv split: option.splits)
  then show ?case using Cons by (simp add: kv)
qed

lemma items_reach:
  assumes "json_items sr anchors k (pre @ x # post) \<noteq> None" and "\<forall>x'\<in>set pre. reads sr anchors x'"
  shows "jsonValue sr anchors k x \<noteq> None"
  using assms
proof (induction pre)
  case Nil
  then show ?case by (auto split: option.splits)
next
  case (Cons x' pre)
  obtain j f where j: "jsonValue sr anchors f x' = Some (Inr j)" using Cons.prems(2) by (auto simp: reads_def)
  have "jsonValue sr anchors k x' = Some (Inr j)"
    using Cons.prems jsonValue_unique [OF j] by (auto split: option.splits)
  then show ?case using Cons by simp
qed

text \<open>What an alias stands for is read with less fuel than the node that asks for it.\<close>

lemma asks_less_fuel:
  "asks sr anchors n a \<Longrightarrow> jsonValue sr anchors k n \<noteq> None \<Longrightarrow> \<exists>k'<k. jsonValue sr anchors k' (anchors a) \<noteq> None"
proof (induction arbitrary: k rule: asks.induct)
  case (here p a)
  then show ?case by (cases k) auto
next
  case (entry v a key pre p post)
  then show ?case using entries_reach [of sr anchors k pre key v post "[]"] by auto
next
  case (item x a pre p post)
  then show ?case using items_reach [of sr anchors k pre x post] by auto
qed

text \<open>A node all of whose aliases end is read to the end.\<close>

lemma entries_end:
  assumes vals: "\<And>kv. kv \<in> set kvs \<Longrightarrow> (\<forall>a. asks sr anchors (snd kv) a \<longrightarrow> ends sr anchors (anchors a)) \<Longrightarrow> ends sr anchors (snd kv)"
    and "\<forall>a. asks sr anchors (YMap p (pre @ kvs)) a \<longrightarrow> ends sr anchors (anchors a)"
    and "\<forall>(k', v')\<in>set pre. is_scalar k' \<and> reads sr anchors v'"
  shows "\<exists>k. json_entries sr anchors k kvs m \<noteq> None"
  using assms
proof (induction kvs arbitrary: pre m)
  case (Cons kv kvs)
  obtain key v where kv: "kv = (key, v)" by (cases kv)
  show ?case
  proof (cases "is_scalar key")
    case False
    then show ?thesis by (simp add: kv)
  next
    case True
    have "asks sr anchors (YMap p (pre @ kv # kvs)) a" if "asks sr anchors v a" for a
      using asks.entry [OF that True Cons.prems(3)] by (simp add: kv)
    then have "ends sr anchors v" using Cons.prems(1) [of kv] Cons.prems(2) by (simp add: kv)
    then obtain k1 r where r: "jsonValue sr anchors k1 v = Some r" by (auto simp: ends_def)
    show ?thesis
    proof (cases r)
      case (Inl e)
      then have "json_entries sr anchors k1 (kv # kvs) m \<noteq> None" using r by (simp add: kv)
      then show ?thesis by blast
    next
      case (Inr j)
      have "\<exists>k. json_entries sr anchors k kvs (AList.update (y_Value key) j m) \<noteq> None"
      proof (rule Cons.IH [of "pre @ [kv]"])
        show "\<forall>(k', v')\<in>set (pre @ [kv]). is_scalar k' \<and> reads sr anchors v'"
          using Cons.prems(3) True r Inr by (auto simp: kv reads_def)
      qed (use Cons.prems in simp_all)
      then obtain k2 s where s: "json_entries sr anchors k2 kvs (AList.update (y_Value key) j m) = Some s" by blast
      have "json_entries sr anchors (max k1 k2) (kv # kvs) m \<noteq> None"
        using json_fuel_mono(1) [OF max.cobounded1 [of k1 k2] r] json_fuel_mono(2) [OF max.cobounded2 [of k2 k1] s] Inr
        by (simp add: kv)
      then show ?thesis by blast
    qed
  qed
qed simp

lemma items_end:
  assumes "\<And>x. x \<in> set xs \<Longrightarrow> (\<forall>a. asks sr anchors x a \<longrightarrow> ends sr anchors (anchors a)) \<Longrightarrow> ends sr anchors x"
    and "\<forall>a. asks sr anchors (YSeq p (pre @ xs)) a \<longrightarrow> ends sr anchors (anchors a)"
    and "\<forall>x'\<in>set pre. reads sr anchors x'"
  shows "\<exists>k. json_items sr anchors k xs \<noteq> None"
  using assms
proof (induction xs arbitrary: pre)
  case (Cons x xs)
  have "asks sr anchors (YSeq p (pre @ x # xs)) a" if "asks sr anchors x a" for a
    using asks.item [OF that Cons.prems(3)] .
  then have "ends sr anchors x" using Cons.prems(1) [of x] Cons.prems(2) by simp
  then obtain k1 r where r: "jsonValue sr anchors k1 x = Some r" by (auto simp: ends_def)
  show ?case
  proof (cases r)
    case (Inl e)
    then have "json_items sr anchors k1 (x # xs) \<noteq> None" using r by simp
    then show ?thesis by blast
  next
    case (Inr j)
    have "\<exists>k. json_items sr anchors k xs \<noteq> None"
      by (rule Cons.IH [of "pre @ [x]"]) (use Cons.prems r Inr in \<open>auto simp: reads_def\<close>)
    then obtain k2 s where s: "json_items sr anchors k2 xs = Some s" by blast
    have "json_items sr anchors (max k1 k2) (x # xs) \<noteq> None"
      using json_fuel_mono(1) [OF max.cobounded1 [of k1 k2] r] json_fuel_mono(3) [OF max.cobounded2 [of k2 k1] s] Inr
      by simp
    then show ?thesis by blast
  qed
qed simp

lemma ends_if_aliases_end:
  "(\<forall>a. asks sr anchors n a \<longrightarrow> ends sr anchors (anchors a)) \<Longrightarrow> ends sr anchors n"
proof (induction n rule: ynode.induct)
  case (YScalar p v tag style)
  then show ?case by (auto simp: ends_def)
next
  case (YSeq p xs)
  then show ?case using items_end [of xs sr anchors p "[]"] by (auto simp: ends_def)
next
  case (YMap p kvs)
  have "\<exists>k. json_entries sr anchors k kvs [] \<noteq> None"
  proof (rule entries_end [where pre = "[]" and p = p])
    fix kv :: "ynode \<times> ynode"
    assume mem: "kv \<in> set kvs" "\<forall>a. asks sr anchors (snd kv) a \<longrightarrow> ends sr anchors (anchors a)"
    obtain key v where kv: "kv = (key, v)" by (cases kv)
    show "ends sr anchors (snd kv)" using YMap.IH(2) [of kv v] mem by (simp add: kv)
  qed (use YMap.prems in simp_all)
  then show ?case by (auto simp: ends_def)
next
  case (YAlias p a)
  then obtain k where "jsonValue sr anchors k (anchors a) \<noteq> None" using asks.here by (fastforce simp: ends_def)
  then show ?case unfolding ends_def by (intro exI [of _ "Suc k"]) simp
qed

text \<open>The alias \<open>a\<close> stands for a node whose reading comes to the alias \<open>b\<close>.\<close>

definition alias_refs :: "'s scalars \<Rightarrow> (string \<Rightarrow> ynode) \<Rightarrow> (string \<times> string) set" where
  "alias_refs sr anchors = {(a, b). asks sr anchors (anchors a) b}"

lemma refs_less_fuel:
  "(a, b) \<in> (alias_refs sr anchors)\<^sup>+ \<Longrightarrow> jsonValue sr anchors k (anchors a) \<noteq> None \<Longrightarrow>
   \<exists>k'<k. jsonValue sr anchors k' (anchors b) \<noteq> None"
proof (induction rule: trancl_induct)
  case (base b)
  then show ?case using asks_less_fuel [of sr anchors "anchors a" b k] by (simp add: alias_refs_def)
next
  case (step b c)
  then obtain k' where "k' < k" "jsonValue sr anchors k' (anchors b) \<noteq> None" by blast
  then show ?case
    using asks_less_fuel [of sr anchors "anchors b" c k'] step.hyps(2) unfolding alias_refs_def
    by (metis case_prodD less_trans mem_Collect_eq)
qed

lemma cycle_never_ends: "(a, a) \<in> (alias_refs sr anchors)\<^sup>+ \<Longrightarrow> \<not> ends sr anchors (anchors a)"
proof
  assume c: "(a, a) \<in> (alias_refs sr anchors)\<^sup>+" and "ends sr anchors (anchors a)"
  then obtain k where "jsonValue sr anchors k (anchors a) \<noteq> None" by (auto simp: ends_def)
  then show False
    by (induction k rule: less_induct) (use refs_less_fuel [OF c] in blast)
qed

lemma ends_asks: "ends sr anchors n \<Longrightarrow> asks sr anchors n a \<Longrightarrow> ends sr anchors (anchors a)"
  using asks_less_fuel unfolding ends_def by blast

lemma ends_refs: "(a, b) \<in> (alias_refs sr anchors)\<^sup>* \<Longrightarrow> ends sr anchors (anchors a) \<Longrightarrow> ends sr anchors (anchors b)"
  by (induction rule: rtrancl_induct) (auto simp: alias_refs_def intro: ends_asks)

lemma refs_within:
  "(a, b) \<in> (alias_refs sr anchors)\<^sup>* \<Longrightarrow> a \<in> A \<Longrightarrow> \<forall>a\<in>A. y_aliases (anchors a) \<subseteq> A \<Longrightarrow> b \<in> A"
  by (induction rule: rtrancl_induct) (auto simp: alias_refs_def dest: asks_aliases)

text \<open>
  C40 Reading the settings of a plugin ends - with a value or an error - exactly when it comes to no alias from which the
  reading leads back to that alias; what stands after an error is not read and does not matter. The code has no
  bound: where it does not end the program dies by exhausting its stack, although the YAML parser accepts such a config.
  \<open>A\<close> holds the aliases of the document.
\<close>

theorem jsonValue_ends_iff_no_cycle:
  assumes "finite A" and "y_aliases n \<subseteq> A" and "\<forall>a\<in>A. y_aliases (anchors a) \<subseteq> A"
  shows "(\<exists>fuel. jsonValue sr anchors fuel n \<noteq> None) \<longleftrightarrow>
    \<not> (\<exists>a b. asks sr anchors n a \<and> (a, b) \<in> (alias_refs sr anchors)\<^sup>* \<and> (b, b) \<in> (alias_refs sr anchors)\<^sup>+)"
    (is "?E \<longleftrightarrow> \<not> ?C")
proof
  assume "?E"
  then have "ends sr anchors n" by (simp add: ends_def)
  then show "\<not> ?C" using ends_asks ends_refs cycle_never_ends by blast
next
  assume no: "\<not> ?C"
  define S where "S = {b. \<exists>a. asks sr anchors n a \<and> (a, b) \<in> (alias_refs sr anchors)\<^sup>*}"
  define Q where "Q = alias_refs sr anchors \<inter> S \<times> S"
  have "S \<subseteq> A" using asks_aliases assms(2) refs_within [OF _ _ assms(3)] unfolding S_def by blast
  then have "finite Q" using finite_subset [OF _ assms(1)] by (auto simp: Q_def)
  moreover have "acyclic Q"
  proof (rule acyclicI, rule allI, rule notI)
    fix b assume b: "(b, b) \<in> Q\<^sup>+"
    then have "(b, b) \<in> (alias_refs sr anchors)\<^sup>+" by (rule trancl_mono) (simp add: Q_def)
    moreover have "b \<in> S" using b by (induction rule: trancl_induct) (simp_all add: Q_def)
    ultimately show False using no unfolding S_def by blast
  qed
  ultimately have "wf (Q\<inverse>)" by (rule finite_acyclic_wf_converse)
  then have S_ends: "b \<in> S \<longrightarrow> ends sr anchors (anchors b)" for b
  proof (induction b rule: wf_induct_rule)
    case (less b)
    show ?case
    proof
      assume b: "b \<in> S"
      have "ends sr anchors (anchors c)" if c: "asks sr anchors (anchors b) c" for c
      proof -
        have "(b, c) \<in> alias_refs sr anchors" using c by (simp add: alias_refs_def)
        moreover from this have "c \<in> S" using b unfolding S_def by (blast intro: rtrancl_into_rtrancl)
        ultimately show ?thesis using less [of c] b by (simp add: Q_def)
      qed
      then show "ends sr anchors (anchors b)" using ends_if_aliases_end by blast
    qed
  qed
  have "ends sr anchors (anchors a)" if "asks sr anchors n a" for a
    using that S_ends [of a] unfolding S_def by blast
  then show "?E" using ends_if_aliases_end [of sr anchors n] by (simp add: ends_def)
qed

definition demo_scalars :: "unit scalars" where
  "demo_scalars = \<lparr>sr_tag = (\<lambda>_. ''!!str''), sr_decode = (\<lambda>_. Inr ()), sr_finite = (\<lambda>_. True)\<rparr>"

text \<open>The settings \<open>&a {b: *a}\<close>, and the same after a name that is no plain string, which ends the reading.\<close>

definition demo_alias :: ynode where
  "demo_alias = YMap (pos 1 1) [(YScalar (pos 1 1) ''b'' [] 0, YAlias (pos 1 4) ''a'')]"

definition demo_bad_first :: ynode where
  "demo_bad_first = YMap (pos 1 1) [(YSeq (pos 1 1) [], YScalar (pos 1 2) ''v'' [] 0), (YScalar (pos 2 1) ''b'' [] 0, YAlias (pos 2 4) ''a'')]"

lemma demo_asks: "asks demo_scalars anchors demo_alias ''a''" "\<not> asks demo_scalars anchors demo_bad_first a"
proof -
  show "asks demo_scalars anchors demo_alias ''a''"
    using asks.entry [OF asks.here [of demo_scalars anchors "pos 1 4" "''a''"], where pre = "[]" and post = "[]"
        and key = "YScalar (pos 1 1) ''b'' [] 0" and p = "pos 1 1"]
    by (simp add: is_scalar_def demo_alias_def)
  show "\<not> asks demo_scalars anchors demo_bad_first a"
  proof
    assume "asks demo_scalars anchors demo_bad_first a"
    then obtain pre key v post where
      kvs: "[(YSeq (pos 1 1) [], YScalar (pos 1 2) ''v'' [] 0), (YScalar (pos 2 1) ''b'' [] 0, YAlias (pos 2 4) ''a'')] =
        pre @ (key, v) # post" "is_scalar key" "\<forall>(k', v')\<in>set pre. is_scalar k' \<and> reads demo_scalars anchors v'"
      unfolding demo_bad_first_def by (elim asks_mapE) blast
    have "\<not> is_scalar (YSeq (pos 1 1) [])" by (simp add: is_scalar_def)
    then show False using kvs by (cases pre) auto
  qed
qed

theorem jsonValue_ends_iff_no_cycle_witness:
  "PluginConfig_UnmarshalYAML demo_scalars (\<lambda>_. demo_alias) 1000 demo_alias = None \<and>
   (\<exists>fuel. PluginConfig_UnmarshalYAML demo_scalars (\<lambda>_. demo_bad_first) fuel demo_bad_first \<noteq> None)"
proof
  have closed: "y_aliases demo_alias \<subseteq> {''a''}" "y_aliases demo_bad_first \<subseteq> {''a''}"
    by (simp_all add: demo_alias_def demo_bad_first_def)
  have "(''a'', ''a'') \<in> alias_refs demo_scalars (\<lambda>_. demo_alias)" using demo_asks(1) by (simp add: alias_refs_def)
  then have "\<not> (\<exists>fuel. jsonValue demo_scalars (\<lambda>_. demo_alias) fuel demo_alias \<noteq> None)"
    using jsonValue_ends_iff_no_cycle [of "{''a''}" demo_alias "\<lambda>_. demo_alias" demo_scalars] closed(1) demo_asks(1) by blast
  then show "PluginConfig_UnmarshalYAML demo_scalars (\<lambda>_. demo_alias) 1000 demo_alias = None"
    by (simp add: PluginConfig_UnmarshalYAML_def demo_alias_def)
  have "\<exists>fuel. jsonValue demo_scalars (\<lambda>_. demo_bad_first) fuel demo_bad_first \<noteq> None"
    using jsonValue_ends_iff_no_cycle [of "{''a''}" demo_bad_first "\<lambda>_. demo_bad_first" demo_scalars] closed(2) demo_asks(2) by blast
  then show "\<exists>fuel. PluginConfig_UnmarshalYAML demo_scalars (\<lambda>_. demo_bad_first) fuel demo_bad_first \<noteq> None"
    by (simp add: PluginConfig_UnmarshalYAML_def demo_bad_first_def)
qed

end
