(* ===== verification/SetaSmtp.thy ===== *)
theory SetaSmtp
  imports SetaEmailMail
begin

text \<open>
  The two conversations the e-mail and DNS parts hold themselves: the SMTP session of probeSMTP (checks/email/starttls.go), and how
  a query reaches a server (exchanger, dohExchange, SystemServers of internal/dnsx/client.go). The peer is a parameter: what
  it answers, given what was sent so far. Parameters as well: the TLS handshake, X.509 verification, packing of DNS messages.
\<close>

subsection \<open>SMTP\<close>

datatype smtp_command = EHLO | STARTTLS | QUIT

text \<open>A reply, or none: then textproto reports code 0.\<close>

datatype smtp_reply = Broken | Reply nat string

datatype handshake_failure = ContextEnded string | HandshakeFailed string

text \<open>\<open>sm_write\<close>: the last of the commands could be written.\<close>

record smtp_peer =
  sm_dial :: "string option"
  sm_reply :: "smtp_command list \<Rightarrow> smtp_reply"
  sm_write :: "smtp_command list \<Rightarrow> bool"
  sm_handshake :: "handshake_failure + cert list \<times> string"
  sm_verify :: "cert list \<Rightarrow> string option"
  sm_error :: "smtp_reply \<Rightarrow> string"

text \<open>textproto's ReadResponse for a code of three digits: \<open>Inl\<close> is an error with its code and text.\<close>

definition ReadResponse :: "nat \<Rightarrow> smtp_reply \<Rightarrow> nat \<times> string + string" where
  "ReadResponse expect r =
     (case r of Broken \<Rightarrow> Inl (0, []) | Reply code msg \<Rightarrow> if code = expect then Inr msg else Inl (code, msg))"

definition smtpCmd :: "smtp_peer \<Rightarrow> nat \<Rightarrow> smtp_command list \<Rightarrow> nat \<times> string + string" where
  "smtpCmd pe expect sent = (if sm_write pe sent then ReadResponse expect (sm_reply pe sent) else Inl (0, []))"

text \<open>The loop over the lines of the EHLO reply.\<close>

definition advertises_STARTTLS :: "string \<Rightarrow> bool" where
  "advertises_STARTTLS ext =
     list_ex (\<lambda>l. equal_fold (fst (cut CHR '' '' (trim_space l))) ''STARTTLS'') (split_on CHR 0x0A ext)"

definition verifyChain :: "smtp_peer \<Rightarrow> cert list \<Rightarrow> string option" where
  "verifyChain pe chain = (if chain = [] then Some ''server sent no certificate'' else sm_verify pe chain)"

text \<open>The outcome, the commands sent in the clear, and those sent under TLS.\<close>

definition probeSMTP :: "smtp_peer \<Rightarrow> string \<Rightarrow> (smtp_error + smtp_probe) \<times> smtp_command list \<times> smtp_command list" where
  "probeSMTP pe host =
     (case sm_dial pe of
        Some e \<Rightarrow> (Inl (ConnectErr (''connect to '' @ host @ '':25: '' @ e)), [], [])
      | None \<Rightarrow>
        (case ReadResponse 220 (sm_reply pe []) of
           Inl (code, msg) \<Rightarrow>
             (Inl (ConnectErr (if code = 0 then host @ '':25 closed the connection without a greeting''
                else host @ '':25 refused the session: '' @ nat_digits code @ '' '' @ msg)), [], [])
         | Inr _ \<Rightarrow>
           (case smtpCmd pe 250 [EHLO] of
              Inl _ \<Rightarrow> (Inl (SessionErr (host @ '' rejected EHLO: '' @ sm_error pe (sm_reply pe [EHLO]))), [EHLO], [])
            | Inr ext \<Rightarrow>
              let p = \<lparr>pr_Host = host, pr_STARTTLS = advertises_STARTTLS ext, pr_TLSErr = None, pr_Chain = [], pr_Verify = None,
                 pr_Version = []\<rparr> in
              if \<not> advertises_STARTTLS ext then (Inr p, [EHLO, QUIT], [])
              else case smtpCmd pe 220 [EHLO, STARTTLS] of
                  Inl (code, msg) \<Rightarrow>
                    (Inr (p\<lparr>pr_TLSErr := Some (''STARTTLS answered '' @ nat_digits code @ '' '' @ msg)\<rparr>), [EHLO, STARTTLS], [])
                | Inr _ \<Rightarrow>
                  (case sm_handshake pe of
                     Inl (ContextEnded e) \<Rightarrow> (Inl (SessionErr e), [EHLO, STARTTLS], [])
                   | Inl (HandshakeFailed e) \<Rightarrow>
                       (Inr (p\<lparr>pr_TLSErr := Some (''TLS handshake failed: '' @ e)\<rparr>), [EHLO, STARTTLS], [])
                   | Inr (chain, version) \<Rightarrow>
                       (Inr (p\<lparr>pr_Chain := chain, pr_Version := version, pr_Verify := verifyChain pe chain\<rparr>),
                        [EHLO, STARTTLS], [QUIT])))))"

text \<open>
  What a session can say: nothing is sent before a greeting with code 220; STARTTLS only where it was advertised, and then
  nothing more in the clear; a certificate is only seen under TLS, and no error of TLS is reported with one.
\<close>

lemma probeSMTP_session:
  "case probeSMTP pe host of (res, plain, sealed) \<Rightarrow>
     (plain \<noteq> [] \<longrightarrow> sm_dial pe = None \<and> (\<exists>msg. sm_reply pe [] = Reply 220 msg)) \<and>
     (STARTTLS \<in> set plain \<longrightarrow> plain = [EHLO, STARTTLS] \<and>
       (\<exists>ext. sm_reply pe [EHLO] = Reply 250 ext \<and> advertises_STARTTLS ext)) \<and>
     set sealed \<subseteq> {QUIT} \<and>
     (case res of
        Inl (ConnectErr _) \<Rightarrow> plain = []
      | Inl (SessionErr _) \<Rightarrow> sealed = []
      | Inr p \<Rightarrow> pr_Host p = host \<and> (pr_STARTTLS p \<longleftrightarrow> STARTTLS \<in> set plain) \<and> (pr_Chain p \<noteq> [] \<longrightarrow> sealed = [QUIT] \<and> pr_TLSErr p = None))"
  by (auto simp: probeSMTP_def smtpCmd_def ReadResponse_def Let_def
      split: option.splits sum.splits smtp_reply.splits if_splits handshake_failure.splits prod.splits)

text \<open>A finding that STARTTLS is unsupported says what happened in the session.\<close>

lemma starttls_unsupported_session:
  assumes "probeSMTP pe host = (Inr p, plain, sealed)" and "sealed = [QUIT]"
  shows "starttls_unsupported p = None"
  using assms
  by (auto simp: probeSMTP_def starttls_unsupported_def Let_def
      split: option.splits sum.splits if_splits handshake_failure.splits prod.splits)

subsection \<open>How a query reaches a server\<close>

text \<open>\<open>ex_udp\<close>: the answer and whether it was truncated.\<close>

record 'e transports =
  ex_dot :: "server \<Rightarrow> query \<Rightarrow> 'e + SetaDnsx.message"
  ex_udp :: "server \<Rightarrow> query \<Rightarrow> 'e + bool \<times> SetaDnsx.message"
  ex_tcp :: "server \<Rightarrow> query \<Rightarrow> 'e + SetaDnsx.message"
  ex_pack :: "query \<Rightarrow> 'e + string"
  ex_post :: "server \<Rightarrow> string \<Rightarrow> 'e + http_reply"
  ex_unpack :: "string \<Rightarrow> ((string \<times> nat) list \<times> SetaDnsx.message) option"
  ex_doh_error :: "doh_error \<Rightarrow> 'e"

definition dohExchange :: "'e transports \<Rightarrow> server \<Rightarrow> query \<Rightarrow> 'e + SetaDnsx.message" where
  "dohExchange ex s q =
     (case ex_pack ex q of
        Inl e \<Rightarrow> Inl e
      | Inr wire \<Rightarrow>
        (case ex_post ex s wire of
           Inl e \<Rightarrow> Inl e
         | Inr r \<Rightarrow> map_sum (ex_doh_error ex) id (doh_reply (ex_unpack ex) q r)))"

definition exchanger :: "'e transports \<Rightarrow> server \<Rightarrow> query \<Rightarrow> 'e + SetaDnsx.message" where
  "exchanger ex s q =
     (if sv_Transport s = TLS then ex_dot ex s q
      else if sv_Transport s = HTTPS then dohExchange ex s q
      else case ex_udp ex s q of
          Inl e \<Rightarrow> Inl e
        | Inr (truncated, m) \<Rightarrow> if truncated then ex_tcp ex s q else Inr m)"

text \<open>/etc/resolv.conf: its servers and the port, as scanned; \<open>addr_port\<close> is AddrPort.String.\<close>

definition SystemServers ::
  "(string \<Rightarrow> addr option) \<Rightarrow> (addr \<Rightarrow> int \<Rightarrow> string) \<Rightarrow> (string list \<times> int option) option \<Rightarrow> string list option" where
  "SystemServers parse_addr addr_port conf =
     (case conf of
        None \<Rightarrow> None
      | Some (servers, port) \<Rightarrow>
        let ss = map (\<lambda>a. addr_port a (parsePort port)) (List.map_filter parse_addr servers) in
        if ss = [] then None else Some ss)"

text \<open>An encrypted server is asked over no plain transport, and a truncated answer is never used.\<close>

lemma exchanger_plain:
  "sv_Transport s = TLS \<or> sv_Transport s = HTTPS \<Longrightarrow> exchanger (ex\<lparr>ex_udp := u, ex_tcp := t\<rparr>) s q = exchanger ex s q"
  by (auto simp: exchanger_def dohExchange_def split: sum.split)

lemma exchanger_truncated:
  "ex_udp ex s q = Inr (True, m) \<Longrightarrow> sv_Transport s \<noteq> TLS \<Longrightarrow> sv_Transport s \<noteq> HTTPS \<Longrightarrow> exchanger ex s q = ex_tcp ex s q"
  by (simp add: exchanger_def)

end
