(* ===== verification/SetaMailer.thy ===== *)
theory SetaMailer
  imports SetaNotifyText
begin

text \<open>
  The SMTP session of internal/notify/email.go (\<open>Email.send\<close>) on net/smtp: which operations it performs, which of them are
  encrypted, and how a failure ends it. Parameters: what the server offers and which operation fails. smtp.PlainAuth
  sends nothing on an unencrypted connection to another host, as documented.
\<close>

datatype mail_op =
    Dial | Greeting | StartTLS | AuthPlain string string | MailFrom string | RcptTo string | DataCommand | Body string | EndData | QuitCommand

datatype mail_refusal = NoStartTLS | UnencryptedAuth

datatype 'x mail_error = Refused mail_refusal | OpFailed mail_op 'x

record mail_settings =
  em_Host :: string
  em_TLS :: string
  em_Username :: string
  em_Password :: string
  em_From :: string
  em_To :: "string list"

definition is_localhost :: "string \<Rightarrow> bool" where
  "is_localhost host \<longleftrightarrow> host \<in> {''localhost'', ''127.0.0.1'', ''::1''}"

text \<open>\<open>Email.send\<close>: the operations in order, each with whether the connection is encrypted, up to an error of its own.\<close>

definition mail_session :: "mail_settings \<Rightarrow> bool \<Rightarrow> string \<Rightarrow> (mail_op \<times> bool) list \<times> mail_refusal option" where
  "mail_session e offers_starttls msg =
     (let implicit = em_TLS e = TLSImplicit;
          start = [(Dial, False), (Greeting, implicit)];
          after = (\<lambda>enc. map (\<lambda>to. (RcptTo to, enc)) (em_To e) @ [(DataCommand, enc), (Body msg, enc), (EndData, enc), (QuitCommand, enc)]) in
      if em_TLS e = TLSStartTLS \<and> \<not> offers_starttls then (start, Some NoStartTLS)
      else
        let enc = implicit \<or> em_TLS e = TLSStartTLS;
            ops = start @ (if em_TLS e = TLSStartTLS then [(StartTLS, implicit)] else []) in
        if em_Username e \<noteq> [] \<and> \<not> enc \<and> \<not> is_localhost (em_Host e) then (ops, Some UnencryptedAuth)
        else
          (ops @ (if em_Username e \<noteq> [] then [(AuthPlain (em_Username e) (em_Password e), enc)] else []) @
             [(MailFrom (em_From e), enc)] @ after enc, None))"

text \<open>An operation that fails ends the session; it was attempted.\<close>

fun run_session :: "(mail_op \<Rightarrow> 'x option) \<Rightarrow> (mail_op \<times> bool) list \<Rightarrow> 'x mail_error option \<times> (mail_op \<times> bool) list" where
  "run_session fails [] = (None, [])"
| "run_session fails ((x, enc) # ops) =
     (case fails x of
        Some e \<Rightarrow> (Some (OpFailed x e), [(x, enc)])
      | None \<Rightarrow> (case run_session fails ops of (r, did) \<Rightarrow> (r, (x, enc) # did)))"

definition Email_send :: "mail_settings \<Rightarrow> bool \<Rightarrow> string \<Rightarrow> (mail_op \<Rightarrow> 'x option) \<Rightarrow> 'x mail_error option \<times> (mail_op \<times> bool) list" where
  "Email_send e offers_starttls msg fails =
     (case mail_session e offers_starttls msg of (ops, own) \<Rightarrow>
      case run_session fails ops of (r, did) \<Rightarrow> ((case r of None \<Rightarrow> map_option Refused own | Some _ \<Rightarrow> r), did))"

text \<open>The server has taken the message once it confirms the end of the data.\<close>

definition accepted :: "(mail_op \<Rightarrow> 'x option) \<Rightarrow> (mail_op \<times> bool) list \<Rightarrow> bool" where
  "accepted fails did \<longleftrightarrow> fails EndData = None \<and> EndData \<in> fst ` set did"

text \<open>\<open>permanent\<close>: \<open>code\<close> is the code of an error that is a reply, None for any other.\<close>

definition mail_permanent :: "('x \<Rightarrow> nat option) \<Rightarrow> 'x mail_error \<Rightarrow> bool" where
  "mail_permanent code r =
     (case r of OpFailed _ e \<Rightarrow> (case code e of Some c \<Rightarrow> 500 \<le> c | None \<Rightarrow> False) | _ \<Rightarrow> False)"

subsection \<open>Secrets and acceptance\<close>

lemma run_session_prefix: "run_session fails ops = (r, did) \<Longrightarrow> set did \<subseteq> set ops"
proof (induction ops arbitrary: r did)
  case (Cons op ops)
  then show ?case by (cases op) (fastforce split: option.splits prod.splits)
qed simp

lemma run_session_end:
  "run_session fails ops = (r, did) \<Longrightarrow>
    (case r of None \<Rightarrow> did = ops \<and> (\<forall>x\<in>fst ` set ops. fails x = None)
     | Some (OpFailed x e) \<Rightarrow> fails x = Some e \<and> (\<exists>pre post enc. ops = pre @ (x, enc) # post \<and> did = pre @ [(x, enc)] \<and> (\<forall>y\<in>fst ` set pre. fails y = None))
     | Some _ \<Rightarrow> False)"
proof (induction ops arbitrary: r did)
  case (Cons op ops)
  obtain x enc where op: "op = (x, enc)" by (cases op)
  show ?case
  proof (cases "fails x")
    case (Some e)
    then show ?thesis using Cons.prems op by auto
  next
    case None
    obtain r' did' where r': "run_session fails ops = (r', did')" by fastforce
    then have "r = r'" "did = (x, enc) # did'" using Cons.prems op None by auto
    then show ?thesis
      using Cons.IH [OF r'] op None
      by (auto split: option.splits mail_error.splits)
  qed
qed simp

text \<open>An operation that carries the credentials, the addresses or the message.\<close>

fun carries_content :: "mail_op \<Rightarrow> bool" where
  "carries_content (AuthPlain u p) = True"
| "carries_content (MailFrom a) = True"
| "carries_content (RcptTo a) = True"
| "carries_content (Body m) = True"
| "carries_content x = False"

lemma Email_send_did: "set (snd (Email_send e offers msg fails)) \<subseteq> set (fst (mail_session e offers msg))"
proof -
  obtain ops own where m: "mail_session e offers msg = (ops, own)" by (cases "mail_session e offers msg")
  obtain r did where r: "run_session fails ops = (r, did)" by (cases "run_session fails ops")
  show ?thesis using run_session_prefix [OF r] by (simp add: Email_send_def m r)
qed

lemma mail_session_encrypts:
  "em_TLS e \<in> {TLSStartTLS, TLSImplicit} \<Longrightarrow> (x, enc) \<in> set (fst (mail_session e offers msg)) \<Longrightarrow> carries_content x \<Longrightarrow> enc"
  unfolding mail_session_def Let_def by (auto split: if_splits)

lemma mail_session_password:
  "(AuthPlain u p, enc) \<in> set (fst (mail_session e offers msg)) \<Longrightarrow> enc \<or> is_localhost (em_Host e)"
  unfolding mail_session_def Let_def by (auto split: if_splits)

text \<open>
  \<open>Email.send\<close> with \<open>tls: starttls\<close> or \<open>tls: tls\<close> never puts the credentials, an address or the message on an
  unencrypted connection, whatever the server offers and whichever operation fails; in any mode, \<open>tls: none\<close> included,
  the password goes out unencrypted to this host at most.\<close>

lemma mailer_secrecy:
  "(x, enc) \<in> set (snd (Email_send e offers msg fails)) \<Longrightarrow>
   (em_TLS e \<in> {TLSStartTLS, TLSImplicit} \<longrightarrow> carries_content x \<longrightarrow> enc) \<and>
   (\<forall>u p. x = AuthPlain u p \<longrightarrow> enc \<or> is_localhost (em_Host e))"
  using Email_send_did [of e offers msg fails] mail_session_encrypts [of e x enc offers msg]
    mail_session_password [of _ _ enc e offers msg] by blast

text \<open>A send that reports success was accepted by the server.\<close>

lemma mail_session_complete: "mail_session e offers msg = (ops, None) \<Longrightarrow> EndData \<in> fst ` set ops"
  unfolding mail_session_def Let_def by (auto split: if_splits)

lemma Email_send_accepted: "Email_send e offers msg fails = (None, did) \<Longrightarrow> accepted fails did"
proof -
  assume send: "Email_send e offers msg fails = (None, did)"
  obtain ops own where m: "mail_session e offers msg = (ops, own)" by (cases "mail_session e offers msg")
  obtain r did' where r: "run_session fails ops = (r, did')" by (cases "run_session fails ops")
  have "r = None" "own = None" "did' = did" using send by (auto simp: Email_send_def m r split: option.splits)
  then show ?thesis
    using run_session_end [OF r] mail_session_complete [of e offers msg ops] m by (auto simp: accepted_def)
qed

text \<open>The message can be accepted and the send still fail: QUIT's reply decides. It is then sent again.\<close>

lemma quit_failure_after_acceptance:
  assumes "mail_session e offers msg = (ops, None)" "\<And>x. fails x = (if x = QuitCommand then Some q else None)"
  shows "Email_send e offers msg fails = (Some (OpFailed QuitCommand q), ops) \<and> accepted fails ops"
proof -
  have run: "run_session fails (xs @ [(QuitCommand, c)]) = (Some (OpFailed QuitCommand q), xs @ [(QuitCommand, c)])"
    if "QuitCommand \<notin> fst ` set xs" for xs c
    using that by (induction xs) (auto simp: assms(2))
  obtain xs c where xs: "ops = xs @ [(QuitCommand, c)]" "QuitCommand \<notin> fst ` set xs"
    using assms(1) unfolding mail_session_def Let_def by (fastforce split: if_splits)
  have "run_session fails ops = (Some (OpFailed QuitCommand q), ops)" unfolding xs(1) by (rule run [OF xs(2)])
  then show ?thesis
    using mail_session_complete [OF assms(1)] by (simp add: Email_send_def accepted_def assms)
qed

lemma duplicate_mail:
  assumes "mail_session e offers msg = (ops, None)" "\<And>x. fails x = (if x = QuitCommand then Some q else None)"
    "\<not> (\<exists>c\<ge>500. code q = Some c)"
  shows "Email_Send (\<lambda>_. fst (Email_send e offers msg fails)) (mail_permanent code) (\<lambda>_. None) (\<lambda>_. False) =
           Some (EmailGaveUp (OpFailed QuitCommand q))"
    and "accepted fails (snd (Email_send e offers msg fails))"
  using quit_failure_after_acceptance [OF assms(1,2)] assms(3)
  by (auto simp: Email_Send_def emailAttempts_def mail_permanent_def numeral_3_eq_3 split: option.splits)

end
