(* ===== verification/Spec2Isabelle.thy ===== *)
theory Spec2Isabelle
  imports SetaEngine SetaState SetaBaseline SetaNetx SetaConfigLoad SetaSpfEval SetaNotifyText SetaDaemon
    SetaEmailSpec SetaDnsChecks SetaTakeover SetaTls SetaHttp SetaCatalog SetaInit SetaCommands
    SetaConfigYaml SetaSmtp SetaMailer
begin

text \<open>
  Seta (Go, under src/) scans domains: it runs checks of their DNS, mail, TLS and HTTP set-up,
  keeps the history of what they find, and reports or notifies what changed. This development
  models the logic of the program and proves what it promises.

  \<^bold>\<open>The parts and how they interact.\<close> A command or the daemon (internal/cli, internal/daemon) reads a
  configuration (internal/config), selects checks from the registry (internal/registry) and hands
  jobs, a check and a target each, to the engine (internal/engine). Checks (checks/...) look things up through a
  cached resolver (internal/dnsx, internal/netx), share expensive results in a memo
  (internal/core/memo.go) and return findings, which the engine completes and sorts. The
  configuration then re-rates and suppresses findings, a baseline (internal/baseline) hides known
  ones, the state database (internal/state) turns a run into changes, and the notifiers
  (internal/notify) deliver the changes. Every part takes what another gives it as an argument of its
  definitions; SetaDaemon and SetaCli compose them as the code does.

  \<^bold>\<open>Theories.\<close> Each opens with what it holds; definitions keep the names of the Go functions, record fields
  carry a prefix.
  \<^item> SetaPrelude: Go's byte strings, the functions of strings, strconv, cmp and slices, results as sums,
    the collection \<open>go_simps\<close>. SetaOrder: comparators, and the locale \<open>sorter\<close>, the contract of
    slices.SortFunc; every comparator of the program is an interpretation of it.
  \<^item> SetaCore: severity.go, check.go, finding.go, target.go of internal/core. SetaMemo: memo.go and the
    single-flight part of dnsx/cache.go as a step relation over any number of callers.
  \<^item> SetaGlob, SetaRegistry: the pattern matcher, Register, Lookup and Select.
  \<^item> SetaEngine: normalize, runOne with every race of its select statement, and the worker pool of Run.
  \<^item> SetaNetip, SetaDnsx, SetaNetx: addresses, the resolver client, its cache, the probe, the test fake, address
    lookup and dialling. The locale \<open>resolver\<close> is the contract of a resolver; the client and the
    fake are interpretations.
  \<^item> SetaConfig, SetaConfigLoad, SetaConfigYaml: config.go, apply.go and load.go; a YAML document is a tree of
    nodes, whose aliases only SetaConfigYaml follows.
  \<^item> SetaState: diff.go and store.go; the tables are association lists, Record is the fold of the
    code. SetaBaseline: baseline.go.
  \<^item> SetaNotify, SetaHttpPost, SetaNotifyText: delivery with pending changes over the locale \<open>kv_store\<close>
    (interpreted on the state database), retries, rendered texts and their packing (locale \<open>text_measure\<close>,
    interpreted on UTF-16 units and code points). SetaMailer: the operations of a mail session and what they encrypt.
  \<^item> SetaCli, SetaDaemon: planning, choice of the resolver, exit codes; the scheduler as a step relation, the
    health page, and a daemon's run as the composition of the parts.
  \<^item> SetaSpf, SetaSpfEval, SetaTags: the records of the mail checks and the evaluation of SPF. SetaEmail,
    SetaEmailAuth, SetaEmailMail: the 25 mail checks; SetaEmailSpec: what holds of them. SetaSmtp: the SMTP
    session of the STARTTLS checks, and how the DNS client reaches a server.
  \<^item> SetaDnssec, SetaDnsChecks, SetaTakeover: the checks of checks/dns. SetaWeb: how the web checks reach a
    host (checks/internal/web), with the locale \<open>host_probe\<close>, the contract of a probe of each host, interpreted
    on handshakes and on requests. SetaTls, SetaHttp: the checks of checks/tls and checks/http.
  \<^item> SetaReport, SetaSarif: the reports of internal/report, as text (table, Markdown) and as documents (JSON,
    SARIF), with a reader of Markdown as reference. SetaRunes: UTF-8.
  \<^item> SetaPlugin: package sdk and internal/plugin, both ends of the plugin protocol, discovery and execution.
    SetaPluginHost: the registration of plugins (cli/plugins.go). SetaCatalog: the metadata of the 49 built-in
    checks and their registration (checks/internal/checkdef and the check packages).
  \<^item> SetaSession, SetaInit, SetaCommands: the commands of internal/cli around the parts: the report files of
    a run (output.go, run.go), the starter config (init.go), and the commands that show checks, validate a
    config, test notifiers, write a baseline or start the daemon. A file system is a map from paths to
    contents, with what may fail as parameters.

  \<^bold>\<open>What the theorems show.\<close> Data and parsing: accepted names, hosts, records and configurations are
  well formed, texts read back (ParseSeverity_iff, ParseDomain_idempotent, ParseHost_String_roundtrip,
  Parse_valid, spf_Parse_wellformed, dmarc_Parse_fields, baseline_New_Apply). Selection and running:
  Match is the glob relation, Select is exact and independent of map order, normalize and runOne are
  exact on every branch, the pool keeps its limits, never deadlocks and gives the same result under
  every schedule. Shared work: one computation per key at a time, no stuck waiter, a transparent
  cache. History: Record refines a tracking automaton per fingerprint, written without the code's definitions, whatever the row
  order, and over any sequence of runs resolves findings in exactly one. Delivery: deliver refines the abstract account of what is
  owed to a channel; secrets are redacted; retries end. Composition: what a daemon's run leaves in the
  database (daemon_run_history), that runs do not overlap (serve_keeps_schedule), that a plan holds
  exactly the allowed checks and a resolver is one that was probed. Mail checks: no findings on a
  domain that does not exist, and two ways in which an answer from outside breaks a check. DNS, TLS and
  HTTP checks: a chain of trust is accepted only with a verified signature per link, a takeover is
  reported exactly for dangling aliases of claimable services, a host named in the configuration is
  skipped only behind a default host of the same name, a request follows at most the permitted redirects, the loop that
  narrows offered protocols and ciphers ends with all weak ones found. Reports: text from outside cannot
  act in Markdown but for tildes, carriage returns and bare links, code spans read back, the parts of a SARIF log refer to each other. Plugins: the first
  of a name wins, what loads is well formed and is registered whole without touching a built-in
  name, and a check run through the protocol is the check itself; start-up registers every built-in and
  plugin check under a name of its own. Commands: a report on disk is complete or absent, the starter config
  is valid, its selectors read back, no file is overwritten unasked, and what config validate counts is
  what a run does.
  Where a theorem shows the code at odds with its purpose, its text says so.

  \<^bold>\<open>Bounds and fuel.\<close> The loop of Match is a \<open>partial_function (option)\<close> proved to return. The SPF walk
  recurses on the levels left (maxDepth = 10, as in the code) and Evaluate_accounts shows that its
  caps hold. Retries recurse on the attempts left. Every other recursion is structural or on a
  measure. Integers are \<^typ>\<open>int\<close> or \<^typ>\<open>nat\<close>; wrap-around is written out where the code can reach it (durations in
  parseDuration, the backoff of a request). The case of non-ASCII letters is not folded, as stated in SetaPrelude.

  \<^bold>\<open>Not modelled, and why.\<close> Sockets, TLS, HTTP, SMTP, SQL execution, the failures of files, the terminal, JSON and YAML
  syntax, X.509: they are the standard library's or third-party code, parameters where the
  program relies on their answer. Logging, and the declaration of commands and flags (cobra). The processes
  of plugins. Test helpers, tools and the example plugin (internal/checktest, internal/tools, integration,
  examples).
\<close>

end
